(* ===== verification/Prelude.thy ===== *)
theory Prelude imports Complex_Main begin

text \<open>
  Shared vocabulary of the development: identifiers, instants, the exceptions the gateway raises
  as values of one datatype, and the generic facts on lists and rounding the components share.

  A Python \<open>UUID\<close> is a natural number, a \<open>str\<close> a \<open>string\<close>, a \<open>datetime\<close> or \<open>timedelta\<close> an integer
  number of microseconds (the resolution of both classes), and a call that can raise returns
  \<open>exn + 'a\<close> with the exception on the left.
\<close>

type_synonym uuid = nat
type_synonym instant = int
type_synonym duration = int

datatype exn =
    ValueError
  | TypeError
  | KeyError
  | RuntimeError
  | AssertionError
  | InvalidOperation
  | LedgerUnavailableError
  | UnsupportedCurrencyError
  | UnknownReservationError
  | UnknownPriceError
  | MissingUsageError
  | MalformedUsageError
  | PriceTableUnavailableError
  | CacheUnavailableError
  | RateLimiterUnavailableError
  | PolicyEngineUnavailableError
  | ProviderCatalogUnavailableError
  | RoutingIntegrityError
  | RoutingTransportError
  | AuditSinkUnavailableError
  | TokenInvalidError
  | TokenExpiredError
  | RefreshReuseError
  | CredentialInvalidError
  | SessionRevokedError
  | OidcStateInvalidError
  | OidcIdentityError
  | OidcExchangeError
  | IdTokenVerificationError
  | ManifestError
  | McpTransportError
  | SecretNotFoundError
  | JwksFetchError
  | InvalidStateError
  | OtherException string

type_synonym 'a res = "exn + 'a"

abbreviation second :: duration where
  "second \<equiv> 1000000"

subsection \<open>Tables: rows selected and updated by a predicate\<close>

definition update_where :: "('r \<Rightarrow> bool) \<Rightarrow> ('r \<Rightarrow> 'r) \<Rightarrow> 'r list \<Rightarrow> 'r list" where
  "update_where p f rows = map (\<lambda>r. if p r then f r else r) rows"

lemma update_where_Nil [simp]: "update_where p f [] = []"
  by (simp add: update_where_def)

lemma update_where_Cons [simp]:
  "update_where p f (r # rows) = (if p r then f r else r) # update_where p f rows"
  by (simp add: update_where_def)

lemma update_where_none: "(\<forall>r\<in>set rows. \<not> p r) \<Longrightarrow> update_where p f rows = rows"
  by (induction rows) auto

lemma map_update_where:
  "(\<And>r. g (f r) = g r) \<Longrightarrow> map g (update_where p f rows) = map g rows"
  by (induction rows) auto

lemma set_update_whereE:
  assumes "x \<in> set (update_where p f rows)"
  obtains r where "r \<in> set rows" "p r" "x = f r" | "x \<in> set rows" "\<not> p x"
  using assms by (induction rows) (auto split: if_splits)

lemma update_where_other:
  "(\<And>r. q r \<Longrightarrow> \<not> p r) \<Longrightarrow> (\<And>r. p r \<Longrightarrow> \<not> q (f r)) \<Longrightarrow>
     filter q (update_where p f rows) = filter q rows"
  by (induction rows) auto

lemma find_update_where_other:
  "(\<And>r. q r \<Longrightarrow> \<not> p r) \<Longrightarrow> (\<And>r. p r \<Longrightarrow> \<not> q (f r)) \<Longrightarrow>
     find q (update_where p f rows) = find q rows"
  by (induction rows) auto

lemma find_update_where_hit:
  "(\<And>r. p r \<longleftrightarrow> q r) \<Longrightarrow> (\<And>r. q r \<Longrightarrow> q (f r)) \<Longrightarrow>
     find q (update_where p f rows) = map_option f (find q rows)"
  by (induction rows) auto

lemma find_update_where_key:
  "(\<And>r. q (f r) = q r) \<Longrightarrow>
     find q (update_where p f rows) = map_option (\<lambda>r. if p r then f r else r) (find q rows)"
  by (induction rows) auto

lemma find_SomeD: "find p xs = Some x \<Longrightarrow> x \<in> set xs \<and> p x"
  by (induction xs) (auto split: if_splits)

lemma find_NoneD: "find p xs = None \<Longrightarrow> x \<in> set xs \<Longrightarrow> \<not> p x"
  by (induction xs) (auto split: if_splits)

lemma find_append:
  "find p (xs @ ys) = (case find p xs of None \<Rightarrow> find p ys | Some x \<Rightarrow> Some x)"
  by (induction xs) auto

subsection \<open>Sums over the rows that satisfy a predicate\<close>

definition sum_where :: "('r \<Rightarrow> bool) \<Rightarrow> ('r \<Rightarrow> int) \<Rightarrow> 'r list \<Rightarrow> int" where
  "sum_where p f rows = sum_list (map f (filter p rows))"

lemma sum_where_Nil [simp]: "sum_where p f [] = 0"
  by (simp add: sum_where_def)

lemma sum_where_Cons [simp]:
  "sum_where p f (r # rows) = (if p r then f r else 0) + sum_where p f rows"
  by (simp add: sum_where_def)

lemma sum_where_append [simp]:
  "sum_where p f (xs @ ys) = sum_where p f xs + sum_where p f ys"
  by (simp add: sum_where_def)

lemma sum_where_none: "(\<And>r. r \<in> set rows \<Longrightarrow> \<not> p r) \<Longrightarrow> sum_where p f rows = 0"
  by (induction rows) auto

lemma sum_where_nonneg: "(\<And>r. r \<in> set rows \<Longrightarrow> p r \<Longrightarrow> 0 \<le> f r) \<Longrightarrow> 0 \<le> sum_where p f rows"
  by (induction rows) auto

lemma sum_where_mono:
  "(\<And>r. r \<in> set rows \<Longrightarrow> p r \<Longrightarrow> q r) \<Longrightarrow> (\<And>r. r \<in> set rows \<Longrightarrow> q r \<Longrightarrow> 0 \<le> f r) \<Longrightarrow>
     sum_where p f rows \<le> sum_where q f rows"
  by (induction rows) (auto intro: add_mono add_increasing)

lemma sum_where_update_other:
  "(\<And>r. u r \<Longrightarrow> \<not> p r \<and> \<not> p (g r)) \<Longrightarrow> sum_where p f (update_where u g rows) = sum_where p f rows"
  by (induction rows) auto

lemma sum_where_update_same:
  "(\<And>r. u r \<Longrightarrow> p (g r) = p r \<and> f (g r) = f r) \<Longrightarrow>
     sum_where p f (update_where u g rows) = sum_where p f rows"
  by (induction rows) auto

text \<open>Removing rows from the summed set lowers the sum by what they contributed.\<close>

lemma sum_where_update_drop:
  "(\<And>r. u r \<Longrightarrow> \<not> p (g r)) \<Longrightarrow>
     sum_where p f (update_where u g rows) =
       sum_where p f rows - sum_where (\<lambda>r. p r \<and> u r) f rows"
  by (induction rows) auto

text \<open>At most one row has a given key, so a sum over that key is the row found there.\<close>

lemma sum_where_unique:
  assumes "distinct (map k rows)" and "find (\<lambda>r. k r = x) rows = Some r" and "p r"
  shows "sum_where (\<lambda>r. p r \<and> k r = x) f rows = f r"
  using assms
proof (induction rows)
  case Nil
  then show ?case by simp
next
  case (Cons a rows)
  show ?case
  proof (cases "k a = x")
    case True
    with Cons.prems have "a = r" and "x \<notin> k ` set rows" by auto
    then have "\<forall>b\<in>set rows. \<not> (p b \<and> k b = x)" by auto
    then have "sum_where (\<lambda>r. p r \<and> k r = x) f rows = 0"
      by (induction rows) auto
    with True \<open>a = r\<close> Cons.prems show ?thesis by simp
  next
    case False
    with Cons show ?thesis by simp
  qed
qed

text \<open>Updating the one row with a given key changes a sum by that row's contribution alone.\<close>

lemma sum_where_update_key:
  assumes "distinct (map k rows)" and "find (\<lambda>r. k r = x) rows = Some r"
  shows "sum_where p f (update_where (\<lambda>r. k r = x) g rows) =
           sum_where p f rows - (if p r then f r else 0) + (if p (g r) then f (g r) else 0)"
  using assms
proof (induction rows)
  case Nil
  then show ?case by simp
next
  case (Cons a rows)
  show ?case
  proof (cases "k a = x")
    case True
    with Cons.prems have "a = r" and "x \<notin> k ` set rows" by auto
    moreover from this have "update_where (\<lambda>r. k r = x) g rows = rows"
      by (intro update_where_none) auto
    ultimately show ?thesis using True by simp
  next
    case False
    with Cons show ?thesis by simp
  qed
qed

lemma ball_update_where:
  "(\<forall>r\<in>set rows. p r \<longrightarrow> q (f r)) \<Longrightarrow> (\<forall>r\<in>set rows. \<not> p r \<longrightarrow> q r) \<Longrightarrow>
     \<forall>r\<in>set (update_where p f rows). q r"
  by (induction rows) auto

lemma list_all_filter_updated:
  "list_all q (filter p (update_where p f rows)) \<Longrightarrow> (\<And>r. p r \<Longrightarrow> p (f r)) \<Longrightarrow>
     \<forall>r\<in>set rows. p r \<longrightarrow> q (f r)"
  by (induction rows) (auto split: if_splits)

lemma sum_where_key_absent:
  "find (\<lambda>r. k r = x) rows = None \<Longrightarrow> sum_where (\<lambda>r. p r \<and> k r = x) f rows = 0"
  by (induction rows) (auto split: if_splits)

lemma distinct_keys_single:
  "distinct (map k rows) \<Longrightarrow> x \<in> k ` set rows \<Longrightarrow> length (filter (\<lambda>r. k r = x) rows) = 1"
proof (induction rows)
  case (Cons a rows)
  show ?case
  proof (cases "k a = x")
    case True
    with Cons.prems have "filter (\<lambda>r. k r = x) rows = []"
      by (auto simp: filter_empty_conv) (metis image_eqI)
    with True show ?thesis by simp
  next
    case False
    with Cons show ?thesis by auto
  qed
qed simp

lemma distinct_keys_find:
  "distinct (map k rows) \<Longrightarrow> r \<in> set rows \<Longrightarrow> find (\<lambda>r'. k r' = k r) rows = Some r"
  by (induction rows) (auto simp: rev_image_eqI)

subsection \<open>Rounding\<close>

text \<open>Division by a positive \<open>m\<close> to the nearest integer, ties to the even neighbour.\<close>

definition round_half_even :: "int \<Rightarrow> int \<Rightarrow> int" where
  "round_half_even c m =
     (let q = c div m; r = c mod m in
      if 2 * r < m then q else if m < 2 * r then q + 1 else if even q then q else q + 1)"

lemma round_half_even_exact [simp]: "0 < m \<Longrightarrow> round_half_even (c * m) m = c"
  by (simp add: round_half_even_def)

lemma round_half_even_one [simp]: "round_half_even c 1 = c"
  by (simp add: round_half_even_def)

lemma round_half_even_nonneg: "0 \<le> c \<Longrightarrow> 0 < m \<Longrightarrow> 0 \<le> round_half_even c m"
  by (auto simp: round_half_even_def Let_def pos_imp_zdiv_nonneg_iff
      intro: add_nonneg_nonneg)

lemma round_half_even_error:
  assumes "0 < m"
  shows "2 * abs (round_half_even c m * m - c) \<le> m"
proof -
  have c: "c = m * (c div m) + c mod m" by simp
  have r: "0 \<le> c mod m" "c mod m < m" using assms by auto
  have q: "(c div m + 1) * m = m * (c div m) + m" "(c div m) * m = m * (c div m)"
    by (simp_all add: algebra_simps)
  consider "round_half_even c m = c div m" "2 * (c mod m) \<le> m"
    | "round_half_even c m = c div m + 1" "m \<le> 2 * (c mod m)"
    unfolding round_half_even_def Let_def by (cases "2 * (c mod m)" m rule: linorder_cases; cases "even (c div m)") auto
  then show ?thesis
  proof cases
    case 1
    have "round_half_even c m * m - c = - (c mod m)"
      unfolding 1(1) using c q(2) by linarith
    with 1 r show ?thesis by simp
  next
    case 2
    have "round_half_even c m * m - c = m - c mod m"
      unfolding 2(1) using c q(1) by linarith
    with 2 r show ?thesis by simp
  qed
qed

end
