(* ===== verification/Json_Value.thy ===== *)
theory Json_Value
  imports Prelude "HOL-Library.Char_ord" "HOL-Library.List_Lexorder" "HOL-Library.Multiset"
begin

text \<open>
  The values a request payload is made of, and the two renderings the gateway takes of them:
  \<open>str(dict(payload))\<close> (the size the cost estimator measures) and
  \<open>json.dumps(..., sort_keys=True, separators=(",", ":"), ensure_ascii=True)\<close> (the text the cache
  key and the policy limit are computed from). A character stands for the code point of its number,
  so the model covers Latin-1 text exactly; a float is carried as the text Python prints for it.
\<close>

datatype json =
    JNull
  | JBool bool
  | JInt int
  | JFloat string
  | JStr string
  | JList "json list"
  | JObj "(string \<times> json) list"

type_synonym payload = "(string \<times> json) list"

fun digits_of :: "nat \<Rightarrow> string" where
  "digits_of n = (if n < 10 then [char_of (48 + n)] else digits_of (n div 10) @ [char_of (48 + n mod 10)])"

declare digits_of.simps [simp del]

definition str_int :: "int \<Rightarrow> string" where
  "str_int i = (if i < 0 then CHR ''-'' # digits_of (nat (- i)) else digits_of (nat i))"

definition hex_digit :: "nat \<Rightarrow> char" where
  "hex_digit d = (if d < 10 then char_of (48 + d) else char_of (87 + d))"

fun join :: "string \<Rightarrow> string list \<Rightarrow> string" where
  "join sep [] = []"
| "join sep [s] = s"
| "join sep (s # t # ss) = s @ sep @ join sep (t # ss)"

subsection \<open>repr, as str(dict) prints it\<close>

definition repr_char :: "char \<Rightarrow> char \<Rightarrow> string" where
  "repr_char q c =
     (let n = of_char c :: nat in
      if c = q \<or> n = 92 then [char_of (92 :: nat), c]
      else if n = 9 then [char_of (92 :: nat), CHR ''t'']
      else if n = 10 then [char_of (92 :: nat), CHR ''n'']
      else if n = 13 then [char_of (92 :: nat), CHR ''r'']
      else if n < 32 \<or> (127 \<le> n \<and> n \<le> 160) \<or> n = 173
        then [char_of (92 :: nat), CHR ''x'', hex_digit (n div 16), hex_digit (n mod 16)]
      else [c])"

definition repr_str :: "string \<Rightarrow> string" where
  "repr_str s =
     (let q = (if char_of (39 :: nat) \<in> set s \<and> char_of (34 :: nat) \<notin> set s
               then char_of (34 :: nat) else char_of (39 :: nat))
      in q # concat (map (repr_char q) s) @ [q])"

fun py_repr :: "json \<Rightarrow> string" and py_reprs :: "json list \<Rightarrow> string list"
  and py_fields :: "(string \<times> json) list \<Rightarrow> string list" where
  "py_repr JNull = ''None''"
| "py_repr (JBool b) = (if b then ''True'' else ''False'')"
| "py_repr (JInt i) = str_int i"
| "py_repr (JFloat s) = s"
| "py_repr (JStr s) = repr_str s"
| "py_repr (JList xs) = ''['' @ join '', '' (py_reprs xs) @ '']''"
| "py_repr (JObj fs) = ''{'' @ join '', '' (py_fields fs) @ ''}''"
| "py_reprs [] = []"
| "py_reprs (x # xs) = py_repr x # py_reprs xs"
| "py_fields [] = []"
| "py_fields ((k, v) # fs) = (repr_str k @ '': '' @ py_repr v) # py_fields fs"

subsection \<open>json.dumps with sorted keys and compact separators\<close>

definition dumps_char :: "char \<Rightarrow> string" where
  "dumps_char c =
     (let n = of_char c :: nat; b = char_of (92 :: nat) in
      if n = 34 then [b, c]
      else if n = 92 then [b, c]
      else if n = 8 then [b, CHR ''b'']
      else if n = 9 then [b, CHR ''t'']
      else if n = 10 then [b, CHR ''n'']
      else if n = 12 then [b, CHR ''f'']
      else if n = 13 then [b, CHR ''r'']
      else if n < 32 \<or> 128 \<le> n
        then [b, CHR ''u'', CHR ''0'', CHR ''0'', hex_digit (n div 16), hex_digit (n mod 16)]
      else [c])"

definition dumps_str :: "string \<Rightarrow> string" where
  "dumps_str s = char_of (34 :: nat) # concat (map dumps_char s) @ [char_of (34 :: nat)]"

text \<open>\<open>sort_keys=True\<close> sorts the items of every object by key, code point by code point.\<close>

fun sort_keys :: "json \<Rightarrow> json" and sort_keys_list :: "json list \<Rightarrow> json list"
  and sort_keys_fields :: "(string \<times> json) list \<Rightarrow> (string \<times> json) list" where
  "sort_keys (JList xs) = JList (sort_keys_list xs)"
| "sort_keys (JObj fs) = JObj (sort_key fst (sort_keys_fields fs))"
| "sort_keys v = v"
| "sort_keys_list [] = []"
| "sort_keys_list (x # xs) = sort_keys x # sort_keys_list xs"
| "sort_keys_fields [] = []"
| "sort_keys_fields ((k, v) # fs) = (k, sort_keys v) # sort_keys_fields fs"

fun dumps_sorted :: "json \<Rightarrow> string" and dumps_list :: "json list \<Rightarrow> string list"
  and dumps_fields :: "(string \<times> json) list \<Rightarrow> string list" where
  "dumps_sorted JNull = ''null''"
| "dumps_sorted (JBool b) = (if b then ''true'' else ''false'')"
| "dumps_sorted (JInt i) = str_int i"
| "dumps_sorted (JFloat s) = s"
| "dumps_sorted (JStr s) = dumps_str s"
| "dumps_sorted (JList xs) = ''['' @ join '','' (dumps_list xs) @ '']''"
| "dumps_sorted (JObj fs) = ''{'' @ join '','' (dumps_fields fs) @ ''}''"
| "dumps_list [] = []"
| "dumps_list (x # xs) = dumps_sorted x # dumps_list xs"
| "dumps_fields [] = []"
| "dumps_fields ((k, v) # fs) = (dumps_str k @ '':'' @ dumps_sorted v) # dumps_fields fs"

definition dumps :: "json \<Rightarrow> string" where
  "dumps v = dumps_sorted (sort_keys v)"

subsection \<open>Key order does not reach the canonical text\<close>

lemma sort_keys_fields_map: "sort_keys_fields fs = map (\<lambda>(k, v). (k, sort_keys v)) fs"
  by (induction fs) auto

lemma dumps_key_order:
  assumes "mset fs = mset gs" and "distinct (map fst fs)"
  shows "dumps (JObj fs) = dumps (JObj gs)"
proof -
  let ?f = "sort_keys_fields fs" and ?g = "sort_keys_fields gs"
  have keys: "map fst ?f = map fst fs"
    by (simp add: sort_keys_fields_map case_prod_beta)
  have m: "mset ?f = mset ?g"
    using assms(1) by (simp add: sort_keys_fields_map)
  have "inj_on fst (set ?f)"
    using assms(2) keys by (metis distinct_map)
  then have "sort_key fst ?f = sort_key fst ?g"
    by (intro sort_key_inj_key_eq) (use m in auto)
  then show ?thesis by (simp add: dumps_def)
qed

lemma repr_str_nonempty: "repr_str s \<noteq> []"
  by (simp add: repr_str_def Let_def)

lemma py_repr_obj_length: "2 \<le> length (py_repr (JObj fs))"
  by simp

end
