(* ===== verification/Money.thy ===== *)
theory Money imports Json_Value begin

text \<open>
  Money and the Decimal arithmetic under it (\<open>application/ports/money.py\<close>), the value types of a
  provider call (\<open>application/ports/providers.py\<close>), the usage estimate
  (\<open>application/accounting/estimator.py\<close>) and cost computation
  (\<open>application/accounting/cost_accountant.py\<close>).

  A \<open>Decimal\<close> is a coefficient and an exponent, \<open>coef * 10 ^ expo\<close>. Every arithmetic operation of
  Python's default context rounds its exact result half-even to 28 significant digits
  (\<open>dec_fix\<close>); \<open>quantize\<close> is exact to the requested exponent and raises \<open>InvalidOperation\<close> when
  the result would need more than 28 digits. Infinities, NaNs and the exponent limits of the
  context are left out.
\<close>

subsection \<open>Decimal in the default context\<close>

datatype decimal = Dec (coef: int) (expo: int)

definition dec_prec :: int where
  "dec_prec = 10 ^ 28"

fun dec_excess :: "nat \<Rightarrow> nat" where
  "dec_excess n = (if n < 10 ^ 28 then 0 else Suc (dec_excess (n div 10)))"

declare dec_excess.simps [simp del]

fun dec_fix :: "decimal \<Rightarrow> decimal" where
  "dec_fix (Dec c e) =
     (let k = dec_excess (nat (abs c)); c' = round_half_even c (10 ^ k) in
      if k = 0 then Dec c e
      else if dec_prec \<le> abs c' then Dec (c' div 10) (e + int k + 1)
      else Dec c' (e + int k))"

fun dec_add :: "decimal \<Rightarrow> decimal \<Rightarrow> decimal" where
  "dec_add (Dec a e) (Dec b f) =
     (let m = min e f in
      dec_fix (Dec (a * 10 ^ nat (e - m) + b * 10 ^ nat (f - m)) m))"

fun dec_neg :: "decimal \<Rightarrow> decimal" where
  "dec_neg (Dec a e) = Dec (- a) e"

definition dec_sub :: "decimal \<Rightarrow> decimal \<Rightarrow> decimal" where
  "dec_sub x y = dec_add x (dec_neg y)"

fun dec_mul :: "decimal \<Rightarrow> decimal \<Rightarrow> decimal" where
  "dec_mul (Dec a e) (Dec b f) = dec_fix (Dec (a * b) (e + f))"

text \<open>\<open>Decimal(n) / Decimal(1000)\<close>: the exact quotient is \<open>n * 10 ^ -3\<close>.\<close>

definition per_thousand :: "int \<Rightarrow> decimal" where
  "per_thousand n = dec_fix (Dec n (-3))"

text \<open>Comparison is exact on the values, whatever the exponents.\<close>

fun dec_less :: "decimal \<Rightarrow> decimal \<Rightarrow> bool" where
  "dec_less (Dec a e) (Dec b f) \<longleftrightarrow>
     (let m = min e f in a * 10 ^ nat (e - m) < b * 10 ^ nat (f - m))"

fun dec_quantize8 :: "decimal \<Rightarrow> decimal option" where
  "dec_quantize8 (Dec c e) =
     (let q = (if -8 \<le> e then c * 10 ^ nat (e + 8) else round_half_even c (10 ^ nat (-8 - e)))
      in if dec_prec \<le> abs q then None else Some (Dec q (-8)))"

definition dec_zero :: decimal where
  "dec_zero = Dec 0 0"

fun dec_value :: "decimal \<Rightarrow> rat" where
  "dec_value (Dec c e) = of_int c * 10 powi e"

subsubsection \<open>Inside 28 digits the arithmetic is exact\<close>

lemma dec_excess_0 [simp]: "n < 10 ^ 28 \<Longrightarrow> dec_excess n = 0"
  by (subst dec_excess.simps) simp

lemma dec_fix_exact: "abs c < dec_prec \<Longrightarrow> dec_fix (Dec c e) = Dec c e"
proof -
  assume "abs c < dec_prec"
  then have "nat (abs c) < 10 ^ 28"
    by (simp add: dec_prec_def nat_less_iff)
  then show ?thesis by simp
qed

lemma dec_add_exact:
  "abs (a + b) < dec_prec \<Longrightarrow> dec_add (Dec a e) (Dec b e) = Dec (a + b) e"
  by (simp add: dec_fix_exact del: dec_fix.simps)

lemma dec_sub_exact:
  "abs (a - b) < dec_prec \<Longrightarrow> dec_sub (Dec a e) (Dec b e) = Dec (a - b) e"
  by (simp add: dec_sub_def dec_fix_exact del: dec_fix.simps)

lemma dec_mul_exact:
  "abs (a * b) < dec_prec \<Longrightarrow> dec_mul (Dec a e) (Dec b f) = Dec (a * b) (e + f)"
  by (simp add: dec_fix_exact del: dec_fix.simps)

lemma dec_less_same [simp]: "dec_less (Dec a e) (Dec b e) \<longleftrightarrow> a < b"
  by simp

lemma dec_value_scale:
  assumes "m \<le> e"
  shows "dec_value (Dec c e) = of_int (c * 10 ^ nat (e - m)) * 10 powi m"
proof -
  have "(10 :: rat) powi e = 10 powi ((e - m) + m)" by simp
  also have "\<dots> = 10 ^ nat (e - m) * 10 powi m"
    using assms by (subst power_int_add) (simp_all add: power_int_def)
  finally show ?thesis by (simp only: dec_value.simps of_int_mult of_int_power of_int_numeral mult.assoc)
qed

lemma dec_less_value: "dec_less x y \<longleftrightarrow> dec_value x < dec_value y"
proof (cases x; cases y)
  fix a e b f assume xy: "x = Dec a e" "y = Dec b f"
  define m where "m = min e f"
  have "m \<le> e" "m \<le> f" by (simp_all add: m_def)
  then have "dec_value x < dec_value y \<longleftrightarrow>
      (of_int (a * 10 ^ nat (e - m)) * 10 powi m :: rat) < of_int (b * 10 ^ nat (f - m)) * 10 powi m"
    unfolding xy by (simp only: dec_value_scale)
  also have "\<dots> \<longleftrightarrow> a * 10 ^ nat (e - m) < b * 10 ^ nat (f - m)"
    using zero_less_power_int [of "10 :: rat" m]
    by (simp add: mult_less_cancel_right_pos del: of_int_mult of_int_power)
  finally show ?thesis by (simp add: xy m_def Let_def)
qed

lemma dec_fix_sign:
  assumes "0 \<le> c"
  shows "0 \<le> coef (dec_fix (Dec c e))"
proof -
  have "0 \<le> round_half_even c (10 ^ k)" for k
    using assms by (simp add: round_half_even_nonneg)
  with assms show ?thesis by (simp add: Let_def pos_imp_zdiv_nonneg_iff)
qed

lemma dec_quantize8_expo: "dec_quantize8 d = Some q \<Longrightarrow> expo q = -8 \<and> abs (coef q) < dec_prec"
  by (cases d) (auto simp: Let_def split: if_splits)

lemma dec_quantize8_grid [simp]:
  "dec_quantize8 (Dec c (-8)) = (if dec_prec \<le> abs c then None else Some (Dec c (-8)))"
  by simp

lemma dec_quantize8_nonneg:
  assumes "dec_quantize8 (Dec c e) = Some q" and "0 \<le> c"
  shows "0 \<le> coef q"
  using assms by (auto simp: Let_def round_half_even_nonneg split: if_splits)

subsection \<open>Money\<close>

record money =
  amount :: decimal
  currency :: string

text \<open>\<open>len == 3\<close>, \<open>isupper()\<close> and \<open>isalpha()\<close>, over the ASCII letters.\<close>

definition currency_ok :: "string \<Rightarrow> bool" where
  "currency_ok c \<longleftrightarrow> length c = 3 \<and> list_all (\<lambda>ch. 65 \<le> (of_char ch :: nat) \<and> (of_char ch :: nat) \<le> 90) c"

definition money_new :: "decimal \<Rightarrow> string \<Rightarrow> money res" where
  "money_new a c = (if currency_ok c then Inr \<lparr>amount = a, currency = c\<rparr> else Inl ValueError)"

definition money_add :: "money \<Rightarrow> money \<Rightarrow> money res" where
  "money_add m n =
     (if currency n \<noteq> currency m then Inl ValueError
      else money_new (dec_add (amount m) (amount n)) (currency m))"

definition quantize :: "money \<Rightarrow> money res" where
  "quantize m =
     (case dec_quantize8 (amount m) of
        None \<Rightarrow> Inl InvalidOperation
      | Some r \<Rightarrow> money_new r (currency m))"

subsection \<open>The values of a provider call\<close>

record inference_request =
  correlation_id :: string
  payload :: payload

record provider_usage =
  prompt_tokens :: int
  completion_tokens :: int

definition total_tokens :: "provider_usage \<Rightarrow> int" where
  "total_tokens u = prompt_tokens u + completion_tokens u"

datatype provider_error_category =
    TIMEOUT | RATE_LIMITED | SERVER_ERROR | INVALID_REQUEST | AUTHENTICATION

definition transient_provider_error :: "provider_error_category option \<Rightarrow> bool" where
  "transient_provider_error c \<longleftrightarrow> c \<in> {Some TIMEOUT, Some RATE_LIMITED, Some SERVER_ERROR}"

record provider_response =
  resp_ok :: bool
  resp_content :: json
  resp_error :: "string option"
  resp_provider :: string
  resp_usage :: "provider_usage option"
  resp_category :: "provider_error_category option"

record provider_descriptor =
  prov_name :: string
  prov_model :: string
  prov_region :: string

record model_price =
  price_provider :: string
  price_model :: string
  input_price_per_1k :: decimal
  output_price_per_1k :: decimal
  price_currency :: string

subsection \<open>Usage estimate before the call\<close>

definition chars_per_token :: int where
  "chars_per_token = 4"

definition estimate_usage :: "inference_request \<Rightarrow> provider_usage" where
  "estimate_usage req =
     (let chars = int (length (py_repr (JObj (payload req))));
          n = max 1 (chars div chars_per_token)
      in \<lparr>prompt_tokens = n, completion_tokens = n\<rparr>)"

lemma estimate_usage_positive:
  "1 \<le> prompt_tokens (estimate_usage req) \<and> 1 \<le> completion_tokens (estimate_usage req)"
  by (simp add: estimate_usage_def Let_def)

subsection \<open>Cost from usage and price\<close>

definition compute_cost :: "provider_usage \<Rightarrow> model_price \<Rightarrow> (money \<times> money \<times> money) res" where
  "compute_cost u p =
     (case money_new (dec_mul (per_thousand (prompt_tokens u)) (input_price_per_1k p)) (price_currency p) of
        Inl e \<Rightarrow> Inl e
      | Inr i0 \<Rightarrow> (case quantize i0 of
        Inl e \<Rightarrow> Inl e
      | Inr input_cost \<Rightarrow>
          (case money_new (dec_mul (per_thousand (completion_tokens u)) (output_price_per_1k p)) (price_currency p) of
             Inl e \<Rightarrow> Inl e
           | Inr o0 \<Rightarrow> (case quantize o0 of
             Inl e \<Rightarrow> Inl e
           | Inr output_cost \<Rightarrow>
               (case money_add input_cost output_cost of
                  Inl e \<Rightarrow> Inl e
                | Inr t0 \<Rightarrow> (case quantize t0 of
                  Inl e \<Rightarrow> Inl e
                | Inr total_cost \<Rightarrow> Inr (input_cost, output_cost, total_cost)))))))"

record cost_record =
  cr_organization :: uuid
  cr_correlation :: string
  cr_provider :: string
  cr_model :: string
  cr_usage :: provider_usage
  cr_input_cost :: money
  cr_output_cost :: money
  cr_total_cost :: money

text \<open>
  \<open>PricingPort.price_for\<close> as an argument: the tenant, the provider and the model in, a price, no
  price, or the exception of a price store that cannot answer out.
\<close>

type_synonym pricing = "uuid \<Rightarrow> string \<Rightarrow> string \<Rightarrow> model_price option res"

definition account :: "pricing \<Rightarrow> provider_response \<Rightarrow> provider_descriptor \<Rightarrow> uuid \<Rightarrow> string \<Rightarrow> cost_record res" where
  "account price_for response provider org cid =
     (case resp_usage response of
        None \<Rightarrow> Inl MissingUsageError
      | Some usage \<Rightarrow>
          if prompt_tokens usage < 0 \<or> completion_tokens usage < 0 then Inl MalformedUsageError
          else (case price_for org (prov_name provider) (prov_model provider) of
             Inl e \<Rightarrow> Inl e
           | Inr None \<Rightarrow> Inl UnknownPriceError
           | Inr (Some price) \<Rightarrow>
               (case compute_cost usage price of
                  Inl e \<Rightarrow> Inl e
                | Inr (ic, oc, tc) \<Rightarrow>
                    Inr \<lparr>cr_organization = org, cr_correlation = cid,
                         cr_provider = prov_name provider, cr_model = prov_model provider,
                         cr_usage = usage, cr_input_cost = ic, cr_output_cost = oc,
                         cr_total_cost = tc\<rparr>)))"

subsection \<open>What cost computation guarantees\<close>

lemma money_new_Inr:
  "money_new a c = Inr m \<longleftrightarrow> currency_ok c \<and> m = \<lparr>amount = a, currency = c\<rparr>"
  by (auto simp: money_new_def)

lemma quantize_Inr:
  "quantize m = Inr q \<longleftrightarrow>
     currency_ok (currency m) \<and>
     (\<exists>d. dec_quantize8 (amount m) = Some d \<and> q = \<lparr>amount = d, currency = currency m\<rparr>)"
  by (auto simp: quantize_def money_new_Inr split: option.splits)

lemma compute_cost_cases:
  assumes "compute_cost u p = Inr (ic, oc, tc)"
  obtains i oo t where
    "dec_quantize8 (dec_mul (per_thousand (prompt_tokens u)) (input_price_per_1k p)) = Some i"
    "dec_quantize8 (dec_mul (per_thousand (completion_tokens u)) (output_price_per_1k p)) = Some oo"
    "dec_quantize8 (dec_add i oo) = Some t"
    "ic = \<lparr>amount = i, currency = price_currency p\<rparr>"
    "oc = \<lparr>amount = oo, currency = price_currency p\<rparr>"
    "tc = \<lparr>amount = t, currency = price_currency p\<rparr>"
  using assms
  by (auto simp: compute_cost_def money_new_Inr quantize_Inr money_add_def
      split: sum.splits if_splits)

lemma dec_excess_pos: "10 ^ 28 \<le> n \<Longrightarrow> 0 < dec_excess n"
  by (subst dec_excess.simps) simp

lemma dec_excess_small:
  assumes "10 ^ 28 \<le> n" and "n < 10 ^ 29"
  shows "dec_excess n = 1"
proof -
  have "n div 10 < 10 ^ 28" using assms(2) by simp
  then show ?thesis using assms(1) by (subst dec_excess.simps) simp
qed

lemma tens_bound:
  fixes r x :: int
  assumes "abs (r * 10 - x) \<le> 5" and "\<not> abs x < 10 ^ 28"
  shows "10 ^ 28 \<le> abs (r * 10)"
proof (rule ccontr)
  assume "\<not> 10 ^ 28 \<le> abs (r * 10)"
  then have "abs r \<le> 10 ^ 27 - 1" by simp
  then have "abs (r * 10) \<le> 10 ^ 28 - 10" by simp
  with assms(1) have "abs x \<le> 10 ^ 28 - 5" by linarith
  with assms(2) show False by simp
qed

text \<open>
  A sum of two quantized amounts that leaves 28 digits cannot be quantized again: the addition
  rounds away the last place and \<open>quantize\<close> refuses the 29th digit.
\<close>

lemma quantize_add_exact:
  assumes "dec_quantize8 (dec_add (Dec a (-8)) (Dec b (-8))) = Some t"
    and "abs a < dec_prec" and "abs b < dec_prec"
  shows "t = Dec (a + b) (-8)"
proof (cases "abs (a + b) < dec_prec")
  case True
  with assms(1) show ?thesis
    by (simp add: dec_add_exact del: dec_add.simps dec_quantize8.simps)
next
  case False
  let ?n = "nat (abs (a + b))"
  have "10 ^ 28 \<le> ?n" "?n < 10 ^ 29"
    using False assms(2,3) by (auto simp: dec_prec_def)
  then have k: "dec_excess ?n = 1" by (rule dec_excess_small)
  let ?r = "round_half_even (a + b) 10"
  have "2 * abs (?r * 10 - (a + b)) \<le> 10"
    using round_half_even_error [of 10 "a + b"] by simp
  with False have big: "dec_prec \<le> abs (?r * 10)"
    using tens_bound [of ?r "a + b"] by (simp add: dec_prec_def)
  have small: "abs ?r < dec_prec"
    using assms(2,3) \<open>2 * abs (?r * 10 - (a + b)) \<le> 10\<close>
    by (simp add: dec_prec_def)
  have "dec_add (Dec a (-8)) (Dec b (-8)) = Dec ?r (-7)"
    using small by (simp add: k Let_def)
  with big assms(1) have False
    by (simp add: dec_prec_def split: if_splits)
  then show ?thesis ..
qed

lemma compute_cost_shape:
  assumes "compute_cost u p = Inr (ic, oc, tc)"
  shows "expo (amount ic) = -8 \<and> expo (amount oc) = -8 \<and>
         amount tc = Dec (coef (amount ic) + coef (amount oc)) (-8) \<and>
         currency ic = price_currency p \<and> currency oc = price_currency p \<and>
         currency tc = price_currency p"
proof -
  from assms obtain i oo t where
    q: "dec_quantize8 (dec_mul (per_thousand (prompt_tokens u)) (input_price_per_1k p)) = Some i"
      "dec_quantize8 (dec_mul (per_thousand (completion_tokens u)) (output_price_per_1k p)) = Some oo"
    and t: "dec_quantize8 (dec_add i oo) = Some t"
    and m: "ic = \<lparr>amount = i, currency = price_currency p\<rparr>"
      "oc = \<lparr>amount = oo, currency = price_currency p\<rparr>"
      "tc = \<lparr>amount = t, currency = price_currency p\<rparr>"
    by (rule compute_cost_cases)
  note b = dec_quantize8_expo [OF q(1)] dec_quantize8_expo [OF q(2)]
  then have "i = Dec (coef i) (-8)" "oo = Dec (coef oo) (-8)"
    by (metis decimal.collapse)+
  with t b have "t = Dec (coef i + coef oo) (-8)"
    by (metis quantize_add_exact)
  with b m show ?thesis by simp
qed

text \<open>Every amount \<open>compute_cost\<close> returns is quantized to eight decimal places in the price's
  currency, and the total is exactly the sum of the input and output cost: the second rounding of
  the total never changes it, because a sum that needed rounding is refused instead.\<close>

theorem compute_cost_total_exact:
  assumes "compute_cost u p = Inr (ic, oc, tc)"
  shows "expo (amount ic) = -8 \<and> expo (amount oc) = -8 \<and>
         amount tc = Dec (coef (amount ic) + coef (amount oc)) (-8) \<and>
         currency ic = price_currency p \<and> currency oc = price_currency p \<and>
         currency tc = price_currency p"
  using assms by (rule compute_cost_shape)

definition sample_usage :: provider_usage where
  "sample_usage = \<lparr>prompt_tokens = 1500, completion_tokens = 333\<rparr>"

definition sample_price :: model_price where
  "sample_price = \<lparr>price_provider = ''acme'', price_model = ''m1'',
     input_price_per_1k = Dec 250000 (-8), output_price_per_1k = Dec 1000001 (-8),
     price_currency = ''USD''\<rparr>"

lemma sample_cost:
  "compute_cost sample_usage sample_price =
     Inr (\<lparr>amount = Dec 375000 (-8), currency = ''USD''\<rparr>,
          \<lparr>amount = Dec 333000 (-8), currency = ''USD''\<rparr>,
          \<lparr>amount = Dec 708000 (-8), currency = ''USD''\<rparr>)"
  by (simp add: compute_cost_def sample_usage_def sample_price_def money_new_def currency_ok_def
      per_thousand_def quantize_def money_add_def round_half_even_def dec_prec_def)

theorem compute_cost_total_exact_witness:
  "compute_cost sample_usage sample_price =
     Inr (\<lparr>amount = Dec 375000 (-8), currency = ''USD''\<rparr>,
          \<lparr>amount = Dec 333000 (-8), currency = ''USD''\<rparr>,
          \<lparr>amount = Dec 708000 (-8), currency = ''USD''\<rparr>) \<and>
   amount \<lparr>amount = Dec 708000 (-8), currency = ''USD''\<rparr> = Dec (375000 + 333000) (-8)"
  using sample_cost compute_cost_total_exact [OF sample_cost] by simp

text \<open>For a price of the \<open>numeric(18,8)\<close> table and any non-negative usage whose products stay
  inside 28 digits, the input cost is the exact quotient \<open>tokens * price / 1000\<close> rounded half-even
  to the eighth place, so it is off by at most half a unit of that place.\<close>

theorem compute_cost_input_accurate:
  assumes "compute_cost u p = Inr (ic, oc, tc)"
    and "input_price_per_1k p = Dec a (-8)"
    and "abs (prompt_tokens u) < dec_prec" and "abs (prompt_tokens u * a) < dec_prec"
  shows "coef (amount ic) = round_half_even (prompt_tokens u * a) 1000 \<and>
         2 * abs (1000 * coef (amount ic) - prompt_tokens u * a) \<le> 1000"
proof -
  let ?n = "prompt_tokens u"
  from assms(1) obtain i where
    i: "dec_quantize8 (dec_mul (per_thousand ?n) (input_price_per_1k p)) = Some i"
    and ic: "amount ic = i"
    by (rule compute_cost_cases) auto
  have "dec_mul (per_thousand ?n) (input_price_per_1k p) = Dec (?n * a) (-11)"
    using assms(2-4) by (simp add: per_thousand_def dec_fix_exact del: dec_fix.simps)
  with i have "coef i = round_half_even (?n * a) 1000"
    by (auto simp: Let_def split: if_splits)
  with ic round_half_even_error [of 1000 "?n * a"] show ?thesis
    by (simp add: mult.commute)
qed

theorem compute_cost_input_accurate_witness:
  "coef (amount \<lparr>amount = Dec 375000 (-8), currency = ''USD''\<rparr>) =
     round_half_even (prompt_tokens sample_usage * 250000) 1000"
  using compute_cost_input_accurate [OF sample_cost, of 250000]
  by (simp add: sample_price_def sample_usage_def dec_prec_def)

lemma dec_mul_nonneg: "0 \<le> coef x \<Longrightarrow> 0 \<le> coef y \<Longrightarrow> 0 \<le> coef (dec_mul x y)"
  by (cases x; cases y) (simp add: dec_fix_sign del: dec_fix.simps)

lemma compute_cost_nonneg:
  assumes "compute_cost u p = Inr (ic, oc, tc)"
    and "0 \<le> prompt_tokens u" "0 \<le> completion_tokens u"
    and "0 \<le> coef (input_price_per_1k p)" "0 \<le> coef (output_price_per_1k p)"
  shows "0 \<le> coef (amount ic) \<and> 0 \<le> coef (amount oc) \<and> 0 \<le> coef (amount tc)"
proof -
  from assms(1) obtain i oo where
    q: "dec_quantize8 (dec_mul (per_thousand (prompt_tokens u)) (input_price_per_1k p)) = Some i"
      "dec_quantize8 (dec_mul (per_thousand (completion_tokens u)) (output_price_per_1k p)) = Some oo"
    and m: "amount ic = i" "amount oc = oo"
    by (rule compute_cost_cases) auto
  have "0 \<le> coef (per_thousand (prompt_tokens u))" "0 \<le> coef (per_thousand (completion_tokens u))"
    using assms(2,3) by (simp_all add: per_thousand_def dec_fix_sign del: dec_fix.simps)
  with assms(4,5) have "0 \<le> coef i" "0 \<le> coef oo"
    using q by (metis dec_mul_nonneg dec_quantize8_nonneg decimal.collapse)+
  with m compute_cost_shape [OF assms(1)] show ?thesis by simp
qed

end
