(* ===== verification/Ledger_Port.thy ===== *)
theory Ledger_Port imports Money begin

text \<open>
  The budget ledger's port (\<open>application/ports/ledger.py\<close>): the outcome vocabulary, the values that
  cross it, and the port itself as a record of operations over a store of any type. Time enters as
  an argument, because both implementations stamp a hold when they take it.
\<close>

datatype reservation_outcome = RESERVED | EXCEEDED | UNAVAILABLE

definition outcome_value :: "reservation_outcome \<Rightarrow> string" where
  "outcome_value oc =
     (case oc of RESERVED \<Rightarrow> ''reserved'' | EXCEEDED \<Rightarrow> ''exceeded'' | UNAVAILABLE \<Rightarrow> ''unavailable'')"

record settlement_detail =
  sd_provider :: string
  sd_model :: string
  sd_prompt :: int
  sd_completion :: int
  sd_input :: money
  sd_output :: money
  sd_total :: money

record reservation_result =
  rs_outcome :: reservation_outcome
  rs_organization :: uuid
  rs_correlation :: string
  rs_estimated :: money
  rs_remaining :: "money option"

definition permitted :: "reservation_result \<Rightarrow> bool" where
  "permitted r \<longleftrightarrow> rs_outcome r = RESERVED"

record 'l ledger_port =
  lp_reserve :: "uuid \<Rightarrow> string \<Rightarrow> money \<Rightarrow> instant \<Rightarrow> 'l \<Rightarrow> 'l \<times> reservation_result res"
  lp_settle :: "uuid \<Rightarrow> string \<Rightarrow> settlement_detail \<Rightarrow> instant \<Rightarrow> 'l \<Rightarrow> 'l \<times> unit res"
  lp_release :: "uuid \<Rightarrow> string \<Rightarrow> instant \<Rightarrow> 'l \<Rightarrow> 'l \<times> unit res"
  lp_reconcile :: "uuid \<Rightarrow> instant \<Rightarrow> instant \<Rightarrow> 'l \<Rightarrow> 'l \<times> nat res"

text \<open>The state of a reservation row or record, in the words of the \<open>reservation_status\<close> enum.\<close>

datatype reservation_status = Reserved | Committed | Released | Expired

definition replayable :: "reservation_status \<Rightarrow> bool" where
  "replayable s \<longleftrightarrow> s \<notin> {Released, Expired}"

definition hold_already_returned :: "reservation_status \<Rightarrow> bool" where
  "hold_already_returned s \<longleftrightarrow> s \<in> {Committed, Released, Expired}"

subsection \<open>What a ledger promises its clients\<close>

text \<open>
  \<open>held l org cid\<close> is the amount a ledger state holds for a reservation (\<open>None\<close> when it holds
  nothing), \<open>booked l org cid\<close> whether its spend has been booked, \<open>wf\<close> the invariant of the store.
  The laws are the sentences of the port's docstrings a client may rely on, for every outcome of
  the store, an outage included.
\<close>

locale budget_ledger =
  fixes port :: "'l ledger_port"
    and wf :: "'l \<Rightarrow> bool"
    and held :: "'l \<Rightarrow> uuid \<Rightarrow> string \<Rightarrow> int option"
    and booked :: "'l \<Rightarrow> uuid \<Rightarrow> string \<Rightarrow> bool"
  assumes wf_reserve: "wf l \<Longrightarrow> wf (fst (lp_reserve port org cid est now l))"
    and wf_settle: "wf l \<Longrightarrow> wf (fst (lp_settle port org cid d now l))"
    and wf_release: "wf l \<Longrightarrow> wf (fst (lp_release port org cid now l))"
    and wf_reconcile: "wf l \<Longrightarrow> wf (fst (lp_reconcile port org older now l))"
    and reserve_granted:
      "wf l \<Longrightarrow> lp_reserve port org cid est now l = (l', Inr r) \<Longrightarrow> rs_outcome r = RESERVED \<Longrightarrow>
         held l' org cid \<noteq> None \<or> booked l' org cid"
    and reserve_refused:
      "wf l \<Longrightarrow> lp_reserve port org cid est now l = (l', Inr r) \<Longrightarrow> rs_outcome r \<noteq> RESERVED \<Longrightarrow>
         held l' = held l \<and> booked l' = booked l"
    and reserve_outcomes:
      "lp_reserve port org cid est now l = (l', Inr r) \<Longrightarrow> rs_outcome r \<noteq> UNAVAILABLE"
    and reserve_booked:
      "wf l \<Longrightarrow> booked (fst (lp_reserve port org cid est now l)) = booked l"
    and settle_done:
      "wf l \<Longrightarrow> lp_settle port org cid d now l = (l', Inr u) \<Longrightarrow>
         held l' org cid = None \<and> booked l' org cid"
    and release_done:
      "wf l \<Longrightarrow> lp_release port org cid now l = (l', Inr u) \<Longrightarrow> held l' org cid = None"
    and release_booked:
      "wf l \<Longrightarrow> booked (fst (lp_release port org cid now l)) = booked l"
    and reconcile_booked:
      "wf l \<Longrightarrow> booked (fst (lp_reconcile port org older now l)) = booked l"
    and other_reserve:
      "wf l \<Longrightarrow> (org', cid') \<noteq> (org, cid) \<Longrightarrow>
         held (fst (lp_reserve port org cid est now l)) org' cid' = held l org' cid'"
    and other_settle:
      "wf l \<Longrightarrow> (org', cid') \<noteq> (org, cid) \<Longrightarrow>
         held (fst (lp_settle port org cid d now l)) org' cid' = held l org' cid'"
    and other_release:
      "wf l \<Longrightarrow> (org', cid') \<noteq> (org, cid) \<Longrightarrow>
         held (fst (lp_release port org cid now l)) org' cid' = held l org' cid'"
    and other_tenant_reconcile:
      "wf l \<Longrightarrow> org' \<noteq> org \<Longrightarrow>
         held (fst (lp_reconcile port org older now l)) org' cid' = held l org' cid'"

end
