(* ===== verification/Sql_Ledger.thy ===== *)
theory Sql_Ledger imports Ledger_Port begin

text \<open>
  \<open>SqlBudgetLedger\<close> (\<open>adapters/ledger/sql_budget_ledger.py\<close>) over the three tables of
  \<open>adapters/persistence/ledger_tables.py\<close> and the CHECK and UNIQUE constraints of
  \<open>migrations/sql/0006_budget_ledger.sql\<close>.

  Every port method is one transaction. Its row locks, its conditional UPDATE and, for \<open>reserve\<close>,
  its advisory lock serialize the transactions that touch the same rows, so a method is a function
  from the state of the tables to the state after it. A \<open>numeric(18,8)\<close> column holds an integer
  number of units of its eighth decimal place. A constraint violation or a value outside the
  column's range is a database error, which every method turns into \<open>LedgerUnavailableError\<close>
  after rolling back. A lost connection is an entry of \<open>db_faults\<close>, one per transaction: the
  connection can be lost before the commit takes effect or after it, when the caller sees the
  error although the transaction stands.

  Row ids are left out: rows are found by \<open>(organization_id, correlation_id)\<close>, which is unique.
\<close>

subsection \<open>Tables\<close>

record budget_row =
  bg_organization :: uuid
  bg_limit :: int
  bg_currency :: string
  bg_reserved :: int
  bg_spent :: int

record reservation_row =
  rr_organization :: uuid
  rr_correlation :: string
  rr_estimated :: int
  rr_actual :: "int option"
  rr_currency :: string
  rr_status :: reservation_status
  rr_created :: instant
  rr_settled :: "instant option"

record cost_row =
  cl_organization :: uuid
  cl_correlation :: string
  cl_provider :: string
  cl_model :: string
  cl_prompt :: int
  cl_completion :: int
  cl_input :: int
  cl_output :: int
  cl_total :: int
  cl_currency :: string

datatype db_fault = Lost_before_commit | Lost_after_commit

record ledger_db =
  org_budget :: "budget_row list"
  budget_reservation :: "reservation_row list"
  cost_ledger :: "cost_row list"
  db_faults :: "db_fault option list"

definition rr_key :: "reservation_row \<Rightarrow> uuid \<times> string" where
  "rr_key r = (rr_organization r, rr_correlation r)"

definition cl_key :: "cost_row \<Rightarrow> uuid \<times> string" where
  "cl_key r = (cl_organization r, cl_correlation r)"

text \<open>Storing a decimal in a \<open>numeric(18,8)\<close> column rounds half away from zero.\<close>

fun numeric8 :: "decimal \<Rightarrow> int" where
  "numeric8 (Dec c e) =
     (if -8 \<le> e then c * 10 ^ nat (e + 8)
      else let m = 10 ^ nat (-8 - e) in sgn c * ((2 * abs c + m) div (2 * m)))"

definition in_range :: "int \<Rightarrow> bool" where
  "in_range t \<longleftrightarrow> abs t < 10 ^ 18"

definition budget_row_ok :: "budget_row \<Rightarrow> bool" where
  "budget_row_ok b \<longleftrightarrow>
     0 \<le> bg_limit b \<and> 0 \<le> bg_reserved b \<and> 0 \<le> bg_spent b \<and>
     in_range (bg_limit b) \<and> in_range (bg_reserved b) \<and> in_range (bg_spent b)"

definition reservation_row_ok :: "reservation_row \<Rightarrow> bool" where
  "reservation_row_ok r \<longleftrightarrow>
     0 \<le> rr_estimated r \<and> in_range (rr_estimated r) \<and>
     (case rr_actual r of None \<Rightarrow> True | Some a \<Rightarrow> 0 \<le> a \<and> in_range a)"

definition cost_row_ok :: "cost_row \<Rightarrow> bool" where
  "cost_row_ok c \<longleftrightarrow>
     0 \<le> cl_prompt c \<and> cl_prompt c < 2 ^ 31 \<and> 0 \<le> cl_completion c \<and> cl_completion c < 2 ^ 31 \<and>
     0 \<le> cl_input c \<and> in_range (cl_input c) \<and> 0 \<le> cl_output c \<and> in_range (cl_output c) \<and>
     0 \<le> cl_total c \<and> in_range (cl_total c)"

subsection \<open>Transactions\<close>

datatype 'a tx = Commit ledger_db 'a | Rollback 'a | Raise exn

definition run_tx :: "(ledger_db \<Rightarrow> 'a tx) \<Rightarrow> ledger_db \<Rightarrow> ledger_db \<times> 'a res" where
  "run_tx body db =
     (let fault = (case db_faults db of [] \<Rightarrow> None | f # _ \<Rightarrow> f);
          db0 = db\<lparr>db_faults := tl (db_faults db)\<rparr>
      in if fault = Some Lost_before_commit then (db0, Inl LedgerUnavailableError)
         else (case body db0 of
             Raise e \<Rightarrow> (db0, Inl e)
           | Rollback a \<Rightarrow>
               (db0, if fault = Some Lost_after_commit then Inl LedgerUnavailableError else Inr a)
           | Commit db' a \<Rightarrow>
               (db', if fault = Some Lost_after_commit then Inl LedgerUnavailableError else Inr a)))"

text \<open>The statement fails when a row it wrote breaks a constraint.\<close>

definition guarded :: "bool \<Rightarrow> 'a tx \<Rightarrow> 'a tx" where
  "guarded ok t = (if ok then t else Raise LedgerUnavailableError)"

subsection \<open>reserve\<close>

definition find_reservation :: "uuid \<Rightarrow> string \<Rightarrow> ledger_db \<Rightarrow> reservation_row option" where
  "find_reservation org cid db = find (\<lambda>r. rr_key r = (org, cid)) (budget_reservation db)"

definition find_budget :: "uuid \<Rightarrow> ledger_db \<Rightarrow> budget_row option" where
  "find_budget org db = find (\<lambda>b. bg_organization b = org) (org_budget db)"

definition update_reservation ::
  "uuid \<Rightarrow> string \<Rightarrow> (reservation_row \<Rightarrow> reservation_row) \<Rightarrow> ledger_db \<Rightarrow> ledger_db" where
  "update_reservation org cid f db =
     db\<lparr>budget_reservation := update_where (\<lambda>r. rr_key r = (org, cid)) f (budget_reservation db)\<rparr>"

definition update_budget :: "uuid \<Rightarrow> (budget_row \<Rightarrow> budget_row) \<Rightarrow> ledger_db \<Rightarrow> ledger_db" where
  "update_budget org f db =
     db\<lparr>org_budget := update_where (\<lambda>b. bg_organization b = org) f (org_budget db)\<rparr>"

definition budget_checked :: "uuid \<Rightarrow> ledger_db \<Rightarrow> bool" where
  "budget_checked org db =
     list_all budget_row_ok (filter (\<lambda>b. bg_organization b = org) (org_budget db))"

definition reservation_checked :: "uuid \<Rightarrow> string \<Rightarrow> ledger_db \<Rightarrow> bool" where
  "reservation_checked org cid db =
     list_all reservation_row_ok (filter (\<lambda>r. rr_key r = (org, cid)) (budget_reservation db))"

definition new_reservation :: "uuid \<Rightarrow> string \<Rightarrow> money \<Rightarrow> instant \<Rightarrow> reservation_row" where
  "new_reservation org cid est now =
     \<lparr>rr_organization = org, rr_correlation = cid, rr_estimated = numeric8 (amount est),
      rr_actual = None, rr_currency = currency est, rr_status = Reserved,
      rr_created = now, rr_settled = None\<rparr>"

definition rehold :: "money \<Rightarrow> reservation_row \<Rightarrow> reservation_row" where
  "rehold est r =
     r\<lparr>rr_status := Reserved, rr_estimated := numeric8 (amount est), rr_currency := currency est,
       rr_actual := None, rr_settled := None\<rparr>"

definition hold ::
  "reservation_row option \<Rightarrow> uuid \<Rightarrow> string \<Rightarrow> money \<Rightarrow> instant \<Rightarrow> ledger_db \<Rightarrow> ledger_db" where
  "hold existing org cid est now db =
     (case existing of
        None \<Rightarrow> db\<lparr>budget_reservation := budget_reservation db @ [new_reservation org cid est now]\<rparr>
      | Some _ \<Rightarrow> update_reservation org cid (rehold est) db)"

definition reservation_result ::
  "reservation_outcome \<Rightarrow> uuid \<Rightarrow> string \<Rightarrow> money \<Rightarrow> money option \<Rightarrow> reservation_result" where
  "reservation_result oc org cid est remaining =
     \<lparr>rs_outcome = oc, rs_organization = org, rs_correlation = cid, rs_estimated = est,
      rs_remaining = remaining\<rparr>"

definition remaining_ticks :: "budget_row \<Rightarrow> int" where
  "remaining_ticks b = bg_limit b - bg_spent b - bg_reserved b"

definition take_hold ::
  "reservation_row option \<Rightarrow> uuid \<Rightarrow> string \<Rightarrow> money \<Rightarrow> instant \<Rightarrow> ledger_db \<Rightarrow> reservation_result tx" where
  "take_hold existing org cid est now db =
     (let db' = hold existing org cid est now db in
      guarded (reservation_checked org cid db')
        (Commit db' (reservation_result RESERVED org cid est None)))"

definition reserve_decide ::
  "reservation_row option \<Rightarrow> uuid \<Rightarrow> string \<Rightarrow> money \<Rightarrow> instant \<Rightarrow> ledger_db \<Rightarrow> reservation_result tx" where
  "reserve_decide existing org cid est now db =
     (case find_budget org db of
        None \<Rightarrow> take_hold existing org cid est now db
      | Some b \<Rightarrow>
          if currency est \<noteq> bg_currency b then Raise UnsupportedCurrencyError
          else if dec_less (Dec (remaining_ticks b) (-8)) (amount est)
            then Rollback (reservation_result EXCEEDED org cid est
                   (Some \<lparr>amount = Dec (remaining_ticks b) (-8), currency = bg_currency b\<rparr>))
          else (let db' = update_budget org
                  (\<lambda>b. b\<lparr>bg_reserved := bg_reserved b + numeric8 (amount est)\<rparr>) db
                in if budget_checked org db' then take_hold existing org cid est now db'
                   else Raise LedgerUnavailableError))"

definition reserve_tx ::
  "uuid \<Rightarrow> string \<Rightarrow> money \<Rightarrow> instant \<Rightarrow> ledger_db \<Rightarrow> reservation_result tx" where
  "reserve_tx org cid est now db =
     (case find_reservation org cid db of
        None \<Rightarrow> reserve_decide None org cid est now db
      | Some r \<Rightarrow>
          if replayable (rr_status r)
          then Commit db (reservation_result RESERVED org cid
                 \<lparr>amount = Dec (rr_estimated r) (-8), currency = rr_currency r\<rparr> None)
          else reserve_decide (Some r) org cid est now db)"

subsection \<open>settle, release and reconcile_expired\<close>

definition settled_cost :: "uuid \<Rightarrow> string \<Rightarrow> settlement_detail \<Rightarrow> cost_row" where
  "settled_cost org cid d =
     \<lparr>cl_organization = org, cl_correlation = cid, cl_provider = sd_provider d,
      cl_model = sd_model d, cl_prompt = sd_prompt d, cl_completion = sd_completion d,
      cl_input = numeric8 (amount (sd_input d)), cl_output = numeric8 (amount (sd_output d)),
      cl_total = numeric8 (amount (sd_total d)), cl_currency = currency (sd_total d)\<rparr>"

definition insert_cost :: "cost_row \<Rightarrow> ledger_db \<Rightarrow> ledger_db" where
  "insert_cost c db =
     (if list_ex (\<lambda>r. cl_key r = cl_key c) (cost_ledger db) then db
      else db\<lparr>cost_ledger := cost_ledger db @ [c]\<rparr>)"

definition settle_budget :: "reservation_status \<Rightarrow> int \<Rightarrow> int \<Rightarrow> budget_row \<Rightarrow> budget_row" where
  "settle_budget status est spend b =
     (let b' = b\<lparr>bg_spent := bg_spent b + spend\<rparr> in
      if status = Reserved then b'\<lparr>bg_reserved := bg_reserved b - est\<rparr> else b')"

definition commit_row :: "int \<Rightarrow> instant \<Rightarrow> reservation_row \<Rightarrow> reservation_row" where
  "commit_row spend now r =
     r\<lparr>rr_status := Committed, rr_actual := Some spend, rr_settled := Some now\<rparr>"

definition settle_tx ::
  "uuid \<Rightarrow> string \<Rightarrow> settlement_detail \<Rightarrow> instant \<Rightarrow> ledger_db \<Rightarrow> unit tx" where
  "settle_tx org cid d now db =
     (case find_reservation org cid db of
        None \<Rightarrow> Raise UnknownReservationError
      | Some r \<Rightarrow>
          if rr_status r = Committed then Commit db ()
          else if rr_status r = Released then Raise UnknownReservationError
          else if currency (sd_total d) \<noteq> rr_currency r then Raise UnsupportedCurrencyError
          else (let spend = numeric8 (amount (sd_total d));
                    db1 = update_budget org (settle_budget (rr_status r) (rr_estimated r) spend) db;
                    db2 = update_reservation org cid (commit_row spend now) db1;
                    c = settled_cost org cid d
                in guarded (budget_checked org db1 \<and> reservation_checked org cid db2 \<and> cost_row_ok c)
                     (Commit (insert_cost c db2) ())))"

definition release_tx :: "uuid \<Rightarrow> string \<Rightarrow> instant \<Rightarrow> ledger_db \<Rightarrow> unit tx" where
  "release_tx org cid now db =
     (case find_reservation org cid db of
        None \<Rightarrow> Raise UnknownReservationError
      | Some r \<Rightarrow>
          if hold_already_returned (rr_status r) then Commit db ()
          else (let db1 = update_budget org
                      (\<lambda>b. b\<lparr>bg_reserved := bg_reserved b - rr_estimated r\<rparr>) db;
                    db2 = update_reservation org cid
                      (\<lambda>r. r\<lparr>rr_status := Released, rr_settled := Some now\<rparr>) db1
                in guarded (budget_checked org db1) (Commit db2 ())))"

definition stale :: "uuid \<Rightarrow> instant \<Rightarrow> reservation_row \<Rightarrow> bool" where
  "stale org older_than r \<longleftrightarrow>
     rr_organization r = org \<and> rr_status r = Reserved \<and> rr_created r < older_than"

definition reconcile_tx :: "uuid \<Rightarrow> instant \<Rightarrow> instant \<Rightarrow> ledger_db \<Rightarrow> nat tx" where
  "reconcile_tx org older_than now db =
     (let reclaimed = filter (stale org older_than) (budget_reservation db) in
      if reclaimed = [] then Commit db 0
      else (let spend = sum_list (map rr_estimated reclaimed);
                db1 = db\<lparr>budget_reservation := update_where (stale org older_than)
                    (\<lambda>r. r\<lparr>rr_status := Expired, rr_settled := Some now\<rparr>) (budget_reservation db)\<rparr>;
                db2 = update_budget org (\<lambda>b. b\<lparr>bg_reserved := bg_reserved b - spend\<rparr>) db1
            in guarded (budget_checked org db2) (Commit db2 (length reclaimed))))"

subsection \<open>The port\<close>

definition sql_reserve where "sql_reserve org cid est now = run_tx (reserve_tx org cid est now)"

definition sql_settle where "sql_settle org cid d now = run_tx (settle_tx org cid d now)"

definition sql_release where "sql_release org cid now = run_tx (release_tx org cid now)"

definition sql_reconcile_expired where
  "sql_reconcile_expired org older_than now = run_tx (reconcile_tx org older_than now)"

definition sql_ledger_port :: "ledger_db ledger_port" where
  "sql_ledger_port =
     \<lparr>lp_reserve = sql_reserve, lp_settle = sql_settle, lp_release = sql_release,
      lp_reconcile = sql_reconcile_expired\<rparr>"

end
