(* ===== verification/Sql_Ledger_Inv.thy ===== *)
theory Sql_Ledger_Inv imports Sql_Ledger begin

text \<open>
  The invariant of the ledger tables, its preservation by every transaction under every fault, and
  the effect of each operation on the accounts: the held total of an organization is the sum of its
  \<open>Reserved\<close> rows, its spend the sum of its cost ledger rows.
\<close>

subsection \<open>The invariant\<close>

definition held_sum :: "uuid \<Rightarrow> ledger_db \<Rightarrow> int" where
  "held_sum org db =
     sum_where (\<lambda>r. rr_organization r = org \<and> rr_status r = Reserved) rr_estimated
       (budget_reservation db)"

definition spent_sum :: "uuid \<Rightarrow> ledger_db \<Rightarrow> int" where
  "spent_sum org db = sum_where (\<lambda>c. cl_organization c = org) cl_total (cost_ledger db)"

definition ledger_keys :: "ledger_db \<Rightarrow> bool" where
  "ledger_keys db \<longleftrightarrow>
     distinct (map rr_key (budget_reservation db)) \<and>
     distinct (map bg_organization (org_budget db)) \<and>
     distinct (map cl_key (cost_ledger db))"

definition ledger_rows :: "ledger_db \<Rightarrow> bool" where
  "ledger_rows db \<longleftrightarrow>
     (\<forall>b\<in>set (org_budget db). budget_row_ok b) \<and>
     (\<forall>r\<in>set (budget_reservation db). reservation_row_ok r) \<and>
     (\<forall>c\<in>set (cost_ledger db). cost_row_ok c)"

definition ledger_booked :: "ledger_db \<Rightarrow> bool" where
  "ledger_booked db \<longleftrightarrow>
     (\<forall>r\<in>set (budget_reservation db). rr_status r = Committed \<longleftrightarrow> rr_key r \<in> cl_key ` set (cost_ledger db)) \<and>
     cl_key ` set (cost_ledger db) \<subseteq> rr_key ` set (budget_reservation db)"

definition ledger_accounts :: "ledger_db \<Rightarrow> bool" where
  "ledger_accounts db \<longleftrightarrow>
     (\<forall>b\<in>set (org_budget db).
        bg_reserved b = held_sum (bg_organization b) db \<and>
        bg_spent b = spent_sum (bg_organization b) db)"

definition ledger_inv :: "ledger_db \<Rightarrow> bool" where
  "ledger_inv db \<longleftrightarrow> ledger_keys db \<and> ledger_rows db \<and> ledger_booked db \<and> ledger_accounts db"

lemmas ledger_inv_defs =
  ledger_inv_def ledger_keys_def ledger_rows_def ledger_booked_def ledger_accounts_def

lemma ledger_inv_faults [simp]: "ledger_inv (db\<lparr>db_faults := fs\<rparr>) = ledger_inv db"
  by (simp add: ledger_inv_defs held_sum_def spent_sum_def)

lemma ledger_inv_fresh:
  assumes "distinct (map bg_organization bs)"
    and "\<forall>b\<in>set bs. budget_row_ok b \<and> bg_reserved b = 0 \<and> bg_spent b = 0"
  shows "ledger_inv \<lparr>org_budget = bs, budget_reservation = [], cost_ledger = [], db_faults = fs\<rparr>"
  using assms by (simp add: ledger_inv_defs held_sum_def spent_sum_def)

subsection \<open>Transactions\<close>

lemma run_tx_preserves:
  assumes "\<And>db' a. body (db\<lparr>db_faults := tl (db_faults db)\<rparr>) = Commit db' a \<Longrightarrow> P db'"
    and "P (db\<lparr>db_faults := tl (db_faults db)\<rparr>)"
  shows "P (fst (run_tx body db))"
  using assms by (auto simp: run_tx_def Let_def split: tx.splits list.splits)

lemma run_tx_Inr:
  assumes "run_tx body db = (db', Inr a)"
  obtains "body (db\<lparr>db_faults := tl (db_faults db)\<rparr>) = Commit db' a"
  | "body (db\<lparr>db_faults := tl (db_faults db)\<rparr>) = Rollback a" "db' = db\<lparr>db_faults := tl (db_faults db)\<rparr>"
  using assms by (auto simp: run_tx_def Let_def split: tx.splits if_splits)

lemma guarded_Commit [simp]:
  "guarded ok (Commit db a) = Commit db' a' \<longleftrightarrow> ok \<and> db = db' \<and> a = a'"
  by (auto simp: guarded_def)

lemma guarded_Rollback [simp]: "guarded ok (Commit db a) \<noteq> Rollback r"
  by (auto simp: guarded_def)

lemma find_faults [simp]:
  "find_reservation org cid (db\<lparr>db_faults := fs\<rparr>) = find_reservation org cid db"
  "find_budget org (db\<lparr>db_faults := fs\<rparr>) = find_budget org db"
  by (simp_all add: find_reservation_def find_budget_def)

subsection \<open>The accounts after a row update\<close>

lemma held_sum_update_budget [simp]: "held_sum o' (update_budget org f db) = held_sum o' db"
  by (simp add: held_sum_def update_budget_def)

lemma spent_sum_update [simp]:
  "spent_sum o' (update_budget org f db) = spent_sum o' db"
  "spent_sum o' (update_reservation org cid g db) = spent_sum o' db"
  by (simp_all add: spent_sum_def update_budget_def update_reservation_def)

lemma held_sum_update_reservation:
  assumes "ledger_keys db" and "find_reservation org cid db = Some r"
    and "\<And>r. rr_key (g r) = rr_key r"
  shows "held_sum o' (update_reservation org cid g db) =
     held_sum o' db
       + (if o' = org
          then (if rr_status (g r) = Reserved then rr_estimated (g r) else 0)
             - (if rr_status r = Reserved then rr_estimated r else 0)
          else 0)"
proof -
  have r: "rr_organization r = org" "rr_organization (g r) = org"
    using find_SomeD [OF assms(2) [unfolded find_reservation_def]] assms(3) [of r]
    by (auto simp: rr_key_def)
  have "sum_where p f (update_where (\<lambda>r. rr_key r = (org, cid)) g (budget_reservation db)) =
      sum_where p f (budget_reservation db) - (if p r then f r else 0) + (if p (g r) then f (g r) else 0)"
    for p f
    using assms(1,2) unfolding ledger_keys_def find_reservation_def
    by (intro sum_where_update_key) auto
  with r show ?thesis
    by (simp add: held_sum_def update_reservation_def)
qed

lemma find_budget_Some:
  "find_budget org db = Some b \<Longrightarrow> b \<in> set (org_budget db) \<and> bg_organization b = org"
  unfolding find_budget_def by (drule find_SomeD) simp

lemma find_reservation_Some:
  "find_reservation org cid db = Some r \<Longrightarrow>
     r \<in> set (budget_reservation db) \<and> rr_organization r = org \<and> rr_correlation r = cid"
  unfolding find_reservation_def by (drule find_SomeD) (simp add: rr_key_def)

lemma find_reservation_None:
  "find_reservation org cid db = None \<Longrightarrow> r \<in> set (budget_reservation db) \<Longrightarrow> rr_key r \<noteq> (org, cid)"
  unfolding find_reservation_def by (drule find_NoneD) auto

text \<open>
  What a transaction writes when it changes one reservation and its organization's budget: new
  reserved and spent totals for that organization, the other rows as they were.
\<close>

lemma ledger_accounts_update:
  assumes "ledger_accounts db"
    and "\<And>b. bg_organization (f b) = bg_organization b"
    and "org_budget db' = update_where (\<lambda>b. bg_organization b = org) f (org_budget db)"
    and "\<And>o'. o' \<noteq> org \<Longrightarrow> held_sum o' db' = held_sum o' db \<and> spent_sum o' db' = spent_sum o' db"
    and "\<And>b. b \<in> set (org_budget db) \<Longrightarrow> bg_organization b = org \<Longrightarrow>
           bg_reserved (f b) = held_sum org db' \<and> bg_spent (f b) = spent_sum org db'"
  shows "ledger_accounts db'"
  unfolding ledger_accounts_def assms(3)
  using assms(1,2,4,5)
  by (intro ball_update_where) (auto simp: ledger_accounts_def)

lemma budget_rows_checked:
  assumes "\<forall>b\<in>set (org_budget db). budget_row_ok b"
    and "budget_checked org (update_budget org f db)"
    and "\<And>b. bg_organization (f b) = bg_organization b"
  shows "\<forall>b\<in>set (org_budget (update_budget org f db)). budget_row_ok b"
proof -
  have "\<forall>b\<in>set (org_budget db). bg_organization b = org \<longrightarrow> budget_row_ok (f b)"
    using assms(2,3) unfolding budget_checked_def update_budget_def
    by (intro list_all_filter_updated) auto
  with assms(1) show ?thesis
    unfolding update_budget_def by simp (intro ball_update_where; auto)
qed

lemma reservation_rows_checked:
  assumes "\<forall>r\<in>set (budget_reservation db). reservation_row_ok r"
    and "reservation_checked org cid (update_reservation org cid g db)"
    and "\<And>r. rr_key (g r) = rr_key r"
  shows "\<forall>r\<in>set (budget_reservation (update_reservation org cid g db)). reservation_row_ok r"
proof -
  have "\<forall>r\<in>set (budget_reservation db). rr_key r = (org, cid) \<longrightarrow> reservation_row_ok (g r)"
    using assms(2,3) unfolding reservation_checked_def update_reservation_def
    by (intro list_all_filter_updated) auto
  with assms(1) show ?thesis
    unfolding update_reservation_def by simp (intro ball_update_where; auto)
qed

subsection \<open>The keys and the booked rows after a row update\<close>

lemma ledger_keys_update [simp]:
  "(\<And>b. bg_organization (f b) = bg_organization b) \<Longrightarrow>
     ledger_keys (update_budget org f db) = ledger_keys db"
  "(\<And>r. rr_key (g r) = rr_key r) \<Longrightarrow>
     ledger_keys (update_reservation org cid g db) = ledger_keys db"
  by (simp_all add: ledger_keys_def update_budget_def update_reservation_def map_update_where)

lemma rr_key_writes [simp]:
  "rr_key (rehold est r) = rr_key r"
  "rr_key (commit_row t now r) = rr_key r"
  "rr_key (r\<lparr>rr_status := s, rr_settled := w\<rparr>) = rr_key r"
  "rr_key (new_reservation org cid est now) = (org, cid)"
  "cl_key (settled_cost org cid d) = (org, cid)"
  by (simp_all add: rr_key_def cl_key_def rehold_def commit_row_def new_reservation_def
      settled_cost_def)

lemma settle_budget_org [simp]: "bg_organization (settle_budget s e t b) = bg_organization b"
  by (simp add: settle_budget_def Let_def)

lemma status_writes [simp]:
  "rr_status (rehold est r) = Reserved"
  "rr_estimated (rehold est r) = numeric8 (amount est)"
  "rr_status (commit_row t now r) = Committed"
  "rr_estimated (commit_row t now r) = rr_estimated r"
  "rr_status (new_reservation org cid est now) = Reserved"
  "rr_estimated (new_reservation org cid est now) = numeric8 (amount est)"
  "rr_organization (new_reservation org cid est now) = org"
  by (simp_all add: rehold_def commit_row_def new_reservation_def)

lemma ledger_booked_update_budget [simp]:
  "ledger_booked (update_budget org f db) = ledger_booked db"
  by (simp add: ledger_booked_def update_budget_def)

text \<open>A write that neither starts nor ends a \<open>Committed\<close> status keeps the booked rows.\<close>

lemma ledger_booked_update:
  assumes "ledger_booked db" and "\<And>r. rr_key (g r) = rr_key r"
    and "\<And>r. r \<in> set (budget_reservation db) \<Longrightarrow> p r \<Longrightarrow>
           rr_status r \<noteq> Committed \<and> rr_status (g r) \<noteq> Committed"
  shows "ledger_booked (db\<lparr>budget_reservation := update_where p g (budget_reservation db)\<rparr>)"
proof -
  have keys: "rr_key ` set (update_where p g (budget_reservation db)) =
      rr_key ` set (budget_reservation db)"
    using map_update_where [of rr_key g p "budget_reservation db", OF assms(2)]
    by (metis set_map)
  show ?thesis
    using assms keys unfolding ledger_booked_def
    by simp (intro ball_update_where; auto)
qed

lemma unique_row:
  "ledger_keys db \<Longrightarrow> find_reservation org cid db = Some r \<Longrightarrow>
     x \<in> set (budget_reservation db) \<Longrightarrow> rr_key x = (org, cid) \<Longrightarrow> x = r"
proof -
  assume k: "ledger_keys db" and f: "find_reservation org cid db = Some r"
    and x: "x \<in> set (budget_reservation db)" "rr_key x = (org, cid)"
  from k x(1) have "find (\<lambda>r. rr_key r = rr_key x) (budget_reservation db) = Some x"
    unfolding ledger_keys_def by (intro distinct_keys_find) auto
  with f x(2) show "x = r" by (simp add: find_reservation_def)
qed

subsection \<open>reserve\<close>

lemma hold_effect:
  assumes "ledger_keys db" and "find_reservation org cid db = existing"
    and "\<And>r. existing = Some r \<Longrightarrow> rr_status r \<noteq> Reserved"
  shows "ledger_keys (hold existing org cid est now db)"
    and "org_budget (hold existing org cid est now db) = org_budget db"
    and "cost_ledger (hold existing org cid est now db) = cost_ledger db"
    and "held_sum o' (hold existing org cid est now db) =
           held_sum o' db + (if o' = org then numeric8 (amount est) else 0)"
    and "spent_sum o' (hold existing org cid est now db) = spent_sum o' db"
proof -
  show "org_budget (hold existing org cid est now db) = org_budget db"
    and "cost_ledger (hold existing org cid est now db) = cost_ledger db"
    and "spent_sum o' (hold existing org cid est now db) = spent_sum o' db"
    by (simp_all add: hold_def update_reservation_def spent_sum_def split: option.splits)
  show "ledger_keys (hold existing org cid est now db)"
  proof (cases existing)
    case None
    with assms(2) have "(org, cid) \<notin> rr_key ` set (budget_reservation db)"
      by (auto dest: find_reservation_None)
    with None assms(1) show ?thesis by (simp add: hold_def ledger_keys_def)
  next
    case (Some r)
    with assms(1) show ?thesis by (simp add: hold_def)
  qed
  show "held_sum o' (hold existing org cid est now db) =
      held_sum o' db + (if o' = org then numeric8 (amount est) else 0)"
  proof (cases existing)
    case None
    then show ?thesis by (simp add: hold_def held_sum_def)
  next
    case (Some r)
    with assms show ?thesis by (simp add: hold_def held_sum_update_reservation)
  qed
qed

lemma hold_booked:
  assumes "ledger_inv db" and "find_reservation org cid db = existing"
    and "\<And>r. existing = Some r \<Longrightarrow> \<not> replayable (rr_status r)"
  shows "ledger_booked (hold existing org cid est now db)"
proof (cases existing)
  case None
  with assms(2) have "(org, cid) \<notin> rr_key ` set (budget_reservation db)"
    by (auto dest: find_reservation_None)
  with None assms(1) show ?thesis
    by (auto simp: hold_def ledger_inv_def ledger_booked_def)
next
  case (Some r)
  have "rr_status x \<noteq> Committed" if "x \<in> set (budget_reservation db)" "rr_key x = (org, cid)" for x
  proof -
    from that assms(1,2) Some have "x = r"
      unfolding ledger_inv_def by (blast intro: unique_row)
    with assms(3) Some show ?thesis by (auto simp: replayable_def)
  qed
  with Some assms(1) show ?thesis
    unfolding hold_def update_reservation_def ledger_inv_def
    by (auto intro!: ledger_booked_update)
qed

lemma hold_rows:
  assumes "\<forall>r\<in>set (budget_reservation db). reservation_row_ok r"
    and "reservation_checked org cid (hold existing org cid est now db)"
  shows "\<forall>r\<in>set (budget_reservation (hold existing org cid est now db)). reservation_row_ok r"
proof (cases existing)
  case None
  with assms show ?thesis by (auto simp: hold_def reservation_checked_def)
next
  case (Some r)
  with assms show ?thesis
    using reservation_rows_checked [of db org cid "rehold est"] by (simp add: hold_def)
qed

definition add_reserved :: "int \<Rightarrow> budget_row \<Rightarrow> budget_row" where
  "add_reserved n b = b\<lparr>bg_reserved := bg_reserved b + n\<rparr>"

lemma add_reserved_simps [simp]:
  "bg_organization (add_reserved n b) = bg_organization b"
  "bg_reserved (add_reserved n b) = bg_reserved b + n"
  "bg_spent (add_reserved n b) = bg_spent b"
  "bg_limit (add_reserved n b) = bg_limit b"
  "bg_currency (add_reserved n b) = bg_currency b"
  by (simp_all add: add_reserved_def)



lemma find_reservation_update_budget [simp]:
  "find_reservation org cid (update_budget o' f db) = find_reservation org cid db"
  by (simp add: find_reservation_def update_budget_def)

text \<open>The two ways a hold is taken: without a configured budget, and against one.\<close>

lemma take_hold_unlimited:
  assumes inv: "ledger_inv db" and "find_reservation org cid db = existing"
    and "\<And>r. existing = Some r \<Longrightarrow> \<not> replayable (rr_status r)"
    and none: "find_budget org db = None"
    and t: "take_hold existing org cid est now db = Commit db' a"
  shows "ledger_inv db'"
proof -
  have d: "db' = hold existing org cid est now db" and
    chk: "reservation_checked org cid (hold existing org cid est now db)"
    using t by (auto simp: take_hold_def Let_def)
  have keys: "ledger_keys db" using inv by (simp add: ledger_inv_def)
  have nr: "\<And>r. existing = Some r \<Longrightarrow> rr_status r \<noteq> Reserved"
    using assms(3) by (auto simp: replayable_def)
  note eff = hold_effect [OF keys assms(2) nr]
  have "bg_organization b \<noteq> org" if "b \<in> set (org_budget db)" for b
    using none that unfolding find_budget_def by (auto dest: find_NoneD)
  then have "ledger_accounts db'"
    using inv by (auto simp: d ledger_inv_def ledger_accounts_def eff)
  moreover have "ledger_rows db'"
    using inv hold_rows [OF _ chk] by (simp add: d ledger_inv_def ledger_rows_def eff)
  moreover have "ledger_booked db'"
    unfolding d by (rule hold_booked [OF inv assms(2,3)])
  ultimately show ?thesis
    by (simp add: d ledger_inv_def eff)
qed

lemma take_hold_limited:
  assumes inv: "ledger_inv db" and "find_reservation org cid db = existing"
    and "\<And>r. existing = Some r \<Longrightarrow> \<not> replayable (rr_status r)"
    and bchk: "budget_checked org (update_budget org (add_reserved (numeric8 (amount est))) db)"
    and t: "take_hold existing org cid est now
              (update_budget org (add_reserved (numeric8 (amount est))) db) = Commit db' a"
  shows "ledger_inv db'"
proof -
  let ?db1 = "update_budget org (add_reserved (numeric8 (amount est))) db"
  have d: "db' = hold existing org cid est now ?db1" and
    chk: "reservation_checked org cid (hold existing org cid est now ?db1)"
    using t by (auto simp: take_hold_def Let_def)
  have keys: "ledger_keys ?db1" using inv by (simp add: ledger_inv_def)
  have f: "find_reservation org cid ?db1 = existing" using assms(2) by simp
  have nr: "\<And>r. existing = Some r \<Longrightarrow> rr_status r \<noteq> Reserved"
    using assms(3) by (auto simp: replayable_def)
  note eff = hold_effect [OF keys f nr]
  have "ledger_accounts db'"
  proof (rule ledger_accounts_update [where db = db and f = "add_reserved (numeric8 (amount est))"
        and org = org])
    show "ledger_accounts db" using inv by (simp add: ledger_inv_def)
    show "org_budget db' =
        update_where (\<lambda>b. bg_organization b = org) (add_reserved (numeric8 (amount est))) (org_budget db)"
      by (simp add: d eff) (simp add: update_budget_def)
  qed (use inv in \<open>auto simp: d eff ledger_inv_def ledger_accounts_def\<close>)
  moreover have "ledger_rows db'"
  proof -
    have "\<forall>b\<in>set (org_budget ?db1). budget_row_ok b"
      using inv bchk by (intro budget_rows_checked) (auto simp: ledger_inv_def ledger_rows_def)
    moreover have "\<forall>r\<in>set (budget_reservation db'). reservation_row_ok r"
      unfolding d using inv chk
      by (intro hold_rows) (auto simp: ledger_inv_def ledger_rows_def update_budget_def)
    ultimately show ?thesis
      using inv by (simp add: d eff ledger_inv_def ledger_rows_def) (simp add: update_budget_def)
  qed
  moreover have "ledger_booked db'"
  proof -
    have "ledger_booked (hold existing org cid est now db)"
      by (rule hold_booked [OF inv assms(2,3)])
    then show ?thesis
      by (cases existing) (simp_all add: d hold_def ledger_booked_def update_budget_def
          update_reservation_def)
  qed
  ultimately show ?thesis using eff(1) by (simp add: d ledger_inv_def)
qed

lemma reserve_decide_inv:
  assumes "ledger_inv db" and "find_reservation org cid db = existing"
    and "\<And>r. existing = Some r \<Longrightarrow> \<not> replayable (rr_status r)"
    and "reserve_decide existing org cid est now db = Commit db' a"
  shows "ledger_inv db'"
proof (cases "find_budget org db")
  case None
  with assms show ?thesis
    by (auto simp: reserve_decide_def intro: take_hold_unlimited)
next
  case (Some b)
  with assms(4) have
    "budget_checked org (update_budget org (add_reserved (numeric8 (amount est))) db)"
    "take_hold existing org cid est now
       (update_budget org (add_reserved (numeric8 (amount est))) db) = Commit db' a"
    by (auto simp: reserve_decide_def Let_def add_reserved_def [abs_def] split: if_splits)
  with assms(1-3) show ?thesis by (rule take_hold_limited)
qed

lemma reserve_tx_inv:
  assumes "ledger_inv db" and "reserve_tx org cid est now db = Commit db' a"
  shows "ledger_inv db'"
proof (cases "find_reservation org cid db")
  case None
  with assms show ?thesis
    by (auto simp: reserve_tx_def intro: reserve_decide_inv)
next
  case (Some r)
  with assms show ?thesis
    by (auto simp: reserve_tx_def split: if_splits intro: reserve_decide_inv [OF assms(1) Some])
qed

subsection \<open>settle\<close>

lemma insert_cost_sums:
  assumes "cl_key c \<notin> cl_key ` set (cost_ledger db)"
  shows "insert_cost c db = db\<lparr>cost_ledger := cost_ledger db @ [c]\<rparr>"
    and "spent_sum o' (insert_cost c db) =
           spent_sum o' db + (if o' = cl_organization c then cl_total c else 0)"
    and "held_sum o' (insert_cost c db) = held_sum o' db"
proof -
  have "\<not> list_ex (\<lambda>r. cl_key r = cl_key c) (cost_ledger db)"
    using assms by (auto simp: list_ex_iff) (metis image_eqI)
  then show "insert_cost c db = db\<lparr>cost_ledger := cost_ledger db @ [c]\<rparr>"
    and "spent_sum o' (insert_cost c db) =
           spent_sum o' db + (if o' = cl_organization c then cl_total c else 0)"
    and "held_sum o' (insert_cost c db) = held_sum o' db"
    by (simp_all add: insert_cost_def spent_sum_def held_sum_def)
qed

lemma settle_tx_cases:
  assumes "settle_tx org cid d now db = Commit db' a"
  obtains (replay) r where "find_reservation org cid db = Some r" "rr_status r = Committed" "db' = db"
  | (book) r n db1 db2 where
      "find_reservation org cid db = Some r"
      "rr_status r = Reserved \<or> rr_status r = Expired"
      "currency (sd_total d) = rr_currency r"
      "n = numeric8 (amount (sd_total d))"
      "db1 = update_budget org (settle_budget (rr_status r) (rr_estimated r) n) db"
      "db2 = update_reservation org cid (commit_row n now) db1"
      "db' = insert_cost (settled_cost org cid d) db2"
      "budget_checked org db1" "reservation_checked org cid db2" "cost_row_ok (settled_cost org cid d)"
proof (cases "find_reservation org cid db")
  case None
  with assms show ?thesis by (simp add: settle_tx_def)
next
  case (Some r)
  show ?thesis
  proof (cases "rr_status r = Committed")
    case True
    with assms Some have "db' = db" by (simp add: settle_tx_def)
    with Some True show ?thesis by (rule replay)
  next
    case False
    let ?n = "numeric8 (amount (sd_total d))"
    let ?db1 = "update_budget org (settle_budget (rr_status r) (rr_estimated r) ?n) db"
    let ?db2 = "update_reservation org cid (commit_row ?n now) ?db1"
    have "rr_status r = Reserved \<or> rr_status r = Expired"
      and "currency (sd_total d) = rr_currency r"
      and "db' = insert_cost (settled_cost org cid d) ?db2"
      and "budget_checked org ?db1" "reservation_checked org cid ?db2"
        "cost_row_ok (settled_cost org cid d)"
      using assms Some False
      by (cases "rr_status r"; simp add: settle_tx_def Let_def split: if_splits)+
    with Some show ?thesis by (intro book [OF _ _ _ refl refl refl]) auto
  qed
qed

lemma settle_tx_inv:
  assumes inv: "ledger_inv db" and "settle_tx org cid d now db = Commit db' a"
  shows "ledger_inv db'"
  using assms(2)
proof (cases rule: settle_tx_cases)
  case replay
  with inv show ?thesis by simp
next
  case (book r n db1 db2)
  let ?c = "settled_cost org cid d"
  have key: "rr_key r = (org, cid)" and mem: "r \<in> set (budget_reservation db)"
    using find_reservation_Some [OF book(1)] by (auto simp: rr_key_def)
  have keys: "ledger_keys db" using inv by (simp add: ledger_inv_def)
  have keys1: "ledger_keys db1" "ledger_keys db2" using keys by (simp_all add: book)
  have find1: "find_reservation org cid db1 = Some r" by (simp add: book)
  have fresh: "cl_key ?c \<notin> cl_key ` set (cost_ledger db2)"
    using inv mem key book(2)
    by (auto simp: book(5,6) update_budget_def update_reservation_def ledger_inv_def ledger_booked_def)
  note ins = insert_cost_sums [OF fresh]
  have held: "held_sum o' db' =
      held_sum o' db - (if o' = org \<and> rr_status r = Reserved then rr_estimated r else 0)" for o'
  proof -
    have "held_sum o' db' = held_sum o' db2" unfolding book(7) by (rule ins(3))
    also have "\<dots> = held_sum o' db1 -
        (if o' = org \<and> rr_status r = Reserved then rr_estimated r else 0)"
      unfolding book(6) by (subst held_sum_update_reservation [OF keys1(1) find1]) auto
    also have "held_sum o' db1 = held_sum o' db" by (simp add: book(5))
    finally show ?thesis .
  qed
  have spent: "spent_sum o' db' = spent_sum o' db + (if o' = org then n else 0)" for o'
    unfolding book(7) ins(2) by (simp add: book(4-6) settled_cost_def)
  have rest: "org_budget db' = org_budget db1" "budget_reservation db' = budget_reservation db2"
    unfolding book(7) ins(1) by (simp_all add: book(6) update_reservation_def)
  have "ledger_accounts db'"
  proof (rule ledger_accounts_update [where db = db and org = org
        and f = "settle_budget (rr_status r) (rr_estimated r) n"])
    show "ledger_accounts db" using inv by (simp add: ledger_inv_def)
    show "org_budget db' = update_where (\<lambda>b. bg_organization b = org)
        (settle_budget (rr_status r) (rr_estimated r) n) (org_budget db)"
      unfolding rest by (simp add: book(5) update_budget_def)
  qed (use inv in \<open>auto simp: held spent settle_budget_def Let_def ledger_inv_def ledger_accounts_def\<close>)
  moreover have "ledger_rows db'"
  proof -
    have "\<forall>b\<in>set (org_budget db1). budget_row_ok b"
      unfolding book(5) using inv book(8)
      by (intro budget_rows_checked) (auto simp: ledger_inv_def ledger_rows_def book(5))
    moreover have "\<forall>r\<in>set (budget_reservation db2). reservation_row_ok r"
      unfolding book(6) using inv book(9)
      by (intro reservation_rows_checked)
        (auto simp: ledger_inv_def ledger_rows_def book(5,6) update_budget_def)
    moreover have "cost_ledger db' = cost_ledger db @ [?c]"
      unfolding book(7) ins(1) by (simp add: book(5,6) update_budget_def update_reservation_def)
    ultimately show ?thesis
      using inv book(10) by (auto simp: rest ledger_inv_def ledger_rows_def)
  qed
  moreover have "ledger_keys db'"
    using keys1(2) fresh unfolding book(7) ins(1) by (simp add: ledger_keys_def)
  moreover have "ledger_booked db'"
  proof -
    have costs: "cl_key ` set (cost_ledger db') = insert (org, cid) (cl_key ` set (cost_ledger db))"
      unfolding book(7) ins(1) by (simp add: book(5,6) update_budget_def update_reservation_def)
    have rows: "budget_reservation db' =
        update_where (\<lambda>r. rr_key r = (org, cid)) (commit_row n now) (budget_reservation db)"
      unfolding rest by (simp add: book(5,6) update_budget_def update_reservation_def)
    have "rr_key ` set (budget_reservation db') = rr_key ` set (budget_reservation db)"
      unfolding rows by (metis map_update_where rr_key_writes(2) set_map)
    moreover have "\<forall>r\<in>set (budget_reservation db').
        rr_status r = Committed \<longleftrightarrow> rr_key r \<in> cl_key ` set (cost_ledger db')"
      unfolding rows costs using inv
      by (intro ball_update_where) (auto simp: ledger_inv_def ledger_booked_def)
    moreover have "(org, cid) \<in> rr_key ` set (budget_reservation db)"
      using key mem by (metis image_eqI)
    ultimately show ?thesis
      using inv costs unfolding ledger_inv_def ledger_booked_def by auto
  qed
  ultimately show ?thesis by (simp add: ledger_inv_def)
qed

subsection \<open>release and reconcile_expired\<close>

definition mark_released :: "instant \<Rightarrow> reservation_row \<Rightarrow> reservation_row" where
  "mark_released now r = r\<lparr>rr_status := Released, rr_settled := Some now\<rparr>"

definition mark_expired :: "instant \<Rightarrow> reservation_row \<Rightarrow> reservation_row" where
  "mark_expired now r = r\<lparr>rr_status := Expired, rr_settled := Some now\<rparr>"

lemma mark_simps [simp]:
  "rr_key (mark_released now r) = rr_key r" "rr_key (mark_expired now r) = rr_key r"
  "rr_status (mark_released now r) = Released" "rr_status (mark_expired now r) = Expired"
  "rr_organization (mark_released now r) = rr_organization r"
  "rr_organization (mark_expired now r) = rr_organization r"
  "reservation_row_ok (mark_released now r) = reservation_row_ok r"
  "reservation_row_ok (mark_expired now r) = reservation_row_ok r"
  by (simp_all add: mark_released_def mark_expired_def rr_key_def reservation_row_ok_def)

lemma release_tx_cases:
  assumes "release_tx org cid now db = Commit db' a"
  obtains (noop) r where "find_reservation org cid db = Some r" "rr_status r \<noteq> Reserved" "db' = db"
  | (free) r where
      "find_reservation org cid db = Some r" "rr_status r = Reserved"
      "db' = update_reservation org cid (mark_released now)
               (update_budget org (add_reserved (- rr_estimated r)) db)"
      "budget_checked org (update_budget org (add_reserved (- rr_estimated r)) db)"
proof (cases "find_reservation org cid db")
  case None
  with assms show ?thesis by (simp add: release_tx_def)
next
  case (Some r)
  show ?thesis
  proof (cases "rr_status r = Reserved")
    case False
    with assms Some have "db' = db"
      by (cases "rr_status r") (auto simp: release_tx_def hold_already_returned_def)
    with Some False show ?thesis by (rule noop)
  next
    case True
    with assms Some show ?thesis
      by (intro free [OF Some True])
        (auto simp: release_tx_def hold_already_returned_def Let_def mark_released_def [abs_def]
          add_reserved_def [abs_def])
  qed
qed

text \<open>Rows leave the \<open>Reserved\<close> state for good: the general step of release and reconciliation.\<close>

lemma drop_holds_inv:
  assumes inv: "ledger_inv db"
    and g: "\<And>r. rr_key (g r) = rr_key r" "\<And>r. rr_status (g r) \<noteq> Reserved"
      "\<And>r. rr_status (g r) \<noteq> Committed" "\<And>r. reservation_row_ok (g r) = reservation_row_ok r"
    and p: "\<And>r. r \<in> set (budget_reservation db) \<Longrightarrow> p r \<Longrightarrow> rr_organization r = org \<and> rr_status r = Reserved"
    and n: "n = sum_where (\<lambda>r. (rr_organization r = org \<and> rr_status r = Reserved) \<and> p r) rr_estimated
              (budget_reservation db)"
    and chk: "budget_checked org (update_budget org (add_reserved (- n)) db)"
    and db': "db' = update_budget org (add_reserved (- n))
                (db\<lparr>budget_reservation := update_where p g (budget_reservation db)\<rparr>)"
  shows "ledger_inv db'"
proof -
  have org: "rr_organization (g r) = rr_organization r" for r
    using g(1) [of r] by (simp add: rr_key_def)
  have rows: "budget_reservation db' = update_where p g (budget_reservation db)"
    and costs: "cost_ledger db' = cost_ledger db"
    and budgets: "org_budget db' = org_budget (update_budget org (add_reserved (- n)) db)"
    by (simp_all add: db' update_budget_def)
  have spent: "spent_sum o' db' = spent_sum o' db" for o'
    by (simp add: spent_sum_def costs)
  have held: "held_sum o' db' = held_sum o' db - (if o' = org then n else 0)" for o'
  proof -
    have "held_sum o' db' = held_sum o' db -
        sum_where (\<lambda>r. (rr_organization r = o' \<and> rr_status r = Reserved) \<and> p r) rr_estimated
          (budget_reservation db)"
      unfolding held_sum_def rows using g(2) by (intro sum_where_update_drop) auto
    moreover have "sum_where (\<lambda>r. (rr_organization r = o' \<and> rr_status r = Reserved) \<and> p r)
        rr_estimated (budget_reservation db) = 0" if "o' \<noteq> org"
      using p that by (intro sum_where_none) auto
    ultimately show ?thesis using n by auto
  qed
  have "ledger_accounts db'"
  proof (rule ledger_accounts_update [where db = db and org = org and f = "add_reserved (- n)"])
    show "ledger_accounts db" using inv by (simp add: ledger_inv_def)
    show "org_budget db' = update_where (\<lambda>b. bg_organization b = org) (add_reserved (- n)) (org_budget db)"
      by (simp add: budgets) (simp add: update_budget_def)
  qed (use inv in \<open>auto simp: held spent ledger_inv_def ledger_accounts_def\<close>)
  moreover have "ledger_rows db'"
  proof -
    have "\<forall>b\<in>set (org_budget db'). budget_row_ok b"
      unfolding budgets using inv chk
      by (intro budget_rows_checked) (auto simp: ledger_inv_def ledger_rows_def)
    moreover have "\<forall>r\<in>set (budget_reservation db'). reservation_row_ok r"
      unfolding rows using inv g(4)
      by (intro ball_update_where) (auto simp: ledger_inv_def ledger_rows_def)
    ultimately show ?thesis using inv by (simp add: ledger_inv_def ledger_rows_def costs)
  qed
  moreover have "ledger_keys db'"
    using inv g(1) by (simp add: db' ledger_inv_def) (simp add: ledger_keys_def map_update_where)
  moreover have "ledger_booked db'"
    unfolding db' ledger_booked_update_budget
    using inv g p by (intro ledger_booked_update) (auto simp: ledger_inv_def)
  ultimately show ?thesis by (simp add: ledger_inv_def)
qed

lemma release_tx_inv:
  assumes inv: "ledger_inv db" and "release_tx org cid now db = Commit db' a"
  shows "ledger_inv db'"
  using assms(2)
proof (cases rule: release_tx_cases)
  case noop
  with inv show ?thesis by simp
next
  case (free r)
  have keys: "ledger_keys db" using inv by (simp add: ledger_inv_def)
  have r: "rr_organization r = org" "rr_key r = (org, cid)" "r \<in> set (budget_reservation db)"
    using find_reservation_Some [OF free(1)] by (auto simp: rr_key_def)
  have "sum_where (\<lambda>r. (rr_organization r = org \<and> rr_status r = Reserved) \<and> rr_key r = (org, cid))
      rr_estimated (budget_reservation db) = rr_estimated r"
    using keys free(1,2) r unfolding ledger_keys_def find_reservation_def
    by (intro sum_where_unique) auto
  moreover have "rr_organization x = org \<and> rr_status x = Reserved"
    if "x \<in> set (budget_reservation db)" "rr_key x = (org, cid)" for x
    using unique_row [OF keys free(1) that] free(2) r by simp
  ultimately show ?thesis
    using free(3,4)
    by (intro drop_holds_inv [OF inv, of "mark_released now" "\<lambda>r. rr_key r = (org, cid)" org])
      (auto simp: update_reservation_def update_budget_def)
qed

lemma reconcile_tx_cases:
  assumes "reconcile_tx org older now db = Commit db' n"
  obtains (none) "filter (stale org older) (budget_reservation db) = []" "n = 0" "db' = db"
  | (some) m where
      "n = length (filter (stale org older) (budget_reservation db))" "0 < n"
      "m = sum_where (stale org older) rr_estimated (budget_reservation db)"
      "db' = update_budget org (add_reserved (- m))
               (db\<lparr>budget_reservation :=
                   update_where (stale org older) (mark_expired now) (budget_reservation db)\<rparr>)"
      "budget_checked org (update_budget org (add_reserved (- m)) db)"
proof (cases "filter (stale org older) (budget_reservation db) = []")
  case True
  with assms show ?thesis by (intro none) (auto simp: reconcile_tx_def)
next
  case False
  with assms show ?thesis
    by (intro some) (auto simp: reconcile_tx_def Let_def sum_where_def mark_expired_def [abs_def]
        add_reserved_def [abs_def] budget_checked_def update_budget_def)
qed

lemma reconcile_tx_inv:
  assumes inv: "ledger_inv db" and "reconcile_tx org older now db = Commit db' a"
  shows "ledger_inv db'"
  using assms(2)
proof (cases rule: reconcile_tx_cases)
  case none
  with inv show ?thesis by simp
next
  case (some m)
  have "(\<lambda>r. (rr_organization r = org \<and> rr_status r = Reserved) \<and> stale org older r) = stale org older"
    by (auto simp: stale_def fun_eq_iff)
  with some show ?thesis
    by (intro drop_holds_inv [OF inv, of "mark_expired now" "stale org older" org m]) (auto simp: stale_def)
qed

subsection \<open>Every operation, whatever the connection does\<close>

lemma sql_reserve_inv: "ledger_inv db \<Longrightarrow> ledger_inv (fst (sql_reserve org cid est now db))"
  unfolding sql_reserve_def by (rule run_tx_preserves) (auto elim: reserve_tx_inv [rotated])

lemma sql_settle_inv: "ledger_inv db \<Longrightarrow> ledger_inv (fst (sql_settle org cid d now db))"
  unfolding sql_settle_def by (rule run_tx_preserves) (auto elim: settle_tx_inv [rotated])

lemma sql_release_inv: "ledger_inv db \<Longrightarrow> ledger_inv (fst (sql_release org cid now db))"
  unfolding sql_release_def by (rule run_tx_preserves) (auto elim: release_tx_inv [rotated])

lemma sql_reconcile_inv: "ledger_inv db \<Longrightarrow> ledger_inv (fst (sql_reconcile_expired org older now db))"
  unfolding sql_reconcile_expired_def by (rule run_tx_preserves) (auto elim: reconcile_tx_inv [rotated])

end
