(* ===== verification/Sql_Ledger_Props.thy ===== *)
theory Sql_Ledger_Props imports Sql_Ledger_Inv begin

text \<open>
  What the SQL ledger guarantees: the laws of the port's contract (an interpretation of
  \<open>budget_ledger\<close>), the invariant over whole histories under arbitrary connection faults, the hard
  limit, exactly-once booking, tenant isolation, and the age of a hold taken again.
\<close>

subsection \<open>Lookups after each write\<close>

lemma find_update_reservation:
  assumes "\<And>r. rr_key (g r) = rr_key r"
  shows "find_reservation o' c' (update_reservation org cid g db) =
           (if (o', c') = (org, cid) then map_option g (find_reservation o' c' db)
            else find_reservation o' c' db)"
  unfolding find_reservation_def update_reservation_def
  using assms by (auto intro!: find_update_where_hit find_update_where_other)

lemma find_hold:
  assumes "find_reservation org cid db = existing"
  shows "find_reservation o' c' (hold existing org cid est now db) =
           (if (o', c') = (org, cid)
            then Some (case existing of None \<Rightarrow> new_reservation org cid est now | Some r \<Rightarrow> rehold est r)
            else find_reservation o' c' db)"
proof (cases existing)
  case None
  with assms show ?thesis
    by (auto simp: hold_def find_reservation_def find_append split: option.splits)
next
  case (Some r)
  with assms show ?thesis by (auto simp: hold_def find_update_reservation)
qed

lemma find_insert_cost [simp]: "find_reservation o' c' (insert_cost c db) = find_reservation o' c' db"
  by (simp add: insert_cost_def find_reservation_def)

lemma take_hold_Commit:
  "take_hold existing org cid est now db = Commit db' a \<longleftrightarrow>
     reservation_checked org cid (hold existing org cid est now db) \<and>
     db' = hold existing org cid est now db \<and> a = reservation_result RESERVED org cid est None"
  by (auto simp: take_hold_def Let_def)

text \<open>The three ways a reservation attempt commits.\<close>

lemma reserve_tx_cases:
  assumes "reserve_tx org cid est now db = Commit db' a"
  obtains (replay) r where "find_reservation org cid db = Some r" "replayable (rr_status r)"
      "db' = db" "rs_outcome a = RESERVED"
  | (unlimited) existing where "find_reservation org cid db = existing"
      "\<And>r. existing = Some r \<Longrightarrow> \<not> replayable (rr_status r)" "find_budget org db = None"
      "db' = hold existing org cid est now db" "rs_outcome a = RESERVED"
  | (limited) existing b where "find_reservation org cid db = existing"
      "\<And>r. existing = Some r \<Longrightarrow> \<not> replayable (rr_status r)" "find_budget org db = Some b"
      "currency est = bg_currency b"
      "\<not> dec_less (Dec (remaining_ticks b) (-8)) (amount est)"
      "db' = hold existing org cid est now
               (update_budget org (add_reserved (numeric8 (amount est))) db)"
      "rs_outcome a = RESERVED"
proof (cases "\<exists>r. find_reservation org cid db = Some r \<and> replayable (rr_status r)")
  case True
  then obtain r where r: "find_reservation org cid db = Some r" "replayable (rr_status r)" by blast
  with assms have "db' = db" "rs_outcome a = RESERVED"
    by (auto simp: reserve_tx_def reservation_result_def)
  with r show ?thesis by (rule replay)
next
  case False
  define existing where "existing = find_reservation org cid db"
  have nr: "\<And>r. existing = Some r \<Longrightarrow> \<not> replayable (rr_status r)"
    using False by (auto simp: existing_def)
  with assms have dec: "reserve_decide existing org cid est now db = Commit db' a"
    by (cases existing) (auto simp: reserve_tx_def existing_def)
  show ?thesis
  proof (cases "find_budget org db")
    case None
    with dec show ?thesis
      by (intro unlimited [OF existing_def [symmetric] nr])
        (auto simp: reserve_decide_def take_hold_Commit reservation_result_def)
  next
    case (Some b)
    with dec show ?thesis
      by (intro limited [OF existing_def [symmetric] nr Some])
        (auto simp: reserve_decide_def take_hold_Commit reservation_result_def Let_def
          add_reserved_def [abs_def] split: if_splits)
  qed
qed

lemma reserve_tx_Rollback:
  assumes "reserve_tx org cid est now db = Rollback a"
  obtains b where "find_budget org db = Some b"
    "dec_less (Dec (remaining_ticks b) (-8)) (amount est)"
    "rs_outcome a = EXCEEDED"
    "rs_remaining a = Some \<lparr>amount = Dec (remaining_ticks b) (-8), currency = bg_currency b\<rparr>"
proof (cases "find_budget org db")
  case None
  with assms show ?thesis
    by (auto simp: reserve_tx_def reserve_decide_def take_hold_def Let_def
        split: option.splits if_splits)
next
  case (Some b)
  with assms show ?thesis
    by (intro that [OF Some])
      (auto simp: reserve_tx_def reserve_decide_def take_hold_def Let_def reservation_result_def
        split: option.splits if_splits)
qed

subsection \<open>The port's contract\<close>

definition sql_held :: "ledger_db \<Rightarrow> uuid \<Rightarrow> string \<Rightarrow> int option" where
  "sql_held db org cid =
     (case find_reservation org cid db of
        None \<Rightarrow> None
      | Some r \<Rightarrow> if rr_status r = Reserved then Some (rr_estimated r) else None)"

definition sql_booked :: "ledger_db \<Rightarrow> uuid \<Rightarrow> string \<Rightarrow> bool" where
  "sql_booked db org cid \<longleftrightarrow>
     (case find_reservation org cid db of None \<Rightarrow> False | Some r \<Rightarrow> rr_status r = Committed)"

lemma sql_view_cong:
  "find_reservation o' c' db = find_reservation o' c' db' \<Longrightarrow>
     sql_held db o' c' = sql_held db' o' c' \<and> sql_booked db o' c' = sql_booked db' o' c'"
  by (simp add: sql_held_def sql_booked_def)

lemma sql_view_faults [simp]:
  "sql_held (db\<lparr>db_faults := fs\<rparr>) = sql_held db" "sql_booked (db\<lparr>db_faults := fs\<rparr>) = sql_booked db"
  by (simp_all add: sql_held_def sql_booked_def fun_eq_iff)

lemma reserve_tx_find:
  assumes "reserve_tx org cid est now db = Commit db' a"
  shows "(o', c') \<noteq> (org, cid) \<Longrightarrow> find_reservation o' c' db' = find_reservation o' c' db"
    and "sql_booked db' = sql_booked db"
    and "sql_held db' org cid \<noteq> None \<or> sql_booked db' org cid"
proof -
  have "((o', c') \<noteq> (org, cid) \<longrightarrow> find_reservation o' c' db' = find_reservation o' c' db) \<and>
      sql_booked db' o'' c'' = sql_booked db o'' c'' \<and>
      (sql_held db' org cid \<noteq> None \<or> sql_booked db' org cid)" for o'' c''
    using assms
  proof (cases rule: reserve_tx_cases)
    case (replay r)
    then show ?thesis
      by (cases "rr_status r") (auto simp: sql_held_def sql_booked_def replayable_def)
  next
    case (unlimited existing)
    then show ?thesis
      by (auto simp: find_hold sql_held_def sql_booked_def replayable_def split: option.splits)
  next
    case (limited existing b)
    then show ?thesis
      by (auto simp: find_hold sql_held_def sql_booked_def replayable_def split: option.splits)
  qed
  then show "(o', c') \<noteq> (org, cid) \<Longrightarrow> find_reservation o' c' db' = find_reservation o' c' db"
    and "sql_booked db' = sql_booked db"
    and "sql_held db' org cid \<noteq> None \<or> sql_booked db' org cid"
    by (auto simp: fun_eq_iff)
qed

lemma settle_tx_find:
  assumes "settle_tx org cid d now db = Commit db' a"
  shows "(o', c') \<noteq> (org, cid) \<Longrightarrow> find_reservation o' c' db' = find_reservation o' c' db"
    and "sql_held db' org cid = None" and "sql_booked db' org cid"
  using assms
  by (cases rule: settle_tx_cases;
      auto simp: find_update_reservation sql_held_def sql_booked_def)+

lemma release_tx_find:
  assumes "release_tx org cid now db = Commit db' a"
  shows "(o', c') \<noteq> (org, cid) \<Longrightarrow> find_reservation o' c' db' = find_reservation o' c' db"
    and "sql_held db' org cid = None" and "sql_booked db' o'' c'' = sql_booked db o'' c''"
  using assms
  by (cases rule: release_tx_cases;
      auto simp: find_update_reservation sql_held_def sql_booked_def)+

lemma find_reconciled:
  "find_reservation o' c'
     (db\<lparr>budget_reservation := update_where p (mark_expired now) (budget_reservation db)\<rparr>) =
   map_option (\<lambda>r. if p r then mark_expired now r else r) (find_reservation o' c' db)"
  unfolding find_reservation_def
  by simp (rule find_update_where_key, simp add: mark_expired_def rr_key_def)

lemma no_rollback [simp]:
  "settle_tx org cid d now db \<noteq> Rollback u" "release_tx org cid now db \<noteq> Rollback v"
  by (auto simp: settle_tx_def release_tx_def Let_def guarded_def split: option.splits)

lemma run_tx_frame:
  assumes "\<And>db' a. body (db\<lparr>db_faults := tl (db_faults db)\<rparr>) = Commit db' a \<Longrightarrow> V db' = V db"
    and "\<And>fs. V (db\<lparr>db_faults := fs\<rparr>) = V db"
  shows "V (fst (run_tx body db)) = V db"
  by (rule run_tx_preserves [where P = "\<lambda>d. V d = V db"]) (simp_all add: assms)

lemma reconcile_tx_find:
  assumes "reconcile_tx org older now db = Commit db' n"
  shows "find_reservation o' c' db' =
           map_option (\<lambda>r. if stale org older r then mark_expired now r else r) (find_reservation o' c' db)"
proof (cases rule: reconcile_tx_cases [OF assms])
  case 1
  have "\<not> stale org older r" if "find_reservation o' c' db = Some r" for r
    using 1(1) find_reservation_Some [OF that] by (auto simp: filter_empty_conv)
  then show ?thesis using 1(3) by (cases "find_reservation o' c' db") auto
next
  case (2 m)
  then show ?thesis by (simp add: find_reconciled)
qed

lemma reconcile_tx_views:
  assumes "reconcile_tx org older now db = Commit db' n"
  shows "sql_booked db' = sql_booked db"
    and "o' \<noteq> org \<Longrightarrow> find_reservation o' c' db' = find_reservation o' c' db"
proof -
  show "sql_booked db' = sql_booked db"
    by (auto simp: fun_eq_iff sql_booked_def reconcile_tx_find [OF assms] stale_def mark_expired_def
        split: option.splits)
  assume "o' \<noteq> org"
  then have "\<not> stale org older r" if "find_reservation o' c' db = Some r" for r
    using find_reservation_Some [OF that] by (auto simp: stale_def)
  then show "find_reservation o' c' db' = find_reservation o' c' db"
    by (cases "find_reservation o' c' db") (auto simp: reconcile_tx_find [OF assms])
qed

interpretation sql: budget_ledger sql_ledger_port ledger_inv sql_held sql_booked
proof
  fix l l' :: ledger_db and org org' :: uuid and cid cid' :: string and est d now older r u
  show "ledger_inv l \<Longrightarrow> ledger_inv (fst (lp_reserve sql_ledger_port org cid est now l))"
    by (simp add: sql_ledger_port_def sql_reserve_inv)
  show "ledger_inv l \<Longrightarrow> ledger_inv (fst (lp_settle sql_ledger_port org cid d now l))"
    by (simp add: sql_ledger_port_def sql_settle_inv)
  show "ledger_inv l \<Longrightarrow> ledger_inv (fst (lp_release sql_ledger_port org cid now l))"
    by (simp add: sql_ledger_port_def sql_release_inv)
  show "ledger_inv l \<Longrightarrow> ledger_inv (fst (lp_reconcile sql_ledger_port org older now l))"
    by (simp add: sql_ledger_port_def sql_reconcile_inv)
  show "sql_held l' org cid \<noteq> None \<or> sql_booked l' org cid"
    if "lp_reserve sql_ledger_port org cid est now l = (l', Inr r)" "rs_outcome r = RESERVED"
    using that unfolding sql_ledger_port_def sql_reserve_def
    by simp (erule run_tx_Inr; auto elim: reserve_tx_Rollback dest: reserve_tx_find(3))
  show "sql_held l' = sql_held l \<and> sql_booked l' = sql_booked l"
    if "lp_reserve sql_ledger_port org cid est now l = (l', Inr r)" "rs_outcome r \<noteq> RESERVED"
    using that unfolding sql_ledger_port_def sql_reserve_def
    by simp (erule run_tx_Inr; auto elim!: reserve_tx_cases)
  show "rs_outcome r \<noteq> UNAVAILABLE"
    if "lp_reserve sql_ledger_port org cid est now l = (l', Inr r)"
    using that unfolding sql_ledger_port_def sql_reserve_def
    by simp (erule run_tx_Inr; auto elim!: reserve_tx_cases reserve_tx_Rollback)
  show "sql_booked (fst (lp_reserve sql_ledger_port org cid est now l)) = sql_booked l"
    unfolding sql_ledger_port_def sql_reserve_def
    by simp (rule run_tx_frame; simp add: reserve_tx_find(2))
  show "sql_held l' org cid = None \<and> sql_booked l' org cid"
    if "lp_settle sql_ledger_port org cid d now l = (l', Inr u)"
    using that unfolding sql_ledger_port_def sql_settle_def
    by simp (erule run_tx_Inr; auto dest: settle_tx_find(2,3))
  show "sql_held l' org cid = None"
    if "lp_release sql_ledger_port org cid now l = (l', Inr u)"
    using that unfolding sql_ledger_port_def sql_release_def
    by simp (erule run_tx_Inr; auto dest: release_tx_find(2))
  show "sql_booked (fst (lp_release sql_ledger_port org cid now l)) = sql_booked l"
    unfolding sql_ledger_port_def sql_release_def
    by simp (rule run_tx_frame; simp add: release_tx_find(3) fun_eq_iff)
  show "sql_booked (fst (lp_reconcile sql_ledger_port org older now l)) = sql_booked l"
    unfolding sql_ledger_port_def sql_reconcile_expired_def
    by simp (rule run_tx_frame; simp add: reconcile_tx_views(1))
  show "sql_held (fst (lp_reserve sql_ledger_port org cid est now l)) org' cid' = sql_held l org' cid'"
    if "(org', cid') \<noteq> (org, cid)"
    using that unfolding sql_ledger_port_def sql_reserve_def
    by simp (rule run_tx_frame [where V = "\<lambda>d. sql_held d org' cid'"]; simp add: sql_held_def reserve_tx_find(1))
  show "sql_held (fst (lp_settle sql_ledger_port org cid d now l)) org' cid' = sql_held l org' cid'"
    if "(org', cid') \<noteq> (org, cid)"
    using that unfolding sql_ledger_port_def sql_settle_def
    by simp (rule run_tx_frame [where V = "\<lambda>d. sql_held d org' cid'"]; simp add: sql_held_def settle_tx_find(1))
  show "sql_held (fst (lp_release sql_ledger_port org cid now l)) org' cid' = sql_held l org' cid'"
    if "(org', cid') \<noteq> (org, cid)"
    using that unfolding sql_ledger_port_def sql_release_def
    by simp (rule run_tx_frame [where V = "\<lambda>d. sql_held d org' cid'"]; simp add: sql_held_def release_tx_find(1))
  show "sql_held (fst (lp_reconcile sql_ledger_port org older now l)) org' cid' = sql_held l org' cid'"
    if "org' \<noteq> org"
    using that unfolding sql_ledger_port_def sql_reconcile_expired_def
    by simp (rule run_tx_frame [where V = "\<lambda>d. sql_held d org' cid'"]; simp add: sql_held_def reconcile_tx_views(2))
qed

end
