(* ===== verification/Sql_Ledger_History.thy ===== *)
theory Sql_Ledger_History imports Sql_Ledger_Props begin

text \<open>
  Whole histories of the SQL ledger: any sequence of port calls, from any tenants, under any
  connection faults. The properties of the ledger are stated here.
\<close>

subsection \<open>Histories\<close>

datatype ledger_op =
    Op_reserve uuid string money instant
  | Op_settle uuid string settlement_detail instant
  | Op_release uuid string instant
  | Op_reconcile uuid instant instant

fun ledger_step :: "'l ledger_port \<Rightarrow> ledger_op \<Rightarrow> 'l \<Rightarrow> 'l" where
  "ledger_step port (Op_reserve org cid est now) l = fst (lp_reserve port org cid est now l)"
| "ledger_step port (Op_settle org cid d now) l = fst (lp_settle port org cid d now l)"
| "ledger_step port (Op_release org cid now) l = fst (lp_release port org cid now l)"
| "ledger_step port (Op_reconcile org older now) l = fst (lp_reconcile port org older now l)"

primrec ledger_run :: "'l ledger_port \<Rightarrow> ledger_op list \<Rightarrow> 'l \<Rightarrow> 'l" where
  "ledger_run port [] l = l"
| "ledger_run port (op # ops) l = ledger_run port ops (ledger_step port op l)"

primrec op_tenant :: "ledger_op \<Rightarrow> uuid" where
  "op_tenant (Op_reserve org cid est now) = org"
| "op_tenant (Op_settle org cid d now) = org"
| "op_tenant (Op_release org cid now) = org"
| "op_tenant (Op_reconcile org older now) = org"

context budget_ledger
begin

lemma wf_step: "wf l \<Longrightarrow> wf (ledger_step port op l)"
  by (cases op) (simp_all add: wf_reserve wf_settle wf_release wf_reconcile)

lemma wf_run: "wf l \<Longrightarrow> wf (ledger_run port ops l)"
  by (induction ops arbitrary: l) (simp_all add: wf_step)

lemma other_tenant_held:
  "wf l \<Longrightarrow> op_tenant op \<noteq> org \<Longrightarrow> held (ledger_step port op l) org cid = held l org cid"
  by (cases op) (auto simp: other_reserve other_settle other_release other_tenant_reconcile)

lemma other_tenant_run:
  "wf l \<Longrightarrow> (\<And>op. op \<in> set ops \<Longrightarrow> op_tenant op \<noteq> org) \<Longrightarrow>
     held (ledger_run port ops l) org cid = held l org cid"
  by (induction ops arbitrary: l) (simp_all add: wf_step other_tenant_held)

text \<open>Granted, then settled: the hold is gone and the spend is booked.\<close>

lemma reserve_then_settle:
  "wf l \<Longrightarrow> lp_settle port org cid d now (fst (lp_reserve port org cid est now l)) = (l', Inr u) \<Longrightarrow>
     held l' org cid = None \<and> booked l' org cid"
  by (rule settle_done [OF wf_reserve])

end

subsection \<open>Facts shared by the histories\<close>

lemma sql_step [simp]:
  "ledger_step sql_ledger_port (Op_reserve org cid est now) db = fst (sql_reserve org cid est now db)"
  "ledger_step sql_ledger_port (Op_settle org cid d now) db = fst (sql_settle org cid d now db)"
  "ledger_step sql_ledger_port (Op_release org cid now) db = fst (sql_release org cid now db)"
  "ledger_step sql_ledger_port (Op_reconcile org older now) db =
     fst (sql_reconcile_expired org older now db)"
  by (simp_all add: sql_ledger_port_def)

lemma unique_budget:
  "ledger_keys db \<Longrightarrow> find_budget org db = Some b \<Longrightarrow> x \<in> set (org_budget db) \<Longrightarrow>
     bg_organization x = org \<Longrightarrow> x = b"
proof -
  assume k: "ledger_keys db" and f: "find_budget org db = Some b"
    and x: "x \<in> set (org_budget db)" "bg_organization x = org"
  from k x(1) have "find (\<lambda>b. bg_organization b = bg_organization x) (org_budget db) = Some x"
    unfolding ledger_keys_def by (intro distinct_keys_find) auto
  with f x(2) show "x = b" by (simp add: find_budget_def)
qed

lemma find_budget_update:
  "(\<And>b. bg_organization (f b) = bg_organization b) \<Longrightarrow>
     find_budget o' (update_budget org f db) =
       (if o' = org then map_option f (find_budget org db) else find_budget o' db)"
  unfolding find_budget_def update_budget_def
  by (auto intro!: find_update_where_hit find_update_where_other)

lemma find_budget_others [simp]:
  "find_budget o' (update_reservation org cid g db) = find_budget o' db"
  "find_budget o' (insert_cost c db) = find_budget o' db"
  "find_budget o' (hold existing org cid est now db) = find_budget o' db"
  "find_budget o' (db\<lparr>budget_reservation := rs\<rparr>) = find_budget o' db"
  by (simp_all add: find_budget_def update_reservation_def insert_cost_def hold_def
      split: option.splits)

text \<open>Rounding to the column never passes a bound that is itself on the column's grid.\<close>

lemma numeric8_le:
  assumes "\<not> dec_less (Dec n (-8)) d"
  shows "numeric8 d \<le> n"
proof (cases d)
  case (Dec c e)
  show ?thesis
  proof (cases "-8 \<le> e")
    case True
    with assms Dec show ?thesis by (simp add: min_def split: if_splits)
  next
    case False
    define m :: int where "m = 10 ^ nat (-8 - e)"
    have m: "0 < m" by (simp add: m_def)
    from assms Dec False have c: "c \<le> n * m"
      by (simp add: min_def m_def)
    have mid: "(2 * (k * m) + m) div (2 * m) = k" for k
    proof -
      have "(2 * (k * m) + m) = m + k * (2 * m)" by simp
      then have "(2 * (k * m) + m) div (2 * m) = k + m div (2 * m)"
        using m by (metis div_mult_self1 less_irrefl mult_eq_0_iff zero_neq_numeral)
      also have "m div (2 * m) = 0" using m by simp
      finally show ?thesis by simp
    qed
    have "sgn c * ((2 * abs c + m) div (2 * m)) \<le> n"
    proof (cases "0 < c")
      case True
      have "(2 * c + m) div (2 * m) \<le> (2 * (n * m) + m) div (2 * m)"
        using c m by (intro zdiv_mono1) auto
      with True mid show ?thesis by simp
    next
      case False
      have "(2 * (- n * m) + m) div (2 * m) \<le> (2 * (- c) + m) div (2 * m)"
        using c m by (intro zdiv_mono1) auto
      with False mid [of "- n"] show ?thesis
        using c m by (cases "c = 0") (auto simp: zero_le_mult_iff)
    qed
    with Dec False show ?thesis by (simp add: m_def Let_def)
  qed
qed

subsection \<open>The limit\<close>

definition within_limit :: "ledger_db \<Rightarrow> bool" where
  "within_limit db \<longleftrightarrow> (\<forall>b\<in>set (org_budget db). bg_reserved b + bg_spent b \<le> bg_limit b)"

lemma within_limit_faults [simp]: "within_limit (db\<lparr>db_faults := fs\<rparr>) = within_limit db"
  by (simp add: within_limit_def)

lemma within_limit_rest [simp]:
  "within_limit (update_reservation org cid g db) = within_limit db"
  "within_limit (insert_cost c db) = within_limit db"
  "within_limit (hold existing org cid est now db) = within_limit db"
  "within_limit (db\<lparr>budget_reservation := rs\<rparr>) = within_limit db"
  by (simp_all add: within_limit_def update_reservation_def insert_cost_def hold_def split: option.splits)

lemma within_limit_update:
  assumes "within_limit db"
    and "\<And>b. b \<in> set (org_budget db) \<Longrightarrow> bg_organization b = org \<Longrightarrow>
           bg_reserved (f b) + bg_spent (f b) \<le> bg_limit (f b)"
  shows "within_limit (update_budget org f db)"
  using assms unfolding within_limit_def update_budget_def
  by simp (intro ball_update_where; auto)

lemma settle_budget_simps [simp]:
  "bg_spent (settle_budget s e t b) = bg_spent b + t"
  "bg_reserved (settle_budget s e t b) = (if s = Reserved then bg_reserved b - e else bg_reserved b)"
  "bg_limit (settle_budget s e t b) = bg_limit b"
  by (simp_all add: settle_budget_def Let_def)

text \<open>A settlement is covered when the hold is still live and was at least as large as the cost.\<close>

fun op_covered :: "ledger_db \<Rightarrow> ledger_op \<Rightarrow> bool" where
  "op_covered db (Op_settle org cid d now) \<longleftrightarrow>
     (case find_reservation org cid db of
        None \<Rightarrow> True
      | Some r \<Rightarrow> rr_status r \<noteq> Expired \<and>
          (rr_status r = Reserved \<longrightarrow> numeric8 (amount (sd_total d)) \<le> rr_estimated r))"
| "op_covered db _ \<longleftrightarrow> True"

primrec run_covered :: "ledger_op list \<Rightarrow> ledger_db \<Rightarrow> bool" where
  "run_covered [] db \<longleftrightarrow> True"
| "run_covered (op # ops) db \<longleftrightarrow>
     op_covered db op \<and> run_covered ops (ledger_step sql_ledger_port op db)"

lemma reserve_within:
  assumes "ledger_inv db" "within_limit db" "reserve_tx org cid est now db = Commit db' a"
  shows "within_limit db'"
  using assms(3)
proof (cases rule: reserve_tx_cases)
  case (limited existing b)
  have "numeric8 (amount est) \<le> remaining_ticks b"
    using limited(5) by (rule numeric8_le)
  moreover have "x = b" if "x \<in> set (org_budget db)" "bg_organization x = org" for x
    using assms(1) limited(3) that unfolding ledger_inv_def by (blast intro: unique_budget)
  ultimately show ?thesis
    using assms(2) unfolding limited(6)
    by (simp, intro within_limit_update) (auto simp: remaining_ticks_def)
qed (use assms(2) in simp_all)

lemma settle_within:
  assumes "within_limit db" "op_covered db (Op_settle org cid d now)"
    "settle_tx org cid d now db = Commit db' a"
  shows "within_limit db'"
  using assms(3)
proof (cases rule: settle_tx_cases)
  case (book r n db1 db2)
  with assms(2) have "rr_status r = Reserved" "n \<le> rr_estimated r" by auto
  then show ?thesis
    using assms(1) unfolding book(5-7)
    by (simp, intro within_limit_update) (auto simp: within_limit_def)
qed (use assms(1) in simp_all)

lemma dropped_within:
  "within_limit db \<Longrightarrow> 0 \<le> n \<Longrightarrow> within_limit (update_budget org (add_reserved (- n)) db)"
  by (rule within_limit_update) (auto simp: within_limit_def)

lemma release_within:
  assumes "ledger_inv db" "within_limit db" "release_tx org cid now db = Commit db' a"
  shows "within_limit db'"
  using assms(3)
proof (cases rule: release_tx_cases)
  case (free r)
  have "0 \<le> rr_estimated r"
    using find_reservation_Some [OF free(1)] assms(1)
    by (auto simp: ledger_inv_def ledger_rows_def reservation_row_ok_def)
  with assms(2) show ?thesis unfolding free(3) by (simp add: dropped_within)
qed (use assms(2) in simp_all)

lemma reconcile_within:
  assumes "ledger_inv db" "within_limit db" "reconcile_tx org older now db = Commit db' a"
  shows "within_limit db'"
  using assms(3)
proof (cases rule: reconcile_tx_cases)
  case (some m)
  have "0 \<le> m"
    unfolding some(3) using assms(1)
    by (intro sum_where_nonneg) (auto simp: ledger_inv_def ledger_rows_def reservation_row_ok_def)
  with assms(2) show ?thesis unfolding some(4) by (intro dropped_within) simp_all
qed (use assms(2) in simp_all)

lemma step_within:
  assumes "ledger_inv db" "within_limit db" "op_covered db op"
  shows "within_limit (ledger_step sql_ledger_port op db)"
proof (cases op)
  case (Op_reserve org cid est now)
  show ?thesis unfolding Op_reserve sql_step sql_reserve_def
    by (rule run_tx_preserves, erule reserve_within [rotated 2]) (use assms in simp_all)
next
  case (Op_settle org cid d now)
  with assms(3) have c: "op_covered (db\<lparr>db_faults := fs\<rparr>) (Op_settle org cid d now)" for fs by simp
  show ?thesis unfolding Op_settle sql_step sql_settle_def
  proof (rule run_tx_preserves)
    fix db' a assume "settle_tx org cid d now (db\<lparr>db_faults := tl (db_faults db)\<rparr>) = Commit db' a"
    then show "within_limit db'"
      by (rule settle_within [rotated 2]) (use assms(2) c in simp_all)
  qed (use assms(2) in simp)
next
  case (Op_release org cid now)
  show ?thesis unfolding Op_release sql_step sql_release_def
    by (rule run_tx_preserves, erule release_within [rotated 2]) (use assms in simp_all)
next
  case (Op_reconcile org older now)
  show ?thesis unfolding Op_reconcile sql_step sql_reconcile_expired_def
    by (rule run_tx_preserves, erule reconcile_within [rotated 2]) (use assms in simp_all)
qed

lemma run_within:
  "ledger_inv db \<Longrightarrow> within_limit db \<Longrightarrow> run_covered ops db \<Longrightarrow>
     within_limit (ledger_run sql_ledger_port ops db)"
proof (induction ops arbitrary: db)
  case (Cons op ops)
  have "within_limit (ledger_step sql_ledger_port op db)"
    using Cons.prems by (intro step_within) simp_all
  with Cons sql.wf_step [of db op] show ?case by (simp del: sql_step)
qed simp

subsection \<open>The properties of the ledger\<close>

definition fresh_ledger :: "budget_row list \<Rightarrow> db_fault option list \<Rightarrow> ledger_db" where
  "fresh_ledger bs fs =
     \<lparr>org_budget = bs, budget_reservation = [], cost_ledger = [], db_faults = fs\<rparr>"

definition sample_budget :: budget_row where
  "sample_budget = \<lparr>bg_organization = 7, bg_limit = 1000, bg_currency = ''USD'', bg_reserved = 0, bg_spent = 0\<rparr>"

definition sample_ops :: "ledger_op list" where
  "sample_ops =
     [Op_reserve 7 ''a#1'' \<lparr>amount = Dec 300 (-8), currency = ''USD''\<rparr> 10,
      Op_reserve 7 ''b#1'' \<lparr>amount = Dec 400 (-8), currency = ''USD''\<rparr> 20,
      Op_settle 7 ''a#1''
        \<lparr>sd_provider = ''openai'', sd_model = ''gpt'', sd_prompt = 5, sd_completion = 6,
         sd_input = \<lparr>amount = Dec 100 (-8), currency = ''USD''\<rparr>,
         sd_output = \<lparr>amount = Dec 150 (-8), currency = ''USD''\<rparr>,
         sd_total = \<lparr>amount = Dec 250 (-8), currency = ''USD''\<rparr>\<rparr> 30,
      Op_reconcile 7 25 40]"

lemma fresh_inv:
  "distinct (map bg_organization bs) \<Longrightarrow>
     \<forall>b\<in>set bs. budget_row_ok b \<and> bg_reserved b = 0 \<and> bg_spent b = 0 \<Longrightarrow>
     ledger_inv (fresh_ledger bs fs)"
  unfolding fresh_ledger_def by (rule ledger_inv_fresh)

text \<open>C2: the ledger's accounts always balance. From freshly configured budgets, after any sequence of
reserve, settle, release and reconcile calls of any organizations, with the connection lost before
or after any of the commits, every budget row holds exactly the sum of the estimates of its live
holds and exactly the sum of the cost rows of its organization, both non-negative, and no
reservation has two cost rows.\<close>

theorem ledger_accounts_balance:
  assumes "distinct (map bg_organization bs)"
    and "\<forall>b\<in>set bs. budget_row_ok b \<and> bg_reserved b = 0 \<and> bg_spent b = 0"
    and "db = ledger_run sql_ledger_port ops (fresh_ledger bs faults)"
  shows "(\<forall>b\<in>set (org_budget db).
            bg_reserved b = held_sum (bg_organization b) db \<and>
            bg_spent b = spent_sum (bg_organization b) db \<and> 0 \<le> bg_reserved b \<and> 0 \<le> bg_spent b) \<and>
         distinct (map cl_key (cost_ledger db))"
proof -
  have "ledger_inv db" unfolding assms(3) by (rule sql.wf_run [OF fresh_inv [OF assms(1,2)]])
  then show ?thesis by (auto simp: ledger_inv_defs budget_row_ok_def)
qed

theorem ledger_accounts_balance_witness:
  "(let db = ledger_run sql_ledger_port sample_ops
               (fresh_ledger [sample_budget] [None, Some Lost_after_commit]) in
    list_all (\<lambda>b. bg_reserved b = held_sum (bg_organization b) db \<and>
       bg_spent b = spent_sum (bg_organization b) db \<and> 0 \<le> bg_reserved b \<and> 0 \<le> bg_spent b)
      (org_budget db) \<and>
    distinct (map cl_key (cost_ledger db)))"
  unfolding Let_def list_all_iff
  by (rule ledger_accounts_balance [of "[sample_budget]" _ sample_ops "[None, Some Lost_after_commit]"])
    (simp_all add: sample_budget_def budget_row_ok_def in_range_def)

text \<open>C4: a budget is never overspent while its settlements are covered. From freshly configured
budgets, if every settlement finds its hold live and costs no more than the hold, then after any
sequence of calls under any connection faults reserved plus spent is at most the limit of every
organization.\<close>

theorem budget_never_overspent:
  assumes "distinct (map bg_organization bs)"
    and "\<forall>b\<in>set bs. budget_row_ok b \<and> bg_reserved b = 0 \<and> bg_spent b = 0"
    and "run_covered ops (fresh_ledger bs faults)"
  shows "\<forall>b\<in>set (org_budget (ledger_run sql_ledger_port ops (fresh_ledger bs faults))).
           bg_reserved b + bg_spent b \<le> bg_limit b"
proof -
  have "within_limit (fresh_ledger bs faults)"
    using assms(2) by (auto simp: within_limit_def fresh_ledger_def budget_row_ok_def)
  from run_within [OF fresh_inv [OF assms(1,2)] this assms(3)]
  show ?thesis by (simp add: within_limit_def)
qed

theorem budget_never_overspent_witness:
  "list_all (\<lambda>b. bg_reserved b + bg_spent b \<le> bg_limit b)
     (org_budget (ledger_run sql_ledger_port sample_ops (fresh_ledger [sample_budget] [])))"
proof -
  have c: "run_covered sample_ops (fresh_ledger [sample_budget] [])"
    by code_simp
  show ?thesis
    using budget_never_overspent [of "[sample_budget]" sample_ops "[]", OF _ _ c]
    by (simp add: sample_budget_def budget_row_ok_def in_range_def list_all_iff)
qed

subsubsection \<open>What one reservation decides\<close>

lemma run_tx_no_fault: "db_faults db = [] \<Longrightarrow>
    run_tx body db =
      (case body db of Raise e \<Rightarrow> (db, Inl e) | Rollback a \<Rightarrow> (db, Inr a) | Commit db' a \<Rightarrow> (db', Inr a))"
proof -
  assume f: "db_faults db = []"
  then have "db\<lparr>db_faults := tl (db_faults db)\<rparr> = db" by simp
  then show ?thesis unfolding run_tx_def Let_def
    by (simp only:) (simp add: f split: tx.split)
qed

lemma reserve_tx_limited:
  assumes "find_budget org db = Some b"
    and "\<And>r. find_reservation org cid db = Some r \<Longrightarrow> \<not> replayable (rr_status r)"
    and "currency est = bg_currency b"
  shows "dec_less (Dec (remaining_ticks b) (-8)) (amount est) \<Longrightarrow>
      reserve_tx org cid est now db =
        Rollback (reservation_result EXCEEDED org cid est
          (Some \<lparr>amount = Dec (remaining_ticks b) (-8), currency = bg_currency b\<rparr>))"
    and "reserve_tx org cid est now db = Commit db' a \<Longrightarrow>
      \<not> dec_less (Dec (remaining_ticks b) (-8)) (amount est) \<and>
      sql_held db' org cid = Some (numeric8 (amount est)) \<and>
      find_budget org db' = Some (add_reserved (numeric8 (amount est)) b) \<and>
      a = reservation_result RESERVED org cid est None"
proof -
  define existing where "existing = find_reservation org cid db"
  have dec: "reserve_tx org cid est now db = reserve_decide existing org cid est now db"
    using assms(2) unfolding existing_def reserve_tx_def by (auto split: option.split)
  show "dec_less (Dec (remaining_ticks b) (-8)) (amount est) \<Longrightarrow>
      reserve_tx org cid est now db =
        Rollback (reservation_result EXCEEDED org cid est
          (Some \<lparr>amount = Dec (remaining_ticks b) (-8), currency = bg_currency b\<rparr>))"
    using assms(1,3) by (simp add: dec reserve_decide_def)
  assume c: "reserve_tx org cid est now db = Commit db' a"
  show "\<not> dec_less (Dec (remaining_ticks b) (-8)) (amount est) \<and>
      sql_held db' org cid = Some (numeric8 (amount est)) \<and>
      find_budget org db' = Some (add_reserved (numeric8 (amount est)) b) \<and>
      a = reservation_result RESERVED org cid est None"
  proof -
    from c assms(1,3) have l: "\<not> dec_less (Dec (remaining_ticks b) (-8)) (amount est)"
      and d: "db' = hold existing org cid est now (update_budget org (add_reserved (numeric8 (amount est))) db)"
      and a: "a = reservation_result RESERVED org cid est None"
      by (auto simp: dec reserve_decide_def take_hold_Commit Let_def add_reserved_def [abs_def]
          split: if_splits)
    have "find_reservation org cid (update_budget org (add_reserved (numeric8 (amount est))) db) = existing"
      by (simp add: existing_def)
    from find_hold [OF this] have "sql_held db' org cid = Some (numeric8 (amount est))"
      by (simp add: d sql_held_def split: option.split)
    with l a assms(1) show ?thesis by (simp add: d find_budget_update)
  qed
qed

text \<open>C20: the limit decides a reservation. For a reservation that is not a replay, in the budget's
currency, an answer is RESERVED exactly when the estimate's value is at most limit - spent -
reserved. When it is, the estimate is held, reserved grows by it and reserved plus spent stay within
the limit; otherwise nothing is written and EXCEEDED carries the remaining amount.\<close>

theorem reserve_decided_by_remaining:
  assumes "sql_reserve org cid est now db = (db', Inr r)" "db_faults db = []"
    and "find_budget org db = Some b" "currency est = bg_currency b"
    and "\<And>row. find_reservation org cid db = Some row \<Longrightarrow> \<not> replayable (rr_status row)"
  shows "(permitted r \<longleftrightarrow> dec_value (amount est) \<le> dec_value (Dec (remaining_ticks b) (-8))) \<and>
    (if permitted r
     then sql_held db' org cid = Some (numeric8 (amount est)) \<and>
          (\<exists>b'. find_budget org db' = Some b' \<and> bg_limit b' = bg_limit b \<and> bg_spent b' = bg_spent b \<and>
                bg_reserved b' = bg_reserved b + numeric8 (amount est) \<and>
                bg_reserved b' + bg_spent b' \<le> bg_limit b')
     else db' = db \<and> rs_outcome r = EXCEEDED \<and>
          rs_remaining r = Some \<lparr>amount = Dec (remaining_ticks b) (-8), currency = bg_currency b\<rparr>)"
proof (cases "reserve_tx org cid est now db")
  case (Commit db1 a)
  with assms(1,2) have e: "db1 = db'" "a = r" by (simp_all add: sql_reserve_def run_tx_no_fault)
  note l = reserve_tx_limited(2) [OF assms(3,5,4) Commit]
  from l have "numeric8 (amount est) \<le> remaining_ticks b" by (intro numeric8_le) simp
  with l e show ?thesis
    by (simp add: dec_less_value not_less permitted_def reservation_result_def remaining_ticks_def)
next
  case (Rollback a)
  with assms(1,2) have e: "db' = db" "a = r" by (simp_all add: sql_reserve_def run_tx_no_fault)
  from Rollback obtain b' where "find_budget org db = Some b'"
    "dec_less (Dec (remaining_ticks b') (-8)) (amount est)" "rs_outcome a = EXCEEDED"
    "rs_remaining a = Some \<lparr>amount = Dec (remaining_ticks b') (-8), currency = bg_currency b'\<rparr>"
    by (rule reserve_tx_Rollback)
  with assms(3) e show ?thesis
    by (simp add: permitted_def dec_less_value not_le del: dec_value.simps)
next
  case (Raise e)
  with assms(1,2) show ?thesis by (simp add: sql_reserve_def run_tx_no_fault)
qed

definition sample_estimate :: money where
  "sample_estimate = \<lparr>amount = Dec 300 (-8), currency = ''USD''\<rparr>"

definition sample_held :: ledger_db where
  "sample_held = fst (sql_reserve 7 ''a#1'' sample_estimate 10 (fresh_ledger [sample_budget] []))"

lemma sample_reserve:
  "sql_reserve 7 ''a#1'' sample_estimate 10 (fresh_ledger [sample_budget] []) =
     (sample_held, Inr (reservation_result RESERVED 7 ''a#1'' sample_estimate None))"
  by (simp add: sample_held_def prod_eq_iff, code_simp)

theorem reserve_decided_by_remaining_witness:
  "sql_held sample_held 7 ''a#1'' = Some 300 \<and>
   (\<exists>b'. find_budget 7 sample_held = Some b' \<and> bg_limit b' = 1000 \<and> bg_spent b' = 0 \<and>
      bg_reserved b' = 300 \<and> bg_reserved b' + bg_spent b' \<le> bg_limit b')"
  using reserve_decided_by_remaining [OF sample_reserve, of sample_budget]
  by (simp add: fresh_ledger_def sample_budget_def find_budget_def find_reservation_def
      sample_estimate_def permitted_def reservation_result_def)

subsubsection \<open>Settling once\<close>

definition cost_rows :: "uuid \<Rightarrow> string \<Rightarrow> ledger_db \<Rightarrow> cost_row list" where
  "cost_rows org cid db = filter (\<lambda>c. cl_key c = (org, cid)) (cost_ledger db)"

lemma cost_rows_same [simp]:
  "cost_rows o' c' (db\<lparr>db_faults := fs\<rparr>) = cost_rows o' c' db"
  "cost_rows o' c' (update_budget org f db) = cost_rows o' c' db"
  "cost_rows o' c' (update_reservation org cid g db) = cost_rows o' c' db"
  "cost_rows o' c' (hold existing org cid est now db) = cost_rows o' c' db"
  "cost_rows o' c' (db\<lparr>budget_reservation := rs\<rparr>) = cost_rows o' c' db"
  by (simp_all add: cost_rows_def update_budget_def update_reservation_def hold_def split: option.splits)

lemma cost_rows_insert:
  assumes "cost_rows o' c' db \<noteq> []"
  shows "cost_rows o' c' (insert_cost c db) = cost_rows o' c' db"
proof (cases "cl_key c = (o', c')")
  case True
  with assms have "list_ex (\<lambda>r. cl_key r = cl_key c) (cost_ledger db)"
    by (auto simp: cost_rows_def list_ex_iff filter_empty_conv)
  then show ?thesis by (simp add: insert_cost_def)
qed (simp add: insert_cost_def cost_rows_def)

lemma cost_rows_settle:
  assumes "settle_tx org cid d now db = Commit db' u" "cost_rows o' c' db \<noteq> []"
  shows "cost_rows o' c' db' = cost_rows o' c' db"
  using assms(1)
  by (cases rule: settle_tx_cases) (simp_all add: cost_rows_insert assms(2))

lemma cost_rows_step:
  assumes "cost_rows o' c' db \<noteq> []"
  shows "cost_rows o' c' (ledger_step sql_ledger_port op db) = cost_rows o' c' db"
proof (cases op)
  case (Op_reserve org cid est now)
  show ?thesis unfolding Op_reserve sql_step sql_reserve_def
    by (rule run_tx_frame) (auto elim!: reserve_tx_cases)
next
  case (Op_settle org cid d now)
  show ?thesis unfolding Op_settle sql_step sql_settle_def
    by (rule run_tx_frame) (simp_all add: cost_rows_settle assms)
next
  case (Op_release org cid now)
  show ?thesis unfolding Op_release sql_step sql_release_def
    by (rule run_tx_frame) (auto elim!: release_tx_cases)
next
  case (Op_reconcile org older now)
  show ?thesis unfolding Op_reconcile sql_step sql_reconcile_expired_def
    by (rule run_tx_frame) (auto elim!: reconcile_tx_cases)
qed

lemma cost_rows_run:
  "cost_rows o' c' db \<noteq> [] \<Longrightarrow> cost_rows o' c' (ledger_run sql_ledger_port ops db) = cost_rows o' c' db"
  by (induction ops arbitrary: db) (simp_all add: cost_rows_step del: sql_step)

lemma cost_rows_single:
  assumes "ledger_inv db" "sql_booked db org cid"
  shows "length (cost_rows org cid db) = 1"
proof -
  have d: "distinct (map cl_key (cost_ledger db))" using assms(1) by (simp add: ledger_inv_defs)
  from assms(2) obtain r where r: "find_reservation org cid db = Some r" "rr_status r = Committed"
    by (auto simp: sql_booked_def split: option.splits)
  with find_reservation_Some [OF r(1)] assms(1) have "(org, cid) \<in> cl_key ` set (cost_ledger db)"
    by (auto simp: ledger_inv_defs rr_key_def)
  with d show ?thesis unfolding cost_rows_def by (rule distinct_keys_single)
qed

text \<open>C3: a settled reservation is billed exactly once. After settle has returned, the reservation has
exactly one cost row, and it is still exactly that row after any further sequence of calls: settling
again, with any other amounts, releasing, re-reserving, reconciling, and lost connections never add,
change or remove it.\<close>

theorem settled_billed_exactly_once:
  assumes "ledger_inv db" and "sql_settle org cid d now db = (db1, Inr u)"
  shows "length (cost_rows org cid db1) = 1 \<and>
         cost_rows org cid (ledger_run sql_ledger_port ops db1) = cost_rows org cid db1"
proof -
  have s: "lp_settle sql_ledger_port org cid d now db = (db1, Inr u)"
    using assms(2) by (simp add: sql_ledger_port_def)
  have "ledger_inv db1" using sql.wf_settle [OF assms(1), of org cid d now] s by simp
  moreover have "sql_booked db1 org cid" using sql.settle_done [OF assms(1) s] ..
  ultimately have one: "length (cost_rows org cid db1) = 1" by (rule cost_rows_single)
  then have "cost_rows org cid db1 \<noteq> []" by auto
  with one show ?thesis by (simp add: cost_rows_run)
qed

definition sample_detail :: settlement_detail where
  "sample_detail =
     \<lparr>sd_provider = ''openai'', sd_model = ''gpt'', sd_prompt = 5, sd_completion = 6,
      sd_input = \<lparr>amount = Dec 100 (-8), currency = ''USD''\<rparr>,
      sd_output = \<lparr>amount = Dec 150 (-8), currency = ''USD''\<rparr>,
      sd_total = \<lparr>amount = Dec 250 (-8), currency = ''USD''\<rparr>\<rparr>"

definition sample_settled :: ledger_db where
  "sample_settled = fst (sql_settle 7 ''a#1'' sample_detail 30 sample_held)"

lemma sample_settle: "sql_settle 7 ''a#1'' sample_detail 30 sample_held = (sample_settled, Inr ())"
  by (simp add: sample_settled_def prod_eq_iff, code_simp)

lemma sample_inv: "ledger_inv (fresh_ledger [sample_budget] [])" "ledger_inv sample_held"
proof -
  show f: "ledger_inv (fresh_ledger [sample_budget] [])"
    by (rule fresh_inv) (simp_all add: sample_budget_def budget_row_ok_def in_range_def)
  then show "ledger_inv sample_held" unfolding sample_held_def by (rule sql_reserve_inv)
qed

theorem settled_billed_exactly_once_witness:
  "length (cost_rows 7 ''a#1'' sample_settled) = 1 \<and>
   cost_rows 7 ''a#1'' (ledger_run sql_ledger_port
       [Op_settle 7 ''a#1'' sample_detail 31, Op_release 7 ''a#1'' 32] sample_settled) =
     cost_rows 7 ''a#1'' sample_settled"
  by (rule settled_billed_exactly_once [OF sample_inv(2) sample_settle])

text \<open>What settlement moves. Settling a reservation that is not already committed books its cost
in the organization's spend whether the hold is live or has been reclaimed; the hold leaves reserved
only when it is still live, so a settlement that arrives after the reconciler returned the hold does
not return it a second time.\<close>

theorem settle_moves_hold_once:
  assumes "sql_settle org cid d now db = (db1, Inr u)"
    and "find_reservation org cid db = Some r" "rr_status r \<noteq> Committed"
    and "find_budget org db = Some b"
  shows "rr_status r \<in> {Reserved, Expired} \<and>
    (\<exists>b1. find_budget org db1 = Some b1 \<and> bg_limit b1 = bg_limit b \<and>
       bg_spent b1 = bg_spent b + numeric8 (amount (sd_total d)) \<and>
       bg_reserved b1 = (if rr_status r = Reserved then bg_reserved b - rr_estimated r else bg_reserved b))"
proof -
  from assms(1) have "settle_tx org cid d now (db\<lparr>db_faults := tl (db_faults db)\<rparr>) = Commit db1 u"
    unfolding sql_settle_def by (auto elim: run_tx_Inr)
  then show ?thesis
  proof (cases rule: settle_tx_cases)
    case (replay r')
    with assms(2,3) show ?thesis by simp
  next
    case (book r' n d1 d2)
    with assms(2,4) show ?thesis
      by (auto simp: find_budget_update)
  qed
qed

theorem settle_moves_hold_once_witness:
  "\<exists>b1. find_budget 7 sample_settled = Some b1 \<and> bg_limit b1 = 1000 \<and> bg_spent b1 = 250 \<and>
        bg_reserved b1 = 0"
proof -
  have r: "find_reservation 7 ''a#1'' sample_held =
      Some (new_reservation 7 ''a#1'' sample_estimate 10)" by code_simp
  have b: "find_budget 7 sample_held = Some (sample_budget\<lparr>bg_reserved := 300\<rparr>)" by code_simp
  show ?thesis
    using settle_moves_hold_once [OF sample_settle r _ b]
    by (simp add: sample_budget_def sample_detail_def new_reservation_def sample_estimate_def)
qed

subsubsection \<open>Tenants\<close>

definition tenant_rows ::
  "uuid \<Rightarrow> ledger_db \<Rightarrow> budget_row list \<times> reservation_row list \<times> cost_row list" where
  "tenant_rows org db =
     (filter (\<lambda>b. bg_organization b = org) (org_budget db),
      filter (\<lambda>r. rr_organization r = org) (budget_reservation db),
      filter (\<lambda>c. cl_organization c = org) (cost_ledger db))"

lemma tenant_rows_faults [simp]: "tenant_rows o' (db\<lparr>db_faults := fs\<rparr>) = tenant_rows o' db"
  by (simp add: tenant_rows_def)

lemma tenant_rows_budget:
  "o' \<noteq> org \<Longrightarrow> (\<And>b. bg_organization (f b) = bg_organization b) \<Longrightarrow>
     tenant_rows o' (update_budget org f db) = tenant_rows o' db"
  unfolding tenant_rows_def update_budget_def by (simp, intro update_where_other) auto

lemma tenant_rows_reservations:
  "(\<And>r. p r \<Longrightarrow> rr_organization r \<noteq> o' \<and> rr_organization (g r) \<noteq> o') \<Longrightarrow>
     tenant_rows o' (db\<lparr>budget_reservation := update_where p g (budget_reservation db)\<rparr>) = tenant_rows o' db"
  unfolding tenant_rows_def by (simp, intro update_where_other) auto

lemma tenant_rows_reconciled:
  "o' \<noteq> org \<Longrightarrow>
     tenant_rows o' (db\<lparr>db_faults := fs, budget_reservation :=
        update_where (stale org older) (mark_expired now) (budget_reservation db)\<rparr>) = tenant_rows o' db"
  using tenant_rows_reservations [of "stale org older" o' "mark_expired now" "db\<lparr>db_faults := fs\<rparr>"]
  by (auto simp: stale_def)

lemma tenant_rows_reservation:
  "o' \<noteq> org \<Longrightarrow> (\<And>r. rr_organization (g r) = rr_organization r) \<Longrightarrow>
     tenant_rows o' (update_reservation org cid g db) = tenant_rows o' db"
  unfolding update_reservation_def by (rule tenant_rows_reservations) (auto simp: rr_key_def)

lemma tenant_rows_hold:
  "o' \<noteq> org \<Longrightarrow> tenant_rows o' (hold existing org cid est now db) = tenant_rows o' db"
  by (auto simp: hold_def tenant_rows_reservation rehold_def split: option.split)
    (simp add: tenant_rows_def)

lemma tenant_rows_insert:
  "o' \<noteq> cl_organization c \<Longrightarrow> tenant_rows o' (insert_cost c db) = tenant_rows o' db"
  by (simp add: tenant_rows_def insert_cost_def)

lemma tenant_rows_step:
  assumes "op_tenant op \<noteq> o'"
  shows "tenant_rows o' (ledger_step sql_ledger_port op db) = tenant_rows o' db"
proof (cases op)
  case (Op_reserve org cid est now)
  with assms have "o' \<noteq> org" by auto
  then show ?thesis unfolding Op_reserve sql_step sql_reserve_def
    by (intro run_tx_frame) (auto elim!: reserve_tx_cases simp: tenant_rows_hold tenant_rows_budget)
next
  case (Op_settle org cid d now)
  with assms have "o' \<noteq> org" by auto
  then show ?thesis unfolding Op_settle sql_step sql_settle_def
    by (intro run_tx_frame) (auto elim!: settle_tx_cases
        simp: tenant_rows_insert tenant_rows_budget tenant_rows_reservation settled_cost_def commit_row_def)
next
  case (Op_release org cid now)
  with assms have "o' \<noteq> org" by auto
  then show ?thesis unfolding Op_release sql_step sql_release_def
    by (intro run_tx_frame) (auto elim!: release_tx_cases
        simp: tenant_rows_budget tenant_rows_reservation)
next
  case (Op_reconcile org older now)
  with assms have "o' \<noteq> org" by auto
  then show ?thesis unfolding Op_reconcile sql_step sql_reconcile_expired_def
    by (intro run_tx_frame) (auto elim!: reconcile_tx_cases
        simp: tenant_rows_budget intro!: tenant_rows_reconciled)
qed

lemma tenant_rows_run:
  "(\<And>op. op \<in> set ops \<Longrightarrow> op_tenant op \<noteq> o') \<Longrightarrow>
     tenant_rows o' (ledger_run sql_ledger_port ops db) = tenant_rows o' db"
  by (induction ops arbitrary: db) (simp_all add: tenant_rows_step del: sql_step)

text \<open>C21: tenants do not touch each other's money. Whatever sequence of calls other organizations make,
under whatever faults, the budget, reservation and cost rows of an organization stay as they are.\<close>

theorem tenants_isolated:
  assumes "\<forall>op\<in>set ops. op_tenant op \<noteq> org"
  shows "tenant_rows org (ledger_run sql_ledger_port ops db) = tenant_rows org db"
  using assms by (intro tenant_rows_run) auto

theorem tenants_isolated_witness:
  "tenant_rows 8 (ledger_run sql_ledger_port sample_ops sample_held) = tenant_rows 8 sample_held"
  by (rule tenants_isolated) (simp add: sample_ops_def)

subsubsection \<open>The age of a hold taken again\<close>

text \<open>A hold taken again keeps the age of the first one. When a released or expired reservation is
reserved again, the row's creation time is not refreshed, so a reconciliation whose cut-off lies
after the first reservation reclaims the hold that was just granted, however young it is.\<close>

theorem retaken_hold_reclaimed_at_once:
  assumes "find_reservation org cid db = Some r" "\<not> replayable (rr_status r)"
    and "sql_reserve org cid est now db = (db1, Inr a)" "permitted a"
    and "rr_created r < older"
    and "sql_reconcile_expired org older later db1 = (db2, Inr n)"
  shows "sql_held db1 org cid = Some (numeric8 (amount est)) \<and> sql_held db2 org cid = None"
proof -
  from assms(3,4) obtain db' where t: "reserve_tx org cid est now (db\<lparr>db_faults := tl (db_faults db)\<rparr>) = Commit db1 a"
    unfolding sql_reserve_def
    by (auto elim!: run_tx_Inr reserve_tx_Rollback simp: permitted_def)
  then have f: "find_reservation org cid db1 = Some (rehold est r)"
    using assms(1,2) by (cases rule: reserve_tx_cases) (auto simp: find_hold assms(1))
  have "stale org older (rehold est r)"
    using assms(5) find_reservation_Some [OF assms(1)] by (simp add: stale_def rehold_def)
  moreover from assms(6) have "reconcile_tx org older later (db1\<lparr>db_faults := tl (db_faults db1)\<rparr>) = Commit db2 n"
    unfolding sql_reconcile_expired_def
    by (auto elim!: run_tx_Inr simp: reconcile_tx_def Let_def guarded_def split: if_splits)
  ultimately have "find_reservation org cid db2 = Some (mark_expired later (rehold est r))"
    using f by (simp add: reconcile_tx_find)
  with f show ?thesis by (simp add: sql_held_def)
qed

definition sample_released :: ledger_db where
  "sample_released = fst (sql_release 7 ''a#1'' 20 sample_held)"

definition sample_retaken :: ledger_db where
  "sample_retaken = fst (sql_reserve 7 ''a#1'' sample_estimate 5000 sample_released)"

lemma sample_retaken_steps:
  "find_reservation 7 ''a#1'' sample_released =
     Some (mark_released 20 (new_reservation 7 ''a#1'' sample_estimate 10))"
  "sql_reserve 7 ''a#1'' sample_estimate 5000 sample_released =
     (sample_retaken, Inr (reservation_result RESERVED 7 ''a#1'' sample_estimate None))"
  "sql_reconcile_expired 7 4900 5001 sample_retaken =
     (fst (sql_reconcile_expired 7 4900 5001 sample_retaken), Inr 1)"
    apply code_simp
   apply (simp add: sample_retaken_def prod_eq_iff, code_simp)
  apply (simp add: prod_eq_iff, code_simp)
  done

theorem retaken_hold_reclaimed_at_once_witness:
  "sql_held sample_retaken 7 ''a#1'' = Some 300 \<and>
   sql_held (fst (sql_reconcile_expired 7 4900 5001 sample_retaken)) 7 ''a#1'' = None"
  using retaken_hold_reclaimed_at_once [OF sample_retaken_steps(1) _ sample_retaken_steps(2) _ _
      sample_retaken_steps(3)]
  by (simp add: replayable_def permitted_def reservation_result_def new_reservation_def
      sample_estimate_def mark_released_def)

end
