(* ===== verification/Memory_Ledger.thy ===== *)
theory Memory_Ledger imports Sql_Ledger_History "HOL-Library.AList" begin

text \<open>
  \<open>InMemoryBudgetLedger\<close> (\<open>adapters/ledger/in_memory_budget_ledger.py\<close>), the second implementation of
  the ledger port, with exact \<open>Decimal\<close> totals in process memory, and where it agrees with the SQL
  ledger. A \<open>dict\<close> of reservations is an association list in insertion order.
\<close>

subsection \<open>State\<close>

record mem_reservation =
  mem_estimated :: money
  mem_status :: reservation_status
  mem_created :: instant

record org_ledger =
  ol_limit :: "money option"
  ol_reserved :: decimal
  ol_spent :: decimal
  ol_reservations :: "(string \<times> mem_reservation) list"

record mem_ledger =
  ml_orgs :: "uuid \<rightharpoonup> org_ledger"
  ml_unavailable :: bool

definition empty_org :: org_ledger where
  "empty_org = \<lparr>ol_limit = None, ol_reserved = dec_zero, ol_spent = dec_zero, ol_reservations = []\<rparr>"

definition memory_ledger_init :: "(uuid \<rightharpoonup> money) \<Rightarrow> bool \<Rightarrow> mem_ledger" where
  "memory_ledger_init limits unavailable =
     \<lparr>ml_orgs = (\<lambda>org. map_option (\<lambda>l. empty_org\<lparr>ol_limit := Some l\<rparr>) (limits org)),
      ml_unavailable = unavailable\<rparr>"

definition ledger_for :: "uuid \<Rightarrow> mem_ledger \<Rightarrow> org_ledger" where
  "ledger_for org l = (case ml_orgs l org of None \<Rightarrow> empty_org | Some ol \<Rightarrow> ol)"

definition put_org :: "uuid \<Rightarrow> org_ledger \<Rightarrow> mem_ledger \<Rightarrow> mem_ledger" where
  "put_org org ol l = l\<lparr>ml_orgs := (ml_orgs l)(org \<mapsto> ol)\<rparr>"

subsection \<open>Operations\<close>

definition mem_take :: "string \<Rightarrow> money \<Rightarrow> instant \<Rightarrow> org_ledger \<Rightarrow> org_ledger" where
  "mem_take cid est now ol =
     ol\<lparr>ol_reservations := AList.update cid
         \<lparr>mem_estimated = est, mem_status = Reserved, mem_created = now\<rparr> (ol_reservations ol)\<rparr>"

definition mem_decide ::
  "uuid \<Rightarrow> string \<Rightarrow> money \<Rightarrow> instant \<Rightarrow> org_ledger \<Rightarrow> org_ledger \<times> reservation_result" where
  "mem_decide org cid est now ol =
     (case ol_limit ol of
        None \<Rightarrow> (mem_take cid est now ol, reservation_result RESERVED org cid est None)
      | Some limit \<Rightarrow>
          (let remaining = dec_sub (dec_sub (amount limit) (ol_spent ol)) (ol_reserved ol) in
           if dec_less remaining (amount est)
           then (ol, reservation_result EXCEEDED org cid est
                       (Some \<lparr>amount = remaining, currency = currency limit\<rparr>))
           else (mem_take cid est now (ol\<lparr>ol_reserved := dec_add (ol_reserved ol) (amount est)\<rparr>),
                 reservation_result RESERVED org cid est None)))"

definition mem_reserve ::
  "uuid \<Rightarrow> string \<Rightarrow> money \<Rightarrow> instant \<Rightarrow> mem_ledger \<Rightarrow> mem_ledger \<times> reservation_result res" where
  "mem_reserve org cid est now l =
     (if ml_unavailable l then (l, Inl LedgerUnavailableError)
      else (let ol = ledger_for org l in
        case map_of (ol_reservations ol) cid of
          Some r \<Rightarrow>
            if replayable (mem_status r)
            then (put_org org ol l, Inr (reservation_result RESERVED org cid (mem_estimated r) None))
            else (let (ol', a) = mem_decide org cid est now ol in (put_org org ol' l, Inr a))
        | None \<Rightarrow> (let (ol', a) = mem_decide org cid est now ol in (put_org org ol' l, Inr a))))"

definition mem_mark :: "string \<Rightarrow> mem_reservation \<Rightarrow> reservation_status \<Rightarrow> org_ledger \<Rightarrow> org_ledger" where
  "mem_mark cid r s ol =
     ol\<lparr>ol_reservations := AList.update cid (r\<lparr>mem_status := s\<rparr>) (ol_reservations ol)\<rparr>"

definition mem_settle ::
  "uuid \<Rightarrow> string \<Rightarrow> settlement_detail \<Rightarrow> instant \<Rightarrow> mem_ledger \<Rightarrow> mem_ledger \<times> unit res" where
  "mem_settle org cid d now l =
     (if ml_unavailable l then (l, Inl LedgerUnavailableError)
      else (let ol = ledger_for org l in
        case map_of (ol_reservations ol) cid of
          None \<Rightarrow> (put_org org ol l, Inl UnknownReservationError)
        | Some r \<Rightarrow>
            if mem_status r = Committed then (put_org org ol l, Inr ())
            else (let ol1 = (if mem_status r = Reserved
                             then ol\<lparr>ol_reserved := dec_sub (ol_reserved ol) (amount (mem_estimated r))\<rparr>
                             else ol);
                      ol2 = ol1\<lparr>ol_spent := dec_add (ol_spent ol1) (amount (sd_total d))\<rparr>
                  in (put_org org (mem_mark cid r Committed ol2) l, Inr ()))))"

definition mem_release :: "uuid \<Rightarrow> string \<Rightarrow> instant \<Rightarrow> mem_ledger \<Rightarrow> mem_ledger \<times> unit res" where
  "mem_release org cid now l =
     (if ml_unavailable l then (l, Inl LedgerUnavailableError)
      else (let ol = ledger_for org l in
        case map_of (ol_reservations ol) cid of
          None \<Rightarrow> (put_org org ol l, Inl UnknownReservationError)
        | Some r \<Rightarrow>
            if hold_already_returned (mem_status r) then (put_org org ol l, Inr ())
            else (put_org org (mem_mark cid r Released
                    (ol\<lparr>ol_reserved := dec_sub (ol_reserved ol) (amount (mem_estimated r))\<rparr>)) l, Inr ())))"

definition mem_stale :: "instant \<Rightarrow> string \<times> mem_reservation \<Rightarrow> bool" where
  "mem_stale older e \<longleftrightarrow> mem_status (snd e) = Reserved \<and> mem_created (snd e) < older"

definition mem_expire :: "org_ledger \<Rightarrow> string \<times> mem_reservation \<Rightarrow> org_ledger" where
  "mem_expire ol e =
     mem_mark (fst e) (snd e) Expired
       (ol\<lparr>ol_reserved := dec_sub (ol_reserved ol) (amount (mem_estimated (snd e)))\<rparr>)"

definition mem_reconcile_expired ::
  "uuid \<Rightarrow> instant \<Rightarrow> instant \<Rightarrow> mem_ledger \<Rightarrow> mem_ledger \<times> nat res" where
  "mem_reconcile_expired org older now l =
     (if ml_unavailable l then (l, Inl LedgerUnavailableError)
      else (let ol = ledger_for org l; st = filter (mem_stale older) (ol_reservations ol)
            in (put_org org (foldl mem_expire ol st) l, Inr (length st))))"

definition memory_ledger_port :: "mem_ledger ledger_port" where
  "memory_ledger_port =
     \<lparr>lp_reserve = mem_reserve, lp_settle = mem_settle, lp_release = mem_release,
      lp_reconcile = mem_reconcile_expired\<rparr>"

subsection \<open>The port's contract\<close>

definition mem_find :: "uuid \<Rightarrow> string \<Rightarrow> mem_ledger \<Rightarrow> mem_reservation option" where
  "mem_find org cid l = map_of (ol_reservations (ledger_for org l)) cid"

definition mem_held :: "mem_ledger \<Rightarrow> uuid \<Rightarrow> string \<Rightarrow> int option" where
  "mem_held l org cid =
     (case mem_find org cid l of
        None \<Rightarrow> None
      | Some r \<Rightarrow> if mem_status r = Reserved then Some (numeric8 (amount (mem_estimated r))) else None)"

definition mem_booked :: "mem_ledger \<Rightarrow> uuid \<Rightarrow> string \<Rightarrow> bool" where
  "mem_booked l org cid \<longleftrightarrow>
     (case mem_find org cid l of None \<Rightarrow> False | Some r \<Rightarrow> mem_status r = Committed)"

definition mem_wf :: "mem_ledger \<Rightarrow> bool" where
  "mem_wf l \<longleftrightarrow> (\<forall>org. distinct (map fst (ol_reservations (ledger_for org l))))"

lemma ledger_for_put [simp]:
  "ledger_for o' (put_org org ol l) = (if o' = org then ol else ledger_for o' l)"
  by (simp add: ledger_for_def put_org_def)

lemma mem_find_put [simp]:
  "mem_find o' c' (put_org org ol l) =
     (if o' = org then map_of (ol_reservations ol) c' else mem_find o' c' l)"
  by (simp add: mem_find_def)

lemma mem_wf_put:
  "mem_wf l \<Longrightarrow> distinct (map fst (ol_reservations ol)) \<Longrightarrow> mem_wf (put_org org ol l)"
  by (simp add: mem_wf_def)

lemma mem_wf_for: "mem_wf l \<Longrightarrow> distinct (map fst (ol_reservations (ledger_for org l)))"
  by (simp add: mem_wf_def)

lemma mem_marks [simp]:
  "ol_reservations (mem_mark cid r s ol) = AList.update cid (r\<lparr>mem_status := s\<rparr>) (ol_reservations ol)"
  "ol_reservations (mem_take cid est now ol) =
     AList.update cid \<lparr>mem_estimated = est, mem_status = Reserved, mem_created = now\<rparr> (ol_reservations ol)"
  by (simp_all add: mem_mark_def mem_take_def)

text \<open>What a sweep leaves at each key.\<close>

lemma foldl_expire_keys:
  "distinct (map fst (ol_reservations ol)) \<Longrightarrow>
     distinct (map fst (ol_reservations (foldl mem_expire ol es)))"
  by (induction es arbitrary: ol) (simp_all add: mem_expire_def distinct_update)

lemma foldl_expire_find:
  "distinct (map fst es) \<Longrightarrow>
     map_of (ol_reservations (foldl mem_expire ol es)) cid =
       (case map_of es cid of
          None \<Rightarrow> map_of (ol_reservations ol) cid
        | Some r \<Rightarrow> Some (r\<lparr>mem_status := Expired\<rparr>))"
proof (induction es arbitrary: ol)
  case (Cons e es)
  then have none: "map_of es (fst e) = None" by (simp add: map_of_eq_None_iff)
  show ?case
  proof (cases "fst e = cid")
    case True
    with Cons none show ?thesis by (cases e) (simp add: mem_expire_def update_conv)
  next
    case False
    with Cons show ?thesis by (cases e) (simp add: mem_expire_def update_conv split: option.split)
  qed
qed simp

lemma map_of_filter_distinct:
  "distinct (map fst es) \<Longrightarrow>
     map_of (filter p es) k = (case map_of es k of None \<Rightarrow> None | Some v \<Rightarrow> if p (k, v) then Some v else None)"
proof (induction es)
  case (Cons e es)
  then have "map_of es (fst e) = None" by (simp add: map_of_eq_None_iff)
  with Cons show ?case by (cases e) (auto split: option.split)
qed simp

lemma mem_sweep_find:
  "distinct (map fst (ol_reservations ol)) \<Longrightarrow>
     map_of (ol_reservations (foldl mem_expire ol (filter (mem_stale older) (ol_reservations ol)))) cid =
       (case map_of (ol_reservations ol) cid of
          None \<Rightarrow> None
        | Some r \<Rightarrow> Some (if mem_stale older (cid, r) then r\<lparr>mem_status := Expired\<rparr> else r))"
  by (subst foldl_expire_find) (auto simp: distinct_map_filter map_of_filter_distinct split: option.split)

lemma mem_decide_effect:
  assumes "mem_decide org cid est now ol = (ol', a)"
  shows "c' \<noteq> cid \<Longrightarrow> map_of (ol_reservations ol') c' = map_of (ol_reservations ol) c'"
    and "distinct (map fst (ol_reservations ol)) \<Longrightarrow> distinct (map fst (ol_reservations ol'))"
    and "rs_outcome a = RESERVED \<Longrightarrow>
           map_of (ol_reservations ol') cid = Some \<lparr>mem_estimated = est, mem_status = Reserved, mem_created = now\<rparr>"
    and "rs_outcome a \<noteq> RESERVED \<Longrightarrow> ol' = ol \<and> rs_outcome a = EXCEEDED"
  using assms
  by (auto simp: mem_decide_def reservation_result_def Let_def update_conv distinct_update
      split: option.splits if_splits)

lemma mem_reserve_cases:
  obtains (down) "ml_unavailable l" "mem_reserve org cid est now l = (l, Inl LedgerUnavailableError)"
  | (replay) r a where "mem_find org cid l = Some r" "replayable (mem_status r)"
      "mem_reserve org cid est now l = (put_org org (ledger_for org l) l, Inr a)" "rs_outcome a = RESERVED"
  | (decide) ol' a where "\<And>r. mem_find org cid l = Some r \<Longrightarrow> \<not> replayable (mem_status r)"
      "mem_decide org cid est now (ledger_for org l) = (ol', a)"
      "mem_reserve org cid est now l = (put_org org ol' l, Inr a)"
proof (cases "ml_unavailable l")
  case True
  then show ?thesis by (intro down) (simp_all add: mem_reserve_def)
next
  case False
  obtain ol' a where d: "mem_decide org cid est now (ledger_for org l) = (ol', a)" by fastforce
  show ?thesis
  proof (cases "\<exists>r. mem_find org cid l = Some r \<and> replayable (mem_status r)")
    case True
    then obtain r where "mem_find org cid l = Some r" "replayable (mem_status r)" by blast
    with False show ?thesis
      by (intro replay) (auto simp: mem_reserve_def mem_find_def Let_def reservation_result_def)
  next
    case nr: False
    with False d show ?thesis
      by (intro decide [OF _ d]) (auto simp: mem_reserve_def mem_find_def Let_def split: option.splits)
  qed
qed

lemma mem_view_other:
  "mem_find o' c' l = mem_find o' c' l' \<Longrightarrow> mem_held l o' c' = mem_held l' o' c' \<and> mem_booked l o' c' = mem_booked l' o' c'"
  by (simp add: mem_held_def mem_booked_def)

lemma mem_reserve_find:
  "(o', c') \<noteq> (org, cid) \<Longrightarrow> mem_find o' c' (fst (mem_reserve org cid est now l)) = mem_find o' c' l"
  by (cases rule: mem_reserve_cases [of l org cid est now])
    (auto simp: mem_find_def dest!: mem_decide_effect(1))

lemma mem_reserve_view:
  assumes "mem_reserve org cid est now l = (l', Inr a)"
  shows "rs_outcome a = RESERVED \<Longrightarrow> mem_held l' org cid \<noteq> None \<or> mem_booked l' org cid"
    and "rs_outcome a \<noteq> RESERVED \<Longrightarrow> mem_find o' c' l' = mem_find o' c' l \<and> rs_outcome a = EXCEEDED"
  using assms
proof (atomize (full), cases rule: mem_reserve_cases [of l org cid est now])
  case (replay r b)
  with assms show "(rs_outcome a = RESERVED \<longrightarrow> mem_held l' org cid \<noteq> None \<or> mem_booked l' org cid) \<and>
      (rs_outcome a \<noteq> RESERVED \<longrightarrow> mem_find o' c' l' = mem_find o' c' l \<and> rs_outcome a = EXCEEDED)"
    by (cases "mem_status r") (auto simp: mem_held_def mem_booked_def replayable_def mem_find_def)
next
  case (decide ol' b)
  with assms mem_decide_effect(3,4) [OF decide(2)]
  show "(rs_outcome a = RESERVED \<longrightarrow> mem_held l' org cid \<noteq> None \<or> mem_booked l' org cid) \<and>
      (rs_outcome a \<noteq> RESERVED \<longrightarrow> mem_find o' c' l' = mem_find o' c' l \<and> rs_outcome a = EXCEEDED)"
    by (auto simp: mem_held_def mem_booked_def mem_find_def)
qed simp

lemma mem_reserve_booked: "mem_booked (fst (mem_reserve org cid est now l)) o' c' = mem_booked l o' c'"
proof (cases "(o', c') = (org, cid)")
  case False
  then show ?thesis using mem_reserve_find [of o' c' org cid est now l] by (simp add: mem_booked_def)
next
  case True
  show ?thesis
  proof (cases rule: mem_reserve_cases [of l org cid est now])
    case (decide ol' a)
    then have "\<not> mem_booked l org cid"
      by (auto simp: mem_booked_def replayable_def split: option.splits)
    moreover have "\<not> mem_booked (put_org org ol' l) org cid"
      using decide mem_decide_effect(3,4) [OF decide(2)]
      by (cases "rs_outcome a = RESERVED") (auto simp: mem_booked_def mem_find_def replayable_def split: option.splits)
    ultimately show ?thesis using decide(3) True by simp
  qed (simp_all add: mem_booked_def mem_find_def)
qed

lemma mem_wf_same: "mem_wf l \<Longrightarrow> mem_wf (put_org org (ledger_for org l) l)"
  by (simp add: mem_wf_put mem_wf_for)

interpretation mem: budget_ledger memory_ledger_port mem_wf mem_held mem_booked
proof
  fix l l' :: mem_ledger and org org' :: uuid and cid cid' :: string and est d now older r u
  show "mem_wf (fst (lp_reserve memory_ledger_port org cid est now l))" if "mem_wf l"
    using that by (cases rule: mem_reserve_cases [of l org cid est now])
      (auto simp: memory_ledger_port_def mem_wf_same mem_wf_for intro!: mem_wf_put dest: mem_decide_effect(2))
  show "mem_wf (fst (lp_settle memory_ledger_port org cid d now l))" if "mem_wf l"
    using that by (auto simp: memory_ledger_port_def mem_settle_def Let_def mem_wf_same mem_wf_for distinct_update
        intro!: mem_wf_put split: option.split)
  show "mem_wf (fst (lp_release memory_ledger_port org cid now l))" if "mem_wf l"
    using that by (auto simp: memory_ledger_port_def mem_release_def Let_def mem_wf_same mem_wf_for distinct_update
        intro!: mem_wf_put split: option.split)
  show "mem_wf (fst (lp_reconcile memory_ledger_port org older now l))" if "mem_wf l"
    using that by (auto simp: memory_ledger_port_def mem_reconcile_expired_def Let_def mem_wf_for
        intro!: mem_wf_put foldl_expire_keys)
  show "mem_held l' org cid \<noteq> None \<or> mem_booked l' org cid"
    if "lp_reserve memory_ledger_port org cid est now l = (l', Inr r)" "rs_outcome r = RESERVED"
    using that mem_reserve_view(1) by (simp add: memory_ledger_port_def)
  show "mem_held l' = mem_held l \<and> mem_booked l' = mem_booked l"
    if "lp_reserve memory_ledger_port org cid est now l = (l', Inr r)" "rs_outcome r \<noteq> RESERVED"
    using that mem_reserve_view(2) by (simp add: memory_ledger_port_def fun_eq_iff mem_held_def mem_booked_def)
  show "rs_outcome r \<noteq> UNAVAILABLE"
    if "lp_reserve memory_ledger_port org cid est now l = (l', Inr r)"
    using that mem_reserve_view(2) [of org cid est now l l' r] by (auto simp: memory_ledger_port_def)
  show "mem_booked (fst (lp_reserve memory_ledger_port org cid est now l)) = mem_booked l"
    by (simp add: memory_ledger_port_def fun_eq_iff mem_reserve_booked)
  show "mem_held l' org cid = None \<and> mem_booked l' org cid"
    if "lp_settle memory_ledger_port org cid d now l = (l', Inr u)"
    using that by (auto simp: memory_ledger_port_def mem_settle_def Let_def mem_held_def mem_booked_def mem_find_def
        update_conv split: option.splits if_splits)
  show "mem_held l' org cid = None"
    if "lp_release memory_ledger_port org cid now l = (l', Inr u)"
    using that by (auto simp: memory_ledger_port_def mem_release_def Let_def mem_held_def mem_find_def
        hold_already_returned_def update_conv split: option.splits if_splits)
  show "mem_booked (fst (lp_release memory_ledger_port org cid now l)) = mem_booked l"
    by (auto simp: memory_ledger_port_def mem_release_def Let_def mem_booked_def mem_find_def fun_eq_iff
        hold_already_returned_def update_conv split: option.splits if_splits)
  show "mem_booked (fst (lp_reconcile memory_ledger_port org older now l)) = mem_booked l" if "mem_wf l"
    using mem_wf_for [OF that, of org]
    by (auto simp: memory_ledger_port_def mem_reconcile_expired_def mem_booked_def mem_find_def Let_def
        fun_eq_iff mem_sweep_find mem_stale_def split: option.splits)
  show "mem_held (fst (lp_reserve memory_ledger_port org cid est now l)) org' cid' = mem_held l org' cid'"
    if "(org', cid') \<noteq> (org, cid)"
    using that by (simp add: memory_ledger_port_def mem_held_def mem_reserve_find)
  show "mem_held (fst (lp_settle memory_ledger_port org cid d now l)) org' cid' = mem_held l org' cid'"
    if "(org', cid') \<noteq> (org, cid)"
    using that by (auto simp: memory_ledger_port_def mem_settle_def Let_def mem_held_def mem_find_def update_conv
        split: option.split)
  show "mem_held (fst (lp_release memory_ledger_port org cid now l)) org' cid' = mem_held l org' cid'"
    if "(org', cid') \<noteq> (org, cid)"
    using that by (auto simp: memory_ledger_port_def mem_release_def Let_def mem_held_def mem_find_def update_conv
        split: option.split)
  show "mem_held (fst (lp_reconcile memory_ledger_port org older now l)) org' cid' = mem_held l org' cid'"
    if "org' \<noteq> org"
    using that by (auto simp: memory_ledger_port_def mem_reconcile_expired_def Let_def mem_held_def)
qed

subsection \<open>The two ledgers side by side\<close>

definition ticks :: "decimal \<Rightarrow> int \<Rightarrow> bool" where
  "ticks d n \<longleftrightarrow> d = Dec n (-8) \<or> (d = dec_zero \<and> n = 0)"

definition mirrors_row :: "reservation_row option \<Rightarrow> mem_reservation option \<Rightarrow> bool" where
  "mirrors_row r m \<longleftrightarrow>
     (case (r, m) of
        (None, None) \<Rightarrow> True
      | (Some r, Some m) \<Rightarrow>
          mem_estimated m = \<lparr>amount = Dec (rr_estimated r) (-8), currency = rr_currency r\<rparr> \<and>
          mem_status m = rr_status r
      | _ \<Rightarrow> False)"

definition mirrors_budget :: "budget_row option \<Rightarrow> org_ledger \<Rightarrow> bool" where
  "mirrors_budget b ol \<longleftrightarrow>
     (case b of
        None \<Rightarrow> ol_limit ol = None
      | Some b \<Rightarrow>
          ol_limit ol = Some \<lparr>amount = Dec (bg_limit b) (-8), currency = bg_currency b\<rparr> \<and>
          ticks (ol_reserved ol) (bg_reserved b) \<and> ticks (ol_spent ol) (bg_spent b))"

definition mirrors :: "uuid \<Rightarrow> ledger_db \<Rightarrow> mem_ledger \<Rightarrow> bool" where
  "mirrors org db l \<longleftrightarrow>
     mirrors_budget (find_budget org db) (ledger_for org l) \<and>
     (\<forall>cid. mirrors_row (find_reservation org cid db) (mem_find org cid l))"

lemma ticks_add: "ticks d n \<Longrightarrow> abs n < 10 ^ 27 \<Longrightarrow> abs e < 10 ^ 27 \<Longrightarrow> dec_add d (Dec e (-8)) = Dec (n + e) (-8)"
  by (auto simp: ticks_def dec_zero_def dec_prec_def dec_fix_exact simp del: dec_fix.simps)

lemma ticks_sub: "ticks d n \<Longrightarrow> abs n < 10 ^ 27 \<Longrightarrow> abs e < 10 ^ 27 \<Longrightarrow> dec_sub d (Dec e (-8)) = Dec (n - e) (-8)"
  by (auto simp: ticks_def dec_zero_def dec_prec_def dec_sub_def dec_fix_exact simp del: dec_fix.simps)

lemma ticks_sub_from: "ticks d n \<Longrightarrow> abs n < 10 ^ 27 \<Longrightarrow> abs a < 10 ^ 27 \<Longrightarrow> dec_sub (Dec a (-8)) d = Dec (a - n) (-8)"
  by (auto simp: ticks_def dec_zero_def dec_prec_def dec_sub_def dec_fix_exact simp del: dec_fix.simps)

lemma mirrors_put:
  assumes "mirrors org db l"
    and "mirrors_budget (find_budget org db') ol"
    and "mirrors_row (find_reservation org cid db') (map_of (ol_reservations ol) cid)"
    and "\<And>c. c \<noteq> cid \<Longrightarrow> find_reservation org c db' = find_reservation org c db \<and>
           map_of (ol_reservations ol) c = mem_find org c l"
  shows "mirrors org db' (put_org org ol l)"
  using assms unfolding mirrors_def by (metis ledger_for_put mem_find_put)

lemma mirrors_same: "mirrors org db l \<Longrightarrow> mirrors org db (put_org org (ledger_for org l) l)"
  by (rule mirrors_put) (auto simp: mirrors_def mem_find_def)

lemma inv_range:
  assumes "ledger_inv db" "find_budget org db = Some b"
  shows "abs (bg_limit b) < 10 ^ 18 \<and> abs (bg_reserved b) < 10 ^ 18 \<and> abs (bg_spent b) < 10 ^ 18"
  using assms find_budget_Some [OF assms(2)]
  by (auto simp: ledger_inv_defs budget_row_ok_def in_range_def)

lemma mirrors_take:
  assumes "ledger_inv db" "mirrors org db l" "expo (amount est) = -8"
    and "\<And>r. find_reservation org cid db = Some r \<Longrightarrow> \<not> replayable (rr_status r)"
    and "reserve_tx org cid est now db = Commit db' a"
  shows "\<exists>ol'. mem_decide org cid est now (ledger_for org l) = (ol', a) \<and> mirrors org db' (put_org org ol' l)"
proof -
  obtain n where n: "amount est = Dec n (-8)" using assms(3) by (cases "amount est") auto
  then have n8: "numeric8 (amount est) = n" by simp
  define existing where "existing = find_reservation org cid db"
  have dec: "reserve_decide existing org cid est now db = Commit db' a"
    using assms(4,5) unfolding existing_def reserve_tx_def by (auto split: option.splits)
  let ?ol = "ledger_for org l"
  have row: "mirrors_row (Some (case existing of None \<Rightarrow> new_reservation org cid est now | Some r \<Rightarrow> rehold est r))
      (Some \<lparr>mem_estimated = est, mem_status = Reserved, mem_created = now\<rparr>)"
    using n by (auto simp: mirrors_row_def new_reservation_def rehold_def split: option.split)
  show ?thesis
  proof (cases "find_budget org db")
    case None
    with dec have d: "db' = hold existing org cid est now db" "a = reservation_result RESERVED org cid est None"
      by (auto simp: reserve_decide_def take_hold_Commit)
    have "ol_limit ?ol = None" using None assms(2) by (simp add: mirrors_def mirrors_budget_def)
    then have m: "mem_decide org cid est now ?ol = (mem_take cid est now ?ol, a)"
      by (simp add: mem_decide_def d)
    have "mirrors org db' (put_org org (mem_take cid est now ?ol) l)"
      using assms(2) row None unfolding d(1)
      by (intro mirrors_put [OF assms(2)])
        (auto simp: find_hold [OF existing_def [symmetric]] update_conv mem_find_def mirrors_def
          mirrors_budget_def mem_take_def)
    with m show ?thesis by blast
  next
    case (Some b)
    with dec have d: "db' = hold existing org cid est now (update_budget org (add_reserved n) db)"
      "a = reservation_result RESERVED org cid est None"
      "\<not> dec_less (Dec (remaining_ticks b) (-8)) (amount est)"
      "reservation_checked org cid db'"
      using n8 by (auto simp: reserve_decide_def take_hold_Commit Let_def add_reserved_def [abs_def] split: if_splits)
    have ol: "ol_limit ?ol = Some \<lparr>amount = Dec (bg_limit b) (-8), currency = bg_currency b\<rparr>"
      "ticks (ol_reserved ?ol) (bg_reserved b)" "ticks (ol_spent ?ol) (bg_spent b)"
      using Some assms(2) by (simp_all add: mirrors_def mirrors_budget_def)
    note r = inv_range [OF assms(1) Some]
    have found: "find_reservation org cid (update_budget org (add_reserved n) db) = existing"
      by (simp add: existing_def)
    have rem: "dec_sub (dec_sub (Dec (bg_limit b) (-8)) (ol_spent ?ol)) (ol_reserved ?ol) = Dec (remaining_ticks b) (-8)"
    proof -
      have "dec_sub (Dec (bg_limit b) (-8)) (ol_spent ?ol) = Dec (bg_limit b - bg_spent b) (-8)"
        using r by (intro ticks_sub_from [OF ol(3)]) auto
      moreover have "dec_sub (Dec (bg_limit b - bg_spent b) (-8)) (ol_reserved ?ol) =
          Dec (bg_limit b - bg_spent b - bg_reserved b) (-8)"
        using r by (intro ticks_sub_from [OF ol(2)]) auto
      ultimately show ?thesis by (simp add: remaining_ticks_def)
    qed
    have "find_reservation org cid db' = Some (case existing of None \<Rightarrow> new_reservation org cid est now | Some r \<Rightarrow> rehold est r)"
      unfolding d(1) by (simp add: find_hold [OF found])
    then obtain q where q: "q \<in> set (budget_reservation db')" "rr_key q = (org, cid)" "rr_estimated q = n"
      using find_reservation_Some [of org cid db'] n8 by (cases existing) (auto simp: rr_key_def)
    then have "abs n < 10 ^ 18"
      using d(4) by (auto simp: reservation_checked_def list_all_iff reservation_row_ok_def in_range_def)
    with ol r n have add: "dec_add (ol_reserved ?ol) (amount est) = Dec (bg_reserved b + n) (-8)"
      by (simp add: ticks_add)
    let ?ol' = "mem_take cid est now (?ol\<lparr>ol_reserved := Dec (bg_reserved b + n) (-8)\<rparr>)"
    have m: "mem_decide org cid est now ?ol = (?ol', a)"
      using d(3) by (simp add: mem_decide_def ol(1) Let_def rem d(2) add)
    have "mirrors org db' (put_org org ?ol' l)"
      using assms(2) row Some ol unfolding d(1)
      by (intro mirrors_put [OF assms(2)])
        (auto simp: find_hold [OF found] update_conv mem_find_def find_budget_update
          mirrors_budget_def mem_take_def ticks_def add_reserved_def)
    with m show ?thesis by blast
  qed
qed

lemma mirrors_find:
  assumes "mirrors org db l" "find_reservation org cid db = Some r"
  obtains m where "mem_find org cid l = Some m" "mem_status m = rr_status r"
    "mem_estimated m = \<lparr>amount = Dec (rr_estimated r) (-8), currency = rr_currency r\<rparr>"
proof -
  have "mirrors_row (find_reservation org cid db) (mem_find org cid l)"
    using assms(1) by (simp add: mirrors_def)
  with assms(2) that show ?thesis by (auto simp: mirrors_row_def split: option.splits)
qed

lemma mirrors_find_none:
  assumes "mirrors org db l" "find_reservation org cid db = None"
  shows "mem_find org cid l = None"
proof -
  have "mirrors_row (find_reservation org cid db) (mem_find org cid l)"
    using assms(1) by (simp add: mirrors_def)
  with assms(2) show ?thesis by (auto simp: mirrors_row_def split: option.splits)
qed

lemma mark_values [simp]:
  "rr_estimated (mark_released now r) = rr_estimated r" "rr_currency (mark_released now r) = rr_currency r"
  "rr_currency (commit_row n now r) = rr_currency r"
  by (simp_all add: mark_released_def commit_row_def)

lemma mirrors_replayable:
  assumes "mirrors org db l"
  shows "(\<exists>m. mem_find org cid l = Some m \<and> replayable (mem_status m)) \<longleftrightarrow>
         (\<exists>r. find_reservation org cid db = Some r \<and> replayable (rr_status r))"
proof (cases "find_reservation org cid db")
  case None
  with mirrors_find_none [OF assms None] show ?thesis by simp
next
  case (Some r)
  with mirrors_find [OF assms Some] show ?thesis by fastforce
qed

lemma mirrors_reserve:
  assumes inv: "ledger_inv db" and m: "mirrors org db l" and up: "\<not> ml_unavailable l"
    and e: "expo (amount est) = -8" and f: "db_faults db = []"
    and s: "sql_reserve org cid est now db = (db', Inr a)"
  shows "\<exists>l'. mem_reserve org cid est now l = (l', Inr a) \<and> mirrors org db' l'"
proof (cases "\<exists>r. find_reservation org cid db = Some r \<and> replayable (rr_status r)")
  case True
  then obtain r where r: "find_reservation org cid db = Some r" "replayable (rr_status r)" by blast
  with s f have d: "db' = db" "a = reservation_result RESERVED org cid
      \<lparr>amount = Dec (rr_estimated r) (-8), currency = rr_currency r\<rparr> None"
    by (simp_all add: sql_reserve_def run_tx_no_fault reserve_tx_def)
  from mirrors_find [OF m r(1)] obtain q where "mem_find org cid l = Some q" "mem_status q = rr_status r"
    "mem_estimated q = \<lparr>amount = Dec (rr_estimated r) (-8), currency = rr_currency r\<rparr>" .
  with r(2) d up have "mem_reserve org cid est now l = (put_org org (ledger_for org l) l, Inr a)"
    by (simp add: mem_reserve_def mem_find_def Let_def)
  with mirrors_same [OF m] d(1) show ?thesis by blast
next
  case False
  then have nr: "\<And>r. find_reservation org cid db = Some r \<Longrightarrow> \<not> replayable (rr_status r)" by blast
  have mem: "mem_reserve org cid est now l = (put_org org ol' l, Inr a')"
    if "mem_decide org cid est now (ledger_for org l) = (ol', a')" for ol' a'
  proof -
    have "\<not> (\<exists>m. mem_find org cid l = Some m \<and> replayable (mem_status m))"
      using False mirrors_replayable [OF m] by simp
    with up that show ?thesis by (auto simp: mem_reserve_def mem_find_def Let_def split: option.splits)
  qed
  show ?thesis
  proof (cases "reserve_tx org cid est now db")
    case (Commit db1 a1)
    with s f have "db1 = db'" "a1 = a" by (simp_all add: sql_reserve_def run_tx_no_fault)
    with mirrors_take [OF inv m e nr Commit] mem show ?thesis by blast
  next
    case (Rollback a1)
    with s f have d: "db' = db" "a1 = a" by (simp_all add: sql_reserve_def run_tx_no_fault)
    from Rollback obtain b where b: "find_budget org db = Some b"
      "dec_less (Dec (remaining_ticks b) (-8)) (amount est)" by (rule reserve_tx_Rollback)
    have ol: "ol_limit (ledger_for org l) = Some \<lparr>amount = Dec (bg_limit b) (-8), currency = bg_currency b\<rparr>"
      "ticks (ol_reserved (ledger_for org l)) (bg_reserved b)"
      "ticks (ol_spent (ledger_for org l)) (bg_spent b)"
      using b(1) m by (simp_all add: mirrors_def mirrors_budget_def)
    note r = inv_range [OF inv b(1)]
    have "dec_sub (Dec (bg_limit b) (-8)) (ol_spent (ledger_for org l)) = Dec (bg_limit b - bg_spent b) (-8)"
      using r by (intro ticks_sub_from [OF ol(3)]) auto
    moreover have "dec_sub (Dec (bg_limit b - bg_spent b) (-8)) (ol_reserved (ledger_for org l)) =
        Dec (bg_limit b - bg_spent b - bg_reserved b) (-8)"
      using r by (intro ticks_sub_from [OF ol(2)]) auto
    moreover have "a = reservation_result EXCEEDED org cid est
          (Some \<lparr>amount = Dec (remaining_ticks b) (-8), currency = bg_currency b\<rparr>)"
      using Rollback b d(2) nr
      by (auto simp: reserve_tx_def reserve_decide_def take_hold_def guarded_def Let_def
          split: option.splits if_splits)
    ultimately have "mem_decide org cid est now (ledger_for org l) = (ledger_for org l, a)"
      using b(2) by (simp add: mem_decide_def ol(1) Let_def remaining_ticks_def del: dec_less.simps)
    with mem mirrors_same [OF m] d show ?thesis by blast
  next
    case (Raise e)
    with s f show ?thesis by (simp add: sql_reserve_def run_tx_no_fault)
  qed
qed

lemma mirrors_release:
  assumes inv: "ledger_inv db" and m: "mirrors org db l" and up: "\<not> ml_unavailable l"
    and f: "db_faults db = []" and s: "sql_release org cid now db = (db', Inr u)"
  shows "\<exists>l'. mem_release org cid now l = (l', Inr u) \<and> mirrors org db' l'"
proof -
  have t: "release_tx org cid now db = Commit db' u"
    using s f by (auto simp: sql_release_def run_tx_no_fault split: tx.splits)
  then show ?thesis
  proof (cases rule: release_tx_cases)
    case (noop r)
    from mirrors_find [OF m noop(1)] obtain q where "mem_find org cid l = Some q" "mem_status q = rr_status r" .
    with noop(2) up have "mem_release org cid now l = (put_org org (ledger_for org l) l, Inr u)"
      by (cases "rr_status r") (auto simp: mem_release_def mem_find_def Let_def hold_already_returned_def)
    with mirrors_same [OF m] noop(3) show ?thesis by blast
  next
    case (free r)
    from mirrors_find [OF m free(1)] obtain q where q: "mem_find org cid l = Some q" "mem_status q = rr_status r"
      "mem_estimated q = \<lparr>amount = Dec (rr_estimated r) (-8), currency = rr_currency r\<rparr>" .
    let ?ol = "ledger_for org l"
    define ol' where "ol' = mem_mark cid q Released
        (?ol\<lparr>ol_reserved := dec_sub (ol_reserved ?ol) (amount (mem_estimated q))\<rparr>)"
    have rel: "mem_release org cid now l = (put_org org ol' l, Inr u)"
      using q free(2) up by (simp add: mem_release_def mem_find_def Let_def hold_already_returned_def ol'_def)
    have er: "abs (rr_estimated r) < 10 ^ 18"
      using inv find_reservation_Some [OF free(1)] by (auto simp: ledger_inv_defs reservation_row_ok_def in_range_def)
    have "mirrors_budget (find_budget org db') ol'"
    proof (cases "find_budget org db")
      case None
      with m show ?thesis by (simp add: free(3) find_budget_update mirrors_def mirrors_budget_def ol'_def mem_mark_def)
    next
      case (Some b)
      with m have "ticks (ol_reserved ?ol) (bg_reserved b)" by (simp add: mirrors_def mirrors_budget_def)
      then have "dec_sub (ol_reserved ?ol) (amount (mem_estimated q)) = Dec (bg_reserved b - rr_estimated r) (-8)"
        using inv_range [OF inv Some] er by (simp add: q(3) ticks_sub)
      with Some m show ?thesis
        by (simp add: free(3) find_budget_update mirrors_def mirrors_budget_def ol'_def mem_mark_def
            ticks_def)
    qed
    then have "mirrors org db' (put_org org ol' l)"
      using free(1) q unfolding free(3)
      by (intro mirrors_put [OF m, where cid = cid])
        (auto simp: find_update_reservation ol'_def update_conv mem_find_def mirrors_row_def)
    with rel show ?thesis by blast
  qed
qed

lemma mirrors_settle:
  assumes inv: "ledger_inv db" and m: "mirrors org db l" and up: "\<not> ml_unavailable l"
    and e: "expo (amount (sd_total d)) = -8" and f: "db_faults db = []"
    and s: "sql_settle org cid d now db = (db', Inr u)"
  shows "\<exists>l'. mem_settle org cid d now l = (l', Inr u) \<and> mirrors org db' l'"
proof -
  have t: "settle_tx org cid d now db = Commit db' u"
    using s f by (auto simp: sql_settle_def run_tx_no_fault split: tx.splits)
  then show ?thesis
  proof (cases rule: settle_tx_cases)
    case (replay r)
    from mirrors_find [OF m replay(1)] obtain q where "mem_find org cid l = Some q" "mem_status q = rr_status r" .
    with replay(2) up have "mem_settle org cid d now l = (put_org org (ledger_for org l) l, Inr u)"
      by (auto simp: mem_settle_def mem_find_def Let_def)
    with mirrors_same [OF m] replay(3) show ?thesis by blast
  next
    case (book r n d1 d2)
    from mirrors_find [OF m book(1)] obtain q where q: "mem_find org cid l = Some q" "mem_status q = rr_status r"
      "mem_estimated q = \<lparr>amount = Dec (rr_estimated r) (-8), currency = rr_currency r\<rparr>" .
    have amt: "amount (sd_total d) = Dec n (-8)" using e book(4) by (cases "amount (sd_total d)") simp
    let ?ol = "ledger_for org l"
    define ol1 where "ol1 = (if mem_status q = Reserved
        then ?ol\<lparr>ol_reserved := dec_sub (ol_reserved ?ol) (amount (mem_estimated q))\<rparr> else ?ol)"
    define ol' where "ol' = mem_mark cid q Committed (ol1\<lparr>ol_spent := dec_add (ol_spent ol1) (amount (sd_total d))\<rparr>)"
    have st: "mem_settle org cid d now l = (put_org org ol' l, Inr u)"
      using q book(2) up by (auto simp: mem_settle_def mem_find_def Let_def ol'_def ol1_def)
    have er: "abs (rr_estimated r) < 10 ^ 18"
      using inv find_reservation_Some [OF book(1)] by (auto simp: ledger_inv_defs reservation_row_ok_def in_range_def)
    have nr: "abs n < 10 ^ 18"
      using book(10) amt by (auto simp: cost_row_ok_def settled_cost_def in_range_def)
    have keep: "ol_limit ol' = ol_limit ?ol" "ol_spent ol1 = ol_spent ?ol" "ol_reserved ol' = ol_reserved ol1"
      "ol_spent ol' = dec_add (ol_spent ol1) (Dec n (-8))"
      by (simp_all add: ol'_def ol1_def mem_mark_def amt)
    have "mirrors_budget (find_budget org db') ol'"
    proof (cases "find_budget org db")
      case None
      with m show ?thesis by (simp add: book(5-7) find_budget_update mirrors_def mirrors_budget_def keep)
    next
      case (Some b)
      with m have t: "ticks (ol_reserved ?ol) (bg_reserved b)" "ticks (ol_spent ?ol) (bg_spent b)"
        by (simp_all add: mirrors_def mirrors_budget_def)
      note rg = inv_range [OF inv Some]
      from t(1) have "dec_sub (ol_reserved ?ol) (amount (mem_estimated q)) = Dec (bg_reserved b - rr_estimated r) (-8)"
        using rg er by (simp add: q(3) ticks_sub)
      moreover have "dec_add (ol_spent ?ol) (Dec n (-8)) = Dec (bg_spent b + n) (-8)"
        using t(2) rg nr by (simp add: ticks_add)
      moreover have "bg_currency (settle_budget s e' n b) = bg_currency b" for s e'
        by (simp add: settle_budget_def Let_def)
      ultimately show ?thesis
        using Some m t(1) q(2)
        by (auto simp: book(5-7) find_budget_update mirrors_def mirrors_budget_def keep ol1_def ticks_def)
    qed
    then have "mirrors org db' (put_org org ol' l)"
      using book(1) q unfolding book(5-7)
      by (intro mirrors_put [OF m, where cid = cid])
        (auto simp: find_update_reservation ol'_def ol1_def update_conv mem_find_def mirrors_row_def)
    with st show ?thesis by blast
  qed
qed

text \<open>C18: the in-memory ledger implements the SQL ledger's decisions. When the two stores mirror each
other for an organization and amounts are quantized to eight places, every reservation, settlement
and release the SQL ledger answers is answered by the in-memory ledger with the same result,
remaining amount included, and the stores mirror each other again.\<close>

theorem memory_ledger_refines_sql:
  assumes "ledger_inv db" "mirrors org db l" "\<not> ml_unavailable l" "db_faults db = []"
  shows "(\<forall>cid est now db' a.
            expo (amount est) = -8 \<longrightarrow> sql_reserve org cid est now db = (db', Inr a) \<longrightarrow>
              (\<exists>l'. mem_reserve org cid est now l = (l', Inr a) \<and> mirrors org db' l')) \<and>
         (\<forall>cid d now db'.
            expo (amount (sd_total d)) = -8 \<longrightarrow> sql_settle org cid d now db = (db', Inr ()) \<longrightarrow>
              (\<exists>l'. mem_settle org cid d now l = (l', Inr ()) \<and> mirrors org db' l')) \<and>
         (\<forall>cid now db'. sql_release org cid now db = (db', Inr ()) \<longrightarrow>
              (\<exists>l'. mem_release org cid now l = (l', Inr ()) \<and> mirrors org db' l'))"
  using mirrors_reserve [OF assms(1-3) _ assms(4)] mirrors_settle [OF assms(1-3) _ assms(4)]
    mirrors_release [OF assms] by blast

definition sample_mem :: mem_ledger where
  "sample_mem = memory_ledger_init [7 \<mapsto> \<lparr>amount = Dec 1000 (-8), currency = ''USD''\<rparr>] False"

lemma sample_mirrors: "mirrors 7 (fresh_ledger [sample_budget] []) sample_mem"
  by (simp add: mirrors_def mirrors_budget_def mirrors_row_def sample_mem_def memory_ledger_init_def
      ledger_for_def mem_find_def fresh_ledger_def find_budget_def find_reservation_def
      sample_budget_def ticks_def empty_org_def)

theorem memory_ledger_refines_sql_witness:
  "\<exists>l'. mem_reserve 7 ''a#1'' sample_estimate 10 sample_mem =
          (l', Inr (reservation_result RESERVED 7 ''a#1'' sample_estimate None)) \<and>
        mirrors 7 sample_held l'"
proof -
  have "\<not> ml_unavailable sample_mem" by (simp add: sample_mem_def memory_ledger_init_def)
  moreover have "db_faults (fresh_ledger [sample_budget] []) = []" by (simp add: fresh_ledger_def)
  ultimately show ?thesis
    using memory_ledger_refines_sql [OF sample_inv(1) sample_mirrors] sample_reserve
    by (auto simp: sample_estimate_def)
qed

text \<open>The two ledgers disagree on settling a released reservation. The SQL ledger refuses it as
an unknown reservation and writes nothing; the in-memory ledger commits it and books its cost.\<close>

theorem released_settlement_differs:
  assumes "mirrors org db l" "\<not> ml_unavailable l" "db_faults db = []"
    and "find_reservation org cid db = Some r" "rr_status r = Released"
  shows "sql_settle org cid d now db = (db, Inl UnknownReservationError) \<and>
    (\<exists>l'. mem_settle org cid d now l = (l', Inr ()) \<and> mem_booked l' org cid \<and>
       ol_spent (ledger_for org l') = dec_add (ol_spent (ledger_for org l)) (amount (sd_total d)))"
proof -
  from mirrors_find [OF assms(1,4)] assms(5)
  obtain q where "mem_find org cid l = Some q" "mem_status q = Released" by metis
  with assms(2-5) show ?thesis
    by (auto simp: sql_settle_def run_tx_no_fault settle_tx_def mem_settle_def mem_find_def Let_def
        mem_booked_def update_conv mem_mark_def)
qed

theorem released_settlement_differs_witness:
  "sql_settle 7 ''a#1'' sample_detail 30 sample_released = (sample_released, Inl UnknownReservationError)"
proof -
  have rel: "sql_release 7 ''a#1'' 20 sample_held = (sample_released, Inr ())"
    by (simp add: sample_released_def prod_eq_iff, code_simp)
  obtain l where l: "mirrors 7 sample_held l" "\<not> ml_unavailable l"
    using mirrors_reserve [OF sample_inv(1) sample_mirrors _ _ _ sample_reserve]
    by (auto simp: sample_mem_def memory_ledger_init_def sample_estimate_def fresh_ledger_def
        mem_reserve_def Let_def put_org_def split: option.splits if_splits prod.splits)
  have f: "db_faults sample_held = []" "db_faults sample_released = []" by code_simp+
  obtain l' where l': "mem_release 7 ''a#1'' 20 l = (l', Inr ())" "mirrors 7 sample_released l'"
    using mirrors_release [OF sample_inv(2) l f(1) rel] by blast
  have "\<not> ml_unavailable l'"
    using l'(1) l(2) by (auto simp: mem_release_def Let_def put_org_def split: option.splits if_splits)
  from released_settlement_differs [OF l'(2) this f(2) sample_retaken_steps(1), of sample_detail 30]
  show ?thesis by simp
qed

end
