(* ===== verification/Deduplication.thy ===== *)
theory Deduplication imports Prelude "HOL-Library.Multiset" begin

text \<open>
  In-flight request coalescing (\<open>application/execution/deduplicator.py\<close>) as a step relation. A task
  is numbered when it is created; asyncio runs \<open>coalesce\<close> without interruption up to the point where
  the caller waits, so one call is one step. The other steps are the operation's end, the done
  callback that forgets the task, the delivery of the result to a caller and a caller's
  cancellation, which the shield keeps away from the task. They interleave in any order.
\<close>

type_synonym dedup_key = "uuid \<times> string"

record 'r task =
  tk_key :: dedup_key
  tk_result :: "'r option"

record 'r dedup =
  dd_in_flight :: "dedup_key \<rightharpoonup> nat"
  dd_tasks :: "nat \<rightharpoonup> 'r task"
  dd_next :: nat
  dd_waiting :: "(nat \<times> dedup_key \<times> nat) list"
  dd_answered :: "(nat \<times> dedup_key \<times> 'r) list"

definition dedup_init :: "'r dedup" where
  "dedup_init =
     \<lparr>dd_in_flight = Map.empty, dd_tasks = Map.empty, dd_next = 0, dd_waiting = [], dd_answered = []\<rparr>"

definition coalesce :: "dedup_key \<Rightarrow> nat \<Rightarrow> 'r dedup \<Rightarrow> 'r dedup" where
  "coalesce key caller st =
     (case dd_in_flight st key of
        Some n \<Rightarrow> st\<lparr>dd_waiting := dd_waiting st @ [(caller, key, n)]\<rparr>
      | None \<Rightarrow>
          (let n = dd_next st in
           st\<lparr>dd_tasks := (dd_tasks st)(n \<mapsto> \<lparr>tk_key = key, tk_result = None\<rparr>), dd_next := n + 1,
              dd_in_flight := (dd_in_flight st)(key \<mapsto> n),
              dd_waiting := dd_waiting st @ [(caller, key, n)]\<rparr>))"

definition finish_task :: "nat \<Rightarrow> dedup_key \<Rightarrow> 'r \<Rightarrow> 'r dedup \<Rightarrow> 'r dedup" where
  "finish_task n key r st = st\<lparr>dd_tasks := (dd_tasks st)(n \<mapsto> \<lparr>tk_key = key, tk_result = Some r\<rparr>)\<rparr>"

definition forget :: "nat \<Rightarrow> dedup_key \<Rightarrow> 'r dedup \<Rightarrow> 'r dedup" where
  "forget n key st =
     (if dd_in_flight st key = Some n then st\<lparr>dd_in_flight := (dd_in_flight st)(key := None)\<rparr> else st)"

definition deliver :: "nat \<Rightarrow> dedup_key \<Rightarrow> nat \<Rightarrow> 'r \<Rightarrow> 'r dedup \<Rightarrow> 'r dedup" where
  "deliver caller key n r st =
     st\<lparr>dd_waiting := remove1 (caller, key, n) (dd_waiting st), dd_answered := dd_answered st @ [(caller, key, r)]\<rparr>"

definition abandon :: "nat \<times> dedup_key \<times> nat \<Rightarrow> 'r dedup \<Rightarrow> 'r dedup" where
  "abandon w st = st\<lparr>dd_waiting := remove1 w (dd_waiting st)\<rparr>"

definition running :: "'r dedup \<Rightarrow> nat \<Rightarrow> dedup_key \<Rightarrow> bool" where
  "running st n key \<longleftrightarrow> dd_tasks st n = Some \<lparr>tk_key = key, tk_result = None\<rparr>"

definition finished :: "'r dedup \<Rightarrow> nat \<Rightarrow> dedup_key \<Rightarrow> 'r \<Rightarrow> bool" where
  "finished st n key r \<longleftrightarrow> dd_tasks st n = Some \<lparr>tk_key = key, tk_result = Some r\<rparr>"

inductive dedup_step :: "'r dedup \<Rightarrow> 'r dedup \<Rightarrow> bool" where
  Coalesce: "dedup_step st (coalesce key caller st)"
| Finish: "running st n key \<Longrightarrow> dedup_step st (finish_task n key r st)"
| Forget: "finished st n key r \<Longrightarrow> dedup_step st (forget n key st)"
| Deliver: "(c, key, n) \<in> set (dd_waiting st) \<Longrightarrow> finished st n key r \<Longrightarrow> dedup_step st (deliver c key n r st)"
| Abandon: "w \<in> set (dd_waiting st) \<Longrightarrow> dedup_step st (abandon w st)"

inductive dedup_reachable :: "'r dedup \<Rightarrow> bool" where
  Start: "dedup_reachable dedup_init"
| Step: "dedup_reachable st \<Longrightarrow> dedup_step st st' \<Longrightarrow> dedup_reachable st'"

subsection \<open>Invariant\<close>

definition numbered :: "'r dedup \<Rightarrow> bool" where
  "numbered st \<longleftrightarrow> (\<forall>n t. dd_tasks st n = Some t \<longrightarrow> n < dd_next st)"

definition listed :: "'r dedup \<Rightarrow> bool" where
  "listed st \<longleftrightarrow> (\<forall>n key. running st n key \<longrightarrow> dd_in_flight st key = Some n)"

definition keyed :: "'r dedup \<Rightarrow> bool" where
  "keyed st \<longleftrightarrow> (\<forall>key n. dd_in_flight st key = Some n \<longrightarrow> (\<exists>t. dd_tasks st n = Some t \<and> tk_key t = key))"

definition waiting_ok :: "'r dedup \<Rightarrow> bool" where
  "waiting_ok st \<longleftrightarrow> (\<forall>w\<in>set (dd_waiting st). \<exists>t. dd_tasks st (snd (snd w)) = Some t \<and> tk_key t = fst (snd w))"

definition answered_ok :: "'r dedup \<Rightarrow> bool" where
  "answered_ok st \<longleftrightarrow> (\<forall>a\<in>set (dd_answered st). \<exists>n. finished st n (fst (snd a)) (snd (snd a)))"

lemmas dedup_inv_defs = numbered_def listed_def keyed_def waiting_ok_def answered_ok_def

definition dedup_inv :: "'r dedup \<Rightarrow> bool" where
  "dedup_inv st \<longleftrightarrow> numbered st \<and> listed st \<and> keyed st \<and> waiting_ok st \<and> answered_ok st"

lemma listedD: "listed st \<Longrightarrow> running st n key \<Longrightarrow> dd_in_flight st key = Some n"
  unfolding listed_def by blast

lemma fresh_task: "numbered st \<Longrightarrow> dd_tasks st (dd_next st) = None"
  unfolding numbered_def by (metis less_irrefl option.exhaust)

lemma finished_coalesce:
  "numbered st \<Longrightarrow> finished st m k r \<Longrightarrow> finished (coalesce key c st) m k r"
  using fresh_task [of st] by (auto simp: finished_def coalesce_def Let_def split: option.split)

lemma task_coalesce:
  "numbered st \<Longrightarrow> dd_tasks st m = Some t \<Longrightarrow> dd_tasks (coalesce key c st) m = Some t"
  using fresh_task [of st] by (auto simp: coalesce_def Let_def split: option.split)

lemma waiting_coalesce:
  "w \<in> set (dd_waiting (coalesce key c st)) \<Longrightarrow> w \<in> set (dd_waiting st) \<or>
     (\<exists>n. w = (c, key, n) \<and> dd_in_flight (coalesce key c st) key = Some n)"
  by (auto simp: coalesce_def Let_def split: option.splits)

lemma answered_coalesce [simp]: "dd_answered (coalesce key c st) = dd_answered st"
  by (simp add: coalesce_def Let_def split: option.split)

lemma dedup_inv_coalesce:
  assumes "dedup_inv st"
  shows "dedup_inv (coalesce key c st)"
proof -
  have i: "numbered st" "listed st" "keyed st" "waiting_ok st" "answered_ok st"
    using assms by (simp_all add: dedup_inv_def)
  have "numbered (coalesce key c st)"
    using i(1) by (auto simp: numbered_def coalesce_def Let_def less_Suc_eq split: option.split if_splits)
  moreover have "listed (coalesce key c st)"
    using i(2) by (auto simp: listed_def coalesce_def Let_def running_def split: option.split)
  moreover have k: "keyed (coalesce key c st)"
    using i(3) fresh_task [OF i(1)] unfolding keyed_def
    by (simp add: coalesce_def Let_def split: option.split) (metis option.distinct(1))
  moreover have "waiting_ok (coalesce key c st)"
    unfolding waiting_ok_def
  proof
    fix w assume "w \<in> set (dd_waiting (coalesce key c st))"
    then consider "w \<in> set (dd_waiting st)"
      | n where "w = (c, key, n)" "dd_in_flight (coalesce key c st) key = Some n"
      using waiting_coalesce [of w key c st] by blast
    then show "\<exists>t. dd_tasks (coalesce key c st) (snd (snd w)) = Some t \<and> tk_key t = fst (snd w)"
    proof cases
      case 1
      with i(4) obtain t where "dd_tasks st (snd (snd w)) = Some t" "tk_key t = fst (snd w)"
        unfolding waiting_ok_def by blast
      with task_coalesce [OF i(1)] show ?thesis by blast
    next
      case 2
      from k 2(2) have "\<exists>t. dd_tasks (coalesce key c st) n = Some t \<and> tk_key t = key"
        unfolding keyed_def by blast
      with 2(1) show ?thesis by simp
    qed
  qed
  moreover have "answered_ok (coalesce key c st)"
    using i(5) finished_coalesce [OF i(1)] unfolding answered_ok_def answered_coalesce by blast
  ultimately show ?thesis by (simp add: dedup_inv_def)
qed

lemma finished_finish:
  "running st n key \<Longrightarrow> finished st m k r' \<Longrightarrow> finished (finish_task n key r st) m k r'"
  by (auto simp: running_def finished_def finish_task_def)

lemma task_finish:
  "running st n key \<Longrightarrow> dd_tasks st m = Some t \<Longrightarrow>
     \<exists>t'. dd_tasks (finish_task n key r st) m = Some t' \<and> tk_key t' = tk_key t"
  by (auto simp: running_def finish_task_def)

lemma finish_frame [simp]:
  "dd_answered (finish_task n key r st) = dd_answered st" "dd_waiting (finish_task n key r st) = dd_waiting st"
  "dd_in_flight (finish_task n key r st) = dd_in_flight st" "dd_next (finish_task n key r st) = dd_next st"
  by (simp_all add: finish_task_def)

lemma dedup_inv_finish:
  assumes "dedup_inv st" "running st n key"
  shows "dedup_inv (finish_task n key r st)"
proof -
  have i: "numbered st" "listed st" "keyed st" "waiting_ok st" "answered_ok st"
    using assms(1) by (simp_all add: dedup_inv_def)
  have "numbered (finish_task n key r st)"
    using i(1) assms(2) by (auto simp: numbered_def running_def finish_task_def)
  moreover have "listed (finish_task n key r st)"
    using i(2) by (auto simp: listed_def running_def finish_task_def)
  moreover have "keyed (finish_task n key r st)"
    using i(3) task_finish [OF assms(2)] unfolding keyed_def finish_frame by metis
  moreover have "waiting_ok (finish_task n key r st)"
    using i(4) task_finish [OF assms(2)] unfolding waiting_ok_def finish_frame by metis
  moreover have "answered_ok (finish_task n key r st)"
    using i(5) finished_finish [OF assms(2)] unfolding answered_ok_def finish_frame by blast
  ultimately show ?thesis by (simp add: dedup_inv_def)
qed

lemma forget_frame [simp]:
  "dd_answered (forget n key st) = dd_answered st" "dd_waiting (forget n key st) = dd_waiting st"
  "dd_tasks (forget n key st) = dd_tasks st" "dd_next (forget n key st) = dd_next st"
  by (simp_all add: forget_def)

lemma drop_waiter_inv:
  assumes "dedup_inv st" "\<forall>a\<in>set new. \<exists>n. finished st n (fst (snd a)) (snd (snd a))"
  shows "dedup_inv (st\<lparr>dd_waiting := remove1 w (dd_waiting st), dd_answered := dd_answered st @ new\<rparr>)"
proof -
  have "set (remove1 w (dd_waiting st)) \<subseteq> set (dd_waiting st)" by (rule set_remove1_subset)
  then show ?thesis
    using assms unfolding dedup_inv_def dedup_inv_defs running_def finished_def by simp blast
qed

lemma dedup_inv_step: "dedup_step st st' \<Longrightarrow> dedup_inv st \<Longrightarrow> dedup_inv st'"
proof (induction rule: dedup_step.induct)
  case (Coalesce st key caller)
  then show ?case by (rule dedup_inv_coalesce)
next
  case (Finish st n key r)
  then show ?case by (intro dedup_inv_finish)
next
  case (Forget st n key r)
  have "dd_in_flight (forget n key st) k = Some m \<Longrightarrow> dd_in_flight st k = Some m" for k m
    by (auto simp: forget_def split: if_splits)
  moreover have "running st m k \<Longrightarrow> dd_in_flight st k = Some m \<Longrightarrow> dd_in_flight (forget n key st) k = Some m" for k m
    using Forget by (auto simp: forget_def running_def finished_def)
  ultimately show ?case
    using Forget.prems unfolding dedup_inv_def dedup_inv_defs running_def finished_def by simp
next
  case (Deliver c key n st r)
  then show ?case unfolding deliver_def by (intro drop_waiter_inv) auto
next
  case (Abandon w st)
  then show ?case using drop_waiter_inv [of st "[]" w] by (simp add: abandon_def)
qed

lemma dedup_inv_init: "dedup_inv dedup_init"
  by (simp add: dedup_inv_def dedup_inv_defs dedup_init_def running_def finished_def)

lemma reachable_inv: "dedup_reachable st \<Longrightarrow> dedup_inv st"
  by (induction rule: dedup_reachable.induct) (blast intro: dedup_inv_init dedup_inv_step)+

text \<open>C23: at most one operation runs per tenant and correlation id. However callers arrive, tasks
end, callbacks fire and callers are cancelled, in a reachable state two running operations of one key
are the same one, a new caller for a key whose operation runs starts nothing and waits for that very
operation, and every answer a caller got is the result of an operation started for the caller's own
key.\<close>

theorem one_operation_per_key:
  assumes "dedup_reachable st" "running st n key"
  shows "(\<forall>m. running st m key \<longrightarrow> m = n) \<and>
    dd_tasks (coalesce key c st) = dd_tasks st \<and>
    (c, key, n) \<in> set (dd_waiting (coalesce key c st)) \<and>
    list_all (\<lambda>(c, k, r). \<exists>m. finished st m k r) (dd_answered st)"
proof -
  have i: "listed st" "answered_ok st" using reachable_inv [OF assms(1)] by (simp_all add: dedup_inv_def)
  then have f: "dd_in_flight st key = Some n" using assms(2) by (intro listedD)
  have "m = n" if "running st m key" for m
    using listedD [OF i(1) that] f by simp
  moreover have "list_all (\<lambda>(c, k, r). \<exists>m. finished st m k r) (dd_answered st)"
    using i(2) unfolding answered_ok_def list_all_iff case_prod_beta .
  ultimately show ?thesis using f by (auto simp: coalesce_def)
qed

theorem one_operation_per_key_witness:
  "(5, (7, ''a''), 0) \<in>
     set (dd_waiting (coalesce (7, ''a'') 5 (coalesce (7, ''a'') 4 (dedup_init :: nat dedup))))"
proof -
  have "dedup_reachable (coalesce (7, ''a'') 4 (dedup_init :: nat dedup))"
    by (intro Step [OF Start] Coalesce)
  moreover have "running (coalesce (7, ''a'') 4 (dedup_init :: nat dedup)) 0 (7, ''a'')"
    by (simp add: running_def coalesce_def dedup_init_def)
  ultimately show ?thesis using one_operation_per_key by blast
qed

lemma abandon_all:
  assumes "dedup_reachable st" "mset ws \<subseteq># mset (dd_waiting st)"
  shows "dedup_reachable (fold abandon ws st) \<and> dd_tasks (fold abandon ws st) = dd_tasks st \<and>
    dd_in_flight (fold abandon ws st) = dd_in_flight st \<and>
    mset (dd_waiting (fold abandon ws st)) = mset (dd_waiting st) - mset ws"
  using assms
proof (induction ws arbitrary: st)
  case (Cons w ws)
  have w: "w \<in> set (dd_waiting st)" using Cons.prems(2) by (auto dest: mset_subset_eq_insertD)
  have "dedup_reachable (abandon w st)" by (rule Step [OF Cons.prems(1) Abandon [OF w]])
  moreover have "mset ws \<subseteq># mset (dd_waiting (abandon w st))"
    using Cons.prems(2) by (simp add: abandon_def insert_subset_eq_iff)
  ultimately show ?case
    using Cons.IH [of "abandon w st"] by (simp add: abandon_def)
qed simp

text \<open>Cancelling callers does not stop the operation they share. Whoever gives up waiting, a
running operation keeps running and stays the one new callers join, and it can still end with any
result, which then reaches a caller that is still waiting.\<close>

theorem cancelled_callers_leave_task:
  assumes "dedup_reachable st" "running st n key" "mset ws \<subseteq># mset (dd_waiting st)"
    and "(c, key, n) \<in># mset (dd_waiting st) - mset ws"
  shows "running (fold abandon ws st) n key \<and> dd_in_flight (fold abandon ws st) key = Some n \<and>
    dedup_reachable (deliver c key n r (finish_task n key r (fold abandon ws st)))"
proof -
  let ?s = "fold abandon ws st"
  note a = abandon_all [OF assms(1,3)]
  have run: "running ?s n key" using a assms(2) by (simp add: running_def)
  have "listed ?s" using reachable_inv a by (auto simp: dedup_inv_def)
  with run have "dd_in_flight ?s key = Some n" by (intro listedD)
  moreover have "dedup_reachable (finish_task n key r ?s)" by (rule Step [OF _ Finish [OF run]]) (use a in simp)
  moreover have "(c, key, n) \<in> set (dd_waiting (finish_task n key r ?s))"
    using a assms(4) by (metis finish_frame(2) set_mset_mset)
  moreover have "finished (finish_task n key r ?s) n key r" by (simp add: finished_def finish_task_def)
  ultimately show ?thesis using run by (blast intro: Step Deliver)
qed

theorem cancelled_callers_leave_task_witness:
  "dedup_reachable (deliver 5 (7, ''a'') 0 (9 :: nat) (finish_task 0 (7, ''a'') 9
     (fold abandon [(4, (7, ''a''), 0)] (coalesce (7, ''a'') 5 (coalesce (7, ''a'') 4 dedup_init)))))"
proof -
  have r: "dedup_reachable (coalesce (7, ''a'') 5 (coalesce (7, ''a'') 4 (dedup_init :: nat dedup)))"
    by (intro Step [OF _ Coalesce] Start)
  have "running (coalesce (7, ''a'') 5 (coalesce (7, ''a'') 4 (dedup_init :: nat dedup))) 0 (7, ''a'')"
    "dd_waiting (coalesce (7, ''a'') 5 (coalesce (7, ''a'') 4 (dedup_init :: nat dedup))) =
       [(4, (7, ''a''), 0), (5, (7, ''a''), 0)]"
    by (simp_all add: running_def coalesce_def dedup_init_def)
  then show ?thesis
    using cancelled_callers_leave_task [OF r, of 0 "(7, ''a'')" "[(4, (7, ''a''), 0)]" 5 9] by simp
qed

end
