(* ===== verification/Circuit.thy ===== *)
theory Circuit imports Money begin

text \<open>
  The circuit breaker (\<open>application/ports/circuit_breaker.py\<close>,
  \<open>adapters/health/in_memory_circuit_breaker.py\<close>): per tenant and provider, counted transient
  faults, an open state with a cooldown and a half-open one. The dictionary of circuits is a map;
  the clock's reading is an argument of each operation. Metrics are left out.
\<close>

subsection \<open>State\<close>

datatype circuit_state = CLOSED | OPEN | HALF_OPEN

record call_result =
  call_ok :: bool
  call_category :: "provider_error_category option"

record circuit =
  ci_state :: circuit_state
  ci_failures :: nat
  ci_opened :: "instant option"

record breaker_config =
  failure_threshold :: int
  cooldown :: duration

type_synonym breaker = "uuid \<times> string \<rightharpoonup> circuit"

definition default_breaker_config :: breaker_config where
  "default_breaker_config = \<lparr>failure_threshold = 5, cooldown = 30 * second\<rparr>"

definition breaker_config_new :: "int \<Rightarrow> duration \<Rightarrow> breaker_config res" where
  "breaker_config_new threshold cd =
     (if threshold < 1 then Inl ValueError
      else if cd < 0 then Inl ValueError
      else Inr \<lparr>failure_threshold = threshold, cooldown = cd\<rparr>)"

definition fresh_circuit :: circuit where
  "fresh_circuit = \<lparr>ci_state = CLOSED, ci_failures = 0, ci_opened = None\<rparr>"

subsection \<open>Operations\<close>

definition trip :: "instant \<Rightarrow> circuit \<Rightarrow> circuit" where
  "trip now c = c\<lparr>ci_state := OPEN, ci_opened := Some now\<rparr>"

definition on_success :: "uuid \<Rightarrow> string \<Rightarrow> breaker \<Rightarrow> breaker" where
  "on_success org p b =
     (case b (org, p) of
        None \<Rightarrow> b
      | Some c \<Rightarrow> b((org, p) \<mapsto> c\<lparr>ci_failures := 0, ci_opened := None, ci_state := CLOSED\<rparr>))"

definition count_failure :: "breaker_config \<Rightarrow> instant \<Rightarrow> circuit \<Rightarrow> circuit" where
  "count_failure cfg now c =
     (if ci_state c = HALF_OPEN then trip now c
      else let c' = c\<lparr>ci_failures := ci_failures c + 1\<rparr> in
        if ci_state c' = CLOSED \<and> failure_threshold cfg \<le> int (ci_failures c') then trip now c' else c')"

definition on_transient_failure :: "breaker_config \<Rightarrow> uuid \<Rightarrow> string \<Rightarrow> instant \<Rightarrow> breaker \<Rightarrow> breaker" where
  "on_transient_failure cfg org p now b =
     b((org, p) \<mapsto> count_failure cfg now
         (case b (org, p) of None \<Rightarrow> fresh_circuit | Some c \<Rightarrow> c))"

definition observe :: "breaker_config \<Rightarrow> uuid \<Rightarrow> string \<Rightarrow> call_result \<Rightarrow> instant \<Rightarrow> breaker \<Rightarrow> breaker" where
  "observe cfg org p result now b =
     (if call_ok result then on_success org p b
      else if transient_provider_error (call_category result) then on_transient_failure cfg org p now b
      else b)"

definition half_open_if_due :: "breaker_config \<Rightarrow> instant \<Rightarrow> circuit \<Rightarrow> circuit" where
  "half_open_if_due cfg now c =
     (case ci_opened c of
        None \<Rightarrow> c
      | Some t \<Rightarrow> if ci_state c = OPEN \<and> cooldown cfg \<le> now - t then c\<lparr>ci_state := HALF_OPEN\<rparr> else c)"

definition assess_one :: "breaker_config \<Rightarrow> uuid \<Rightarrow> instant \<Rightarrow> string \<Rightarrow> breaker \<Rightarrow> breaker \<times> circuit_state" where
  "assess_one cfg org now p b =
     (case b (org, p) of
        None \<Rightarrow> (b, CLOSED)
      | Some c \<Rightarrow> (let c' = half_open_if_due cfg now c in (b((org, p) \<mapsto> c'), ci_state c')))"

primrec assess ::
  "breaker_config \<Rightarrow> uuid \<Rightarrow> instant \<Rightarrow> string list \<Rightarrow> breaker \<Rightarrow> breaker \<times> (string \<times> circuit_state) list" where
  "assess cfg org now [] b = (b, [])"
| "assess cfg org now (p # ps) b =
     (let (b1, s) = assess_one cfg org now p b; (b2, rest) = assess cfg org now ps b1
      in (b2, (p, s) # rest))"

subsection \<open>What one circuit remembers\<close>

definition circuit_view :: "breaker \<Rightarrow> uuid \<Rightarrow> string \<Rightarrow> circuit" where
  "circuit_view b org p = (case b (org, p) of None \<Rightarrow> fresh_circuit | Some c \<Rightarrow> c)"

lemma half_open_fresh [simp]: "half_open_if_due cfg now fresh_circuit = fresh_circuit"
  by (simp add: half_open_if_due_def fresh_circuit_def)

lemma view_assess_one:
  "circuit_view (fst (assess_one cfg o' now p' b)) org p =
     (if (o', p') = (org, p) then half_open_if_due cfg now (circuit_view b org p)
      else circuit_view b org p)"
  by (auto simp: assess_one_def circuit_view_def Let_def split: option.split)

lemma state_assess_one:
  "snd (assess_one cfg org now p b) = ci_state (half_open_if_due cfg now (circuit_view b org p))"
  by (auto simp: assess_one_def circuit_view_def Let_def fresh_circuit_def half_open_if_due_def split: option.split)

lemma half_open_idem [simp]:
  "half_open_if_due cfg now (half_open_if_due cfg now c) = half_open_if_due cfg now c"
  by (auto simp: half_open_if_due_def split: option.split)

lemma assess_Cons:
  "assess cfg org now (p # ps) b =
     (fst (assess cfg org now ps (fst (assess_one cfg org now p b))),
      (p, snd (assess_one cfg org now p b)) # snd (assess cfg org now ps (fst (assess_one cfg org now p b))))"
  by (simp add: Let_def case_prod_beta)

lemma assess_view:
  "circuit_view (fst (assess cfg o' now ps b)) org p =
     (if o' = org \<and> p \<in> set ps then half_open_if_due cfg now (circuit_view b org p)
      else circuit_view b org p)"
proof (induction ps arbitrary: b)
  case (Cons q ps)
  show ?case unfolding assess_Cons by (auto simp: Cons view_assess_one)
qed simp

lemma assess_states:
  "snd (assess cfg org now ps b) =
     map (\<lambda>p. (p, ci_state (half_open_if_due cfg now (circuit_view b org p)))) ps"
proof (induction ps arbitrary: b)
  case (Cons q ps)
  show ?case unfolding assess_Cons by (auto simp: Cons view_assess_one state_assess_one)
qed simp

lemma observe_view:
  "circuit_view (observe cfg o' p' r now b) org p =
     (if (o', p') \<noteq> (org, p) then circuit_view b org p
      else if call_ok r then fresh_circuit
      else if transient_provider_error (call_category r) then count_failure cfg now (circuit_view b org p)
      else circuit_view b org p)"
  by (auto simp: observe_def on_success_def on_transient_failure_def circuit_view_def fresh_circuit_def
      split: option.split)

subsection \<open>Reachable breakers\<close>

inductive breaker_reachable :: "breaker_config \<Rightarrow> breaker \<Rightarrow> bool" for cfg where
  start: "breaker_reachable cfg Map.empty"
| observed: "breaker_reachable cfg b \<Longrightarrow> breaker_reachable cfg (observe cfg org p r now b)"
| assessed: "breaker_reachable cfg b \<Longrightarrow> breaker_reachable cfg (fst (assess cfg org now ps b))"

definition circuit_ok :: "breaker_config \<Rightarrow> circuit \<Rightarrow> bool" where
  "circuit_ok cfg c \<longleftrightarrow>
     (case ci_state c of
        CLOSED \<Rightarrow> int (ci_failures c) < failure_threshold cfg \<and> ci_opened c = None
      | _ \<Rightarrow> failure_threshold cfg \<le> int (ci_failures c) \<and> ci_opened c \<noteq> None)"

lemma circuit_ok_fresh [simp]: "1 \<le> failure_threshold cfg \<Longrightarrow> circuit_ok cfg fresh_circuit"
  by (simp add: circuit_ok_def fresh_circuit_def)

lemma circuit_ok_count: "circuit_ok cfg c \<Longrightarrow> circuit_ok cfg (count_failure cfg now c)"
  by (auto simp: circuit_ok_def count_failure_def trip_def Let_def split: circuit_state.splits)

lemma circuit_ok_half_open: "circuit_ok cfg c \<Longrightarrow> circuit_ok cfg (half_open_if_due cfg now c)"
  by (auto simp: circuit_ok_def half_open_if_due_def split: circuit_state.splits option.splits)

lemma reachable_ok:
  assumes "breaker_reachable cfg b" "1 \<le> failure_threshold cfg"
  shows "circuit_ok cfg (circuit_view b org p)"
  using assms(1)
proof induction
  case start
  then show ?case using assms(2) by (simp add: circuit_view_def)
next
  case (observed b o' p' r now)
  then show ?case using assms(2) by (simp add: observe_view circuit_ok_count)
next
  case (assessed b o' now ps)
  then show ?case by (simp add: assess_view circuit_ok_half_open)
qed

subsection \<open>The properties of the breaker\<close>

type_synonym call_event = "uuid \<times> string \<times> call_result \<times> instant"

primrec observe_all :: "breaker_config \<Rightarrow> call_event list \<Rightarrow> breaker \<Rightarrow> breaker" where
  "observe_all cfg [] b = b"
| "observe_all cfg (e # es) b =
     observe_all cfg es (case e of (org, p, r, now) \<Rightarrow> observe cfg org p r now b)"

lemma observe_all_snoc:
  "observe_all cfg (es @ [(org, p, r, now)]) b = observe cfg org p r now (observe_all cfg es b)"
  by (induction es arbitrary: b) simp_all

text \<open>The reference: transient faults of this provider for this tenant since its last success.\<close>

definition faults_since_success :: "uuid \<Rightarrow> string \<Rightarrow> call_event list \<Rightarrow> nat" where
  "faults_since_success org p es =
     foldl (\<lambda>n (org', p', r, now).
         if (org', p') \<noteq> (org, p) then n
         else if call_ok r then 0
         else if transient_provider_error (call_category r) then n + 1 else n) 0 es"

lemma faults_snoc:
  "faults_since_success org p (es @ [(org', p', r, now)]) =
     (let n = faults_since_success org p es in
      if (org', p') \<noteq> (org, p) then n
      else if call_ok r then 0
      else if transient_provider_error (call_category r) then n + 1 else n)"
  by (simp add: faults_since_success_def Let_def)

lemma observed_counts:
  assumes "1 \<le> failure_threshold cfg"
  shows "ci_failures (circuit_view (observe_all cfg es Map.empty) org p) = faults_since_success org p es \<and>
    ci_state (circuit_view (observe_all cfg es Map.empty) org p) =
      (if int (faults_since_success org p es) < failure_threshold cfg then CLOSED else OPEN)"
proof (induction es rule: rev_induct)
  case Nil
  with assms show ?case by (simp add: faults_since_success_def circuit_view_def fresh_circuit_def)
next
  case (snoc e es)
  obtain org' p' r now where e: "e = (org', p', r, now)" by (cases e) auto
  show ?case
    using snoc assms unfolding e observe_all_snoc
    by (auto simp: observe_view faults_snoc Let_def count_failure_def trip_def fresh_circuit_def)
qed


definition sample_fault :: call_result where
  "sample_fault = \<lparr>call_ok = False, call_category = Some TIMEOUT\<rparr>"


text \<open>What an open circuit does next. In every reachable breaker an open circuit knows when it
opened; it is reported open until the cooldown has elapsed since then and half-open from that moment
on. After a half-open report a success closes the circuit with a clean count, a transient fault opens
it again from the moment of the fault, and any other failure leaves it half-open.\<close>

theorem open_circuit_recovers:
  assumes "breaker_reachable cfg b" "1 \<le> failure_threshold cfg" "ci_state (circuit_view b org p) = OPEN"
  shows "\<exists>t. ci_opened (circuit_view b org p) = Some t \<and>
    snd (assess cfg org now [p] b) = [(p, if now - t < cooldown cfg then OPEN else HALF_OPEN)] \<and>
    (let b' = fst (assess cfg org now [p] b) in
      \<not> now - t < cooldown cfg \<longrightarrow>
      (\<forall>r later. circuit_view (observe cfg org p r later b') org p =
        (if call_ok r then fresh_circuit
         else if transient_provider_error (call_category r)
           then (circuit_view b' org p)\<lparr>ci_state := OPEN, ci_opened := Some later\<rparr>
         else circuit_view b' org p) \<and> ci_state (circuit_view b' org p) = HALF_OPEN))"
proof -
  from reachable_ok [OF assms(1,2), of org p] assms(3)
  obtain t where t: "ci_opened (circuit_view b org p) = Some t" by (auto simp: circuit_ok_def)
  show ?thesis
    using assms(3) t
    by (intro exI [of _ t])
      (auto simp: assess_states half_open_if_due_def assess_view observe_view count_failure_def trip_def Let_def
        simp del: assess.simps)
qed

definition sample_breaker :: breaker where
  "sample_breaker = observe \<lparr>failure_threshold = 1, cooldown = 30\<rparr> 7 ''acme'' sample_fault 10 Map.empty"

lemma sample_breaker_reachable: "breaker_reachable \<lparr>failure_threshold = 1, cooldown = 30\<rparr> sample_breaker"
  unfolding sample_breaker_def by (intro breaker_reachable.intros)

lemma sample_breaker_view: "circuit_view sample_breaker 7 ''acme'' =
    \<lparr>ci_state = OPEN, ci_failures = 1, ci_opened = Some 10\<rparr>"
  unfolding sample_breaker_def observe_view
  by (simp add: sample_fault_def transient_provider_error_def count_failure_def fresh_circuit_def trip_def
      circuit_view_def)

theorem open_circuit_recovers_witness:
  "snd (assess \<lparr>failure_threshold = 1, cooldown = 30\<rparr> 7 40 [''acme''] sample_breaker) = [(''acme'', HALF_OPEN)]"
  using open_circuit_recovers [OF sample_breaker_reachable, of 7 "''acme''" 40]
  by (simp add: sample_breaker_view del: assess.simps)

text \<open>A half-open circuit admits every request, not one probe. Once the cooldown has elapsed,
every later assessment reports the provider half-open, however many are made before the first probe
returns.\<close>

theorem half_open_admits_all:
  assumes "circuit_view b org p = c" "ci_state c = OPEN" "ci_opened c = Some t"
    and "\<forall>now\<in>set nows. cooldown cfg \<le> now - t" "nows \<noteq> []"
  shows "snd (assess cfg org later [p] (foldl (\<lambda>b now. fst (assess cfg org now [p] b)) b nows)) =
           [(p, HALF_OPEN)]"
proof -
  have step: "ci_state (circuit_view (foldl (\<lambda>b now. fst (assess cfg org now [p] b)) b nows) org p) = HALF_OPEN"
    if "ci_state (circuit_view b org p) = HALF_OPEN \<or>
        (nows \<noteq> [] \<and> ci_state (circuit_view b org p) = OPEN \<and> ci_opened (circuit_view b org p) = Some t \<and>
         (\<forall>now\<in>set nows. cooldown cfg \<le> now - t))" for b nows
    using that
  proof (induction nows arbitrary: b)
    case (Cons n ns)
    have "ci_state (circuit_view (fst (assess cfg org n [p] b)) org p) = HALF_OPEN"
      using Cons.prems by (auto simp: assess_view half_open_if_due_def simp del: assess.simps split: option.split)
    with Cons.IH show ?case by simp
  qed simp
  have "ci_state (half_open_if_due cfg later c') = HALF_OPEN" if "ci_state c' = HALF_OPEN" for c'
    using that by (simp add: half_open_if_due_def split: option.split)
  with step [of b nows] assms show ?thesis
    by (simp add: assess_states del: assess.simps)
qed

theorem half_open_admits_all_witness:
  "snd (assess \<lparr>failure_threshold = 1, cooldown = 30\<rparr> 7 42 [''acme'']
     (foldl (\<lambda>b now. fst (assess \<lparr>failure_threshold = 1, cooldown = 30\<rparr> 7 now [''acme''] b))
        sample_breaker [40, 41])) = [(''acme'', HALF_OPEN)]"
  by (rule half_open_admits_all [OF sample_breaker_view, where t = 10]) simp_all

end
