(* ===== verification/Routing.thy ===== *)
theory Routing imports Circuit "HOL-Library.Product_Lexorder" begin

text \<open>
  Routing: the decision record (\<open>domain/routing/models.py\<close>), the five agents and their runtime
  (\<open>application/agents\<close>), the ranking strategy (\<open>application/routing/health_tiered_strategy.py\<close>), the
  provider catalogues (\<open>application/routing/catalog.py\<close>, \<open>adapters/catalog/sql_provider_catalog.py\<close>)
  and the engine that joins them (\<open>application/routing/engine.py\<close>).

  An agent is its name and what one call of \<open>contribute\<close> does to the shared context and to the one
  circuit breaker. \<open>prepare\<close> and \<open>dispose\<close> of these agents do nothing and are left out. A float that
  is only printed is the text Python prints for it; a confidence is a rational number.
\<close>

subsection \<open>Decisions\<close>

datatype routing_outcome = SELECTED | NO_CANDIDATE | BLOCKED_BY_POLICY | BUDGET_EXCEEDED | ALL_UNHEALTHY

definition routing_outcome_value :: "routing_outcome \<Rightarrow> string" where
  "routing_outcome_value oc =
     (case oc of SELECTED \<Rightarrow> ''selected'' | NO_CANDIDATE \<Rightarrow> ''no_candidate''
      | BLOCKED_BY_POLICY \<Rightarrow> ''blocked_by_policy'' | BUDGET_EXCEEDED \<Rightarrow> ''budget_exceeded''
      | ALL_UNHEALTHY \<Rightarrow> ''all_unhealthy'')"

record reasoning_step =
  st_agent :: string
  st_summary :: string
  st_detail :: payload

record planner_decision =
  pl_intent :: string
  pl_complexity :: string
  pl_capabilities :: "string list"

record policy_decision =
  po_allowed :: bool
  po_reason :: "string option"
  po_providers :: "string list"
  po_regions :: "string list"

record cost_decision =
  co_estimated :: string
  co_currency :: string
  co_within :: bool
  co_remaining :: "string option"

record health_decision =
  he_healthy :: "string list"
  he_degraded :: "string list"
  he_excluded :: "string list"

record routing_decision =
  rd_outcome :: routing_outcome
  rd_organization :: uuid
  rd_correlation :: string
  rd_decided :: instant
  rd_steps :: "reasoning_step list"
  rd_selected :: "string option"
  rd_planner :: "planner_decision option"
  rd_policy :: "policy_decision option"
  rd_cost :: "cost_decision option"
  rd_health :: "health_decision option"
  rd_confidence :: "rat option"

definition is_selection :: "routing_decision \<Rightarrow> bool" where
  "is_selection d \<longleftrightarrow> rd_outcome d = SELECTED \<and> rd_selected d \<noteq> None"

definition agents_consulted :: "routing_decision \<Rightarrow> string list" where
  "agents_consulted d = foldl (\<lambda>seen s. if st_agent s \<in> set seen then seen else seen @ [st_agent s]) [] (rd_steps d)"

subsection \<open>Agents\<close>

record agent_context =
  ac_organization :: uuid
  ac_correlation :: string
  ac_request :: payload
  ac_candidates :: "string list"
  ac_planner :: "planner_decision option"
  ac_policy :: "policy_decision option"
  ac_cost :: "cost_decision option"
  ac_health :: "health_decision option"
  ac_selected :: "string option"
  ac_confidence :: "rat option"

record agent =
  agent_name :: string
  contribute :: "instant \<Rightarrow> agent_context \<Rightarrow> breaker \<Rightarrow> reasoning_step \<times> agent_context \<times> breaker"

definition py_str :: "json \<Rightarrow> string" where
  "py_str v = (case v of JStr s \<Rightarrow> s | _ \<Rightarrow> py_repr v)"

definition get_str :: "payload \<Rightarrow> string \<Rightarrow> string \<Rightarrow> string" where
  "get_str req k d = (case map_of req k of None \<Rightarrow> d | Some v \<Rightarrow> py_str v)"

definition long_prompt_chars :: nat where
  "long_prompt_chars = 2000"

definition planner_agent :: "string \<Rightarrow> agent" where
  "planner_agent name = \<lparr>agent_name = name, contribute = (\<lambda>now c b.
     let modality = get_str (ac_request c) ''modality'' ''chat'';
         prompt = get_str (ac_request c) ''prompt'' '''';
         complexity = (if long_prompt_chars \<le> length prompt then ''high'' else ''low'');
         capabilities = (if modality \<noteq> '''' then [modality] else [])
     in (\<lparr>st_agent = name,
          st_summary = ''intent='' @ modality @ '' complexity='' @ complexity,
          st_detail = [(''prompt_chars'', JInt (int (length prompt))),
                       (''capabilities'', JList (map JStr capabilities))]\<rparr>,
         c\<lparr>ac_planner := Some \<lparr>pl_intent = modality, pl_complexity = complexity,
                               pl_capabilities = capabilities\<rparr>\<rparr>, b))\<rparr>"

definition policy_agent :: "string \<Rightarrow> bool \<Rightarrow> string option \<Rightarrow> agent" where
  "policy_agent name allow reason = \<lparr>agent_name = name, contribute = (\<lambda>now c b.
     (\<lparr>st_agent = name,
       st_summary = (if allow then ''allowed''
                     else ''denied: '' @ (case reason of None \<Rightarrow> ''policy''
                                          | Some r \<Rightarrow> if r = '''' then ''policy'' else r)),
       st_detail = []\<rparr>,
      c\<lparr>ac_policy := Some \<lparr>po_allowed = allow, po_reason = reason, po_providers = [], po_regions = []\<rparr>\<rparr>,
      b))\<rparr>"

definition cost_agent :: "string \<Rightarrow> string \<Rightarrow> bool \<Rightarrow> agent" where
  "cost_agent name estimated ok = \<lparr>agent_name = name, contribute = (\<lambda>now c b.
     (\<lparr>st_agent = name,
       st_summary = ''estimate='' @ estimated @ '' ('' @
         (if ok then ''within budget'' else ''budget exceeded'') @ '')'',
       st_detail = [(''estimated_cost'', JFloat estimated)]\<rparr>,
      c\<lparr>ac_cost := Some \<lparr>co_estimated = estimated, co_currency = ''USD'', co_within = ok,
                         co_remaining = None\<rparr>\<rparr>, b))\<rparr>"

text \<open>\<open>_assess\<close>: open circuits are excluded, half-open ones degraded, the others healthy.\<close>

definition sort_assessments :: "(string \<times> circuit_state) list \<Rightarrow> health_decision" where
  "sort_assessments as =
     \<lparr>he_healthy = map fst (filter (\<lambda>a. snd a \<noteq> OPEN \<and> snd a \<noteq> HALF_OPEN) as),
      he_degraded = map fst (filter (\<lambda>a. snd a = HALF_OPEN) as),
      he_excluded = map fst (filter (\<lambda>a. snd a = OPEN) as)\<rparr>"

definition health_decide ::
  "breaker_config option \<Rightarrow> string list \<Rightarrow> instant \<Rightarrow> agent_context \<Rightarrow> breaker \<Rightarrow> health_decision \<times> breaker" where
  "health_decide cfg unhealthy now c b =
     (case cfg of
        None \<Rightarrow> (\<lparr>he_healthy = filter (\<lambda>p. p \<notin> set unhealthy) (ac_candidates c), he_degraded = [],
                 he_excluded = filter (\<lambda>p. p \<in> set unhealthy) (ac_candidates c)\<rparr>, b)
      | Some cfg \<Rightarrow>
          (let (b', as) = assess cfg (ac_organization c) now (ac_candidates c) b
           in (sort_assessments as, b')))"

definition health_agent :: "string \<Rightarrow> breaker_config option \<Rightarrow> string list \<Rightarrow> agent" where
  "health_agent name cfg unhealthy = \<lparr>agent_name = name, contribute = (\<lambda>now c b.
     let (h, b') = health_decide cfg unhealthy now c b;
         count = (\<lambda>ps. str_int (int (length ps)))
     in (\<lparr>st_agent = name,
          st_summary = count (he_healthy h) @ '' healthy, '' @ count (he_degraded h) @ '' degraded, '' @
            count (he_excluded h) @ '' excluded'',
          st_detail = [(''healthy'', JList (map JStr (he_healthy h))),
                       (''degraded'', JList (map JStr (he_degraded h))),
                       (''excluded'', JList (map JStr (he_excluded h)))]\<rparr>,
         c\<lparr>ac_health := Some h\<rparr>, b'))\<rparr>"

record routing_candidate =
  rc_provider :: string
  rc_degraded :: bool

type_synonym strategy = "routing_candidate list \<Rightarrow> string option"

text \<open>Python's \<open>min\<close> keeps the first of equal keys.\<close>

fun first_min :: "('a \<Rightarrow> 'k::linorder) \<Rightarrow> 'a \<Rightarrow> 'a list \<Rightarrow> 'a" where
  "first_min key best [] = best"
| "first_min key best (x # xs) = first_min key (if key x < key best then x else best) xs"

definition candidate_key :: "routing_candidate \<Rightarrow> bool \<times> string" where
  "candidate_key c = (rc_degraded c, rc_provider c)"

definition health_tiered_select :: strategy where
  "health_tiered_select cs =
     (case cs of [] \<Rightarrow> None | c # cs \<Rightarrow> Some (rc_provider (first_min candidate_key c cs)))"

definition first_usable :: strategy where
  "first_usable cs = (case cs of [] \<Rightarrow> None | c # _ \<Rightarrow> Some (rc_provider c))"

definition usable_candidates :: "agent_context \<Rightarrow> routing_candidate list" where
  "usable_candidates c =
     (case ac_health c of
        None \<Rightarrow> []
      | Some h \<Rightarrow> map (\<lambda>p. \<lparr>rc_provider = p, rc_degraded = False\<rparr>) (he_healthy h) @
                 map (\<lambda>p. \<lparr>rc_provider = p, rc_degraded = True\<rparr>) (he_degraded h))"

definition provider_agent :: "string \<Rightarrow> strategy option \<Rightarrow> agent" where
  "provider_agent name strategy = \<lparr>agent_name = name, contribute = (\<lambda>now c b.
     let cs = usable_candidates c;
         degraded = (case ac_health c of None \<Rightarrow> [] | Some h \<Rightarrow> he_degraded h)
     in case (case strategy of Some s \<Rightarrow> s cs | None \<Rightarrow> first_usable cs) of
          None \<Rightarrow> (\<lparr>st_agent = name, st_summary = ''no usable candidate to select'', st_detail = []\<rparr>, c, b)
        | Some p \<Rightarrow>
            (\<lparr>st_agent = name,
              st_summary = ''selected '' @ p @ '' ('' @
                (if p \<in> set degraded then ''degraded'' else ''healthy'') @ '') from '' @
                str_int (int (length cs)) @ '' usable candidate(s)'',
              st_detail = []\<rparr>,
             c\<lparr>ac_selected := Some p, ac_confidence := Some (1 / of_nat (length cs))\<rparr>, b))\<rparr>"

definition skeleton_agent :: "string \<Rightarrow> agent" where
  "skeleton_agent name = \<lparr>agent_name = name, contribute = (\<lambda>now c b.
     (\<lparr>st_agent = name, st_summary = ''no-op agent; no decision contributed'', st_detail = []\<rparr>, c, b))\<rparr>"

subsection \<open>AgentRuntime\<close>

definition runtime_new :: "agent list \<Rightarrow> agent list res" where
  "runtime_new as = (if as = [] then Inl ValueError else Inr as)"

definition terminal_outcome :: "agent_context \<Rightarrow> routing_outcome option" where
  "terminal_outcome c =
     (if (case ac_policy c of None \<Rightarrow> False | Some p \<Rightarrow> \<not> po_allowed p) then Some BLOCKED_BY_POLICY
      else if (case ac_cost c of None \<Rightarrow> False | Some k \<Rightarrow> \<not> co_within k) then Some BUDGET_EXCEEDED
      else if (case ac_health c of None \<Rightarrow> False
               | Some h \<Rightarrow> he_healthy h = [] \<and> he_degraded h = []) \<and> ac_candidates c \<noteq> []
        then Some ALL_UNHEALTHY
      else None)"

definition build_decision ::
  "instant \<Rightarrow> agent_context \<Rightarrow> reasoning_step list \<Rightarrow> routing_outcome \<Rightarrow> routing_decision" where
  "build_decision now c steps oc =
     (let selected = (if oc = SELECTED then ac_selected c else None) in
      \<lparr>rd_outcome = oc, rd_organization = ac_organization c, rd_correlation = ac_correlation c,
       rd_decided = now, rd_steps = steps, rd_selected = selected, rd_planner = ac_planner c,
       rd_policy = ac_policy c, rd_cost = ac_cost c, rd_health = ac_health c,
       rd_confidence = (if selected = None \<or> selected = Some '''' then None else ac_confidence c)\<rparr>)"

primrec run_chain ::
  "agent list \<Rightarrow> instant \<Rightarrow> agent_context \<Rightarrow> breaker \<Rightarrow> reasoning_step list \<Rightarrow> routing_decision \<times> breaker" where
  "run_chain [] now c b steps =
     (build_decision now c steps (if ac_selected c \<noteq> None then SELECTED else NO_CANDIDATE), b)"
| "run_chain (a # as) now c b steps =
     (let (s, c', b') = contribute a now c b in
      case terminal_outcome c' of
        Some oc \<Rightarrow> (build_decision now c' (steps @ [s]) oc, b')
      | None \<Rightarrow> run_chain as now c' b' (steps @ [s]))"

definition initial_context :: "uuid \<Rightarrow> string \<Rightarrow> payload \<Rightarrow> string list \<Rightarrow> agent_context" where
  "initial_context org cid req candidates =
     \<lparr>ac_organization = org, ac_correlation = cid, ac_request = req, ac_candidates = candidates,
      ac_planner = None, ac_policy = None, ac_cost = None, ac_health = None, ac_selected = None,
      ac_confidence = None\<rparr>"

definition decide ::
  "agent list \<Rightarrow> instant \<Rightarrow> uuid \<Rightarrow> string \<Rightarrow> payload \<Rightarrow> string list \<Rightarrow> breaker \<Rightarrow> routing_decision \<times> breaker" where
  "decide as now org cid req candidates b = run_chain as now (initial_context org cid req candidates) b []"

text \<open>The chain the composition root builds.\<close>

definition gateway_agents :: "breaker_config \<Rightarrow> agent list" where
  "gateway_agents cfg =
     [planner_agent ''planner'', policy_agent ''policy'' True None, cost_agent ''cost'' ''0.0'' True,
      health_agent ''health'' (Some cfg) [], provider_agent ''provider'' (Some health_tiered_select)]"

subsection \<open>Catalogues and the engine\<close>

record routing_execution =
  re_decision :: routing_decision
  re_provider :: "provider_descriptor option"

definition routed :: "routing_execution \<Rightarrow> bool" where
  "routed e \<longleftrightarrow> rd_outcome (re_decision e) = SELECTED \<and> re_provider e \<noteq> None"

record provider_catalog =
  cat_candidates :: "uuid \<Rightarrow> provider_descriptor list res"
  cat_get :: "uuid \<Rightarrow> string \<Rightarrow> provider_descriptor option res"

definition find_provider :: "string \<Rightarrow> provider_descriptor list \<Rightarrow> provider_descriptor option" where
  "find_provider name ds = find (\<lambda>d. prov_name d = name) ds"

definition in_memory_catalog :: "(uuid \<rightharpoonup> provider_descriptor list) \<Rightarrow> provider_catalog" where
  "in_memory_catalog providers =
     \<lparr>cat_candidates = (\<lambda>org. Inr (case providers org of None \<Rightarrow> [] | Some ds \<Rightarrow> ds)),
      cat_get = (\<lambda>org name. Inr (find_provider name (case providers org of None \<Rightarrow> [] | Some ds \<Rightarrow> ds)))\<rparr>"

record catalog_provider =
  cp_id :: uuid
  cp_organization :: uuid
  cp_name :: string
  cp_region :: "string option"
  cp_enabled :: bool

record catalog_model =
  cm_organization :: uuid
  cm_provider :: uuid
  cm_name :: string
  cm_enabled :: bool

record catalog_db =
  cdb_up :: bool
  cdb_providers :: "catalog_provider list"
  cdb_models :: "catalog_model list"

definition catalog_rows :: "catalog_db \<Rightarrow> uuid \<Rightarrow> (catalog_provider \<times> catalog_model) list" where
  "catalog_rows db org =
     sort_key (\<lambda>(p, m). (cp_name p, cm_name m))
       (filter (\<lambda>(p, m). cm_provider m = cp_id p \<and> cp_organization p = org \<and> cm_organization m = org \<and>
                         cp_enabled p \<and> cm_enabled m)
         (List.product (cdb_providers db) (cdb_models db)))"

definition row_descriptor :: "catalog_provider \<times> catalog_model \<Rightarrow> provider_descriptor" where
  "row_descriptor r =
     \<lparr>prov_name = cp_name (fst r), prov_model = cm_name (snd r),
      prov_region = (case cp_region (fst r) of None \<Rightarrow> ''global''
                     | Some g \<Rightarrow> if g = '''' then ''global'' else g)\<rparr>"

definition first_per_provider :: "(catalog_provider \<times> catalog_model) list \<Rightarrow> provider_descriptor list" where
  "first_per_provider rows =
     foldl (\<lambda>seen r. if cp_name (fst r) \<in> prov_name ` set seen then seen else seen @ [row_descriptor r])
       [] rows"

definition sql_descriptors :: "catalog_db \<Rightarrow> uuid \<Rightarrow> provider_descriptor list res" where
  "sql_descriptors db org =
     (if \<not> cdb_up db then Inl ProviderCatalogUnavailableError
      else Inr (first_per_provider (catalog_rows db org)))"

definition sql_provider_catalog :: "catalog_db \<Rightarrow> provider_catalog" where
  "sql_provider_catalog db =
     \<lparr>cat_candidates = sql_descriptors db,
      cat_get = (\<lambda>org name. case sql_descriptors db org of
                   Inl e \<Rightarrow> Inl e
                 | Inr ds \<Rightarrow> Inr (find_provider name ds))\<rparr>"

definition route ::
  "provider_catalog \<Rightarrow> agent list \<Rightarrow> instant \<Rightarrow> uuid \<Rightarrow> string \<Rightarrow> payload \<Rightarrow> breaker \<Rightarrow>
     routing_execution res \<times> breaker" where
  "route catalog as now org cid req b =
     (case cat_candidates catalog org of
        Inl e \<Rightarrow> (Inl e, b)
      | Inr ds \<Rightarrow>
          (let (d, b') = decide as now org cid req (map prov_name ds) b in
           if rd_outcome d \<noteq> SELECTED then (Inr \<lparr>re_decision = d, re_provider = None\<rparr>, b')
           else (case cat_get catalog org (case rd_selected d of None \<Rightarrow> '''' | Some s \<Rightarrow> s) of
               Inl e \<Rightarrow> (Inl e, b')
             | Inr None \<Rightarrow> (Inl RoutingIntegrityError, b')
             | Inr (Some p) \<Rightarrow> (Inr \<lparr>re_decision = d, re_provider = Some p\<rparr>, b'))))"

text \<open>What the engine relies on: between the two reads of one routing attempt the catalogue answers
  consistently.\<close>

locale stable_catalog =
  fixes catalog :: provider_catalog
  assumes get_listed:
    "cat_candidates catalog org = Inr ds \<Longrightarrow> cat_get catalog org name = Inr (find_provider name ds)"
begin

lemma get_candidate:
  "cat_candidates catalog org = Inr ds \<Longrightarrow> name \<in> prov_name ` set ds \<Longrightarrow>
     \<exists>d. cat_get catalog org name = Inr (Some d) \<and> d \<in> set ds \<and> prov_name d = name"
proof -
  assume c: "cat_candidates catalog org = Inr ds" and n: "name \<in> prov_name ` set ds"
  from n obtain d where "find_provider name ds = Some d"
    unfolding find_provider_def by (cases "find (\<lambda>d. prov_name d = name) ds") (auto dest: find_NoneD)
  with get_listed [OF c, of name] find_SomeD [of "\<lambda>d. prov_name d = name" ds d] show ?thesis
    by (simp add: find_provider_def)
qed

lemma route_resolves:
  assumes "cat_candidates catalog org = Inr ds"
    and "decide as now org cid req (map prov_name ds) b = (d, b')"
    and "rd_outcome d = SELECTED \<Longrightarrow> \<exists>p. rd_selected d = Some p \<and> p \<in> prov_name ` set ds"
  shows "\<exists>e. route catalog as now org cid req b = (Inr e, b') \<and> re_decision e = d \<and>
    (case re_provider e of
       None \<Rightarrow> rd_outcome d \<noteq> SELECTED
     | Some p \<Rightarrow> rd_outcome d = SELECTED \<and> p \<in> set ds \<and> rd_selected d = Some (prov_name p))"
proof (cases "rd_outcome d = SELECTED")
  case True
  with assms(3) obtain p where p: "rd_selected d = Some p" "p \<in> prov_name ` set ds" by blast
  from get_candidate [OF assms(1) p(2)] obtain q where
    "cat_get catalog org p = Inr (Some q)" "q \<in> set ds" "prov_name q = p" by blast
  with True p assms(1,2) show ?thesis by (simp add: route_def)
next
  case False
  with assms(1,2) show ?thesis by (simp add: route_def)
qed

end

interpretation memcat: stable_catalog "in_memory_catalog providers" for providers
  by unfold_locales (auto simp: in_memory_catalog_def)

interpretation sqlcat: stable_catalog "sql_provider_catalog db" for db
  by unfold_locales (simp add: sql_provider_catalog_def)

subsection \<open>Ranking\<close>

lemma first_min_least:
  "first_min key x xs \<in> set (x # xs) \<and> (\<forall>y\<in>set (x # xs). key (first_min key x xs) \<le> key y)"
proof (induction xs arbitrary: x)
  case (Cons y ys)
  define m where "m = (if key y < key x then y else x)"
  have m: "m \<in> {x, y}" "key m \<le> key x" "key m \<le> key y" by (auto simp: m_def)
  have ih: "first_min key m ys \<in> set (m # ys)" "\<forall>z\<in>set (m # ys). key (first_min key m ys) \<le> key z"
    using Cons.IH [of m] by blast+
  then have "key (first_min key m ys) \<le> key m" by simp
  with m ih show ?case
    by (simp flip: m_def) (blast intro: order.trans)
qed simp

lemma health_tiered_least:
  "health_tiered_select cs = Some p \<Longrightarrow>
     \<exists>c\<in>set cs. rc_provider c = p \<and> (\<forall>d\<in>set cs. candidate_key c \<le> candidate_key d)"
proof (cases cs)
  case (Cons c ds)
  assume "health_tiered_select cs = Some p"
  with Cons first_min_least [of candidate_key c ds] show ?thesis
    by (intro bexI [of _ "first_min candidate_key c ds"]) (simp_all add: health_tiered_select_def)
qed (simp add: health_tiered_select_def)

lemma health_tiered_None [simp]: "health_tiered_select cs = None \<longleftrightarrow> cs = []"
  by (cases cs) (auto simp: health_tiered_select_def)

lemma candidate_key_inj: "candidate_key c = candidate_key d \<Longrightarrow> c = d"
  by (cases c; cases d) (simp add: candidate_key_def)

lemma health_tiered_set:
  assumes "set cs = set ds"
  shows "health_tiered_select cs = health_tiered_select ds"
proof (cases "cs = []")
  case True
  with assms show ?thesis by simp
next
  case False
  with assms have "ds \<noteq> []" by auto
  with False obtain p q where pq: "health_tiered_select cs = Some p" "health_tiered_select ds = Some q"
    by (metis health_tiered_None not_Some_eq)
  obtain c where c: "c \<in> set cs" "rc_provider c = p" "\<forall>x\<in>set cs. candidate_key c \<le> candidate_key x"
    using health_tiered_least [OF pq(1)] by blast
  obtain d where d: "d \<in> set ds" "rc_provider d = q" "\<forall>x\<in>set ds. candidate_key d \<le> candidate_key x"
    using health_tiered_least [OF pq(2)] by blast
  have "c = d" using c d assms by (intro candidate_key_inj order.antisym) auto
  with c(2) d(2) pq show ?thesis by simp
qed

text \<open>The routing strategy is a function of the candidate set. It answers no provider exactly for no
candidates; otherwise it picks a candidate that is least in the order healthy before degraded, then
by name, and the order or multiplicity in which candidates are listed does not matter.\<close>

theorem strategy_deterministic:
  "(health_tiered_select cs = None \<longleftrightarrow> cs = []) \<and>
   (\<forall>p. health_tiered_select cs = Some p \<longrightarrow>
      (\<exists>c\<in>set cs. rc_provider c = p \<and>
         (\<forall>d\<in>set cs. (rc_degraded c, rc_provider c) \<le> (rc_degraded d, rc_provider d)))) \<and>
   (\<forall>ds. set ds = set cs \<longrightarrow> health_tiered_select ds = health_tiered_select cs)"
proof (intro conjI allI impI)
  show "health_tiered_select cs = None \<longleftrightarrow> cs = []" by simp
  show "\<exists>c\<in>set cs. rc_provider c = p \<and>
      (\<forall>d\<in>set cs. (rc_degraded c, rc_provider c) \<le> (rc_degraded d, rc_provider d))"
    if "health_tiered_select cs = Some p" for p
    using health_tiered_least [OF that] by (simp add: candidate_key_def)
  show "health_tiered_select ds = health_tiered_select cs" if "set ds = set cs" for ds
    using that by (rule health_tiered_set)
qed

theorem strategy_deterministic_witness:
  "health_tiered_select [\<lparr>rc_provider = ''b'', rc_degraded = False\<rparr>, \<lparr>rc_provider = ''a'', rc_degraded = True\<rparr>] =
   health_tiered_select [\<lparr>rc_provider = ''a'', rc_degraded = True\<rparr>, \<lparr>rc_provider = ''b'', rc_degraded = False\<rparr>]"
  by (rule strategy_deterministic [THEN conjunct2, THEN conjunct2, rule_format]) auto

subsection \<open>The chain\<close>

definition self_labelled :: "agent \<Rightarrow> bool" where
  "self_labelled a \<longleftrightarrow> (\<forall>now c b. st_agent (fst (contribute a now c b)) = agent_name a)"

lemma build_simps [simp]:
  "rd_outcome (build_decision now c steps oc) = oc"
  "rd_steps (build_decision now c steps oc) = steps"
  "rd_selected (build_decision now c steps oc) = (if oc = SELECTED then ac_selected c else None)"
  "rd_policy (build_decision now c steps oc) = ac_policy c"
  "rd_cost (build_decision now c steps oc) = ac_cost c"
  "rd_health (build_decision now c steps oc) = ac_health c"
  by (simp_all add: build_decision_def Let_def)

lemma run_chain_steps:
  "\<forall>a\<in>set as. self_labelled a \<Longrightarrow>
     \<exists>new. rd_steps (fst (run_chain as now c b steps)) = steps @ new \<and> (as \<noteq> [] \<longrightarrow> new \<noteq> []) \<and>
       length new \<le> length as \<and> map st_agent new = take (length new) (map agent_name as)"
proof (induction as arbitrary: c b steps)
  case (Cons a as)
  obtain s c' b' where x: "contribute a now c b = (s, c', b')" by (metis prod_cases3)
  have s: "st_agent s = agent_name a"
    using Cons.prems x by (auto simp: self_labelled_def) (metis fst_conv)
  show ?case
  proof (cases "terminal_outcome c'")
    case None
    from Cons.IH [of c' b' "steps @ [s]"] Cons.prems obtain new where
      "rd_steps (fst (run_chain as now c' b' (steps @ [s]))) = (steps @ [s]) @ new"
      "length new \<le> length as" "map st_agent new = take (length new) (map agent_name as)" by auto
    with x s None show ?thesis by (intro exI [of _ "s # new"]) simp
  next
    case (Some oc)
    with x s show ?thesis by (intro exI [of _ "[s]"]) simp
  qed
qed simp

lemma terminal_not_selected: "terminal_outcome c = Some oc \<Longrightarrow> oc \<noteq> SELECTED"
  by (auto simp: terminal_outcome_def split: if_splits)

lemma run_chain_selected:
  assumes "rd_outcome (fst (run_chain as now c b steps)) = SELECTED"
    and "terminal_outcome c = None"
  shows "let d = fst (run_chain as now c b steps) in
    rd_selected d \<noteq> None \<and> (\<forall>p. rd_policy d = Some p \<longrightarrow> po_allowed p) \<and>
    (\<forall>k. rd_cost d = Some k \<longrightarrow> co_within k)"
  using assms
proof (induction as arbitrary: c b steps)
  case Nil
  then show ?case by (auto simp: terminal_outcome_def split: if_splits option.splits)
next
  case (Cons a as)
  obtain s c' b' where x: "contribute a now c b = (s, c', b')" by (metis prod_cases3)
  show ?case
  proof (cases "terminal_outcome c'")
    case None
    with Cons x show ?thesis by simp
  next
    case (Some oc)
    with Cons.prems x terminal_not_selected [OF Some] show ?thesis by simp
  qed
qed

text \<open>Every routing decision is explained and none overrides a denial. For any non-empty chain of
agents that sign their own steps, the decision carries at least one reasoning step and its steps are
signed by the chain's first agents in order; if the outcome is a selection, a provider is named, no
policy decision on record denied the request and no cost decision put it over budget.\<close>

theorem decisions_explained:
  assumes "as \<noteq> []" "\<forall>a\<in>set as. self_labelled a"
  shows "let d = fst (decide as now org cid req candidates b) in
    (\<exists>n. 1 \<le> n \<and> n \<le> length as \<and> map st_agent (rd_steps d) = take n (map agent_name as)) \<and>
    (rd_outcome d = SELECTED \<longrightarrow> rd_selected d \<noteq> None \<and>
       (\<forall>p. rd_policy d = Some p \<longrightarrow> po_allowed p) \<and> (\<forall>k. rd_cost d = Some k \<longrightarrow> co_within k))"
proof -
  let ?c = "initial_context org cid req candidates"
  from run_chain_steps [OF assms(2), of now ?c b "[]"] assms(1) obtain new where
    new: "rd_steps (fst (decide as now org cid req candidates b)) = new" "new \<noteq> []" "length new \<le> length as"
      "map st_agent new = take (length new) (map agent_name as)"
    by (auto simp: decide_def)
  then have "1 \<le> length new" by (cases new) auto
  moreover have "terminal_outcome ?c = None" by (simp add: terminal_outcome_def initial_context_def)
  ultimately show ?thesis
    using new run_chain_selected [of as now ?c b "[]"] by (auto simp: decide_def Let_def)
qed

lemma gateway_self_labelled: "\<forall>a\<in>set (gateway_agents cfg). self_labelled a"
  by (simp add: gateway_agents_def self_labelled_def planner_agent_def policy_agent_def cost_agent_def
      health_agent_def provider_agent_def Let_def split: prod.split option.split)

theorem decisions_explained_witness:
  "\<exists>n. 1 \<le> n \<and> n \<le> 5 \<and>
     map st_agent (rd_steps (fst (decide (gateway_agents default_breaker_config) 40 7 ''a'' [] [''acme'']
       sample_breaker))) = take n [''planner'', ''policy'', ''cost'', ''health'', ''provider'']"
proof -
  have g: "gateway_agents default_breaker_config \<noteq> []" by (simp add: gateway_agents_def)
  have n: "map agent_name (gateway_agents default_breaker_config) =
      [''planner'', ''policy'', ''cost'', ''health'', ''provider'']"
    "length (gateway_agents default_breaker_config) = 5"
    by (simp_all add: gateway_agents_def planner_agent_def policy_agent_def cost_agent_def health_agent_def
        provider_agent_def)
  show ?thesis
    using decisions_explained [OF g gateway_self_labelled, of 40 7 "''a''" "[]" "[''acme'']" sample_breaker]
    unfolding n Let_def by blast
qed

subsection \<open>The gateway's own chain\<close>

abbreviation reported :: "breaker_config \<Rightarrow> uuid \<Rightarrow> instant \<Rightarrow> breaker \<Rightarrow> string \<Rightarrow> circuit_state" where
  "reported cfg org now b p \<equiv> ci_state (half_open_if_due cfg now (circuit_view b org p))"

definition tiered :: "breaker_config \<Rightarrow> uuid \<Rightarrow> instant \<Rightarrow> breaker \<Rightarrow> string list \<Rightarrow> routing_candidate list" where
  "tiered cfg org now b ps =
     map (\<lambda>p. \<lparr>rc_provider = p, rc_degraded = False\<rparr>) (filter (\<lambda>p. reported cfg org now b p = CLOSED) ps) @
     map (\<lambda>p. \<lparr>rc_provider = p, rc_degraded = True\<rparr>) (filter (\<lambda>p. reported cfg org now b p = HALF_OPEN) ps)"

lemma sort_assess:
  "sort_assessments (snd (assess cfg org now ps b)) =
     \<lparr>he_healthy = filter (\<lambda>p. reported cfg org now b p = CLOSED) ps,
      he_degraded = filter (\<lambda>p. reported cfg org now b p = HALF_OPEN) ps,
      he_excluded = filter (\<lambda>p. reported cfg org now b p = OPEN) ps\<rparr>"
proof -
  have "s \<noteq> OPEN \<and> s \<noteq> HALF_OPEN \<longleftrightarrow> s = CLOSED" for s by (cases s) auto
  then show ?thesis
    by (simp add: sort_assessments_def assess_states filter_map comp_def)
qed

lemma tiered_empty: "tiered cfg org now b ps = [] \<longleftrightarrow> (\<forall>p\<in>set ps. reported cfg org now b p = OPEN)"
  unfolding tiered_def by (auto simp: filter_empty_conv) (metis circuit_state.exhaust)

lemma agent_steps:
  "\<exists>s pl. contribute (planner_agent n) now c b = (s, c\<lparr>ac_planner := Some pl\<rparr>, b)"
  "\<exists>s po. contribute (policy_agent n True r) now c b = (s, c\<lparr>ac_policy := Some po\<rparr>, b) \<and> po_allowed po"
  "\<exists>s co. contribute (cost_agent n t True) now c b = (s, c\<lparr>ac_cost := Some co\<rparr>, b) \<and> co_within co"
proof -
  show "\<exists>s pl. contribute (planner_agent n) now c b = (s, c\<lparr>ac_planner := Some pl\<rparr>, b)"
    unfolding planner_agent_def Let_def by (simp only: agent.simps prod.inject) blast
  show "\<exists>s po. contribute (policy_agent n True r) now c b = (s, c\<lparr>ac_policy := Some po\<rparr>, b) \<and> po_allowed po"
    by (rule exI, rule exI [of _ "\<lparr>po_allowed = True, po_reason = r, po_providers = [], po_regions = []\<rparr>"])
      (simp add: policy_agent_def)
  show "\<exists>s co. contribute (cost_agent n t True) now c b = (s, c\<lparr>ac_cost := Some co\<rparr>, b) \<and> co_within co"
    by (rule exI, rule exI [of _ "\<lparr>co_estimated = t, co_currency = ''USD'', co_within = True, co_remaining = None\<rparr>"])
      (simp add: cost_agent_def)
qed

lemma health_step:
  "\<exists>s. contribute (health_agent n (Some cfg) []) now c b =
     (s, c\<lparr>ac_health := Some (sort_assessments (snd (assess cfg (ac_organization c) now (ac_candidates c) b)))\<rparr>,
      fst (assess cfg (ac_organization c) now (ac_candidates c) b))"
  by (simp add: health_agent_def health_decide_def Let_def split: prod.split)

lemma provider_step:
  "\<exists>s. contribute (provider_agent n (Some sel)) now c b =
     (s, case sel (usable_candidates c) of
           None \<Rightarrow> c
         | Some p \<Rightarrow> c\<lparr>ac_selected := Some p, ac_confidence := Some (1 / of_nat (length (usable_candidates c)))\<rparr>, b)"
  by (auto simp: provider_agent_def Let_def split: option.split)

lemma gateway_decide:
  "rd_outcome (fst (decide (gateway_agents cfg) now org cid req ps b)) =
     (if ps = [] then NO_CANDIDATE
      else if tiered cfg org now b ps = [] then ALL_UNHEALTHY else SELECTED) \<and>
   rd_selected (fst (decide (gateway_agents cfg) now org cid req ps b)) =
     health_tiered_select (tiered cfg org now b ps)"
proof -
  let ?c0 = "initial_context org cid req ps"
  obtain s1 pl where 1: "contribute (planner_agent ''planner'') now ?c0 b = (s1, ?c0\<lparr>ac_planner := Some pl\<rparr>, b)"
    using agent_steps(1) by blast
  let ?c1 = "?c0\<lparr>ac_planner := Some pl\<rparr>"
  obtain s2 po where 2: "contribute (policy_agent ''policy'' True None) now ?c1 b = (s2, ?c1\<lparr>ac_policy := Some po\<rparr>, b)"
    "po_allowed po" using agent_steps(2) by blast
  let ?c2 = "?c1\<lparr>ac_policy := Some po\<rparr>"
  obtain s3 co where 3: "contribute (cost_agent ''cost'' ''0.0'' True) now ?c2 b = (s3, ?c2\<lparr>ac_cost := Some co\<rparr>, b)"
    "co_within co" using agent_steps(3) by blast
  define c3 where "c3 = ?c2\<lparr>ac_cost := Some co\<rparr>"
  define h where "h = sort_assessments (snd (assess cfg org now ps b))"
  define b4 where "b4 = fst (assess cfg org now ps b)"
  have c3: "ac_organization c3 = org" "ac_candidates c3 = ps" "ac_selected c3 = None" "ac_policy c3 = Some po"
    "ac_cost c3 = Some co" "ac_health c3 = None"
    by (simp_all add: c3_def initial_context_def)
  obtain s4 where 4: "contribute (health_agent ''health'' (Some cfg) []) now c3 b = (s4, c3\<lparr>ac_health := Some h\<rparr>, b4)"
    using health_step [of "''health''" cfg now c3 b] c3(1,2) by (auto simp: h_def b4_def)
  define c4 where "c4 = c3\<lparr>ac_health := Some h\<rparr>"
  obtain s5 where 5: "contribute (provider_agent ''provider'' (Some health_tiered_select)) now c4 b4 =
     (s5, case health_tiered_select (usable_candidates c4) of
           None \<Rightarrow> c4
         | Some p \<Rightarrow> c4\<lparr>ac_selected := Some p, ac_confidence := Some (1 / of_nat (length (usable_candidates c4)))\<rparr>, b4)"
    using provider_step by blast
  have u: "usable_candidates c4 = tiered cfg org now b ps"
    by (simp add: usable_candidates_def c4_def h_def sort_assess tiered_def)
  have none: "terminal_outcome ?c1 = None" "terminal_outcome ?c2 = None" "terminal_outcome c3 = None"
    using 2(2) 3(2) by (simp_all add: terminal_outcome_def initial_context_def c3_def)
  have empty: "he_healthy h = [] \<and> he_degraded h = [] \<longleftrightarrow> tiered cfg org now b ps = []"
    by (simp add: h_def sort_assess tiered_def)
  have c4: "ac_selected c4 = None" "ac_candidates c4 = ps" by (simp_all add: c4_def c3)
  have t4: "terminal_outcome c4 = (if tiered cfg org now b ps = [] \<and> ps \<noteq> [] then Some ALL_UNHEALTHY else None)"
    using 2(2) 3(2) c3 empty by (auto simp: terminal_outcome_def c4_def)
  have t5: "terminal_outcome (c4\<lparr>ac_selected := x, ac_confidence := y\<rparr>) = terminal_outcome c4" for x y
    by (simp add: terminal_outcome_def)
  have chain: "decide (gateway_agents cfg) now org cid req ps b =
      run_chain [health_agent ''health'' (Some cfg) [], provider_agent ''provider'' (Some health_tiered_select)]
        now c3 b [s1, s2, s3]"
    unfolding decide_def gateway_agents_def by (simp add: 1 2 3 none flip: c3_def)
  show ?thesis
  proof (cases "tiered cfg org now b ps = []")
    case True
    then have n: "health_tiered_select (usable_candidates c4) = None" by (simp add: u)
    have nil: "health_tiered_select [] = None" by simp
    show ?thesis
    proof (cases "ps = []")
      case ps: True
      with True have "terminal_outcome c4 = None" by (simp add: t4)
      then show ?thesis
        unfolding chain True using ps by (simp add: 4 5 n c4(1) nil flip: c4_def)
    next
      case ps: False
      with True have "terminal_outcome c4 = Some ALL_UNHEALTHY" by (simp add: t4)
      then show ?thesis
        unfolding chain True using ps by (simp add: 4 nil flip: c4_def)
    qed
  next
    case False
    then obtain p where p: "health_tiered_select (usable_candidates c4) = Some p"
      by (metis u health_tiered_None not_Some_eq)
    from False have "ps \<noteq> []" by (auto simp: tiered_def)
    with False p show ?thesis
      by (simp add: chain 4 5 t4 t5 flip: c4_def u)
  qed
qed

lemma tiered_member:
  "x \<in> set (tiered cfg org now b ps) \<longleftrightarrow>
     rc_provider x \<in> set ps \<and>
     reported cfg org now b (rc_provider x) = (if rc_degraded x then HALF_OPEN else CLOSED)"
  by (cases x) (auto simp: tiered_def image_iff)

lemma tiered_select:
  assumes "health_tiered_select (tiered cfg org now b ps) = Some p"
  shows "p \<in> set ps" and "reported cfg org now b p \<noteq> OPEN"
    and "q \<in> set ps \<Longrightarrow> reported cfg org now b q = CLOSED \<Longrightarrow> reported cfg org now b p = CLOSED"
    and "q \<in> set ps \<Longrightarrow> reported cfg org now b q = reported cfg org now b p \<Longrightarrow> p \<le> q"
proof -
  obtain c where c: "c \<in> set (tiered cfg org now b ps)" "rc_provider c = p"
    and least: "\<And>d. d \<in> set (tiered cfg org now b ps) \<Longrightarrow> candidate_key c \<le> candidate_key d"
    using health_tiered_least [OF assms] by blast
  from c have m: "p \<in> set ps" "reported cfg org now b p = (if rc_degraded c then HALF_OPEN else CLOSED)"
    by (auto simp: tiered_member)
  then show "p \<in> set ps" "reported cfg org now b p \<noteq> OPEN" by auto
  show "reported cfg org now b p = CLOSED" if "q \<in> set ps" "reported cfg org now b q = CLOSED"
  proof -
    have "candidate_key c \<le> candidate_key \<lparr>rc_provider = q, rc_degraded = False\<rparr>"
      using that by (intro least) (simp add: tiered_member)
    then show ?thesis using m(2) by (auto simp: candidate_key_def)
  qed
  show "p \<le> q" if "q \<in> set ps" "reported cfg org now b q = reported cfg org now b p"
  proof -
    have "candidate_key c \<le> candidate_key \<lparr>rc_provider = q, rc_degraded = rc_degraded c\<rparr>"
      using that m(2) by (intro least) (simp add: tiered_member)
    then show ?thesis using c(2) by (auto simp: candidate_key_def)
  qed
qed

lemma gateway_route:
  assumes "stable_catalog catalog" "cat_candidates catalog org = Inr ds"
  shows "\<exists>e. fst (route catalog (gateway_agents cfg) now org cid req b) = Inr e \<and>
    rd_outcome (re_decision e) =
      (if ds = [] then NO_CANDIDATE
       else if \<forall>d\<in>set ds. reported cfg org now b (prov_name d) = OPEN then ALL_UNHEALTHY else SELECTED) \<and>
    (case re_provider e of
       None \<Rightarrow> rd_outcome (re_decision e) \<noteq> SELECTED
     | Some p \<Rightarrow> rd_outcome (re_decision e) = SELECTED \<and> p \<in> set ds \<and>
         health_tiered_select (tiered cfg org now b (map prov_name ds)) = Some (prov_name p))"
proof -
  obtain d b' where d: "decide (gateway_agents cfg) now org cid req (map prov_name ds) b = (d, b')" by fastforce
  note g = gateway_decide [of cfg now org cid req "map prov_name ds" b, unfolded d fst_conv]
  have sel: "\<exists>p. rd_selected d = Some p \<and> p \<in> prov_name ` set ds" if o: "rd_outcome d = SELECTED"
  proof -
    from g o have "tiered cfg org now b (map prov_name ds) \<noteq> []" by (auto split: if_splits)
    then obtain p where "health_tiered_select (tiered cfg org now b (map prov_name ds)) = Some p"
      by (metis health_tiered_None not_Some_eq)
    with g tiered_select(1) [OF this] show ?thesis by auto
  qed
  from stable_catalog.route_resolves [OF assms d sel] obtain e where
    e: "route catalog (gateway_agents cfg) now org cid req b = (Inr e, b')" "re_decision e = d"
      "case re_provider e of None \<Rightarrow> rd_outcome d \<noteq> SELECTED
       | Some p \<Rightarrow> rd_outcome d = SELECTED \<and> p \<in> set ds \<and> rd_selected d = Some (prov_name p)" by blast
  have te: "tiered cfg org now b (map prov_name ds) = [] \<longleftrightarrow>
      (\<forall>d\<in>set ds. reported cfg org now b (prov_name d) = OPEN)" by (simp add: tiered_empty)
  have oc: "rd_outcome d = (if ds = [] then NO_CANDIDATE
       else if \<forall>d\<in>set ds. reported cfg org now b (prov_name d) = OPEN then ALL_UNHEALTHY else SELECTED)"
    using g unfolding te by simp
  have "case re_provider e of None \<Rightarrow> rd_outcome d \<noteq> SELECTED
      | Some p \<Rightarrow> rd_outcome d = SELECTED \<and> p \<in> set ds \<and>
          health_tiered_select (tiered cfg org now b (map prov_name ds)) = Some (prov_name p)"
    using e(3) g by (cases "re_provider e") (simp_all del: health_tiered_None)
  then show ?thesis
    using oc unfolding e(2) [symmetric] by (intro exI [of _ e] conjI; (simp only: e(1) fst_conv)?)
qed

text \<open>C24: the gateway routes every request to the healthiest provider of the tenant. With a readable
catalogue routing never fails: it reports no candidate exactly when the tenant has no enabled
provider and all unhealthy exactly when every circuit is open; otherwise the provider is one of the
tenant's, its circuit is not open, it is closed if any is, and it comes first by name among the
providers in the same state.\<close>

theorem gateway_routes_healthiest:
  assumes "cdb_up db"
    and ds_def: "ds = first_per_provider (catalog_rows db org)"
    and st_def: "st = (\<lambda>p. ci_state (half_open_if_due cfg now (circuit_view b org p)))"
  shows "\<exists>e. fst (route (sql_provider_catalog db) (gateway_agents cfg) now org cid req b) = Inr e \<and>
    rd_outcome (re_decision e) =
      (if ds = [] then NO_CANDIDATE
       else if \<forall>d\<in>set ds. st (prov_name d) = OPEN then ALL_UNHEALTHY else SELECTED) \<and>
    (rd_outcome (re_decision e) = SELECTED \<longleftrightarrow> routed e) \<and>
    (\<forall>p. re_provider e = Some p \<longrightarrow>
       p \<in> set ds \<and> st (prov_name p) \<noteq> OPEN \<and>
       ((\<exists>d\<in>set ds. st (prov_name d) = CLOSED) \<longrightarrow> st (prov_name p) = CLOSED) \<and>
       (\<forall>d\<in>set ds. st (prov_name d) = st (prov_name p) \<longrightarrow> prov_name p \<le> prov_name d))"
proof -
  have c: "cat_candidates (sql_provider_catalog db) org = Inr ds"
    using assms(1) by (simp add: sql_provider_catalog_def sql_descriptors_def ds_def)
  obtain e where e: "fst (route (sql_provider_catalog db) (gateway_agents cfg) now org cid req b) = Inr e"
    "rd_outcome (re_decision e) = (if ds = [] then NO_CANDIDATE
       else if \<forall>d\<in>set ds. st (prov_name d) = OPEN then ALL_UNHEALTHY else SELECTED)"
    "case re_provider e of None \<Rightarrow> rd_outcome (re_decision e) \<noteq> SELECTED
     | Some p \<Rightarrow> rd_outcome (re_decision e) = SELECTED \<and> p \<in> set ds \<and>
         health_tiered_select (tiered cfg org now b (map prov_name ds)) = Some (prov_name p)"
    using gateway_route [OF sqlcat.stable_catalog_axioms c, of cfg now cid req b]
    unfolding st_def by blast
  have "p \<in> set ds \<and> st (prov_name p) \<noteq> OPEN \<and>
       ((\<exists>d\<in>set ds. st (prov_name d) = CLOSED) \<longrightarrow> st (prov_name p) = CLOSED) \<and>
       (\<forall>d\<in>set ds. st (prov_name d) = st (prov_name p) \<longrightarrow> prov_name p \<le> prov_name d)"
    if "re_provider e = Some p" for p
  proof -
    from e(3) that have p: "p \<in> set ds"
      "health_tiered_select (tiered cfg org now b (map prov_name ds)) = Some (prov_name p)" by auto
    note t = tiered_select [OF p(2)]
    show ?thesis unfolding st_def
    proof (intro conjI ballI impI)
      show "p \<in> set ds" by (rule p(1))
      show "reported cfg org now b (prov_name p) \<noteq> OPEN" by (rule t(2))
      show "reported cfg org now b (prov_name p) = CLOSED"
        if "\<exists>d\<in>set ds. reported cfg org now b (prov_name d) = CLOSED"
      proof -
        from that obtain d where "d \<in> set ds" "reported cfg org now b (prov_name d) = CLOSED" by blast
        then show ?thesis by (intro t(3) [of "prov_name d"]) auto
      qed
      show "prov_name p \<le> prov_name d"
        if "d \<in> set ds" "reported cfg org now b (prov_name d) = reported cfg org now b (prov_name p)" for d
        using that by (intro t(4)) auto
    qed
  qed
  moreover have "rd_outcome (re_decision e) = SELECTED \<longleftrightarrow> routed e"
    using e(3) by (cases "re_provider e") (simp_all add: routed_def)
  ultimately show ?thesis using e(1,2) by (intro exI [of _ e] conjI) simp_all
qed

definition sample_catalog :: catalog_db where
  "sample_catalog = \<lparr>cdb_up = True,
     cdb_providers =
       [\<lparr>cp_id = 30, cp_organization = 7, cp_name = ''beta'', cp_region = None, cp_enabled = True\<rparr>,
        \<lparr>cp_id = 31, cp_organization = 7, cp_name = ''acme'', cp_region = Some ''eu'', cp_enabled = True\<rparr>],
     cdb_models =
       [\<lparr>cm_organization = 7, cm_provider = 31, cm_name = ''m1'', cm_enabled = True\<rparr>,
        \<lparr>cm_organization = 7, cm_provider = 30, cm_name = ''m2'', cm_enabled = True\<rparr>]\<rparr>"

theorem gateway_routes_healthiest_witness:
  "\<exists>e. fst (route (sql_provider_catalog sample_catalog) (gateway_agents \<lparr>failure_threshold = 1, cooldown = 30\<rparr>)
       15 7 ''a'' [] sample_breaker) = Inr e"
proof -
  have "cdb_up sample_catalog" by (simp add: sample_catalog_def)
  from gateway_routes_healthiest [OF this refl refl] show ?thesis by blast
qed

end
