(* ===== verification/Cache.thy ===== *)
theory Cache imports Routing begin

text \<open>
  The response cache: its port (\<open>application/ports/cache.py\<close>), the cache key
  (\<open>application/execution/cache_key.py\<close>) and the two stores (\<open>adapters/cache\<close>). SHA-256 is a parameter,
  a function from texts to digests. A store's clock reading is an argument of each operation.
\<close>

subsection \<open>Keys\<close>

type_synonym digest = "string \<Rightarrow> string"

definition cache_key_new :: "string \<Rightarrow> string res" where
  "cache_key_new d = (if length d \<noteq> 32 then Inl ValueError else Inr d)"

fun hex_text :: "nat \<Rightarrow> nat \<Rightarrow> string" where
  "hex_text 0 n = []"
| "hex_text (Suc k) n = hex_text k (n div 16) @ [hex_digit (n mod 16)]"

text \<open>\<open>str(uuid)\<close>: 32 hexadecimal digits in groups of 8, 4, 4, 4 and 12.\<close>

definition uuid_text :: "uuid \<Rightarrow> string" where
  "uuid_text u =
     (let h = hex_text 32 u in
      take 8 h @ ''-'' @ take 4 (drop 8 h) @ ''-'' @ take 4 (drop 12 h) @ ''-'' @ take 4 (drop 16 h) @
      ''-'' @ drop 20 h)"

definition nul :: char where
  "nul = char_of (0 :: nat)"

definition key_material :: "uuid \<Rightarrow> string \<Rightarrow> string \<Rightarrow> payload \<Rightarrow> string" where
  "key_material org provider model p = join [nul] [uuid_text org, provider, model, dumps (JObj p)]"

definition compute_cache_key :: "digest \<Rightarrow> uuid \<Rightarrow> string \<Rightarrow> string \<Rightarrow> payload \<Rightarrow> string res" where
  "compute_cache_key sha org provider model p = cache_key_new (sha (key_material org provider model p))"

subsection \<open>The port\<close>

record cached_response =
  ca_provider :: string
  ca_model :: string
  ca_content :: json

record 'c cache_port =
  cache_get :: "uuid \<Rightarrow> string \<Rightarrow> instant \<Rightarrow> 'c \<Rightarrow> 'c \<times> cached_response option res"
  cache_put :: "uuid \<Rightarrow> string \<Rightarrow> cached_response \<Rightarrow> instant \<Rightarrow> 'c \<Rightarrow> 'c \<times> unit res"

text \<open>
  What a cache promises: a stored response is served to its tenant under its key until it expires,
  and a store is only changed where it is written. \<open>up\<close> says that the next operation reaches the
  store and \<open>lookup\<close> is what the store would answer.
\<close>

locale response_cache =
  fixes port :: "'c cache_port"
    and up :: "'c \<Rightarrow> bool"
    and lookup :: "'c \<Rightarrow> instant \<Rightarrow> uuid \<Rightarrow> string \<Rightarrow> cached_response option"
    and ttl :: duration
  assumes get_up: "up c \<Longrightarrow> snd (cache_get port org key now c) = Inr (lookup c now org key)"
    and get_down: "\<not> up c \<Longrightarrow> snd (cache_get port org key now c) = Inl CacheUnavailableError"
    and get_keeps: "lookup (fst (cache_get port org key now c)) = lookup c"
    and put_done: "cache_put port org key r now c = (c', Inr u) \<Longrightarrow> lookup c' t org key = (if t < now + ttl then Some r else None)"
    and put_other: "(org', key') \<noteq> (org, key) \<Longrightarrow>
           lookup (fst (cache_put port org key r now c)) t org' key' = lookup c t org' key'"
    and put_fails: "cache_put port org key r now c = (c', Inl e) \<Longrightarrow> e = CacheUnavailableError"

subsection \<open>InMemoryResponseCache\<close>

definition default_cache_ttl :: duration where
  "default_cache_ttl = 60 * 60 * second"

record cache_entry =
  en_response :: cached_response
  en_expires :: instant

record memory_cache =
  mc_store :: "uuid \<times> string \<rightharpoonup> cache_entry"
  mc_unavailable :: bool

definition memory_cache_get ::
  "uuid \<Rightarrow> string \<Rightarrow> instant \<Rightarrow> memory_cache \<Rightarrow> memory_cache \<times> cached_response option res" where
  "memory_cache_get org key now c =
     (c, if mc_unavailable c then Inl CacheUnavailableError
         else (case mc_store c (org, key) of
             None \<Rightarrow> Inr None
           | Some e \<Rightarrow> if en_expires e \<le> now then Inr None else Inr (Some (en_response e))))"

definition memory_cache_put ::
  "duration \<Rightarrow> uuid \<Rightarrow> string \<Rightarrow> cached_response \<Rightarrow> instant \<Rightarrow> memory_cache \<Rightarrow> memory_cache \<times> unit res" where
  "memory_cache_put ttl org key r now c =
     (if mc_unavailable c then (c, Inl CacheUnavailableError)
      else (c\<lparr>mc_store := (mc_store c)((org, key) \<mapsto> \<lparr>en_response = r, en_expires = now + ttl\<rparr>)\<rparr>, Inr ()))"

definition memory_cache_port :: "duration \<Rightarrow> memory_cache cache_port" where
  "memory_cache_port ttl = \<lparr>cache_get = memory_cache_get, cache_put = memory_cache_put ttl\<rparr>"

definition memory_cache_lookup :: "memory_cache \<Rightarrow> instant \<Rightarrow> uuid \<Rightarrow> string \<Rightarrow> cached_response option" where
  "memory_cache_lookup c now org key =
     (case mc_store c (org, key) of
        None \<Rightarrow> None
      | Some e \<Rightarrow> if en_expires e \<le> now then None else Some (en_response e))"

interpretation memcache: response_cache "memory_cache_port ttl" "\<lambda>c. \<not> mc_unavailable c" memory_cache_lookup ttl
  for ttl
  by unfold_locales
    (auto simp: memory_cache_port_def memory_cache_get_def memory_cache_put_def memory_cache_lookup_def
      fun_eq_iff split: option.splits if_splits)

subsection \<open>SqlResponseCache\<close>

record cache_row =
  sce_organization :: uuid
  sce_hash :: string
  sce_response :: json
  sce_expires :: "instant option"

text \<open>A fault is a lost connection: before the statement took effect or after the commit did.\<close>

datatype cache_fault = Cache_lost_before | Cache_lost_after

record cache_db =
  semantic_cache_entry :: "cache_row list"
  cache_faults :: "cache_fault option list"

definition row_at :: "uuid \<Rightarrow> string \<Rightarrow> cache_row \<Rightarrow> bool" where
  "row_at org key r \<longleftrightarrow> sce_organization r = org \<and> sce_hash r = key"

text \<open>A stored entry whose provider or model is no string, which \<open>put\<close> never writes, counts as
  malformed like one that lacks a key.\<close>

definition parse_cached :: "json \<Rightarrow> cached_response option" where
  "parse_cached v =
     (case v of
        JObj fs \<Rightarrow>
          (case (map_of fs ''provider'', map_of fs ''model'', map_of fs ''content'') of
             (Some (JStr p), Some (JStr m), Some c) \<Rightarrow> Some \<lparr>ca_provider = p, ca_model = m, ca_content = c\<rparr>
           | _ \<Rightarrow> None)
      | _ \<Rightarrow> None)"

definition render_cached :: "cached_response \<Rightarrow> json" where
  "render_cached r =
     JObj [(''provider'', JStr (ca_provider r)), (''model'', JStr (ca_model r)), (''content'', ca_content r)]"

definition cache_lookup :: "cache_db \<Rightarrow> instant \<Rightarrow> uuid \<Rightarrow> string \<Rightarrow> cached_response option" where
  "cache_lookup db now org key =
     (case find (row_at org key) (semantic_cache_entry db) of
        None \<Rightarrow> None
      | Some r \<Rightarrow>
          if (case sce_expires r of None \<Rightarrow> False | Some e \<Rightarrow> e \<le> now) then None
          else parse_cached (sce_response r))"

definition next_fault :: "cache_db \<Rightarrow> cache_fault option" where
  "next_fault db = (case cache_faults db of [] \<Rightarrow> None | f # _ \<Rightarrow> f)"

definition sql_cache_get ::
  "uuid \<Rightarrow> string \<Rightarrow> instant \<Rightarrow> cache_db \<Rightarrow> cache_db \<times> cached_response option res" where
  "sql_cache_get org key now db =
     (db\<lparr>cache_faults := tl (cache_faults db)\<rparr>,
      if next_fault db \<noteq> None then Inl CacheUnavailableError else Inr (cache_lookup db now org key))"

definition upsert_cached :: "duration \<Rightarrow> uuid \<Rightarrow> string \<Rightarrow> cached_response \<Rightarrow> instant \<Rightarrow> cache_row list \<Rightarrow> cache_row list" where
  "upsert_cached ttl org key r now rows =
     (if find (row_at org key) rows \<noteq> None
      then update_where (row_at org key)
             (\<lambda>row. row\<lparr>sce_response := render_cached r, sce_expires := Some (now + ttl)\<rparr>) rows
      else rows @ [\<lparr>sce_organization = org, sce_hash = key, sce_response = render_cached r,
                    sce_expires = Some (now + ttl)\<rparr>])"

definition sql_cache_put ::
  "duration \<Rightarrow> uuid \<Rightarrow> string \<Rightarrow> cached_response \<Rightarrow> instant \<Rightarrow> cache_db \<Rightarrow> cache_db \<times> unit res" where
  "sql_cache_put ttl org key r now db =
     (let db0 = db\<lparr>cache_faults := tl (cache_faults db)\<rparr>;
          db1 = db0\<lparr>semantic_cache_entry := upsert_cached ttl org key r now (semantic_cache_entry db)\<rparr>
      in case next_fault db of
           None \<Rightarrow> (db1, Inr ())
         | Some Cache_lost_before \<Rightarrow> (db0, Inl CacheUnavailableError)
         | Some Cache_lost_after \<Rightarrow> (db1, Inl CacheUnavailableError))"

definition sql_cache_port :: "duration \<Rightarrow> cache_db cache_port" where
  "sql_cache_port ttl = \<lparr>cache_get = sql_cache_get, cache_put = sql_cache_put ttl\<rparr>"

lemma parse_render [simp]: "parse_cached (render_cached r) = Some r"
  by (simp add: parse_cached_def render_cached_def)

lemma find_upsert:
  "find (row_at o' k') (upsert_cached ttl org key r now rows) =
     (if (o', k') = (org, key)
      then Some (case find (row_at org key) rows of
            None \<Rightarrow> \<lparr>sce_organization = org, sce_hash = key, sce_response = render_cached r, sce_expires = Some (now + ttl)\<rparr>
          | Some row \<Rightarrow> row\<lparr>sce_response := render_cached r, sce_expires := Some (now + ttl)\<rparr>)
      else find (row_at o' k') rows)"
proof (cases "find (row_at org key) rows")
  case None
  then show ?thesis by (auto simp: upsert_cached_def find_append row_at_def split: option.split)
next
  case (Some row)
  let ?g = "\<lambda>row. row\<lparr>sce_response := render_cached r, sce_expires := Some (now + ttl)\<rparr>"
  have "find (row_at o' k') (update_where (row_at org key) ?g rows) =
      map_option (\<lambda>x. if row_at org key x then ?g x else x) (find (row_at o' k') rows)"
    by (rule find_update_where_key) (simp add: row_at_def)
  moreover have "\<not> row_at org key x" if "find (row_at o' k') rows = Some x" "(o', k') \<noteq> (org, key)" for x
    using find_SomeD [OF that(1)] that(2) by (auto simp: row_at_def)
  moreover have "row_at org key row" using find_SomeD [OF Some] by simp
  ultimately show ?thesis
    using Some by (cases "find (row_at o' k') rows") (auto simp: upsert_cached_def)
qed

interpretation sqlcache: response_cache "sql_cache_port ttl" "\<lambda>db. next_fault db = None" cache_lookup ttl
  for ttl
proof
  fix c c' :: cache_db and org org' :: uuid and key key' :: string and r now t e u
  show "snd (cache_get (sql_cache_port ttl) org key now c) = Inr (cache_lookup c now org key)"
    if "next_fault c = None" using that by (simp add: sql_cache_port_def sql_cache_get_def)
  show "snd (cache_get (sql_cache_port ttl) org key now c) = Inl CacheUnavailableError"
    if "\<not> next_fault c = None" using that by (simp add: sql_cache_port_def sql_cache_get_def)
  show "cache_lookup (fst (cache_get (sql_cache_port ttl) org key now c)) = cache_lookup c"
    by (simp add: sql_cache_port_def sql_cache_get_def cache_lookup_def fun_eq_iff)
  show "cache_lookup c' t org key = (if t < now + ttl then Some r else None)"
    if "cache_put (sql_cache_port ttl) org key r now c = (c', Inr u)"
  proof -
    have "c' = c\<lparr>cache_faults := tl (cache_faults c),
        semantic_cache_entry := upsert_cached ttl org key r now (semantic_cache_entry c)\<rparr>"
      using that by (simp add: sql_cache_port_def sql_cache_put_def Let_def split: option.splits cache_fault.splits)
    then show ?thesis by (simp add: cache_lookup_def find_upsert split: option.split)
  qed
  show "cache_lookup (fst (cache_put (sql_cache_port ttl) org key r now c)) t org' key' = cache_lookup c t org' key'"
    if "(org', key') \<noteq> (org, key)"
  proof -
    have "fst (cache_put (sql_cache_port ttl) org key r now c) = c\<lparr>cache_faults := tl (cache_faults c)\<rparr> \<or>
        fst (cache_put (sql_cache_port ttl) org key r now c) = c\<lparr>cache_faults := tl (cache_faults c),
          semantic_cache_entry := upsert_cached ttl org key r now (semantic_cache_entry c)\<rparr>"
      by (cases "next_fault c") (simp_all add: sql_cache_port_def sql_cache_put_def Let_def split: cache_fault.split)
    moreover have "find (row_at org' key') (upsert_cached ttl org key r now (semantic_cache_entry c)) =
        find (row_at org' key') (semantic_cache_entry c)"
      by (simp only: find_upsert if_not_P [OF that])
    ultimately show ?thesis by (elim disjE) (simp_all add: cache_lookup_def)
  qed
  show "e = CacheUnavailableError"
    if "cache_put (sql_cache_port ttl) org key r now c = (c', Inl e)"
    using that by (auto simp: sql_cache_port_def sql_cache_put_def Let_def split: option.splits cache_fault.splits)
qed

subsection \<open>What a key identifies\<close>

lemma hex_digit_inj: "a < 16 \<Longrightarrow> b < 16 \<Longrightarrow> hex_digit a = hex_digit b \<Longrightarrow> a = b"
  by (auto simp: hex_digit_def split: if_splits dest!: arg_cong [where f = "of_char :: char \<Rightarrow> nat"])

lemma length_hex_text [simp]: "length (hex_text k n) = k"
  by (induction k arbitrary: n) auto

lemma hex_text_inj:
  "n < 16 ^ k \<Longrightarrow> n' < 16 ^ k \<Longrightarrow> hex_text k n = hex_text k n' \<Longrightarrow> n = n'"
proof (induction k arbitrary: n n')
  case (Suc k)
  from Suc.prems(3) have "n div 16 = n' div 16" and m: "hex_digit (n mod 16) = hex_digit (n' mod 16)"
    using Suc.IH [of "n div 16" "n' div 16"] Suc.prems(1,2) by (simp_all add: less_mult_imp_div_less mult.commute)
  moreover from m have "n mod 16 = n' mod 16" by (intro hex_digit_inj) simp_all
  ultimately show ?case by (metis div_mult_mod_eq)
qed simp

lemma length_uuid_text [simp]: "length (uuid_text u) = 36"
  by (simp add: uuid_text_def Let_def)

lemma uuid_text_inj:
  assumes "u < 2 ^ 128" "v < 2 ^ 128" "uuid_text u = uuid_text v"
  shows "u = v"
proof -
  define h where "h = hex_text 32 u"
  define g where "g = hex_text 32 v"
  have len: "length h = 32" "length g = 32" by (simp_all add: h_def g_def)
  have split: "h = take 8 h @ take 4 (drop 8 h) @ take 4 (drop 12 h) @ take 4 (drop 16 h) @ drop 20 h" for h :: string
    using append_take_drop_id [of 8 h] append_take_drop_id [of 4 "drop 8 h"]
      append_take_drop_id [of 4 "drop 12 h"] append_take_drop_id [of 4 "drop 16 h"] by simp
  have "take 8 h = take 8 g \<and> take 4 (drop 8 h) = take 4 (drop 8 g) \<and> take 4 (drop 12 h) = take 4 (drop 12 g) \<and>
      take 4 (drop 16 h) = take 4 (drop 16 g) \<and> drop 20 h = drop 20 g"
    using assms(3) len unfolding uuid_text_def Let_def h_def [symmetric] g_def [symmetric]
    by (simp add: append_eq_append_conv)
  then have "h = g" using split by metis
  then show ?thesis
    using assms(1,2) hex_text_inj [of u 32 v] by (simp add: h_def g_def)
qed

lemma split_at_nul:
  "c \<notin> set xs \<Longrightarrow> c \<notin> set ys \<Longrightarrow> xs @ c # us = ys @ c # vs \<Longrightarrow> xs = ys \<and> us = vs"
proof (induction xs arbitrary: ys)
  case Nil
  then show ?case by (cases ys) auto
next
  case (Cons x xs)
  then show ?case by (cases ys) auto
qed

lemma key_material_inj:
  assumes "org < 2 ^ 128" "org' < 2 ^ 128"
    and "nul \<notin> set p" "nul \<notin> set p'" "nul \<notin> set m" "nul \<notin> set m'"
  shows "key_material org p m f = key_material org' p' m' f' \<longleftrightarrow>
    org = org' \<and> p = p' \<and> m = m' \<and> dumps (JObj f) = dumps (JObj f')"
proof
  assume "key_material org p m f = key_material org' p' m' f'"
  then have eq: "uuid_text org @ nul # p @ nul # m @ nul # dumps (JObj f) =
      uuid_text org' @ nul # p' @ nul # m' @ nul # dumps (JObj f')"
    by (simp add: key_material_def)
  then have "uuid_text org = uuid_text org'"
    and eq2: "p @ nul # m @ nul # dumps (JObj f) = p' @ nul # m' @ nul # dumps (JObj f')"
    by (simp_all add: append_eq_append_conv)
  then have "org = org'" using assms(1,2) by (intro uuid_text_inj)
  moreover from split_at_nul [OF assms(3,4) eq2] have "p = p'"
    and eq3: "m @ nul # dumps (JObj f) = m' @ nul # dumps (JObj f')" by auto
  moreover from split_at_nul [OF assms(5,6) eq3] have "m = m'" "dumps (JObj f) = dumps (JObj f')" by auto
  ultimately show "org = org' \<and> p = p' \<and> m = m' \<and> dumps (JObj f) = dumps (JObj f')" by simp
qed (simp add: key_material_def)

text \<open>C38: a cache key identifies the tenant, the provider, the model and the canonical payload and
nothing else. For ids of 128 bits, names without a NUL and a digest of 32 bytes that does not
collide on the two texts, two requests share a key exactly when all four agree; the order in which a
payload's items were written does not matter.\<close>

theorem cache_key_identity:
  assumes "org < 2 ^ 128" "org' < 2 ^ 128"
    and "nul \<notin> set p" "nul \<notin> set p'" "nul \<notin> set m" "nul \<notin> set m'"
    and "length (sha (key_material org p m f)) = 32" "length (sha (key_material org' p' m' f')) = 32"
    and "sha (key_material org p m f) = sha (key_material org' p' m' f') \<Longrightarrow>
         key_material org p m f = key_material org' p' m' f'"
    and "distinct (map fst f)" "mset g = mset f"
  shows "(compute_cache_key sha org p m f = compute_cache_key sha org' p' m' f' \<longleftrightarrow>
      org = org' \<and> p = p' \<and> m = m' \<and> dumps (JObj f) = dumps (JObj f')) \<and>
    compute_cache_key sha org p m g = compute_cache_key sha org p m f"
proof
  have "compute_cache_key sha org p m f = compute_cache_key sha org' p' m' f' \<longleftrightarrow>
      key_material org p m f = key_material org' p' m' f'"
    using assms(7-9) by (auto simp: compute_cache_key_def cache_key_new_def)
  then show "compute_cache_key sha org p m f = compute_cache_key sha org' p' m' f' \<longleftrightarrow>
      org = org' \<and> p = p' \<and> m = m' \<and> dumps (JObj f) = dumps (JObj f')"
    using key_material_inj [OF assms(1-6)] by simp
  show "compute_cache_key sha org p m g = compute_cache_key sha org p m f"
    using dumps_key_order [of f g] assms(10,11) by (simp add: compute_cache_key_def key_material_def)
qed

theorem cache_key_identity_witness:
  "compute_cache_key (\<lambda>s. take 32 (drop 5 s)) 7 ''acme'' ''m1'' [(''a'', JInt 1)] \<noteq>
   compute_cache_key (\<lambda>s. take 32 (drop 5 s)) 8 ''acme'' ''m1'' [(''a'', JInt 1)]"
proof -
  have l: "length (take 32 (drop 5 (key_material u ''acme'' ''m1'' f))) = 32" for u f
    by (simp add: key_material_def)
  have k: "take 32 (drop 5 (key_material 7 ''acme'' ''m1'' f)) \<noteq> take 32 (drop 5 (key_material 8 ''acme'' ''m1'' f))" for f
  proof -
    have "take 32 (drop 5 (uuid_text 7)) \<noteq> take 32 (drop 5 (uuid_text 8))" by code_simp
    then show ?thesis by (simp add: key_material_def)
  qed
  have n: "nul \<notin> set ''acme''" "nul \<notin> set ''m1''" by code_simp+
  have "compute_cache_key (\<lambda>s. take 32 (drop 5 s)) 7 ''acme'' ''m1'' [(''a'', JInt 1)] =
      compute_cache_key (\<lambda>s. take 32 (drop 5 s)) 8 ''acme'' ''m1'' [(''a'', JInt 1)] \<longleftrightarrow>
      (7 :: nat) = 8 \<and> ''acme'' = ''acme'' \<and> ''m1'' = ''m1'' \<and>
      dumps (JObj [(''a'', JInt 1)]) = dumps (JObj [(''a'', JInt 1)])"
  proof (rule cache_key_identity [where g = "[(''a'', JInt 1)]", THEN conjunct1])
    show "key_material 7 ''acme'' ''m1'' [(''a'', JInt 1)] = key_material 8 ''acme'' ''m1'' [(''a'', JInt 1)]"
      if "take 32 (drop 5 (key_material 7 ''acme'' ''m1'' [(''a'', JInt 1)])) =
          take 32 (drop 5 (key_material 8 ''acme'' ''m1'' [(''a'', JInt 1)]))"
      using that k by (rule notE [rotated])
  qed (rule n l | simp)+
  then show ?thesis by simp
qed

text \<open>The SQL cache gives back what was put. After a put that reported success, a get of the same
tenant and key over a working connection returns that response until its time to live has passed and
nothing afterwards, every other tenant's and key's entry answers as before, and an unreachable
store raises only the outage exception that the coordinator turns into a miss.\<close>

theorem sql_cache_round_trip:
  assumes "sql_cache_put ttl org key r now db = (db', Inr u)"
  shows "(next_fault db' = None \<longrightarrow>
      snd (sql_cache_get org key t db') = Inr (if t < now + ttl then Some r else None)) \<and>
    ((org', key') \<noteq> (org, key) \<longrightarrow> cache_lookup db' t org' key' = cache_lookup db t org' key') \<and>
    (next_fault db' \<noteq> None \<longrightarrow> snd (sql_cache_get org key t db') = Inl CacheUnavailableError)"
proof -
  have p: "cache_put (sql_cache_port ttl) org key r now db = (db', Inr u)"
    using assms by (simp add: sql_cache_port_def)
  have g: "cache_get (sql_cache_port ttl) = sql_cache_get" by (simp add: sql_cache_port_def)
  show ?thesis
    using sqlcache.get_up [of db' ttl org key t] sqlcache.get_down [of db' ttl org key t]
      sqlcache.put_done [OF p, of t] sqlcache.put_other [of org' key' org key ttl r now db t] p
    by (simp add: g)
qed

theorem sql_cache_round_trip_witness:
  "snd (sql_cache_get 7 ''k'' 20 (fst (sql_cache_put 100 7 ''k''
      \<lparr>ca_provider = ''acme'', ca_model = ''m1'', ca_content = JStr ''hi''\<rparr> 10
      \<lparr>semantic_cache_entry = [], cache_faults = []\<rparr>))) =
   Inr (Some \<lparr>ca_provider = ''acme'', ca_model = ''m1'', ca_content = JStr ''hi''\<rparr>)"
proof -
  obtain db' where p: "sql_cache_put 100 7 ''k''
      \<lparr>ca_provider = ''acme'', ca_model = ''m1'', ca_content = JStr ''hi''\<rparr> 10
      \<lparr>semantic_cache_entry = [], cache_faults = []\<rparr> = (db', Inr ())" "next_fault db' = None"
    by (simp add: sql_cache_put_def next_fault_def)
  then show ?thesis using sql_cache_round_trip [OF p(1), of 20] by simp
qed

end
