(* ===== verification/Auth_Domain.thy ===== *)
theory Auth_Domain imports Cache begin

text \<open>
  The values of the authentication domain (\<open>domain/auth/models.py\<close>, \<open>domain/auth/errors.py\<close>): who a
  principal is, what the credential, session and token records hold, the outcome vocabulary, the
  audit event, and the context a request carries once its credential is verified.
\<close>

datatype principal_type = USER | SERVICE_ACCOUNT | API_KEY

definition principal_type_value :: "principal_type \<Rightarrow> string" where
  "principal_type_value t =
     (case t of USER \<Rightarrow> ''user'' | SERVICE_ACCOUNT \<Rightarrow> ''service_account'' | API_KEY \<Rightarrow> ''api_key'')"

definition principal_type_of :: "string \<Rightarrow> principal_type option" where
  "principal_type_of s =
     (if s = ''user'' then Some USER
      else if s = ''service_account'' then Some SERVICE_ACCOUNT
      else if s = ''api_key'' then Some API_KEY
      else None)"

record auth_principal =
  pr_type :: principal_type
  pr_subject :: uuid
  pr_organization :: uuid
  pr_scopes :: "string list"

datatype key_status = Key_Active | Key_Revoked | Key_Expired

record api_key_record =
  ak_id :: uuid
  ak_organization :: uuid
  ak_hash :: string
  ak_scopes :: "string list"
  ak_active :: bool
  ak_expires :: "instant option"

record service_credential =
  cr_id :: uuid
  cr_account :: uuid
  cr_organization :: uuid
  cr_client :: string
  cr_hash :: string
  cr_status :: key_status
  cr_expires :: "instant option"

record session_row =
  ss_id :: uuid
  ss_user :: uuid
  ss_organization :: uuid
  ss_created :: instant
  ss_expires :: instant
  ss_revoked :: "instant option"

record refresh_row =
  rt_id :: uuid
  rt_session :: uuid
  rt_organization :: uuid
  rt_hash :: string
  rt_expires :: instant
  rt_rotated :: "uuid option"
  rt_revoked :: "instant option"

record oauth_identity =
  oi_id :: uuid
  oi_organization :: uuid
  oi_user :: uuid
  oi_provider :: string
  oi_subject :: string

record login_state =
  ls_id :: uuid
  ls_organization :: uuid
  ls_hash :: string
  ls_nonce_hash :: string
  ls_verifier :: string
  ls_provider :: string
  ls_redirect :: string
  ls_expires :: instant
  ls_return :: "string option"

record issued_tokens =
  it_access :: string
  it_refresh :: string

record auth_event =
  ae_action :: string
  ae_result :: string
  ae_organization :: "uuid option"
  ae_ptype :: "string option"
  ae_subject :: "uuid option"
  ae_detail :: "string option"

definition auth_event_new :: "string \<Rightarrow> string \<Rightarrow> auth_event" where
  "auth_event_new action result =
     \<lparr>ae_action = action, ae_result = result, ae_organization = None, ae_ptype = None,
      ae_subject = None, ae_detail = None\<rparr>"

datatype auth_method = Jwt_Method | Api_Key_Method | Service_Account_Method | Oidc_Method

definition auth_method_value :: "auth_method \<Rightarrow> string" where
  "auth_method_value m =
     (case m of Jwt_Method \<Rightarrow> ''jwt'' | Api_Key_Method \<Rightarrow> ''api_key''
      | Service_Account_Method \<Rightarrow> ''service_account'' | Oidc_Method \<Rightarrow> ''oidc'')"

datatype auth_decision =
    Success | Invalid_Token | Invalid_Key | Expired | Revoked | Insufficient_Scope | Unknown_Kid |
    Clock_Skew | Internal_Error

definition auth_decision_value :: "auth_decision \<Rightarrow> string" where
  "auth_decision_value d =
     (case d of
        Success \<Rightarrow> ''success'' | Invalid_Token \<Rightarrow> ''invalid_token'' | Invalid_Key \<Rightarrow> ''invalid_key''
      | Expired \<Rightarrow> ''expired'' | Revoked \<Rightarrow> ''revoked'' | Insufficient_Scope \<Rightarrow> ''insufficient_scope''
      | Unknown_Kid \<Rightarrow> ''unknown_kid'' | Clock_Skew \<Rightarrow> ''clock_skew'' | Internal_Error \<Rightarrow> ''internal_error'')"

record auth_context =
  ac_principal :: uuid
  ac_type :: principal_type
  ac_organization :: uuid
  ac_method :: auth_method
  ac_scopes :: "string list"
  ac_session :: "uuid option"
  ac_mfa :: bool
  ac_device :: "string option"

definition context_of :: "auth_principal \<Rightarrow> auth_method \<Rightarrow> auth_context" where
  "context_of p m =
     \<lparr>ac_principal = pr_subject p, ac_type = pr_type p, ac_organization = pr_organization p,
      ac_method = m, ac_scopes = pr_scopes p, ac_session = None,
      ac_mfa = False, ac_device = None\<rparr>"

text \<open>The subclasses of \<open>AuthError\<close>: what the edge answers with a 401.\<close>

definition auth_error :: "exn \<Rightarrow> bool" where
  "auth_error x \<longleftrightarrow> x \<in> {TokenInvalidError, TokenExpiredError, RefreshReuseError, CredentialInvalidError,
     SessionRevokedError, OidcStateInvalidError, OidcIdentityError}"

lemma principal_type_roundtrip [simp]: "principal_type_of (principal_type_value t) = Some t"
  by (cases t) (simp_all add: principal_type_of_def principal_type_value_def)

lemma principal_type_of_value: "principal_type_of s = Some t \<Longrightarrow> s = principal_type_value t"
  by (auto simp: principal_type_of_def principal_type_value_def split: if_splits)

subsection \<open>shared/secrets.py\<close>

text \<open>
  SHA-256 is a parameter from texts to the 32 bytes of the digest; stored hashes are its hexadecimal
  text. The timing-safe comparison is equality.
\<close>

definition hex_bytes :: "string \<Rightarrow> string" where
  "hex_bytes bs = concat (map (\<lambda>c. [hex_digit (of_char c div 16), hex_digit (of_char c mod 16)]) bs)"

definition hash_secret :: "digest \<Rightarrow> string \<Rightarrow> string" where
  "hash_secret sha s = hex_bytes (sha s)"

definition verify_secret :: "digest \<Rightarrow> string \<Rightarrow> string \<Rightarrow> bool" where
  "verify_secret sha presented stored \<longleftrightarrow> hash_secret sha presented = stored"

lemma hex_bytes_inj: "hex_bytes a = hex_bytes b \<Longrightarrow> a = b"
proof (induction a arbitrary: b)
  case Nil
  then show ?case by (cases b) (auto simp: hex_bytes_def)
next
  case (Cons c a)
  then obtain d b' where b: "b = d # b'" by (cases b) (auto simp: hex_bytes_def)
  with Cons.prems have "hex_digit (of_char c div 16) = hex_digit (of_char d div 16)"
    "hex_digit (of_char c mod 16) = hex_digit (of_char d mod 16)" and rest: "hex_bytes a = hex_bytes b'"
    by (auto simp: hex_bytes_def)
  moreover have "of_char x div 16 < (16 :: nat)" for x
  proof -
    have "of_char x < (256 :: nat)" by (metis of_char_of char_of_char mod_less_divisor zero_less_numeral)
    then show ?thesis by (intro less_mult_imp_div_less) simp
  qed
  ultimately have "of_char c div 16 = (of_char d div 16 :: nat)" "of_char c mod 16 = (of_char d mod 16 :: nat)"
    by (auto intro: hex_digit_inj)
  then have "of_char c = (of_char d :: nat)" by (metis div_mult_mod_eq)
  then have "c = d" by (metis char_of_char)
  with Cons.IH [OF rest] b show ?case by simp
qed

lemma length_hex_bytes [simp]: "length (hex_bytes bs) = 2 * length bs"
  by (induction bs) (auto simp: hex_bytes_def)

end
