(* ===== verification/Audit_Log.thy ===== *)
theory Audit_Log imports Auth_Domain begin

text \<open>
  The durable audit log of authentication decisions (\<open>adapters/audit/sql_sink.py\<close>, tables of
  \<open>adapters/persistence/audit_tables.py\<close>) and the composite that fans an event out
  (\<open>adapters/audit/composite_sink.py\<close>). Each row carries the digest of its predecessor and its own
  digest over both, in one chain per tenant. A record is one transaction serialised by a lock on the
  tenant, so it is one step; what became of the store is an argument of the step. SHA-256 and the
  ISO text of an instant are parameters.
\<close>

record audit_row =
  aw_id :: uuid
  aw_organization :: uuid
  aw_actor_type :: "string option"
  aw_actor :: "uuid option"
  aw_action :: string
  aw_result :: string
  aw_detail :: payload
  aw_prev :: "string option"
  aw_hash :: string
  aw_created :: instant

record audit_db =
  ad_events :: "audit_row list"
  ad_heads :: "uuid \<rightharpoonup> string \<times> instant"

datatype store_fate = Store_Up | Store_Failed | Store_Committed_Silently

subsection \<open>The digest of an entry\<close>

definition unit_separator :: char where
  "unit_separator = char_of (31 :: nat)"

definition actor_type :: "string option \<Rightarrow> string option" where
  "actor_type raw =
     (case raw of None \<Rightarrow> None
      | Some s \<Rightarrow> if s \<in> {''user'', ''service_account'', ''api_key''} then Some s else None)"

definition or_empty :: "string option \<Rightarrow> string" where
  "or_empty s = (case s of None \<Rightarrow> [] | Some t \<Rightarrow> t)"

definition canonical_entry :: "(instant \<Rightarrow> string) \<Rightarrow> string option \<Rightarrow> uuid \<Rightarrow> string option \<Rightarrow> uuid option \<Rightarrow>
    string \<Rightarrow> string \<Rightarrow> string option \<Rightarrow> instant \<Rightarrow> string" where
  "canonical_entry stamp prev org ptype actor action result detail created =
     join [unit_separator]
       [case prev of None \<Rightarrow> [] | Some h \<Rightarrow> hex_bytes h,
        uuid_text org,
        or_empty ptype,
        case actor of None \<Rightarrow> [] | Some a \<Rightarrow> uuid_text a,
        action,
        result,
        or_empty detail,
        stamp created]"

definition chain_entry_hash :: "digest \<Rightarrow> (instant \<Rightarrow> string) \<Rightarrow> string option \<Rightarrow> uuid \<Rightarrow> string option \<Rightarrow>
    uuid option \<Rightarrow> string \<Rightarrow> string \<Rightarrow> string option \<Rightarrow> instant \<Rightarrow> string" where
  "chain_entry_hash sha stamp prev org ptype actor action result detail created =
     sha (canonical_entry stamp prev org ptype actor action result detail created)"

subsection \<open>SqlAuthAuditSink.record\<close>

definition audit_result :: "auth_event \<Rightarrow> string" where
  "audit_result e = (if ae_result e = auth_decision_value Success then ''success'' else ''failure'')"

definition audit_detail :: "auth_event \<Rightarrow> payload" where
  "audit_detail e =
     (''decision'', JStr (ae_result e)) #
     (case ae_detail e of None \<Rightarrow> [] | Some d \<Rightarrow> [(''detail'', JStr d)])"

definition audit_append :: "digest \<Rightarrow> (instant \<Rightarrow> string) \<Rightarrow> uuid \<Rightarrow> instant \<Rightarrow> uuid \<Rightarrow> auth_event \<Rightarrow>
    audit_db \<Rightarrow> audit_db" where
  "audit_append sha stamp new_id created org e db =
     (let prev = map_option fst (ad_heads db org);
          h = chain_entry_hash sha stamp prev org (actor_type (ae_ptype e)) (ae_subject e) (ae_action e)
                (audit_result e) (ae_detail e) created
      in db\<lparr>ad_events := ad_events db @
               [\<lparr>aw_id = new_id, aw_organization = org, aw_actor_type = actor_type (ae_ptype e),
                 aw_actor = ae_subject e, aw_action = ae_action e, aw_result = audit_result e,
                 aw_detail = audit_detail e, aw_prev = prev, aw_hash = h, aw_created = created\<rparr>],
            ad_heads := (ad_heads db)(org \<mapsto> (h, created))\<rparr>)"

definition audit_record :: "digest \<Rightarrow> (instant \<Rightarrow> string) \<Rightarrow> store_fate \<Rightarrow> uuid \<Rightarrow> instant \<Rightarrow> auth_event \<Rightarrow>
    audit_db \<Rightarrow> audit_db \<times> unit res" where
  "audit_record sha stamp fate new_id now e db =
     (case ae_organization e of
        None \<Rightarrow> (db, Inr ())
      | Some org \<Rightarrow>
          (case fate of
             Store_Up \<Rightarrow> (audit_append sha stamp new_id now org e db, Inr ())
           | Store_Failed \<Rightarrow> (db, Inl AuditSinkUnavailableError)
           | Store_Committed_Silently \<Rightarrow>
               (audit_append sha stamp new_id now org e db, Inl AuditSinkUnavailableError)))"

subsection \<open>CompositeAuthAuditSink.record\<close>

type_synonym 's audit_sink = "auth_event \<Rightarrow> 's \<Rightarrow> 's \<times> unit res"

text \<open>Each sink runs once, in order; an exception is logged and the next sink still runs.\<close>

fun composite_record :: "'s audit_sink list \<Rightarrow> auth_event \<Rightarrow> 's \<Rightarrow> 's \<times> unit res" where
  "composite_record [] e s = (s, Inr ())"
| "composite_record (k # sinks) e s = composite_record sinks e (fst (k e s))"

subsection \<open>What a verifier recomputes\<close>

text \<open>
  The specification of the log: a verifier walks one tenant's rows, recomputes every digest from the
  columns and the previous digest, and compares the last one with the chain head. The caller-visible
  detail of a row is the \<open>detail\<close> member of its JSON column.
\<close>

definition row_detail :: "audit_row \<Rightarrow> string option" where
  "row_detail r = (case map_of (aw_detail r) ''detail'' of Some (JStr s) \<Rightarrow> Some s | _ \<Rightarrow> None)"

definition row_text :: "(instant \<Rightarrow> string) \<Rightarrow> string option \<Rightarrow> audit_row \<Rightarrow> string" where
  "row_text stamp prev r =
     canonical_entry stamp prev (aw_organization r) (aw_actor_type r) (aw_actor r) (aw_action r)
       (aw_result r) (row_detail r) (aw_created r)"

fun chain_verifies :: "digest \<Rightarrow> (instant \<Rightarrow> string) \<Rightarrow> string option \<Rightarrow> audit_row list \<Rightarrow> bool" where
  "chain_verifies sha stamp prev [] = True"
| "chain_verifies sha stamp prev (r # rs) \<longleftrightarrow>
     aw_prev r = prev \<and> aw_hash r = sha (row_text stamp prev r) \<and>
     chain_verifies sha stamp (Some (aw_hash r)) rs"

definition tenant_rows :: "uuid \<Rightarrow> audit_db \<Rightarrow> audit_row list" where
  "tenant_rows org db = filter (\<lambda>r. aw_organization r = org) (ad_events db)"

definition last_hash :: "string option \<Rightarrow> audit_row list \<Rightarrow> string option" where
  "last_hash prev rs = (if rs = [] then prev else Some (aw_hash (last rs)))"

definition log_verifies :: "digest \<Rightarrow> (instant \<Rightarrow> string) \<Rightarrow> uuid \<Rightarrow> audit_db \<Rightarrow> bool" where
  "log_verifies sha stamp org db \<longleftrightarrow>
     chain_verifies sha stamp None (tenant_rows org db) \<and>
     map_option fst (ad_heads db org) = last_hash None (tenant_rows org db)"

lemma last_hash_simps [simp]:
  "last_hash prev [] = prev" "last_hash prev (r # rs) = last_hash (Some (aw_hash r)) rs"
  "last_hash prev (rs @ [r]) = Some (aw_hash r)"
  by (auto simp: last_hash_def)

lemma chain_verifies_append:
  "chain_verifies sha stamp prev (rs @ [r]) \<longleftrightarrow> chain_verifies sha stamp prev rs \<and>
     aw_prev r = last_hash prev rs \<and> aw_hash r = sha (row_text stamp (last_hash prev rs) r)"
  by (induction rs arbitrary: prev) auto

lemma row_detail_append: "row_detail r = ae_detail e" if "aw_detail r = audit_detail e"
  using that by (simp add: row_detail_def audit_detail_def split: option.split)

lemma tenant_rows_append:
  "tenant_rows org (audit_append sha stamp i now org' e db) =
     (if org' = org then tenant_rows org db @ [last (ad_events (audit_append sha stamp i now org' e db))]
      else tenant_rows org db)"
  by (simp add: tenant_rows_def audit_append_def Let_def)

lemma audit_append_verifies:
  assumes "log_verifies sha stamp org db"
  shows "log_verifies sha stamp org (audit_append sha stamp i now org' e db)"
proof (cases "org' = org")
  case True
  let ?r = "last (ad_events (audit_append sha stamp i now org e db))"
  have r: "aw_prev ?r = map_option fst (ad_heads db org)"
    "aw_hash ?r = sha (row_text stamp (map_option fst (ad_heads db org)) ?r)"
    "map_option fst (ad_heads (audit_append sha stamp i now org e db) org) = Some (aw_hash ?r)"
    using row_detail_append [of ?r e]
    by (simp_all add: audit_append_def Let_def chain_entry_hash_def row_text_def)
  have "tenant_rows org (audit_append sha stamp i now org' e db) = tenant_rows org db @ [?r]"
    using True by (simp add: tenant_rows_append)
  with assms True r show ?thesis by (simp add: log_verifies_def chain_verifies_append)
next
  case False
  then have "tenant_rows org (audit_append sha stamp i now org' e db) = tenant_rows org db"
    "ad_heads (audit_append sha stamp i now org' e db) org = ad_heads db org"
    by (simp_all add: tenant_rows_append, simp add: audit_append_def Let_def)
  with assms show ?thesis by (simp add: log_verifies_def)
qed

lemma audit_record_cases:
  obtains "fst (audit_record sha stamp fate i now e db) = db"
  | org where "ae_organization e = Some org"
      "fst (audit_record sha stamp fate i now e db) = audit_append sha stamp i now org e db"
  by (cases "ae_organization e"; cases fate) (auto simp: audit_record_def)

text \<open>The logs the sink can produce: any events, at any times, whatever becomes of the store.\<close>

inductive audit_reachable :: "digest \<Rightarrow> (instant \<Rightarrow> string) \<Rightarrow> audit_db \<Rightarrow> bool" for sha stamp where
  init: "audit_reachable sha stamp \<lparr>ad_events = [], ad_heads = Map.empty\<rparr>"
| step: "audit_reachable sha stamp db \<Longrightarrow>
    audit_reachable sha stamp (fst (audit_record sha stamp fate i now e db))"

lemma reachable_verifies: "audit_reachable sha stamp db \<Longrightarrow> log_verifies sha stamp org db"
proof (induction rule: audit_reachable.induct)
  case init
  show ?case by (simp add: log_verifies_def tenant_rows_def)
next
  case (step db fate i now e)
  then show ?case
    by (cases rule: audit_record_cases [of sha stamp fate i now e db]) (auto intro: audit_append_verifies)
qed

subsection \<open>The digest covers what it is computed from\<close>

definition clean :: "string \<Rightarrow> bool" where
  "clean s \<longleftrightarrow> unit_separator \<notin> set s"

definition row_clean :: "(instant \<Rightarrow> string) \<Rightarrow> audit_row \<Rightarrow> bool" where
  "row_clean stamp r \<longleftrightarrow> aw_organization r < 2 ^ 128 \<and> (\<forall>a. aw_actor r = Some a \<longrightarrow> a < 2 ^ 128) \<and>
     clean (or_empty (aw_actor_type r)) \<and> clean (aw_action r) \<and> clean (aw_result r) \<and>
     clean (or_empty (row_detail r)) \<and> clean (stamp (aw_created r))"

definition covered :: "(instant \<Rightarrow> string) \<Rightarrow> audit_row \<Rightarrow>
    uuid \<times> string \<times> uuid option \<times> string \<times> string \<times> string \<times> string" where
  "covered stamp r =
     (aw_organization r, or_empty (aw_actor_type r), aw_actor r, aw_action r, aw_result r,
      or_empty (row_detail r), stamp (aw_created r))"

lemma unit_separator_hex: "hex_digit n \<noteq> unit_separator" if "n < 16"
proof
  assume "hex_digit n = unit_separator"
  then have "of_char (hex_digit n) = (31 :: nat)" by (simp add: unit_separator_def)
  with that show False by (simp add: hex_digit_def split: if_splits)
qed

lemma clean_hex_text: "clean (hex_text k n)"
proof (induction k arbitrary: n)
  case (Suc k)
  have "hex_digit (n mod 16) \<noteq> unit_separator" by (simp add: unit_separator_hex)
  with Suc show ?case by (auto simp: clean_def)
qed (simp add: clean_def)

lemma clean_hex_bytes: "clean (hex_bytes bs)"
proof (induction bs)
  case (Cons c bs)
  have "of_char c < (256 :: nat)" by (metis of_char_of char_of_char mod_less_divisor zero_less_numeral)
  then have "of_char c div 16 < (16 :: nat)" by (intro less_mult_imp_div_less) simp
  then have "hex_digit (of_char c div 16) \<noteq> unit_separator" "hex_digit (of_char c mod 16) \<noteq> unit_separator"
    by (simp_all add: unit_separator_hex)
  with Cons show ?case by (auto simp: hex_bytes_def clean_def)
qed (simp add: hex_bytes_def clean_def)

lemma clean_uuid_text: "clean (uuid_text u)"
proof -
  have "CHR ''-'' \<noteq> unit_separator" by code_simp
  then show ?thesis using clean_hex_text [of 32 u]
    by (auto simp: uuid_text_def Let_def clean_def dest!: in_set_takeD in_set_dropD)
qed

lemma hex_bytes_eq: "hex_bytes a = hex_bytes b \<longleftrightarrow> a = b"
  using hex_bytes_inj by blast

lemma hex_bytes_nil: "hex_bytes a = [] \<longleftrightarrow> a = []" "[] = hex_bytes a \<longleftrightarrow> a = []"
  by (cases a; simp add: hex_bytes_def)+

lemma row_text_inj:
  assumes "row_clean stamp r" "row_clean stamp r'" "prev \<noteq> Some []" "prev' \<noteq> Some []"
    and "row_text stamp prev r = row_text stamp prev' r'"
  shows "prev = prev' \<and> covered stamp r = covered stamp r'"
proof -
  let ?p = "\<lambda>prev. case prev of None \<Rightarrow> [] | Some h \<Rightarrow> hex_bytes h"
  let ?a = "\<lambda>r. case aw_actor r of None \<Rightarrow> [] | Some a \<Rightarrow> uuid_text a"
  have c: "clean (?p prev)" "clean (?p prev')" "clean (?a r)" "clean (?a r')"
    by (auto simp: clean_hex_bytes clean_uuid_text split: option.split) (auto simp: clean_def)
  note cl = assms(1,2) [unfolded row_clean_def] and split = split_at_nul [of unit_separator]
  let ?s = unit_separator
  have e: "?p prev @ ?s # uuid_text (aw_organization r) @ ?s # or_empty (aw_actor_type r) @ ?s # ?a r @
      ?s # aw_action r @ ?s # aw_result r @ ?s # or_empty (row_detail r) @ ?s # stamp (aw_created r) =
    ?p prev' @ ?s # uuid_text (aw_organization r') @ ?s # or_empty (aw_actor_type r') @ ?s # ?a r' @
      ?s # aw_action r' @ ?s # aw_result r' @ ?s # or_empty (row_detail r') @ ?s # stamp (aw_created r')"
    using assms(5) by (simp add: row_text_def canonical_entry_def)
  from split [OF c(1,2) [unfolded clean_def] e] have p: "?p prev = ?p prev'"
    and e1: "uuid_text (aw_organization r) @ ?s # or_empty (aw_actor_type r) @ ?s # ?a r @
      ?s # aw_action r @ ?s # aw_result r @ ?s # or_empty (row_detail r) @ ?s # stamp (aw_created r) =
    uuid_text (aw_organization r') @ ?s # or_empty (aw_actor_type r') @ ?s # ?a r' @
      ?s # aw_action r' @ ?s # aw_result r' @ ?s # or_empty (row_detail r') @ ?s # stamp (aw_created r')"
    by blast+
  from split [OF clean_uuid_text [unfolded clean_def] clean_uuid_text [unfolded clean_def] e1]
  have o: "uuid_text (aw_organization r) = uuid_text (aw_organization r')"
    and e2: "or_empty (aw_actor_type r) @ ?s # ?a r @
      ?s # aw_action r @ ?s # aw_result r @ ?s # or_empty (row_detail r) @ ?s # stamp (aw_created r) =
    or_empty (aw_actor_type r') @ ?s # ?a r' @
      ?s # aw_action r' @ ?s # aw_result r' @ ?s # or_empty (row_detail r') @ ?s # stamp (aw_created r')"
    by blast+
  from split [OF _ _ e2] cl have t: "or_empty (aw_actor_type r) = or_empty (aw_actor_type r')"
    and e3: "?a r @ ?s # aw_action r @ ?s # aw_result r @ ?s # or_empty (row_detail r) @ ?s # stamp (aw_created r) =
    ?a r' @ ?s # aw_action r' @ ?s # aw_result r' @ ?s # or_empty (row_detail r') @ ?s # stamp (aw_created r')"
    unfolding clean_def by blast+
  from split [OF c(3,4) [unfolded clean_def] e3] have a: "?a r = ?a r'"
    and e4: "aw_action r @ ?s # aw_result r @ ?s # or_empty (row_detail r) @ ?s # stamp (aw_created r) =
    aw_action r' @ ?s # aw_result r' @ ?s # or_empty (row_detail r') @ ?s # stamp (aw_created r')"
    by blast+
  from split [OF _ _ e4] cl have act: "aw_action r = aw_action r'"
    and e5: "aw_result r @ ?s # or_empty (row_detail r) @ ?s # stamp (aw_created r) =
    aw_result r' @ ?s # or_empty (row_detail r') @ ?s # stamp (aw_created r')"
    unfolding clean_def by blast+
  from split [OF _ _ e5] cl have res: "aw_result r = aw_result r'"
    and e6: "or_empty (row_detail r) @ ?s # stamp (aw_created r) =
      or_empty (row_detail r') @ ?s # stamp (aw_created r')"
    unfolding clean_def by blast+
  from split [OF _ _ e6] cl have det: "or_empty (row_detail r) = or_empty (row_detail r')"
    "stamp (aw_created r) = stamp (aw_created r')"
    unfolding clean_def by blast+
  have "aw_organization r = aw_organization r'" using o cl by (intro uuid_text_inj) auto
  moreover have ne: "uuid_text u \<noteq> []" "[] \<noteq> uuid_text u" for u
    using length_uuid_text [of u] by (metis list.size(3) zero_neq_numeral)+
  have "aw_actor r = aw_actor r'"
    using a cl uuid_text_inj by (auto simp: ne split: option.splits)
  moreover have "prev = prev'"
    using p assms(3,4) by (cases prev; cases prev') (simp_all add: hex_bytes_eq hex_bytes_nil)
  ultimately show ?thesis using t act res det by (simp add: covered_def)
qed

fun chain_texts :: "(instant \<Rightarrow> string) \<Rightarrow> string option \<Rightarrow> audit_row list \<Rightarrow> string list" where
  "chain_texts stamp prev [] = []"
| "chain_texts stamp prev (r # rs) = row_text stamp prev r # chain_texts stamp (Some (aw_hash r)) rs"

lemma chain_texts_append:
  "chain_texts stamp prev (rs @ [r]) = chain_texts stamp prev rs @ [row_text stamp (last_hash prev rs) r]"
  by (induction rs arbitrary: prev) auto

lemma chain_last_hash_nonempty:
  assumes "chain_verifies sha stamp None rs" "\<forall>x. sha x \<noteq> []"
  shows "last_hash None rs \<noteq> Some []"
  using assms by (cases rs rule: rev_cases) (auto simp: chain_verifies_append)

lemma same_head_same_chain:
  assumes "\<forall>x. sha x \<noteq> []"
    and "chain_verifies sha stamp None rs" "chain_verifies sha stamp None rs'"
    and "list_all (row_clean stamp) rs" "list_all (row_clean stamp) rs'"
    and "last_hash None rs = last_hash None rs'"
  shows "map (covered stamp) rs = map (covered stamp) rs' \<or>
    (\<exists>x \<in> set (chain_texts stamp None rs). \<exists>y \<in> set (chain_texts stamp None rs'). x \<noteq> y \<and> sha x = sha y)"
  using assms
proof (induction rs arbitrary: rs' rule: rev_induct)
  case Nil
  then show ?case by (cases rs' rule: rev_cases) auto
next
  case (snoc r rs)
  from snoc.prems(6) obtain r' qs where rs': "rs' = qs @ [r']" by (cases rs' rule: rev_cases) auto
  let ?x = "row_text stamp (last_hash None rs) r" and ?y = "row_text stamp (last_hash None qs) r'"
  have v: "chain_verifies sha stamp None rs" "chain_verifies sha stamp None qs"
    and h: "aw_hash r = sha ?x" "aw_hash r' = sha ?y"
    using snoc.prems(2,3) by (simp_all add: rs' chain_verifies_append)
  show ?case
  proof (cases "?x = ?y")
    case False
    then show ?thesis using snoc.prems(6) h by (auto simp: rs' chain_texts_append)
  next
    case True
    have "last_hash None rs = last_hash None qs \<and> covered stamp r = covered stamp r'"
      using snoc.prems(4,5) chain_last_hash_nonempty [OF v(1) assms(1)] chain_last_hash_nonempty [OF v(2) assms(1)] True
      by (intro row_text_inj) (simp_all add: rs')
    with snoc.IH [OF assms(1) v] snoc.prems(4,5) show ?thesis
      by (auto simp: rs' chain_texts_append)
  qed
qed

subsection \<open>What the digest does not cover\<close>

definition restate :: "uuid \<Rightarrow> string \<Rightarrow> audit_row \<Rightarrow> audit_row" where
  "restate i d r = r\<lparr>aw_id := i,
     aw_detail := map (\<lambda>(k, v). if k = ''decision'' then (k, JStr d) else (k, v)) (aw_detail r)\<rparr>"

lemma map_of_restated:
  "k \<noteq> ''decision'' \<Longrightarrow>
     map_of (map (\<lambda>(k, v). if k = ''decision'' then (k, JStr d) else (k, v)) xs) k = map_of xs k"
  by (induction xs) auto

lemma restate_text [simp]: "row_text stamp prev (restate i d r) = row_text stamp prev r"
  by (simp add: row_text_def restate_def row_detail_def map_of_restated)

lemma restate_fields [simp]:
  "aw_organization (restate i d r) = aw_organization r" "aw_hash (restate i d r) = aw_hash r"
  "aw_prev (restate i d r) = aw_prev r"
  by (simp_all add: restate_def)

lemma restate_verifies: "chain_verifies sha stamp prev (map (restate i d) rs) = chain_verifies sha stamp prev rs"
  by (induction rs arbitrary: prev) auto

lemma tenant_rows_restate:
  "tenant_rows org (db\<lparr>ad_events := map (restate i d) (ad_events db)\<rparr>) = map (restate i d) (tenant_rows org db)"
  by (simp add: tenant_rows_def filter_map o_def)

lemma last_hash_restate: "last_hash prev (map (restate i d) rs) = last_hash prev rs"
  by (induction rs arbitrary: prev) auto

subsection \<open>Properties\<close>

text \<open>C37: Whatever events are recorded, at whatever times, and however often the store fails, is
  unreachable or commits without answering, the log of every tenant verifies: each row names the
  digest of the row before it, each digest recomputes from the columns, and the chain head is the
  digest of the last row.\<close>

theorem audit_log_verifies:
  assumes "audit_reachable sha stamp db"
  shows "chain_verifies sha stamp None (tenant_rows org db) \<and>
    map_option fst (ad_heads db org) = last_hash None (tenant_rows org db)"
  using reachable_verifies [OF assms, of org] by (simp add: log_verifies_def)

text \<open>Recording appends. One event adds at most one row, at the end, to the log of the tenant it
  names and to no other log; an event that names no tenant (every rejected credential) is not
  recorded here, and a failure is reported as \<open>AuditSinkUnavailableError\<close> and nothing else.\<close>

theorem audit_append_only:
  "(\<exists>new. ad_events (fst (audit_record sha stamp fate i now e db)) = ad_events db @ new \<and>
      list_all (\<lambda>r. ae_organization e = Some (aw_organization r)) new \<and> length new \<le> 1 \<and>
      (length new = 1 \<longleftrightarrow> ae_organization e \<noteq> None \<and> fate \<noteq> Store_Failed)) \<and>
   (snd (audit_record sha stamp fate i now e db) = Inr () \<longleftrightarrow> ae_organization e = None \<or> fate = Store_Up) \<and>
   (snd (audit_record sha stamp fate i now e db) \<noteq> Inr () \<longrightarrow>
      snd (audit_record sha stamp fate i now e db) = Inl AuditSinkUnavailableError)"
  by (cases "ae_organization e"; cases fate) (simp_all add: audit_record_def audit_append_def Let_def)

definition sample_sha :: digest where
  "sample_sha s = take 32 (rev s @ replicate 32 unit_separator)"

definition sample_stamp :: "instant \<Rightarrow> string" where
  "sample_stamp t = str_int t"

definition sample_event :: auth_event where
  "sample_event = \<lparr>ae_action = ''oidc.login'', ae_result = ''invalid_token'', ae_organization = Some 7,
     ae_ptype = Some ''user'', ae_subject = None, ae_detail = Some ''oidc_identity_unknown''\<rparr>"

definition sample_log :: audit_db where
  "sample_log = fst (audit_record sample_sha sample_stamp Store_Up 2 10 sample_event
     (fst (audit_record sample_sha sample_stamp Store_Failed 3 5 sample_event
        \<lparr>ad_events = [], ad_heads = Map.empty\<rparr>)))"

lemma sample_log_reachable: "audit_reachable sample_sha sample_stamp sample_log"
  unfolding sample_log_def by (intro audit_reachable.intros)

lemma sample_log_rows: "length (tenant_rows 7 sample_log) = 1"
  by (simp add: sample_log_def audit_record_def sample_event_def audit_append_def Let_def tenant_rows_def)

theorem audit_log_verifies_witness:
  "chain_verifies sample_sha sample_stamp None (tenant_rows 7 sample_log) \<and>
    map_option fst (ad_heads sample_log 7) = last_hash None (tenant_rows 7 sample_log)"
  by (rule audit_log_verifies [OF sample_log_reachable])

theorem audit_append_only_witness:
  "\<exists>new. ad_events (fst (audit_record sample_sha sample_stamp Store_Up 2 10 sample_event sample_log)) =
     ad_events sample_log @ new \<and> length new = 1"
  using audit_append_only [of sample_sha sample_stamp Store_Up 2 10 sample_event sample_log]
  by (auto simp: sample_event_def)


text \<open>The decision a row records is outside its digest. Rewriting the \<open>decision\<close> member of the
  detail of every row of a log, and the row ids, to anything at all leaves the log verifying.\<close>

theorem audit_decision_unprotected:
  assumes "log_verifies sha stamp org db"
  shows "log_verifies sha stamp org (db\<lparr>ad_events := map (restate i d) (ad_events db)\<rparr>)"
  using assms
  by (simp add: log_verifies_def tenant_rows_restate restate_verifies last_hash_restate)

lemma sample_log_verifies: "log_verifies sample_sha sample_stamp 7 sample_log"
  by (rule reachable_verifies [OF sample_log_reachable])

definition forged_log :: audit_db where
  "forged_log = sample_log\<lparr>ad_events := map (restate 9 ''success'') (ad_events sample_log)\<rparr>"

theorem audit_decision_unprotected_witness:
  "log_verifies sample_sha sample_stamp 7 forged_log \<and>
   map aw_detail (tenant_rows 7 sample_log) =
     [[(''decision'', JStr ''invalid_token''), (''detail'', JStr ''oidc_identity_unknown'')]] \<and>
   map aw_detail (tenant_rows 7 forged_log) =
     [[(''decision'', JStr ''success''), (''detail'', JStr ''oidc_identity_unknown'')]]"
proof -
  have "log_verifies sample_sha sample_stamp 7 forged_log"
    unfolding forged_log_def by (rule audit_decision_unprotected [OF sample_log_verifies])
  moreover have "map aw_detail (tenant_rows 7 sample_log) =
     [[(''decision'', JStr ''invalid_token''), (''detail'', JStr ''oidc_identity_unknown'')]] \<and>
   map aw_detail (tenant_rows 7 forged_log) =
     [[(''decision'', JStr ''success''), (''detail'', JStr ''oidc_identity_unknown'')]]"
    by code_simp
  ultimately show ?thesis by blast
qed


end
