(* ===== verification/Floating.thy ===== *)
theory Floating imports Prelude begin

text \<open>
  Binary64 arithmetic. A finite Python \<open>float\<close> (and a Lua number, the same C \<open>double\<close>) is the
  rational it stands for, and every arithmetic operation rounds the exact rational result to the
  nearest one with a 53-bit significand, ties to the even significand: \<open>float64\<close>. The exponent is
  not bounded here: the quantities the gateway computes (tokens, seconds, rates) are far from the
  overflow threshold and from the subnormal numbers.
\<close>

definition round_even :: "rat \<Rightarrow> int" where
  "round_even x =
     (let n = \<lfloor>x\<rfloor>; d = x - of_int n
      in if d < 1 / 2 then n else if 1 / 2 < d then n + 1 else if even n then n else n + 1)"

function bits :: "int \<Rightarrow> nat" where
  "bits n = (if n \<le> 0 then 0 else Suc (bits (n div 2)))"
  by auto
termination by (relation "measure nat") auto

declare bits.simps [simp del]

text \<open>The exponent of the leading bit of a positive rational.\<close>

definition exponent2 :: "rat \<Rightarrow> int" where
  "exponent2 x =
     (let (p, q) = quotient_of x; e = int (bits p) - int (bits q)
      in if x < 2 powi e then e - 1 else e)"

definition float64_pos :: "rat \<Rightarrow> rat" where
  "float64_pos x = (let e = exponent2 x - 52 in of_int (round_even (x / 2 powi e)) * 2 powi e)"

definition float64 :: "rat \<Rightarrow> rat" where
  "float64 x = (if x = 0 then 0 else if x < 0 then - float64_pos (- x) else float64_pos x)"

subsection \<open>Rounding to an integer\<close>

lemma round_even_error: "\<bar>of_int (round_even x) - x\<bar> \<le> 1 / 2"
proof -
  have "of_int \<lfloor>x\<rfloor> \<le> x" "x < of_int \<lfloor>x\<rfloor> + 1" using floor_correct [of x] by simp_all
  then show ?thesis by (auto simp: round_even_def Let_def abs_le_iff)
qed

lemma round_even_of_int [simp]: "round_even (of_int n) = n"
  by (simp add: round_even_def)

lemma round_even_mono:
  assumes "x \<le> y" shows "round_even x \<le> round_even y"
proof (cases "\<lfloor>x\<rfloor> = \<lfloor>y\<rfloor>")
  case True
  with assms show ?thesis by (auto simp: round_even_def Let_def)
next
  case False
  have "\<lfloor>x\<rfloor> < \<lfloor>y\<rfloor>" using floor_mono [OF assms] False by simp
  moreover have "round_even x \<le> \<lfloor>x\<rfloor> + 1" "\<lfloor>y\<rfloor> \<le> round_even y"
    by (auto simp: round_even_def Let_def)
  ultimately show ?thesis by simp
qed

subsection \<open>The exponent\<close>

lemma bits_bounds: "0 < n \<Longrightarrow> 2 ^ (bits n - 1) \<le> n \<and> n < 2 ^ bits n \<and> 0 < bits n"
proof (induction n rule: bits.induct)
  case (1 n)
  show ?case
  proof (cases "n = 1")
    case True then show ?thesis by (simp add: bits.simps)
  next
    case False
    with 1 have p: "0 < n div 2" by auto
    with 1 have "2 ^ (bits (n div 2) - 1) \<le> n div 2" "n div 2 < 2 ^ bits (n div 2)" "0 < bits (n div 2)"
      by auto
    moreover have "bits n = Suc (bits (n div 2))" using 1(2) by (simp add: bits.simps [of n])
    ultimately show ?thesis by (cases "bits (n div 2)") auto
  qed
qed

lemma powi_nat_diff: "2 powi (int m - int n) = (2 ^ m / 2 ^ n :: rat)"
  by (simp add: power_int_diff)

lemma exponent2_bounds:
  assumes "0 < x" shows "2 powi exponent2 x \<le> x \<and> x < 2 powi (exponent2 x + 1)"
proof -
  obtain p q where pq: "quotient_of x = (p, q)" by (cases "quotient_of x")
  have q: "0 < q" and x: "x = of_int p / of_int q"
    using pq quotient_of_denom_pos quotient_of_div by blast+
  with assms have p: "0 < p" by (simp add: zero_less_divide_iff)
  let ?m = "bits p" and ?n = "bits q"
  note bp = bits_bounds [OF p] and bq = bits_bounds [OF q]
  have P: "2 ^ (?m - 1) \<le> (of_int p :: rat)" "(of_int p :: rat) < 2 ^ ?m"
    using bp by (metis of_int_le_iff of_int_less_iff of_int_numeral of_int_power)+
  have Q: "2 ^ (?n - 1) \<le> (of_int q :: rat)" "(of_int q :: rat) < 2 ^ ?n"
    using bq by (metis of_int_le_iff of_int_less_iff of_int_numeral of_int_power)+
  have m: "2 ^ ?m = (2 * 2 ^ (?m - 1) :: rat)" and n: "2 ^ ?n = (2 * 2 ^ (?n - 1) :: rat)"
    using bp bq by (simp_all flip: power_Suc)
  have up: "x < 2 powi (int ?m - int ?n + 1)"
  proof -
    have "x \<le> of_int p / 2 ^ (?n - 1)" unfolding x using Q(1) p q by (intro divide_left_mono) auto
    also have "\<dots> < 2 ^ ?m / 2 ^ (?n - 1)" using P(2) by (simp add: divide_strict_right_mono)
    also have "\<dots> = 2 powi (int ?m - int ?n + 1)"
      by (simp add: power_int_add powi_nat_diff n)
    finally show ?thesis .
  qed
  have low: "2 powi (int ?m - int ?n - 1) \<le> x"
  proof -
    have "2 powi (int ?m - int ?n - 1) = (2 ^ (?m - 1) / 2 ^ ?n :: rat)"
      by (simp add: power_int_diff powi_nat_diff m)
    also have "\<dots> \<le> of_int p / 2 ^ ?n" using P(1) by (simp add: divide_right_mono)
    also have "\<dots> \<le> x" unfolding x using Q(2) p q by (intro divide_left_mono) auto
    finally show ?thesis .
  qed
  show ?thesis using up low by (simp add: exponent2_def pq Let_def algebra_simps)
qed

lemma exponent2_le:
  assumes "0 < x" "x \<le> y" shows "exponent2 x \<le> exponent2 y"
proof (rule ccontr)
  assume "\<not> exponent2 x \<le> exponent2 y"
  then have "2 powi (exponent2 y + 1) \<le> (2 powi exponent2 x :: rat)"
    by (intro power_int_increasing) auto
  with exponent2_bounds [of x] exponent2_bounds [of y] assms show False by auto
qed

subsection \<open>The rounding of a result\<close>

lemma float64_pos_bounds:
  assumes "0 < x"
  shows "2 powi exponent2 x \<le> float64_pos x \<and> float64_pos x \<le> 2 powi (exponent2 x + 1)"
proof -
  let ?e = "exponent2 x - 52"
  have s: "2 powi exponent2 x = (2 ^ 52 * 2 powi ?e :: rat)"
    by (simp add: power_int_diff)
  have s': "2 powi (exponent2 x + 1) = (2 ^ 53 * 2 powi ?e :: rat)"
    by (simp add: power_int_diff power_int_add)
  have pos: "0 < (2 powi ?e :: rat)" by simp
  have "2 ^ 52 \<le> x / 2 powi ?e" "x / 2 powi ?e \<le> 2 ^ 53"
    using exponent2_bounds [OF assms] pos unfolding s s' by (simp_all add: le_divide_eq divide_le_eq)
  then have "round_even (of_int (2 ^ 52)) \<le> round_even (x / 2 powi ?e)"
    "round_even (x / 2 powi ?e) \<le> round_even (of_int (2 ^ 53))"
    by (intro round_even_mono; simp)+
  then have "2 ^ 52 \<le> (of_int (round_even (x / 2 powi ?e)) :: rat)"
    "(of_int (round_even (x / 2 powi ?e)) :: rat) \<le> 2 ^ 53"
    unfolding round_even_of_int by (metis of_int_le_iff of_int_numeral of_int_power)+
  then show ?thesis using pos unfolding float64_pos_def Let_def s s'
    by (intro conjI mult_right_mono) auto
qed

lemma float64_pos_mono:
  assumes "0 < x" "x \<le> y" shows "float64_pos x \<le> float64_pos y"
proof (cases "exponent2 x = exponent2 y")
  case True
  have "x / 2 powi (exponent2 y - 52) \<le> y / 2 powi (exponent2 y - 52)"
    using assms by (intro divide_right_mono) auto
  from round_even_mono [OF this] show ?thesis
    by (simp add: float64_pos_def Let_def True mult_right_mono)
next
  case False
  with exponent2_le [OF assms] have "exponent2 x + 1 \<le> exponent2 y" by simp
  then have "2 powi (exponent2 x + 1) \<le> (2 powi exponent2 y :: rat)"
    by (intro power_int_increasing) auto
  with float64_pos_bounds [of x] float64_pos_bounds [of y] assms show ?thesis by auto
qed

lemma float64_pos_pos: "0 < x \<Longrightarrow> 0 < float64_pos x"
  using float64_pos_bounds [of x] by (auto intro: less_le_trans [rotated])

lemma float64_0 [simp]: "float64 0 = 0"
  by (simp add: float64_def)

lemma float64_minus: "float64 (- x) = - float64 x"
  by (simp add: float64_def)

lemma float64_nonneg [simp]: "0 \<le> x \<Longrightarrow> 0 \<le> float64 x"
  using float64_pos_pos [of x] by (auto simp: float64_def)

text \<open>Rounding is monotone, and exact on integers up to \<^verbatim>\<open>2^53\<close>.\<close>

lemma float64_mono:
  assumes "x \<le> y" shows "float64 x \<le> float64 y"
  using assms float64_pos_pos [of y] float64_pos_pos [of "- x"] float64_pos_mono [of x y]
    float64_pos_mono [of "- y" "- x"]
  by (auto simp: float64_def)

text \<open>A number with a significand of at most 53 bits is left alone.\<close>

lemma float64_pos_dyadic:
  assumes "0 < n" "n \<le> 2 ^ 53"
  shows "float64_pos (of_int n * 2 powi k) = of_int n * 2 powi k"
proof -
  let ?x = "of_int n * 2 powi k :: rat" and ?e = "exponent2 (of_int n * 2 powi k)"
  have b: "2 powi ?e \<le> ?x" using exponent2_bounds [of ?x] assms by simp
  have "of_int n \<le> (of_int (2 ^ 53) :: rat)" using assms(2) by (simp only: of_int_le_iff)
  then have "?x \<le> 2 ^ 53 * 2 powi k" by (intro mult_right_mono) auto
  also have "2 ^ 53 * 2 powi k = (2 powi (k + 53) :: rat)" by (simp add: power_int_add)
  finally have x: "?x \<le> 2 powi (k + 53)" .
  consider "?e \<le> k + 52" | "k + 53 \<le> ?e" by linarith
  then show ?thesis
  proof cases
    case 1
    let ?m = "nat (k + 52 - ?e)"
    have k: "k = (?e - 52) + int ?m" using 1 by simp
    have "2 powi k = 2 powi (?e - 52) * (2 ^ ?m :: rat)"
      by (subst k) (simp add: power_int_add del: int_nat_eq)
    then have y: "?x = of_int (n * 2 ^ ?m) * 2 powi (?e - 52)" by (simp add: mult_ac)
    then have "?x / 2 powi (?e - 52) = of_int (n * 2 ^ ?m)" by (simp add: divide_eq_eq)
    then show ?thesis using y by (simp only: float64_pos_def Let_def round_even_of_int)
  next
    case 2
    then have "2 powi (k + 53) \<le> (2 powi ?e :: rat)" by (intro power_int_increasing) auto
    with b x have eq: "?x = 2 powi (k + 53)" and p: "2 powi ?e = (2 powi (k + 53) :: rat)" by linarith+
    have "\<not> k + 54 \<le> ?e"
    proof
      assume "k + 54 \<le> ?e"
      then have "2 powi (k + 54) \<le> (2 powi ?e :: rat)" by (intro power_int_increasing) auto
      with p show False by (simp add: power_int_add)
    qed
    with 2 have e: "?e = k + 53" by simp
    have d: "?x / 2 powi (k + 1) = of_int (2 ^ 52)" unfolding eq by (simp add: power_int_add)
    have "?e - 52 = k + 1" using e by simp
    then have "float64_pos ?x = of_int (2 ^ 52) * 2 powi (k + 1)"
      by (simp only: float64_pos_def Let_def d round_even_of_int)
    also have "\<dots> = ?x" unfolding eq by (simp add: power_int_add)
    finally show ?thesis .
  qed
qed

lemma float64_pos_idem: "0 < x \<Longrightarrow> float64_pos (float64_pos x) = float64_pos x"
proof -
  assume x: "0 < x"
  let ?e = "exponent2 x - 52"
  let ?n = "round_even (x / 2 powi ?e)"
  have s: "2 powi (exponent2 x + 1) = (2 ^ 53 * 2 powi ?e :: rat)"
    by (simp add: power_int_diff power_int_add)
  have f: "float64_pos x = of_int ?n * 2 powi ?e" by (simp add: float64_pos_def Let_def)
  have "(of_int ?n :: rat) \<le> of_int (2 ^ 53)"
    using float64_pos_bounds [OF x] unfolding f s by (simp add: mult_le_cancel_right_pos)
  moreover have "0 < ?n"
  proof -
    have "0 < (2 powi ?e :: rat)" by simp
    with float64_pos_pos [OF x, unfolded f] have "0 < (of_int ?n :: rat)" by (rule zero_less_mult_pos2)
    then show ?thesis by (simp only: of_int_0_less_iff)
  qed
  moreover from calculation(1) have "?n \<le> 2 ^ 53" by (simp only: of_int_le_iff)
  ultimately show ?thesis unfolding f by (intro float64_pos_dyadic)
qed

lemma float64_idem [simp]: "float64 (float64 x) = float64 x"
  using float64_pos_idem [of x] float64_pos_idem [of "- x"] float64_pos_pos [of x] float64_pos_pos [of "- x"]
  by (auto simp: float64_def)

lemma float64_pos_of_int:
  assumes "0 < n" "n \<le> 2 ^ 53" shows "float64_pos (of_int n) = of_int n"
  using float64_pos_dyadic [OF assms, of 0] by simp

lemma float64_of_int:
  assumes "\<bar>n\<bar> \<le> 2 ^ 53" shows "float64 (of_int n) = of_int n"
proof -
  consider "n = 0" | "0 < n" | "0 < - n" by linarith
  then show ?thesis
  proof cases
    case 2
    with assms float64_pos_of_int [of n] show ?thesis by (simp add: float64_def)
  next
    case 3
    with assms have "float64_pos (of_int (- n)) = of_int (- n)" by (intro float64_pos_of_int) auto
    with 3 show ?thesis by (simp add: float64_def)
  qed simp
qed

lemma float64_of_nat: "n \<le> 2 ^ 53 \<Longrightarrow> float64 (of_nat n) = of_nat n"
proof -
  assume "n \<le> 2 ^ 53"
  then have "int n \<le> int (2 ^ 53)" by (simp only: of_nat_le_iff)
  then have "\<bar>int n\<bar> \<le> 2 ^ 53" by (simp only: of_nat_power of_nat_numeral abs_of_nonneg of_nat_0_le_iff)
  from float64_of_int [OF this] show ?thesis by (simp only: of_int_of_nat_eq)
qed

lemma float64_1 [simp]: "float64 1 = 1"
  using float64_of_int [of 1] by simp

text \<open>The relative error of a rounded result is at most \<^verbatim>\<open>2^-53\<close>.\<close>

definition ulp_half :: rat where "ulp_half = 1 / 2 ^ 53"

lemma ulp_half_pos: "0 < ulp_half" and ulp_half_less: "ulp_half < 1"
  by (simp_all add: ulp_half_def)

lemma float64_pos_error:
  assumes "0 < x" shows "\<bar>float64_pos x - x\<bar> \<le> x * ulp_half"
proof -
  let ?u = "2 powi (exponent2 x - 52) :: rat"
  have u: "0 < ?u" by simp
  have "float64_pos x - x = (of_int (round_even (x / ?u)) - x / ?u) * ?u"
    by (simp add: float64_pos_def Let_def left_diff_distrib)
  then have "\<bar>float64_pos x - x\<bar> \<le> 1 / 2 * ?u"
    using round_even_error [of "x / ?u"] u by (simp only: abs_mult abs_of_pos mult_right_mono)
  also have "\<dots> = 2 powi exponent2 x * ulp_half" by (simp add: power_int_diff ulp_half_def)
  also have "\<dots> \<le> x * ulp_half"
    using exponent2_bounds [OF assms] ulp_half_pos by (intro mult_right_mono) auto
  finally show ?thesis .
qed

lemma float64_error: "\<bar>float64 x - x\<bar> \<le> \<bar>x\<bar> * ulp_half"
proof (cases "x < 0")
  case True
  have "float64 x - x = - (float64_pos (- x) - - x)" using True by (simp add: float64_def)
  then show ?thesis using float64_pos_error [of "- x"] True by (simp only: abs_minus_cancel) simp
next
  case False
  then show ?thesis using float64_pos_error [of x] by (cases "x = 0") (auto simp: float64_def)
qed

lemma float64_le: "0 \<le> x \<Longrightarrow> float64 x \<le> x * (1 + ulp_half)"
  using float64_error [of x] by (simp add: algebra_simps abs_le_iff)

lemma float64_ge: "0 \<le> x \<Longrightarrow> x * (1 - ulp_half) \<le> float64 x"
  using float64_error [of x] by (simp add: algebra_simps abs_le_iff)

subsection \<open>Evaluation in integers\<close>

lemma round_even_quotient:
  assumes "0 < q" shows "round_even (of_int p / of_int q) = round_half_even p q"
proof -
  have f: "\<lfloor>of_int p / of_int q :: rat\<rfloor> = p div q" by (simp add: floor_divide_of_int_eq)
  have "(of_int p :: rat) = of_int (p div q * q + p mod q)" by (simp only: div_mult_mod_eq)
  then have "(of_int p :: rat) = of_int (p div q) * of_int q + of_int (p mod q)"
    by (simp only: of_int_add of_int_mult)
  then have "of_int p / of_int q - of_int (p div q) = (of_int (p mod q) / of_int q :: rat)"
    using assms by (simp add: add_divide_distrib)
  moreover have "of_int (p mod q) / of_int q < (1 / 2 :: rat) \<longleftrightarrow> 2 * (p mod q) < q"
  proof -
    have "of_int (p mod q) / of_int q < (1 / 2 :: rat) \<longleftrightarrow> of_int (2 * (p mod q)) < (of_int q :: rat)"
      using assms by (simp add: divide_less_eq mult.commute)
    then show ?thesis by (simp only: of_int_less_iff)
  qed
  moreover have "(1 / 2 :: rat) < of_int (p mod q) / of_int q \<longleftrightarrow> q < 2 * (p mod q)"
  proof -
    have "(1 / 2 :: rat) < of_int (p mod q) / of_int q \<longleftrightarrow> (of_int q :: rat) < of_int (2 * (p mod q))"
      using assms by (simp add: less_divide_eq mult.commute)
    then show ?thesis by (simp only: of_int_less_iff)
  qed
  ultimately show ?thesis by (simp only: round_even_def round_half_even_def Let_def f)
qed

definition below_power :: "int \<Rightarrow> int \<Rightarrow> int \<Rightarrow> bool" where
  "below_power p q e = (if 0 \<le> e then p < q * 2 ^ nat e else p * 2 ^ nat (- e) < q)"

lemma below_power: "0 < q \<Longrightarrow> below_power p q e \<longleftrightarrow> of_int p / of_int q < (2 powi e :: rat)"
proof -
  assume q: "0 < q"
  show ?thesis
  proof (cases "0 \<le> e")
    case True
    then have "(2 powi e :: rat) = of_int (2 ^ nat e)" by (simp add: power_int_def)
    moreover have "of_int p / of_int q < (of_int (2 ^ nat e) :: rat) \<longleftrightarrow> of_int p < (of_int (q * 2 ^ nat e) :: rat)"
      using q by (simp add: divide_less_eq mult.commute)
    ultimately show ?thesis using True by (simp only: below_power_def if_True of_int_less_iff)
  next
    case False
    then have "(2 powi e :: rat) = 1 / of_int (2 ^ nat (- e))"
      by (simp add: power_int_def inverse_eq_divide power_one_over)
    moreover have "of_int p / of_int q < (1 / of_int (2 ^ nat (- e)) :: rat) \<longleftrightarrow>
        of_int (p * 2 ^ nat (- e)) < (of_int q :: rat)"
      using q by (simp add: field_simps)
    ultimately show ?thesis using False by (simp only: below_power_def if_False of_int_less_iff)
  qed
qed

definition float64_quotient :: "int \<Rightarrow> int \<Rightarrow> rat" where
  "float64_quotient p q =
     (let e0 = int (bits p) - int (bits q); e = (if below_power p q e0 then e0 - 1 else e0) - 52
      in if 0 \<le> e then of_int (round_half_even p (q * 2 ^ nat e) * 2 ^ nat e)
         else of_int (round_half_even (p * 2 ^ nat (- e)) q) / of_int (2 ^ nat (- e)))"

lemma float64_quotient:
  assumes "quotient_of x = (p, q)" shows "float64_quotient p q = float64_pos x"
proof -
  have q: "0 < q" and x: "x = of_int p / of_int q"
    using assms quotient_of_denom_pos quotient_of_div by blast+
  define e where "e = exponent2 x - 52"
  have e: "(if below_power p q (int (bits p) - int (bits q)) then int (bits p) - int (bits q) - 1
      else int (bits p) - int (bits q)) - 52 = e"
    by (simp add: e_def exponent2_def assms below_power [OF q] x [symmetric] Let_def)
  show ?thesis
  proof (cases "0 \<le> e")
    case True
    then have "(2 powi e :: rat) = of_int (2 ^ nat e)" by (simp add: power_int_def)
    moreover have "round_even (x / of_int (2 ^ nat e)) = round_half_even p (q * 2 ^ nat e)"
      using round_even_quotient [of "q * 2 ^ nat e" p] q by (simp add: x)
    ultimately show ?thesis using True
      by (simp only: float64_quotient_def float64_pos_def Let_def e e_def [symmetric] if_True of_int_mult)
  next
    case False
    then have "(2 powi e :: rat) = 1 / of_int (2 ^ nat (- e))"
      by (simp add: power_int_def inverse_eq_divide power_one_over)
    moreover have "round_even (x / (1 / of_int (2 ^ nat (- e)))) = round_half_even (p * 2 ^ nat (- e)) q"
      using round_even_quotient [OF q, of "p * 2 ^ nat (- e)"] by (simp add: x)
    ultimately show ?thesis using False
      by (simp only: float64_quotient_def float64_pos_def Let_def e e_def [symmetric] if_False) simp
  qed
qed

lemma float64_code [code]:
  "float64 x =
     (let (p, q) = quotient_of x
      in if q = 1 \<and> \<bar>p\<bar> \<le> 2 ^ 53 then x
         else if p < 0 then - float64_quotient (- p) q else float64_quotient p q)"
proof -
  obtain p q where pq: "quotient_of x = (p, q)" by (cases "quotient_of x")
  have q: "0 < q" and x: "x = of_int p / of_int q"
    using pq quotient_of_denom_pos quotient_of_div by blast+
  have neg: "quotient_of (- x) = (- p, q)" using pq by (simp add: rat_uminus_code)
  have sign: "x < 0 \<longleftrightarrow> p < 0" "x = 0 \<longleftrightarrow> p = 0" using q by (simp_all add: x divide_less_0_iff)
  show ?thesis
  proof (cases "q = 1 \<and> \<bar>p\<bar> \<le> 2 ^ 53")
    case True
    then show ?thesis using float64_of_int [of p] x by (simp add: pq)
  next
    case False
    have "p \<noteq> 0"
    proof
      assume "p = 0"
      then have "x = 0" by (simp add: x)
      then show False using False pq by simp
    qed
    with False show ?thesis using float64_quotient [OF pq] float64_quotient [OF neg] sign
      by (auto simp: pq float64_def abs_if)
  qed
qed

subsection \<open>int(), timedelta.total_seconds() and datetime.timestamp()\<close>

definition trunc :: "rat \<Rightarrow> int" where
  "trunc x = (if 0 \<le> x then \<lfloor>x\<rfloor> else \<lceil>x\<rceil>)"

definition total_seconds :: "duration \<Rightarrow> rat" where
  "total_seconds d = float64 (of_int d / of_int second)"

definition timestamp :: "instant \<Rightarrow> int" where
  "timestamp t = trunc (total_seconds t)"

text \<open>Up to the year 2255 the whole seconds of a timestamp are exact: the rounding error of the
  quotient is below one microsecond.\<close>

lemma timestamp_div:
  assumes "0 \<le> t" "t < 2 ^ 53"
  shows "timestamp t = t div second"
proof -
  let ?x = "of_int t / of_int second :: rat" and ?n = "t div second"
  have t: "t = ?n * second + t mod second" "0 \<le> t mod second" "t mod second \<le> second - 1" by simp_all
  have "of_int t = (of_int (?n * second + t mod second) :: rat)" by (simp only: t(1) [symmetric])
  then have "of_int t = of_int ?n * of_int second + (of_int (t mod second) :: rat)"
    by (simp only: of_int_add of_int_mult)
  then have x: "?x = of_int ?n + of_int (t mod second) / 1000000" by (simp add: field_simps)
  have m: "of_int (t mod second) \<le> (999999 :: rat)" "0 \<le> (of_int (t mod second) :: rat)"
    using t(2,3) by (simp_all add: of_int_le_numeral_iff)
  have "0 \<le> ?n" using assms(1) by (simp add: pos_imp_zdiv_nonneg_iff)
  moreover have "?n \<le> t" using t(1,2) calculation by linarith
  ultimately have n: "\<bar>?n\<bar> \<le> 2 ^ 53" using assms(2) by simp
  have "float64 (of_int ?n) \<le> float64 ?x" using x m by (intro float64_mono) simp
  then have lo: "of_int ?n \<le> float64 ?x" by (simp add: float64_of_int [OF n])
  have "float64 ?x \<le> ?x * (1 + ulp_half)" using assms(1) by (intro float64_le) simp
  moreover have "?x * ulp_half < 1 / 1000000"
  proof -
    have "of_int t < (of_int (2 ^ 53) :: rat)" using assms(2) by (simp only: of_int_less_iff)
    then show ?thesis by (simp add: ulp_half_def)
  qed
  moreover have "?x \<le> of_int ?n + 999999 / 1000000" unfolding x using m by simp
  ultimately have hi: "float64 ?x < of_int ?n + 1" by (simp only: distrib_left mult_1_right)
  from lo \<open>0 \<le> ?n\<close> have "0 \<le> float64 ?x" using of_int_0_le_iff order_trans by blast
  with lo hi show ?thesis by (simp add: timestamp_def trunc_def total_seconds_def floor_eq_iff)
qed

end
