(* ===== verification/Encodings.thy ===== *)
theory Encodings imports Cache Floating begin

text \<open>
  The text conversions of Python the authentication code uses: splitting and stripping white space,
  \<open>int()\<close> of a text or a number, \<open>UUID()\<close>, UTF-8 and the URL-safe base64 of \<open>base64\<close>. Each is the
  standard library's behaviour on Latin-1 text; the inverse laws are proved beside it.
\<close>

subsection \<open>White space, removal and splitting\<close>

definition is_space :: "char \<Rightarrow> bool" where
  "is_space c \<longleftrightarrow> (let n = of_char c :: nat in (9 \<le> n \<and> n \<le> 13) \<or> (28 \<le> n \<and> n \<le> 32) \<or> n = 133 \<or> n = 160)"

definition strip_by :: "(char \<Rightarrow> bool) \<Rightarrow> string \<Rightarrow> string" where
  "strip_by p s = rev (dropWhile p (rev (dropWhile p s)))"

text \<open>\<open>str.split()\<close>: the maximal runs of characters that are not white space.\<close>

fun words_from :: "string \<Rightarrow> string \<Rightarrow> string list" where
  "words_from w [] = (if w = [] then [] else [w])"
| "words_from w (c # cs) =
     (if is_space c then (if w = [] then words_from [] cs else w # words_from [] cs)
      else words_from (w @ [c]) cs)"

definition split_words :: "string \<Rightarrow> string list" where
  "split_words s = words_from [] s"

text \<open>\<open>str.replace(sub, "")\<close>: every occurrence from the left, without overlaps.\<close>

function remove_text :: "string \<Rightarrow> string \<Rightarrow> string" where
  "remove_text sub s =
     (if s = [] \<or> sub = [] then s
      else if take (length sub) s = sub then remove_text sub (drop (length sub) s)
      else hd s # remove_text sub (tl s))"
  by auto
termination by (relation "measure (\<lambda>(sub, s). length s)") (auto simp: length_greater_0_conv [symmetric] simp del: length_greater_0_conv)

declare remove_text.simps [simp del]

text \<open>\<open>str.partition\<close> and \<open>str.rpartition\<close> at a single character.\<close>

definition partition_at :: "char \<Rightarrow> string \<Rightarrow> string \<times> string \<times> string" where
  "partition_at c s =
     (if c \<in> set s then (takeWhile (\<lambda>x. x \<noteq> c) s, [c], tl (dropWhile (\<lambda>x. x \<noteq> c) s)) else (s, [], []))"

definition rpartition_at :: "char \<Rightarrow> string \<Rightarrow> string \<times> string \<times> string" where
  "rpartition_at c s =
     (if c \<in> set s
      then (rev (tl (dropWhile (\<lambda>x. x \<noteq> c) (rev s))), [c], rev (takeWhile (\<lambda>x. x \<noteq> c) (rev s)))
      else ([], [], s))"

lemma strip_by_none: "(\<And>c. c \<in> set s \<Longrightarrow> \<not> p c) \<Longrightarrow> strip_by p s = s"
proof -
  assume p: "\<And>c. c \<in> set s \<Longrightarrow> \<not> p c"
  then have "dropWhile p s = s" by (cases s) auto
  moreover have "dropWhile p (rev s) = rev s"
    using p [of "hd (rev s)"] hd_in_set [of "rev s"] by (auto simp: dropWhile_eq_self_iff)
  ultimately show ?thesis by (simp add: strip_by_def)
qed

lemma remove_text_none: "hd sub \<notin> set s \<Longrightarrow> remove_text sub s = s"
proof (induction s)
  case (Cons c s)
  then have "sub \<noteq> [] \<Longrightarrow> take (length sub) (c # s) \<noteq> sub" by (cases sub) auto
  with Cons show ?case by (subst remove_text.simps) auto
qed (simp add: remove_text.simps)

lemma remove_text_char: "remove_text [c] s = filter (\<lambda>x. x \<noteq> c) s"
proof (induction s)
  case (Cons d s)
  then show ?case by (subst remove_text.simps) auto
qed (simp add: remove_text.simps)

lemma partition_at_app: "c \<notin> set a \<Longrightarrow> partition_at c (a @ c # b) = (a, [c], b)"
  by (simp add: partition_at_def takeWhile_append dropWhile_append)

lemma rpartition_at_app: "c \<notin> set b \<Longrightarrow> rpartition_at c (a @ c # b) = (a, [c], b)"
  by (simp add: rpartition_at_def takeWhile_append dropWhile_append)

lemma rpartition_at_parts:
  "rpartition_at c s = (a, sep, b) \<Longrightarrow> sep \<noteq> [] \<Longrightarrow> s = a @ c # b \<and> c \<notin> set b"
proof -
  assume r: "rpartition_at c s = (a, sep, b)" "sep \<noteq> []"
  then have c: "c \<in> set s" and a: "a = rev (tl (dropWhile (\<lambda>x. x \<noteq> c) (rev s)))"
    and b: "b = rev (takeWhile (\<lambda>x. x \<noteq> c) (rev s))"
    by (auto simp: rpartition_at_def split: if_splits)
  from c have "dropWhile (\<lambda>x. x \<noteq> c) (rev s) \<noteq> []" by (simp add: dropWhile_eq_Nil_conv)
  moreover from this have "hd (dropWhile (\<lambda>x. x \<noteq> c) (rev s)) = c"
    using hd_dropWhile [of "\<lambda>x. x \<noteq> c" "rev s"] by simp
  ultimately have "dropWhile (\<lambda>x. x \<noteq> c) (rev s) = c # rev a" by (cases "dropWhile (\<lambda>x. x \<noteq> c) (rev s)") (auto simp: a)
  then have "rev s = rev b @ c # rev a" using takeWhile_dropWhile_id [of "\<lambda>x. x \<noteq> c" "rev s"] by (simp add: b)
  then have "s = a @ c # b" by (metis append.assoc append_Cons append_Nil rev.simps(2) rev_append rev_rev_ident)
  moreover have "c \<notin> set b" by (auto simp: b dest: set_takeWhileD)
  ultimately show ?thesis by simp
qed

definition word_text :: "string \<Rightarrow> bool" where
  "word_text w \<longleftrightarrow> w \<noteq> [] \<and> (\<forall>c\<in>set w. \<not> is_space c)"

lemma words_from_word:
  "(\<forall>c\<in>set v. \<not> is_space c) \<Longrightarrow> words_from w (v @ s) = words_from (w @ v) s"
  by (induction v arbitrary: w) auto

lemma is_space_blank [simp]: "is_space CHR '' ''" by (simp add: is_space_def)

lemma split_words_join: "(\<forall>w\<in>set ws. word_text w) \<Longrightarrow> split_words (join '' '' ws) = ws"
proof (induction "'' ''" ws rule: join.induct [case_names Nil Single Cons])
  case (Single w)
  then show ?case using words_from_word [of w "[]" "[]"] by (simp add: split_words_def word_text_def)
next
  case (Cons w v ws)
  then show ?case using words_from_word [of w "[]"] by (simp add: split_words_def word_text_def)
qed (simp add: split_words_def)

subsection \<open>int() of a text or a number\<close>

definition digit_value :: "nat \<Rightarrow> char \<Rightarrow> nat option" where
  "digit_value base c =
     (let n = of_char c :: nat;
          d = (if 48 \<le> n \<and> n \<le> 57 then n - 48 else if 97 \<le> n \<and> n \<le> 122 then n - 87
               else if 65 \<le> n \<and> n \<le> 90 then n - 55 else base)
      in if d < base then Some d else None)"

text \<open>Digits with single underscores between them; \<open>need\<close> says that a digit must follow.\<close>

fun int_digits :: "nat \<Rightarrow> nat \<Rightarrow> bool \<Rightarrow> string \<Rightarrow> nat option" where
  "int_digits base acc need [] = (if need then None else Some acc)"
| "int_digits base acc need (c # cs) =
     (if c = CHR ''_'' then (if need then None else int_digits base acc True cs)
      else case digit_value base c of None \<Rightarrow> None
           | Some d \<Rightarrow> int_digits base (acc * base + d) False cs)"

definition int_sign :: "string \<Rightarrow> bool \<times> string" where
  "int_sign s = (if take 1 s = ''-'' then (True, drop 1 s) else (False, if take 1 s = ''+'' then drop 1 s else s))"

definition int_prefix :: "nat \<Rightarrow> string \<Rightarrow> string" where
  "int_prefix base s =
     (if base = 16 \<and> take 2 s \<in> {''0x'', ''0X''}
      then (let r = drop 2 s in if take 1 r = ''_'' then drop 1 r else r) else s)"

text \<open>A text of more than 4300 digits is refused unless the base is a power of two.\<close>

definition py_int :: "nat \<Rightarrow> string \<Rightarrow> int res" where
  "py_int base s =
     (case int_sign (strip_by is_space s) of (neg, t) \<Rightarrow>
        case int_digits base 0 True (int_prefix base t) of
          None \<Rightarrow> Inl ValueError
        | Some n \<Rightarrow>
            if base \<noteq> 16 \<and> 4300 < length (filter (\<lambda>c. c \<noteq> CHR ''_'') t) then Inl ValueError
            else Inr (if neg then - int n else int n))"

text \<open>\<open>int()\<close> of a \<open>bytes\<close> value: only ASCII white space is stripped.\<close>

definition bytes_int :: "string \<Rightarrow> int res" where
  "bytes_int s =
     (if \<exists>c\<in>set s. (28 \<le> (of_char c :: nat) \<and> of_char c \<le> (31 :: nat)) \<or> 128 \<le> (of_char c :: nat) then Inl ValueError
      else py_int 10 s)"

text \<open>\<open>int()\<close> of a float, read from the text \<open>repr\<close> gives it.\<close>

definition decimal_value :: "string \<Rightarrow> string \<Rightarrow> rat option" where
  "decimal_value mantissa scale_text =
     (let (neg, t) = int_sign mantissa; (whole, _, frac) = partition_at (CHR ''.'') t
      in case (int_digits 10 0 True (whole @ frac), if scale_text = [] then Inr 0 else py_int 10 scale_text) of
           (Some n, Inr e) \<Rightarrow> Some ((if neg then - of_nat n else of_nat n) * 10 powi (e - int (length frac)))
         | _ \<Rightarrow> None)"

definition float_int :: "string \<Rightarrow> int res" where
  "float_int s =
     (case partition_at (CHR ''e'') s of (mantissa, _, scale_text) \<Rightarrow>
        case decimal_value mantissa scale_text of
          Some x \<Rightarrow> Inr (trunc (float64 x))
        | None \<Rightarrow> Inl (if s = ''nan'' then ValueError else OtherException ''OverflowError''))"

definition json_int :: "json \<Rightarrow> int res" where
  "json_int j =
     (case j of JInt i \<Rightarrow> Inr i | JBool b \<Rightarrow> Inr (if b then 1 else 0) | JStr s \<Rightarrow> py_int 10 s
      | JFloat s \<Rightarrow> float_int s | _ \<Rightarrow> Inl TypeError)"

definition json_str :: "json \<Rightarrow> string" where
  "json_str j = (case j of JStr s \<Rightarrow> s | _ \<Rightarrow> py_repr j)"

subsection \<open>UUID()\<close>

definition uuid_of :: "string \<Rightarrow> uuid res" where
  "uuid_of s =
     (let h = filter (\<lambda>c. c \<noteq> CHR ''-'')
                (strip_by (\<lambda>c. c \<in> {CHR ''{'', CHR ''}''}) (remove_text ''uuid:'' (remove_text ''urn:'' s)))
      in if length h \<noteq> 32 then Inl ValueError
         else case py_int 16 h of
                Inl e \<Rightarrow> Inl e
              | Inr n \<Rightarrow> if 0 \<le> n \<and> n < 2 ^ 128 then Inr (nat n) else Inl ValueError)"

lemma hex_digit_value: "d < 16 \<Longrightarrow> digit_value 16 (hex_digit d) = Some d"
  unfolding digit_value_def hex_digit_def by (auto simp: Let_def)

lemma digit_value_char: "d < 16 \<Longrightarrow> hex_digit d \<notin> {CHR ''-'', CHR ''+'', CHR ''_'', CHR ''u'', CHR ''{'', CHR ''}'', CHR ''x'', CHR ''X'', CHR ''.''} \<and> \<not> is_space (hex_digit d) \<and> of_char (hex_digit d) < (128 :: nat)"
proof -
  assume "d < 16"
  then have "d \<in> set [0..<16]" by simp
  moreover have "\<forall>d\<in>set [0..<16]. hex_digit d \<notin> {CHR ''-'', CHR ''+'', CHR ''_'', CHR ''u'', CHR ''{'', CHR ''}'', CHR ''x'', CHR ''X'', CHR ''.''} \<and> \<not> is_space (hex_digit d) \<and> of_char (hex_digit d) < (128 :: nat)"
    by code_simp
  ultimately show ?thesis by blast
qed

definition hex_char :: "char \<Rightarrow> bool" where
  "hex_char c \<longleftrightarrow> (\<exists>d<16. c = hex_digit d)"

lemma hex_charD:
  "hex_char c \<Longrightarrow> c \<notin> {CHR ''-'', CHR ''+'', CHR ''_'', CHR ''u'', CHR ''{'', CHR ''}'', CHR ''x'', CHR ''X'', CHR ''.''} \<and> \<not> is_space c \<and> of_char c < (128 :: nat)"
proof -
  assume "hex_char c"
  then obtain d where d: "d < 16" "c = hex_digit d" unfolding hex_char_def by blast
  show ?thesis unfolding d(2) by (rule digit_value_char [OF d(1)])
qed

lemma hex_text_chars: "c \<in> set (hex_text k n) \<Longrightarrow> hex_char c"
proof (induction k n rule: hex_text.induct)
  case (2 k n)
  have "n mod 16 < 16" by simp
  then have "hex_char (hex_digit (n mod 16))" unfolding hex_char_def by blast
  with 2 show ?case by auto
qed simp

lemma int_digits_need: "c \<noteq> CHR ''_'' \<Longrightarrow> int_digits base acc need (c # s) = int_digits base acc True (c # s)"
  by simp

lemma int_digits_append:
  "(\<forall>c\<in>set s. hex_char c) \<Longrightarrow> s \<noteq> [] \<Longrightarrow>
     int_digits 16 acc need (s @ t) = (case int_digits 16 acc True s of None \<Rightarrow> None | Some n \<Rightarrow> int_digits 16 n False t)"
proof (induction s arbitrary: acc need)
  case (Cons c s)
  then obtain d where "d < 16" "c = hex_digit d" by (auto simp: hex_char_def)
  then have "digit_value 16 c = Some d" "c \<noteq> CHR ''_''" using hex_digit_value digit_value_char by auto
  moreover have "s = c' # r \<Longrightarrow> c' \<noteq> CHR ''_''" for c' r using Cons.prems hex_charD [of c'] by auto
  moreover have "s \<noteq> [] \<Longrightarrow> int_digits 16 (acc * 16 + d) False s = int_digits 16 (acc * 16 + d) True s"
    using calculation(3) by (cases s) (auto simp del: int_digits.simps intro: int_digits_need)
  ultimately show ?case using Cons by (cases "s = []") simp_all
qed simp

lemma int_digits_hex_text: "n < 16 ^ k \<Longrightarrow> 0 < k \<Longrightarrow> int_digits 16 0 True (hex_text k n) = Some n"
proof (induction k n rule: hex_text.induct)
  case (2 k n)
  have d: "digit_value 16 (hex_digit (n mod 16)) = Some (n mod 16)" "hex_digit (n mod 16) \<noteq> CHR ''_''"
    using hex_digit_value [of "n mod 16"] digit_value_char [of "n mod 16"] by auto
  show ?case
  proof (cases "k = 0")
    case True
    with 2 d show ?thesis by simp
  next
    case False
    have "hex_text k (n div 16) \<noteq> []" using False length_hex_text [of k "n div 16"] by (metis list.size(3))
    moreover have "n div 16 < 16 ^ k" using 2 by (simp add: less_mult_imp_div_less mult.commute)
    ultimately show ?thesis using 2 False d
      by (simp add: int_digits_append hex_text_chars div_mult_mod_eq)
  qed
qed simp

lemma digits_in_uuid_text:
  "filter (\<lambda>c. c \<noteq> CHR ''-'') (uuid_text u) = hex_text 32 u"
proof -
  have "filter (\<lambda>c. c \<noteq> CHR ''-'') (hex_text 32 u) = hex_text 32 u"
    using hex_charD [OF hex_text_chars [of _ 32 u]] by (intro filter_True) blast
  moreover have "take 8 h @ take 4 (drop 8 h) @ take 4 (drop 12 h) @ take 4 (drop 16 h) @ drop 20 h = h" for h :: string
  proof -
    have "drop 16 h = take 4 (drop 16 h) @ drop 20 h" "drop 12 h = take 4 (drop 12 h) @ drop 16 h"
      "drop 8 h = take 4 (drop 8 h) @ drop 12 h" "h = take 8 h @ drop 8 h"
      using append_take_drop_id [of 4 "drop 16 h"] append_take_drop_id [of 4 "drop 12 h"]
        append_take_drop_id [of 4 "drop 8 h"] by (simp_all add: drop_drop)
    then show ?thesis by metis
  qed
  moreover have "filter p (take 8 h) @ filter p (take 4 (drop 8 h)) @ filter p (take 4 (drop 12 h)) @
      filter p (take 4 (drop 16 h)) @ filter p (drop 20 h) = filter p h" for p and h :: string
    using calculation(2) [of h] by (metis filter_append)
  ultimately show ?thesis by (simp add: uuid_text_def Let_def)
qed

lemma uuid_text_chars: "c \<in> set (uuid_text u) \<Longrightarrow> hex_char c \<or> c = CHR ''-''"
  by (auto simp: uuid_text_def Let_def dest!: in_set_takeD in_set_dropD intro: hex_text_chars)

lemma uuid_of_text: "u < 2 ^ 128 \<Longrightarrow> uuid_of (uuid_text u) = Inr u"
proof -
  assume u: "u < 2 ^ 128"
  have none: "c \<in> set (uuid_text u) \<Longrightarrow> c \<notin> {CHR ''u'', CHR ''{'', CHR ''}''}" for c
    using uuid_text_chars [of c u] hex_charD [of c] by auto
  have r: "remove_text ''urn:'' (uuid_text u) = uuid_text u" "remove_text ''uuid:'' (uuid_text u) = uuid_text u"
    using none [of "CHR ''u''"] by (auto intro!: remove_text_none)
  have s: "strip_by (\<lambda>c. c \<in> {CHR ''{'', CHR ''}''}) (uuid_text u) = uuid_text u"
    using none by (intro strip_by_none) auto
  define h where "h = hex_text 32 u"
  have hex: "c \<in> set h \<Longrightarrow> hex_char c" for c by (auto simp: h_def intro: hex_text_chars)
  have l: "length h = 32" by (simp add: h_def)
  have "strip_by is_space h = h" using hex hex_charD by (intro strip_by_none) blast
  moreover have "take 1 h \<noteq> ''-''" "take 1 h \<noteq> ''+''" "take 2 h \<notin> {''0x'', ''0X''}"
  proof -
    have no: "c \<notin> set h" if "c \<in> {CHR ''-'', CHR ''+'', CHR ''x'', CHR ''X''}" for c
      using hex_charD [OF hex [of c]] that by auto
    have taken: "c \<in> set t \<Longrightarrow> take n h = t \<Longrightarrow> c \<in> {CHR ''-'', CHR ''+'', CHR ''x'', CHR ''X''} \<Longrightarrow> False" for c n t
      using no in_set_takeD [of c n h] by blast
    show "take 1 h \<noteq> ''-''" using taken [of "CHR ''-''" "''-''" 1] by force
    show "take 1 h \<noteq> ''+''" using taken [of "CHR ''+''" "''+''" 1] by force
    show "take 2 h \<notin> {''0x'', ''0X''}"
      using taken [of "CHR ''x''" "''0x''" 2] taken [of "CHR ''X''" "''0X''" 2] by force
  qed
  moreover have "int_digits 16 0 True h = Some u"
    unfolding h_def using u by (intro int_digits_hex_text) simp_all
  ultimately have "py_int 16 h = Inr (int u)" by (simp add: py_int_def int_sign_def int_prefix_def)
  moreover have "int u < 2 ^ 128" using u by (metis of_nat_less_iff of_nat_numeral of_nat_power)
  ultimately show ?thesis unfolding uuid_of_def r s digits_in_uuid_text h_def [symmetric] Let_def
    by (simp only: l simp_thms if_False sum.case of_nat_0_le_iff if_True nat_int)
qed

subsection \<open>UTF-8, within Latin-1\<close>

definition utf8_char :: "char \<Rightarrow> string" where
  "utf8_char c =
     (let n = of_char c :: nat in if n < 128 then [c] else [char_of (192 + n div 64), char_of (128 + n mod 64)])"

definition utf8_encode :: "string \<Rightarrow> string" where
  "utf8_encode s = concat (map utf8_char s)"

fun utf8_decode :: "string \<Rightarrow> string option" where
  "utf8_decode [] = Some []"
| "utf8_decode (b # bs) =
     (let n = of_char b :: nat in
      if n < 128 then map_option ((#) b) (utf8_decode bs)
      else if n = 194 \<or> n = 195 then
        (case bs of [] \<Rightarrow> None
         | c # cs \<Rightarrow>
             let m = of_char c :: nat in
             if 128 \<le> m \<and> m < 192 then map_option ((#) (char_of ((n - 192) * 64 + (m - 128)))) (utf8_decode cs)
             else None)
      else None)"

lemma utf8_ascii: "(\<forall>c\<in>set s. of_char c < (128 :: nat)) \<Longrightarrow> utf8_encode s = s"
  by (induction s) (auto simp: utf8_encode_def utf8_char_def)

lemma utf8_decode_ascii: "(\<forall>c\<in>set s. of_char c < (128 :: nat)) \<Longrightarrow> utf8_decode s = Some s"
  by (induction s) (auto simp: Let_def)

subsection \<open>URL-safe base64 without padding\<close>

definition sextet_char :: "nat \<Rightarrow> char" where
  "sextet_char v =
     (if v < 26 then char_of (65 + v) else if v < 52 then char_of (71 + v)
      else if v < 62 then char_of (v - 4) else if v = 62 then CHR ''-'' else CHR ''_'')"

text \<open>The decoder's alphabet has the two characters of either variant.\<close>

definition sextet_of :: "char \<Rightarrow> nat option" where
  "sextet_of c =
     (let n = of_char c :: nat in
      if 65 \<le> n \<and> n \<le> 90 then Some (n - 65) else if 97 \<le> n \<and> n \<le> 122 then Some (n - 71)
      else if 48 \<le> n \<and> n \<le> 57 then Some (n + 4)
      else if c \<in> {CHR ''-'', CHR ''+''} then Some 62 else if c \<in> {CHR ''_'', CHR ''/''} then Some 63
      else None)"

fun b64_groups :: "string \<Rightarrow> string" where
  "b64_groups [] = []"
| "b64_groups [a] =
     (let x = of_char a :: nat in [sextet_char (x div 4), sextet_char (x mod 4 * 16), CHR ''='', CHR ''=''])"
| "b64_groups [a, b] =
     (let x = of_char a :: nat; y = of_char b in
      [sextet_char (x div 4), sextet_char (x mod 4 * 16 + y div 16), sextet_char (y mod 16 * 4), CHR ''=''])"
| "b64_groups (a # b # c # bs) =
     (let x = of_char a :: nat; y = of_char b; z = of_char c in
      [sextet_char (x div 4), sextet_char (x mod 4 * 16 + y div 16), sextet_char (y mod 16 * 4 + z div 64),
       sextet_char (z mod 64)] @ b64_groups bs)"

definition b64url_strip :: "string \<Rightarrow> string" where
  "b64url_strip s = rev (dropWhile (\<lambda>c. c = CHR ''='') (rev s))"

text \<open>
  The decoder skips characters outside its alphabet, stops at the padding that completes a group, and
  fails on a group that is not complete: \<open>quad\<close> counts the sextets of the current group, \<open>left\<close> holds
  its bits not yet written and \<open>pads\<close> the padding seen since the last sextet.
\<close>

fun b64_decode_from :: "nat \<Rightarrow> nat \<Rightarrow> nat \<Rightarrow> string \<Rightarrow> string option" where
  "b64_decode_from quad left pads [] = (if quad = 0 then Some [] else None)"
| "b64_decode_from quad left pads (c # cs) =
     (if c = CHR ''='' then
        (if 2 \<le> quad then (if 4 \<le> quad + (pads + 1) then Some [] else b64_decode_from quad left (pads + 1) cs)
         else b64_decode_from quad left pads cs)
      else case sextet_of c of
        None \<Rightarrow> b64_decode_from quad left pads cs
      | Some v \<Rightarrow>
          if quad = 0 then b64_decode_from 1 v 0 cs
          else if quad = 1 then map_option ((#) (char_of (left * 4 + v div 16))) (b64_decode_from 2 (v mod 16) 0 cs)
          else if quad = 2 then map_option ((#) (char_of (left * 16 + v div 4))) (b64_decode_from 3 (v mod 4) 0 cs)
          else map_option ((#) (char_of (left * 64 + v))) (b64_decode_from 0 0 0 cs))"

definition b64_decode :: "string \<Rightarrow> string option" where
  "b64_decode s = b64_decode_from 0 0 0 s"

definition b64_padding :: "string \<Rightarrow> string" where
  "b64_padding s = replicate (nat ((- int (length s)) mod 4)) (CHR ''='')"

lemma sextet_char: "v < 64 \<Longrightarrow> sextet_of (sextet_char v) = Some v \<and> sextet_char v \<noteq> CHR ''='' \<and> sextet_char v \<noteq> CHR ''.'' \<and>
    of_char (sextet_char v) < (128 :: nat)"
proof -
  assume v: "v < 64"
  have eq: "c = CHR ''='' \<longleftrightarrow> of_char c = (61 :: nat)" "c = CHR ''.'' \<longleftrightarrow> of_char c = (46 :: nat)" for c
    by (auto simp: of_char_eq_iff [symmetric, where ?'a = nat] simp del: of_char_eq_iff)
  consider "v < 26" | "26 \<le> v" "v < 52" | "52 \<le> v" "v < 62" | "v = 62" | "v = 63" using v by linarith
  then show ?thesis
    by cases (simp_all only: eq, auto simp: sextet_char_def sextet_of_def Let_def)
qed

lemma strip_padding:
  "x \<noteq> CHR ''='' \<Longrightarrow> b64url_strip (xs @ x # ys) = (xs @ [x]) @ b64url_strip ys"
  by (auto simp: b64url_strip_def dropWhile_append)

lemma char_parts [simp]: "(of_char c :: nat) < 256"
  by (metis of_char_of char_of_char mod_less_divisor zero_less_numeral)

lemma b64_sextets:
  fixes x y z :: nat
  assumes "x < 256" "y < 256" "z < 256"
  shows "x div 4 < 64" "x mod 4 * 16 < 64" "x mod 4 * 16 + y div 16 < 64" "y mod 16 * 4 < 64"
    "y mod 16 * 4 + z div 64 < 64" "z mod 64 < 64"
proof -
  have "x mod 4 < 4" "y mod 16 < 16" "y div 16 < 16" "z div 64 < 4" "x div 4 < 64"
    using assms by (simp_all add: less_mult_imp_div_less)
  then show "x div 4 < 64" "x mod 4 * 16 < 64" "x mod 4 * 16 + y div 16 < 64" "y mod 16 * 4 < 64"
    "y mod 16 * 4 + z div 64 < 64" "z mod 64 < 64" by linarith+
qed

lemma b64_joins:
  fixes x y z :: nat
  assumes "x < 256" "y < 256" "z < 256"
  shows "x div 4 * 4 + (x mod 4 * 16) div 16 = x" "x div 4 * 4 + (x mod 4 * 16 + y div 16) div 16 = x"
    "(x mod 4 * 16 + y div 16) mod 16 * 16 + (y mod 16 * 4) div 4 = y"
    "(x mod 4 * 16 + y div 16) mod 16 * 16 + (y mod 16 * 4 + z div 64) div 4 = y"
    "(y mod 16 * 4 + z div 64) mod 4 * 64 + z mod 64 = z"
proof -
  have b: "y div 16 < 16" "z div 64 < 4" using assms by (simp_all add: less_mult_imp_div_less)
  have "(x mod 4 * 16) div 16 = x mod 4" "(x mod 4 * 16 + y div 16) div 16 = x mod 4"
    "(x mod 4 * 16 + y div 16) mod 16 = y div 16" "(y mod 16 * 4) div 4 = y mod 16"
    "(y mod 16 * 4 + z div 64) div 4 = y mod 16" "(y mod 16 * 4 + z div 64) mod 4 = z div 64"
    using b by simp_all
  then show "x div 4 * 4 + (x mod 4 * 16) div 16 = x" "x div 4 * 4 + (x mod 4 * 16 + y div 16) div 16 = x"
    "(x mod 4 * 16 + y div 16) mod 16 * 16 + (y mod 16 * 4) div 4 = y"
    "(x mod 4 * 16 + y div 16) mod 16 * 16 + (y mod 16 * 4 + z div 64) div 4 = y"
    "(y mod 16 * 4 + z div 64) mod 4 * 64 + z mod 64 = z"
    by (simp_all only: div_mult_mod_eq)
qed

lemma b64url_strip_Nil [simp]: "b64url_strip [] = []"
  by (simp add: b64url_strip_def)

lemma b64url_strip_pads: "b64url_strip (replicate n (CHR ''='')) = []"
  by (induction n) (auto simp: b64url_strip_def replicate_append_same [symmetric] simp del: replicate.simps)

lemma strip_group:
  assumes "w < 64" "x < 64" "y < 64" "z < 64"
  shows "b64url_strip (sextet_char w # sextet_char x # sextet_char y # sextet_char z # ys) =
           [sextet_char w, sextet_char x, sextet_char y, sextet_char z] @ b64url_strip ys"
  using strip_padding [of "sextet_char z" "[sextet_char w, sextet_char x, sextet_char y]" ys] sextet_char [OF assms(4)]
  by simp

lemma decode_sextet:
  "v < 64 \<Longrightarrow> b64_decode_from quad left pads (sextet_char v # cs) =
     (if quad = 0 then b64_decode_from 1 v 0 cs
      else if quad = 1 then map_option ((#) (char_of (left * 4 + v div 16))) (b64_decode_from 2 (v mod 16) 0 cs)
      else if quad = 2 then map_option ((#) (char_of (left * 16 + v div 4))) (b64_decode_from 3 (v mod 4) 0 cs)
      else map_option ((#) (char_of (left * 64 + v))) (b64_decode_from 0 0 0 cs))"
  by (simp only: b64_decode_from.simps sextet_char if_False option.case simp_thms)

text \<open>The decoder inverts the encoder whose padding has been stripped and is restored from the length.\<close>

lemma b64_decode_groups:
  "b64_decode_from 0 left pads (b64url_strip (b64_groups bs) @ b64_padding (b64url_strip (b64_groups bs))) = Some bs"
proof (induction bs arbitrary: left pads rule: b64_groups.induct)
  case (2 a)
  define x :: nat where "x = of_char a"
  have x: "x < 256" by (simp add: x_def)
  note s = b64_sextets(1,2) [OF x x x]
  have "b64url_strip (b64_groups [a]) = [sextet_char (x div 4), sextet_char (x mod 4 * 16)]"
    using strip_padding [of "sextet_char (x mod 4 * 16)" "[sextet_char (x div 4)]" "''==''"] sextet_char [OF s(2)]
      b64url_strip_pads [of 2] by (simp add: Let_def x_def [symmetric] numeral_2_eq_2)
  moreover have "b64_padding [p, q] = ''==''" for p q by (simp add: b64_padding_def numeral_2_eq_2)
  ultimately show ?case using sextet_char [OF s(1)] sextet_char [OF s(2)] b64_joins(1) [OF x x x]
    by (simp add: x_def)
next
  case (3 a b)
  define x :: nat where "x = of_char a"
  define y :: nat where "y = of_char b"
  have x: "x < 256" and y: "y < 256" by (simp_all add: x_def y_def)
  note s = b64_sextets [OF x y y]
  have "b64url_strip (b64_groups [a, b]) =
      [sextet_char (x div 4), sextet_char (x mod 4 * 16 + y div 16), sextet_char (y mod 16 * 4)]"
    using strip_padding [of "sextet_char (y mod 16 * 4)" "[sextet_char (x div 4), sextet_char (x mod 4 * 16 + y div 16)]" "''=''"]
      sextet_char [OF s(4)] b64url_strip_pads [of 1] by (simp add: Let_def x_def [symmetric] y_def [symmetric])
  moreover have "b64_padding [p, q, r] = ''=''" for p q r by (simp add: b64_padding_def)
  ultimately show ?case using sextet_char [OF s(1)] sextet_char [OF s(3)] sextet_char [OF s(4)] b64_joins [OF x y y]
    by (simp add: x_def y_def)
next
  case (4 a b c bs)
  define x :: nat where "x = of_char a"
  define y :: nat where "y = of_char b"
  define z :: nat where "z = of_char c"
  have x: "x < 256" and y: "y < 256" and z: "z < 256" by (simp_all add: x_def y_def z_def)
  note s = b64_sextets [OF x y z]
  let ?t = "b64url_strip (b64_groups bs)"
  have "b64url_strip (b64_groups (a # b # c # bs)) =
      [sextet_char (x div 4), sextet_char (x mod 4 * 16 + y div 16), sextet_char (y mod 16 * 4 + z div 64),
       sextet_char (z mod 64)] @ ?t"
    using strip_group [OF s(1) s(3) s(5) s(6)] by (simp add: Let_def x_def y_def z_def)
  moreover have "b64_padding ([k, p, q, r] @ ?t) = b64_padding ?t" for k p q r
    unfolding b64_padding_def by (intro arg_cong2 [where f = replicate] arg_cong [where f = nat] refl) (simp, presburger)
  moreover have "b64_decode_from 0 left pads (sextet_char (x div 4) # sextet_char (x mod 4 * 16 + y div 16) #
      sextet_char (y mod 16 * 4 + z div 64) # sextet_char (z mod 64) # r) =
    map_option ((#) a) (map_option ((#) b) (map_option ((#) c) (b64_decode_from 0 0 0 r)))" for r
    by (simp only: decode_sextet [OF s(1)] decode_sextet [OF s(3)] decode_sextet [OF s(5)] decode_sextet [OF s(6)]
        b64_joins [OF x y z] if_True if_False simp_thms one_neq_zero zero_neq_numeral numeral_eq_one_iff
        numeral_eq_iff num.distinct num.inject rel_simps) (simp add: x_def y_def z_def)
  ultimately show ?case using "4.IH" by (simp only: append_Cons append_Nil append_assoc) simp
qed (simp add: b64_padding_def)

definition b64url_encode :: "string \<Rightarrow> string" where
  "b64url_encode s = b64url_strip (b64_groups (utf8_encode s))"

definition b64url_decode :: "string \<Rightarrow> string res" where
  "b64url_decode s =
     (if \<exists>c\<in>set s. 128 \<le> (of_char c :: nat) then Inl ValueError
      else case b64_decode (s @ b64_padding s) of
        None \<Rightarrow> Inl ValueError
      | Some bs \<Rightarrow> (case utf8_decode bs of None \<Rightarrow> Inl ValueError | Some t \<Rightarrow> Inr t))"

lemma b64_groups_chars: "c \<in> set (b64_groups bs) \<Longrightarrow> c = CHR ''='' \<or> (\<exists>v<64. c = sextet_char v)"
proof (induction bs rule: b64_groups.induct)
  case (2 a)
  then show ?case using b64_sextets(1,2) [OF char_parts [of a] char_parts [of a] char_parts [of a]]
    by (simp only: b64_groups.simps Let_def list.set insert_iff empty_iff simp_thms) blast
next
  case (3 a b)
  then show ?case using b64_sextets [OF char_parts [of a] char_parts [of b] char_parts [of b]]
    by (simp only: b64_groups.simps Let_def list.set insert_iff empty_iff simp_thms) blast
next
  case (4 a b c bs)
  then show ?case using b64_sextets [OF char_parts [of a] char_parts [of b] char_parts [of c]]
    by (simp only: b64_groups.simps Let_def append_Cons append_Nil list.set insert_iff empty_iff simp_thms) blast
qed simp

lemma b64url_chars: "c \<in> set (b64url_encode s) \<Longrightarrow> of_char c < (128 :: nat) \<and> c \<noteq> CHR ''.''"
proof -
  assume "c \<in> set (b64url_encode s)"
  then have "c \<in> set (b64_groups (utf8_encode s))"
    unfolding b64url_encode_def b64url_strip_def by (metis set_dropWhileD set_rev)
  then consider "c = CHR ''=''" | v where "v < 64" "c = sextet_char v" using b64_groups_chars by blast
  then show ?thesis by cases (simp_all add: sextet_char)
qed

lemma b64url_roundtrip:
  assumes "\<forall>c\<in>set s. of_char c < (128 :: nat)"
  shows "b64url_decode (b64url_encode s) = Inr s"
  using b64_decode_groups [of 0 0 s] b64url_chars [of _ s] assms
  by (auto simp: b64url_decode_def b64_decode_def b64url_encode_def utf8_ascii utf8_decode_ascii not_le [symmetric])

end
