(* ===== verification/Credentials.thy ===== *)
theory Credentials imports Auth_Domain Encodings begin

text \<open>
  Who presents a request: virtual API keys (\<open>adapters/security/api_keys.py\<close>,
  \<open>application/auth/authenticate_api_key.py\<close> and their repository), service accounts
  (\<open>authenticate_service_account.py\<close>), and signed access tokens with rotating keys
  (\<open>adapters/security/jwt.py\<close>, \<open>token_service.py\<close>, \<open>key_provider.py\<close>, \<open>keys.py\<close>, \<open>jwks.py\<close>). The JWT
  library and the RSA primitives are parameters; SHA-256 is the parameter of the authentication domain.
\<close>

subsection \<open>Virtual API keys\<close>

record api_key_row =
  kr_id :: uuid
  kr_organization :: uuid
  kr_prefix :: string
  kr_hash :: string
  kr_status :: key_status
  kr_expires :: "instant option"

record api_key_scope_row =
  sc_key :: uuid
  sc_scope :: string
  sc_organization :: uuid

record key_db =
  kd_keys :: "api_key_row list"
  kd_scopes :: "api_key_scope_row list"

definition api_key_prefix :: string where
  "api_key_prefix = ''elg_''"

definition extract_prefix :: "string \<Rightarrow> string" where
  "extract_prefix secret = take 16 secret"

record generated_key =
  gk_secret :: string
  gk_prefix :: string
  gk_hash :: string

definition generate_api_key :: "digest \<Rightarrow> string \<Rightarrow> string \<Rightarrow> generated_key" where
  "generate_api_key sha environment token =
     (let secret = api_key_prefix @ environment @ ''_'' @ token
      in \<lparr>gk_secret = secret, gk_prefix = extract_prefix secret, gk_hash = hash_secret sha secret\<rparr>)"

text \<open>The repository reads inside one tenant's row-level security.\<close>

definition api_key_get :: "uuid \<Rightarrow> key_db \<Rightarrow> string \<Rightarrow> api_key_record option" where
  "api_key_get tenant db prefix =
     (case find (\<lambda>r. kr_prefix r = prefix \<and> kr_organization r = tenant) (kd_keys db) of
        None \<Rightarrow> None
      | Some r \<Rightarrow> Some \<lparr>ak_id = kr_id r, ak_organization = kr_organization r, ak_hash = kr_hash r,
          ak_scopes = map sc_scope (filter (\<lambda>s. sc_key s = kr_id r \<and> sc_organization s = tenant) (kd_scopes db)),
          ak_active = (kr_status r = Key_Active), ak_expires = kr_expires r\<rparr>)"

text \<open>The bootstrap function of the database: an exact, active prefix to its tenant and nothing else.\<close>

definition api_key_tenant :: "key_db \<Rightarrow> string \<Rightarrow> uuid option" where
  "api_key_tenant db prefix =
     map_option kr_organization (find (\<lambda>r. kr_prefix r = prefix \<and> kr_status r = Key_Active) (kd_keys db))"

text \<open>Two units of work, each over the state it finds; \<open>None\<close> is a store that cannot be read.\<close>

definition tenant_scoped_get :: "key_db option \<Rightarrow> key_db option \<Rightarrow> string \<Rightarrow> api_key_record option" where
  "tenant_scoped_get first later prefix =
     (case first of None \<Rightarrow> None
      | Some db \<Rightarrow>
          (case api_key_tenant db prefix of
             None \<Rightarrow> None
           | Some tenant \<Rightarrow> (case later of None \<Rightarrow> None | Some db' \<Rightarrow> api_key_get tenant db' prefix)))"

definition authenticate_api_key :: "digest \<Rightarrow> (string \<Rightarrow> api_key_record option) \<Rightarrow> instant \<Rightarrow> string \<Rightarrow> auth_principal res" where
  "authenticate_api_key sha get now presented =
     (case get (take 16 presented) of
        None \<Rightarrow> Inl CredentialInvalidError
      | Some r \<Rightarrow>
          if \<not> ak_active r then Inl CredentialInvalidError
          else if (case ak_expires r of None \<Rightarrow> False | Some e \<Rightarrow> e < now) then Inl CredentialInvalidError
          else if \<not> verify_secret sha presented (ak_hash r) then Inl CredentialInvalidError
          else Inr \<lparr>pr_type = API_KEY, pr_subject = ak_id r, pr_organization = ak_organization r,
                    pr_scopes = ak_scopes r\<rparr>)"

subsection \<open>Signing keys\<close>

record verification_key =
  vk_kid :: string
  vk_public :: string

record signing_key =
  sk_kid :: string
  sk_private :: string
  sk_public :: string

definition to_verification_key :: "signing_key \<Rightarrow> verification_key" where
  "to_verification_key k = \<lparr>vk_kid = sk_kid k, vk_public = sk_public k\<rparr>"

text \<open>\<open>derive\<close> is the public half of a secret key; a new secret key is the generator's, an argument.\<close>

definition signing_key_of :: "(string \<Rightarrow> string) \<Rightarrow> string \<Rightarrow> string \<Rightarrow> signing_key" where
  "signing_key_of derive kid secret = \<lparr>sk_kid = kid, sk_private = secret, sk_public = derive secret\<rparr>"

record key_provider =
  kp_current :: signing_key
  kp_previous :: "verification_key list"

definition provider_from_pem :: "(string \<Rightarrow> string) \<Rightarrow> string \<Rightarrow> string \<Rightarrow> (string \<times> string) list \<Rightarrow> key_provider" where
  "provider_from_pem derive kid secret previous =
     \<lparr>kp_current = signing_key_of derive kid secret,
      kp_previous = map (\<lambda>(k, pem). \<lparr>vk_kid = k, vk_public = pem\<rparr>) previous\<rparr>"

text \<open>The dictionary of keys is filled in order, so a previous key replaces the current one under an equal kid.\<close>

definition verification_keys :: "key_provider \<Rightarrow> string \<rightharpoonup> string" where
  "verification_keys kp =
     foldl (\<lambda>m k. m(vk_kid k \<mapsto> vk_public k)) [sk_kid (kp_current kp) \<mapsto> sk_public (kp_current kp)] (kp_previous kp)"

definition rotate_key :: "(string \<Rightarrow> string) \<Rightarrow> string \<times> string \<Rightarrow> key_provider \<Rightarrow> key_provider" where
  "rotate_key derive new kp =
     \<lparr>kp_current = signing_key_of derive (fst new) (snd new),
      kp_previous = to_verification_key (kp_current kp) # kp_previous kp\<rparr>"

subsection \<open>The published key set\<close>

text \<open>\<open>numbers\<close> reads the modulus and the exponent of a PEM, or says that it is no RSA key.\<close>

fun big_endian :: "nat \<Rightarrow> nat \<Rightarrow> string" where
  "big_endian 0 n = []"
| "big_endian (Suc k) n = big_endian k (n div 256) @ [char_of (n mod 256)]"

fun bit_length :: "nat \<Rightarrow> nat" where
  "bit_length n = (if n = 0 then 0 else Suc (bit_length (n div 2)))"

declare bit_length.simps [simp del]

definition b64url_uint :: "nat \<Rightarrow> string" where
  "b64url_uint n = b64url_strip (b64_groups (big_endian ((bit_length n + 7) div 8) n))"

definition to_jwk :: "(string \<Rightarrow> (nat \<times> nat) option) \<Rightarrow> verification_key \<Rightarrow> json res" where
  "to_jwk numbers k =
     (case numbers (vk_public k) of
        None \<Rightarrow> Inl ValueError
      | Some (n, e) \<Rightarrow> Inr (JObj [(''kty'', JStr ''RSA''), (''use'', JStr ''sig''), (''alg'', JStr ''RS256''),
          (''kid'', JStr (vk_kid k)), (''n'', JStr (b64url_uint n)), (''e'', JStr (b64url_uint e))]))"

fun jwk_list :: "(string \<Rightarrow> (nat \<times> nat) option) \<Rightarrow> verification_key list \<Rightarrow> json list res" where
  "jwk_list numbers [] = Inr []"
| "jwk_list numbers (k # ks) =
     (case to_jwk numbers k of Inl e \<Rightarrow> Inl e
      | Inr j \<Rightarrow> (case jwk_list numbers ks of Inl e \<Rightarrow> Inl e | Inr js \<Rightarrow> Inr (j # js)))"

definition build_jwks :: "(string \<Rightarrow> (nat \<times> nat) option) \<Rightarrow> verification_key list \<Rightarrow> json res" where
  "build_jwks numbers ks =
     (case jwk_list numbers ks of Inl e \<Rightarrow> Inl e | Inr js \<Rightarrow> Inr (JObj [(''keys'', JList js)]))"

definition provider_jwks :: "(string \<Rightarrow> (nat \<times> nat) option) \<Rightarrow> key_provider \<Rightarrow> json res" where
  "provider_jwks numbers kp = build_jwks numbers (to_verification_key (kp_current kp) # kp_previous kp)"

subsection \<open>Signed tokens\<close>

text \<open>
  The JWT library: the unverified header of a token, a payload signed with a secret key under a key
  id, and the payload of a token whose RS256 signature, audience, issuer and required claims check out
  against a public key. \<open>None\<close> is one of its \<open>InvalidTokenError\<close>s.
\<close>

record jwt_library =
  jl_header :: "string \<Rightarrow> payload option"
  jl_encode :: "payload \<Rightarrow> string \<Rightarrow> string \<Rightarrow> string res"
  jl_decode :: "string \<Rightarrow> string \<Rightarrow> string \<Rightarrow> string \<Rightarrow> payload option"

record jwt_config =
  jc_issuer :: string
  jc_audience :: string
  jc_leeway :: duration

record token_claims =
  tc_subject :: string
  tc_organization :: string
  tc_type :: string
  tc_scopes :: "string list"
  tc_jti :: string
  tc_issued :: instant
  tc_expires :: instant
  tc_additional :: "(string \<times> string) list"

definition reserved_claims :: "string list" where
  "reserved_claims = [''iss'', ''aud'', ''sub'', ''org'', ''typ'', ''scope'', ''jti'', ''iat'', ''nbf'', ''exp'']"

definition jwt_payload :: "jwt_config \<Rightarrow> string \<Rightarrow> string \<Rightarrow> string \<Rightarrow> string list \<Rightarrow> string \<Rightarrow> instant \<Rightarrow> duration \<Rightarrow> payload" where
  "jwt_payload cfg subject org typ scopes jti now ttl =
     [(''iss'', JStr (jc_issuer cfg)), (''aud'', JStr (jc_audience cfg)), (''sub'', JStr subject),
      (''org'', JStr org), (''typ'', JStr typ), (''scope'', JStr (join '' '' scopes)), (''jti'', JStr jti),
      (''iat'', JInt (timestamp now)), (''nbf'', JInt (timestamp now)), (''exp'', JInt (timestamp (now + ttl)))]"

definition jwt_issue ::
  "jwt_library \<Rightarrow> jwt_config \<Rightarrow> signing_key \<Rightarrow> string \<Rightarrow> string \<Rightarrow> string \<Rightarrow> string list \<Rightarrow> string \<Rightarrow> instant \<Rightarrow> duration \<Rightarrow>
     (string \<times> string) list \<Rightarrow> string res" where
  "jwt_issue lib cfg key subject org typ scopes jti now ttl additional =
     (if \<exists>(k, v)\<in>set additional. k \<in> set reserved_claims then Inl ValueError
      else jl_encode lib (jwt_payload cfg subject org typ scopes jti now ttl @ map (map_prod id JStr) additional)
             (sk_private key) (sk_kid key))"

text \<open>\<open>datetime.fromtimestamp\<close>: the years 1 to 9999.\<close>

definition from_timestamp :: "int \<Rightarrow> instant res" where
  "from_timestamp n = (if -62135596800 \<le> n \<and> n \<le> 253402300799 then Inr (n * second) else Inl ValueError)"

definition claim_instant :: "payload \<Rightarrow> string \<Rightarrow> instant res" where
  "claim_instant claims k =
     (case map_of claims k of None \<Rightarrow> Inl KeyError
      | Some j \<Rightarrow> (case json_int j of Inl e \<Rightarrow> Inl e | Inr n \<Rightarrow> from_timestamp n))"

definition falsy :: "json \<Rightarrow> bool" where
  "falsy j \<longleftrightarrow> j \<in> {JNull, JBool False, JInt 0, JStr [], JList [], JObj [], JFloat ''0.0'', JFloat ''-0.0''}"

definition claim_scopes :: "payload \<Rightarrow> string list res" where
  "claim_scopes claims =
     (case map_of claims ''scope'' of None \<Rightarrow> Inr []
      | Some j \<Rightarrow> if falsy j then Inr []
          else (case j of JStr s \<Rightarrow> Inr (split_words s) | _ \<Rightarrow> Inl (OtherException ''AttributeError'')))"

definition claim_text :: "payload \<Rightarrow> string \<Rightarrow> string" where
  "claim_text claims k = (case map_of claims k of None \<Rightarrow> [] | Some j \<Rightarrow> json_str j)"

definition checked_claims :: "payload \<Rightarrow> instant \<Rightarrow> duration \<Rightarrow> token_claims res" where
  "checked_claims claims now leeway =
     (case claim_instant claims ''exp'' of Inl e \<Rightarrow> Inl e
      | Inr expires \<Rightarrow>
     (case claim_instant claims ''nbf'' of Inl e \<Rightarrow> Inl e
      | Inr not_before \<Rightarrow>
          if expires + leeway < now then Inl TokenExpiredError
          else if now < not_before - leeway then Inl TokenInvalidError
          else
     (case claim_scopes claims of Inl e \<Rightarrow> Inl e
      | Inr scopes \<Rightarrow>
     (if map_of claims ''sub'' = None \<or> map_of claims ''jti'' = None then Inl KeyError else
     (case claim_instant claims ''iat'' of Inl e \<Rightarrow> Inl e
      | Inr issued \<Rightarrow> Inr
          \<lparr>tc_subject = claim_text claims ''sub'', tc_organization = claim_text claims ''org'',
           tc_type = claim_text claims ''typ'', tc_scopes = scopes, tc_jti = claim_text claims ''jti'',
           tc_issued = issued, tc_expires = expires,
           tc_additional = map (\<lambda>(k, v). (k, json_str v)) (filter (\<lambda>(k, v). k \<notin> set reserved_claims) claims)\<rparr>)))))"

definition jwt_verify ::
  "jwt_library \<Rightarrow> jwt_config \<Rightarrow> (string \<rightharpoonup> string) \<Rightarrow> instant \<Rightarrow> string \<Rightarrow> token_claims res" where
  "jwt_verify lib cfg keys now token =
     (case jl_header lib token of None \<Rightarrow> Inl TokenInvalidError
      | Some header \<Rightarrow>
          if map_of header ''alg'' \<noteq> Some (JStr ''RS256'') then Inl TokenInvalidError
          else (case map_of header ''kid'' of
            Some (JStr kid) \<Rightarrow>
              (case keys kid of None \<Rightarrow> Inl TokenInvalidError
               | Some public \<Rightarrow>
                   (case jl_decode lib token public (jc_audience cfg) (jc_issuer cfg) of
                      None \<Rightarrow> Inl TokenInvalidError
                    | Some claims \<Rightarrow> checked_claims claims now (jc_leeway cfg)))
          | _ \<Rightarrow> Inl TokenInvalidError))"

subsection \<open>The access-token service\<close>

definition issue_access_token ::
  "jwt_library \<Rightarrow> jwt_config \<Rightarrow> key_provider \<Rightarrow> string \<Rightarrow> instant \<Rightarrow> auth_principal \<Rightarrow> duration \<Rightarrow> string res" where
  "issue_access_token lib cfg kp jti now p ttl =
     jwt_issue lib cfg (kp_current kp) (uuid_text (pr_subject p)) (uuid_text (pr_organization p)) ''access''
       (pr_scopes p) jti now ttl [(''ptyp'', principal_type_value (pr_type p))]"

definition verify_access_token ::
  "jwt_library \<Rightarrow> jwt_config \<Rightarrow> key_provider \<Rightarrow> instant \<Rightarrow> string \<Rightarrow> auth_principal res" where
  "verify_access_token lib cfg kp now token =
     (case jwt_verify lib cfg (verification_keys kp) now token of Inl e \<Rightarrow> Inl e
      | Inr c \<Rightarrow>
          (let raw = (case map_of (tc_additional c) ''ptyp'' of None \<Rightarrow> ''user'' | Some t \<Rightarrow> t) in
           case (principal_type_of raw, uuid_of (tc_subject c), uuid_of (tc_organization c)) of
             (Some t, Inr s, Inr g) \<Rightarrow>
               Inr \<lparr>pr_type = t, pr_subject = s, pr_organization = g, pr_scopes = tc_scopes c\<rparr>
           | _ \<Rightarrow> Inl TokenInvalidError))"

definition bearer_authenticate ::
  "jwt_library \<Rightarrow> jwt_config \<Rightarrow> key_provider \<Rightarrow> instant \<Rightarrow> string \<Rightarrow> auth_principal res" where
  "bearer_authenticate = verify_access_token"

definition composite_authenticate ::
  "digest \<Rightarrow> (string \<Rightarrow> api_key_record option) \<Rightarrow> (instant \<Rightarrow> string \<Rightarrow> auth_principal res) \<Rightarrow> instant \<Rightarrow> string \<Rightarrow>
     auth_principal res" where
  "composite_authenticate sha get verify now credential =
     (if take 4 credential = api_key_prefix then authenticate_api_key sha get now credential
      else verify now credential)"

subsection \<open>Service accounts\<close>

type_synonym credential_db = "service_credential list"

definition credential_add :: "uuid \<Rightarrow> service_credential \<Rightarrow> credential_db \<Rightarrow> credential_db \<times> unit res" where
  "credential_add tenant c db =
     (if cr_organization c \<noteq> tenant \<or> cr_id c \<in> cr_id ` set db \<or> cr_client c \<in> cr_client ` set db
      then (db, Inl (OtherException ''IntegrityError''))
      else (db @ [c], Inr ()))"

definition credential_get :: "uuid \<Rightarrow> string \<Rightarrow> credential_db \<Rightarrow> service_credential option" where
  "credential_get tenant client db = find (\<lambda>c. cr_client c = client \<and> cr_organization c = tenant) db"

definition credential_revoke :: "uuid \<Rightarrow> uuid \<Rightarrow> credential_db \<Rightarrow> credential_db" where
  "credential_revoke tenant cid db =
     update_where (\<lambda>c. cr_id c = cid \<and> cr_organization c = tenant) (\<lambda>c. c\<lparr>cr_status := Key_Revoked\<rparr>) db"

definition authenticate_service_account ::
  "digest \<Rightarrow> (string \<Rightarrow> service_credential option) \<Rightarrow> (auth_principal \<Rightarrow> duration \<Rightarrow> string res) \<Rightarrow> duration \<Rightarrow> instant \<Rightarrow>
     string \<Rightarrow> string \<Rightarrow> string res" where
  "authenticate_service_account sha get issue ttl now client secret =
     (case get client of
        None \<Rightarrow> Inl CredentialInvalidError
      | Some c \<Rightarrow>
          if cr_status c \<noteq> Key_Active then Inl CredentialInvalidError
          else if (case cr_expires c of None \<Rightarrow> False | Some e \<Rightarrow> e < now) then Inl CredentialInvalidError
          else if \<not> verify_secret sha secret (cr_hash c) then Inl CredentialInvalidError
          else issue \<lparr>pr_type = SERVICE_ACCOUNT, pr_subject = cr_account c,
                      pr_organization = cr_organization c, pr_scopes = []\<rparr> ttl)"

subsection \<open>The key dictionary across rotations\<close>

definition rotations :: "(string \<Rightarrow> string) \<Rightarrow> (string \<times> string) list \<Rightarrow> key_provider \<Rightarrow> key_provider" where
  "rotations derive news kp = foldl (\<lambda>k new. rotate_key derive new k) kp news"

lemma foldl_keys: "foldl (\<lambda>m k. m(vk_kid k \<mapsto> vk_public k)) m ks = m ++ map_of (rev (map (\<lambda>k. (vk_kid k, vk_public k)) ks))"
  by (induction ks arbitrary: m) (simp_all add: map_add_upd_left map_add_def fun_eq_iff split: option.splits)

lemma verification_keys_alt:
  "verification_keys kp =
     [sk_kid (kp_current kp) \<mapsto> sk_public (kp_current kp)] ++ map_of (rev (map (\<lambda>k. (vk_kid k, vk_public k)) (kp_previous kp)))"
  by (simp add: verification_keys_def foldl_keys)

text \<open>The last entry of the previous keys under a kid decides; an older key therefore wins over every newer one.\<close>

lemma keys_of_rotated:
  "verification_keys (rotate_key derive new kp) kid =
     (case map_of (rev (map (\<lambda>k. (vk_kid k, vk_public k)) (kp_previous kp))) kid of
        Some public \<Rightarrow> Some public
      | None \<Rightarrow> if kid = sk_kid (kp_current kp) then Some (sk_public (kp_current kp))
               else if kid = fst new then Some (derive (snd new)) else None)"
  by (auto simp: verification_keys_alt rotate_key_def to_verification_key_def signing_key_of_def map_add_def split: option.splits)

lemma keys_of_provider:
  "verification_keys kp kid =
     (case map_of (rev (map (\<lambda>k. (vk_kid k, vk_public k)) (kp_previous kp))) kid of
        Some public \<Rightarrow> Some public
      | None \<Rightarrow> if kid = sk_kid (kp_current kp) then Some (sk_public (kp_current kp)) else None)"
  by (auto simp: verification_keys_alt map_add_def split: option.splits)

lemma rotation_keeps: "verification_keys kp kid = Some public \<Longrightarrow> verification_keys (rotate_key derive new kp) kid = Some public"
  unfolding keys_of_rotated keys_of_provider [of kp] by (auto split: option.splits if_splits)

lemma rotations_keep: "verification_keys kp kid = Some public \<Longrightarrow> verification_keys (rotations derive news kp) kid = Some public"
  unfolding rotations_def by (induction news arbitrary: kp) (auto intro: rotation_keeps)

lemma current_key_verifies:
  "sk_kid (kp_current kp) \<notin> vk_kid ` set (kp_previous kp) \<Longrightarrow>
     verification_keys kp (sk_kid (kp_current kp)) = Some (sk_public (kp_current kp))"
  by (auto simp: keys_of_provider split: option.splits dest!: map_of_SomeD)

subsection \<open>Issuing and verifying\<close>

text \<open>
  What the code relies on: a payload the library signed comes back whole under the public half of the
  key, the right audience and issuer, when its required claims are there and it was not issued after
  \<open>wall\<close>, the second the library's own clock shows.
\<close>

definition jwt_contract :: "jwt_library \<Rightarrow> (string \<Rightarrow> string) \<Rightarrow> int \<Rightarrow> bool" where
  "jwt_contract lib derive wall \<longleftrightarrow>
     (\<forall>payload secret kid token issuer audience n.
        jl_encode lib payload secret kid = Inr token \<longrightarrow>
        (\<exists>h. jl_header lib token = Some h \<and> map_of h ''alg'' = Some (JStr ''RS256'') \<and> map_of h ''kid'' = Some (JStr kid)) \<and>
        (distinct (map fst payload) \<and> map_of payload ''iss'' = Some (JStr issuer) \<and> map_of payload ''aud'' = Some (JStr audience) \<and>
           {''exp'', ''iat'', ''nbf'', ''sub'', ''jti''} \<subseteq> fst ` set payload \<and> map_of payload ''iat'' = Some (JInt n) \<and> n \<le> wall \<longrightarrow>
         jl_decode lib token (derive secret) audience issuer = Some payload))"

lemma contract_decode:
  assumes "jwt_contract lib derive wall" "jl_encode lib p secret kid = Inr token"
    and "distinct (map fst p)" "map_of p ''iss'' = Some (JStr issuer)" "map_of p ''aud'' = Some (JStr audience)"
    and "{''exp'', ''iat'', ''nbf'', ''sub'', ''jti''} \<subseteq> fst ` set p" "map_of p ''iat'' = Some (JInt n)" "n \<le> wall"
  shows "jl_decode lib token (derive secret) audience issuer = Some p"
  by (rule assms(1) [unfolded jwt_contract_def, rule_format, OF assms(2), THEN conjunct2, THEN mp])
    (use assms(3-8) in blast)

definition access_payload :: "jwt_config \<Rightarrow> string \<Rightarrow> instant \<Rightarrow> auth_principal \<Rightarrow> duration \<Rightarrow> payload" where
  "access_payload cfg jti now p ttl =
     jwt_payload cfg (uuid_text (pr_subject p)) (uuid_text (pr_organization p)) ''access'' (pr_scopes p) jti now ttl @
     [(''ptyp'', JStr (principal_type_value (pr_type p)))]"

lemma issue_access_token_eq:
  "issue_access_token lib cfg kp jti now p ttl =
     jl_encode lib (access_payload cfg jti now p ttl) (sk_private (kp_current kp)) (sk_kid (kp_current kp))"
  by (simp add: issue_access_token_def jwt_issue_def access_payload_def reserved_claims_def)

definition carried_principal :: "auth_principal \<Rightarrow> bool" where
  "carried_principal p \<longleftrightarrow> pr_subject p < 2 ^ 128 \<and> pr_organization p < 2 ^ 128 \<and> (\<forall>w\<in>set (pr_scopes p). word_text w)"

definition this_era :: "instant \<Rightarrow> bool" where
  "this_era t \<longleftrightarrow> 0 \<le> t \<and> t < 2 ^ 53"

lemma from_timestamp_era: "this_era t \<Longrightarrow> from_timestamp (timestamp t) = Inr (t div second * second)"
proof -
  assume t: "this_era t"
  have "t div second * second + t mod second = t" "0 \<le> t mod second" "t mod second < second" by simp_all
  moreover have "0 \<le> t" "t < 9007199254740992" using t by (simp_all add: this_era_def)
  ultimately have "0 \<le> t div second" "t div second \<le> 253402300799" by linarith+
  moreover have "timestamp t = t div second" using t by (simp add: this_era_def timestamp_div)
  ultimately show ?thesis by (simp add: from_timestamp_def)
qed

lemma claim_scopes_join: "(\<forall>w\<in>set ws. word_text w) \<Longrightarrow> map_of claims ''scope'' = Some (JStr (join '' '' ws)) \<Longrightarrow>
    claim_scopes claims = Inr ws"
  using split_words_join [of ws] by (auto simp: claim_scopes_def falsy_def split_words_def)

lemma checked_access_claims:
  assumes p: "carried_principal p" and era: "this_era now" "this_era (now + ttl)"
    and late: "\<not> (now + ttl) div second * second + leeway < later" and early: "\<not> later < now div second * second - leeway"
  obtains c where "checked_claims (access_payload cfg jti now p ttl) later leeway = Inr c"
    "tc_subject c = uuid_text (pr_subject p)" "tc_organization c = uuid_text (pr_organization p)"
    "tc_scopes c = pr_scopes p" "map_of (tc_additional c) ''ptyp'' = Some (principal_type_value (pr_type p))"
proof -
  let ?claims = "access_payload cfg jti now p ttl"
  have t: "claim_instant ?claims ''exp'' = Inr ((now + ttl) div second * second)"
    "claim_instant ?claims ''nbf'' = Inr (now div second * second)"
    "claim_instant ?claims ''iat'' = Inr (now div second * second)"
    using era by (simp_all add: claim_instant_def access_payload_def jwt_payload_def json_int_def from_timestamp_era)
  have "claim_scopes ?claims = Inr (pr_scopes p)"
    using p by (intro claim_scopes_join) (simp_all add: carried_principal_def access_payload_def jwt_payload_def)
  with t late early that show thesis
    by (simp add: checked_claims_def) (simp add: access_payload_def jwt_payload_def claim_text_def json_str_def reserved_claims_def)
qed

lemma verify_issued:
  assumes lib: "jwt_contract lib derive wall" and wall: "now div second \<le> wall"
    and key: "sk_public (kp_current kp) = derive (sk_private (kp_current kp))"
      "sk_kid (kp_current kp) \<notin> vk_kid ` set (kp_previous kp)"
    and issue: "issue_access_token lib cfg kp jti now p ttl = Inr token"
    and p: "carried_principal p" and era: "this_era now" "this_era (now + ttl)"
  shows "verify_access_token lib cfg (rotations derive news kp) later token =
           (if (now + ttl) div second * second + jc_leeway cfg < later then Inl TokenExpiredError
            else if later < now div second * second - jc_leeway cfg then Inl TokenInvalidError
            else Inr p)"
proof -
  let ?claims = "access_payload cfg jti now p ttl" and ?k = "kp_current kp"
  have keys: "verification_keys (rotations derive news kp) (sk_kid ?k) = Some (derive (sk_private ?k))"
    using rotations_keep [OF current_key_verifies [OF key(2)]] key(1) by simp
  have signed: "jl_encode lib ?claims (sk_private ?k) (sk_kid ?k) = Inr token"
    using issue by (simp add: issue_access_token_eq)
  have iat: "timestamp now \<le> wall" using wall era(1) by (simp add: timestamp_div this_era_def)
  have t: "claim_instant ?claims ''exp'' = Inr ((now + ttl) div second * second)"
    "claim_instant ?claims ''nbf'' = Inr (now div second * second)"
    using era by (simp_all add: claim_instant_def access_payload_def jwt_payload_def json_int_def from_timestamp_era)
  obtain h where h: "jl_header lib token = Some h" "map_of h ''alg'' = Some (JStr ''RS256'')"
    "map_of h ''kid'' = Some (JStr (sk_kid ?k))"
    using lib signed unfolding jwt_contract_def by metis
  have "jl_decode lib token (derive (sk_private ?k)) (jc_audience cfg) (jc_issuer cfg) = Some ?claims"
    by (rule contract_decode [OF lib signed _ _ _ _ _ iat]) (simp_all add: access_payload_def jwt_payload_def)
  then have jwt: "jwt_verify lib cfg (verification_keys (rotations derive news kp)) later token =
      checked_claims ?claims later (jc_leeway cfg)"
    by (simp add: jwt_verify_def h keys)
  show ?thesis
  proof (cases "(now + ttl) div second * second + jc_leeway cfg < later \<or> later < now div second * second - jc_leeway cfg")
    case True
    then show ?thesis by (auto simp: verify_access_token_def jwt checked_claims_def t)
  next
    case False
    then obtain c where c: "checked_claims ?claims later (jc_leeway cfg) = Inr c"
      "tc_subject c = uuid_text (pr_subject p)" "tc_organization c = uuid_text (pr_organization p)"
      "tc_scopes c = pr_scopes p" "map_of (tc_additional c) ''ptyp'' = Some (principal_type_value (pr_type p))"
      using checked_access_claims [OF p era] by blast
    with False p show ?thesis
      by (simp add: verify_access_token_def jwt carried_principal_def uuid_of_text Let_def)
  qed
qed


text \<open>The theorem at an input: a table of signed tokens stands for the library.\<close>

definition table_jwt :: "(string \<times> payload \<times> string \<times> string) list \<Rightarrow> (string \<Rightarrow> string) \<Rightarrow> jwt_library" where
  "table_jwt table derive =
     \<lparr>jl_header = (\<lambda>token. case map_of table token of None \<Rightarrow> None
        | Some (_, _, kid) \<Rightarrow> Some [(''alg'', JStr ''RS256''), (''kid'', JStr kid)]),
      jl_encode = (\<lambda>p secret kid. case find (\<lambda>(_, q, r, k). q = p \<and> r = secret \<and> k = kid) table of
          None \<Rightarrow> Inl ValueError | Some (token, _) \<Rightarrow> Inr token),
      jl_decode = (\<lambda>token public audience issuer. case map_of table token of None \<Rightarrow> None
        | Some (p, secret, _) \<Rightarrow>
            if derive secret = public \<and> map_of p ''iss'' = Some (JStr issuer) \<and> map_of p ''aud'' = Some (JStr audience)
            then Some p else None)\<rparr>"

lemma table_jwt_contract: "distinct (map fst table) \<Longrightarrow> jwt_contract (table_jwt table derive) derive wall"
proof -
  assume d: "distinct (map fst table)"
  have found: "map_of table token = Some (p, secret, kid)"
    if "jl_encode (table_jwt table derive) p secret kid = Inr token" for p kid token and secret :: string
    using that d by (auto simp: table_jwt_def split: option.splits dest!: find_SomeD)
  show ?thesis
    unfolding jwt_contract_def by (auto dest!: found) (simp_all add: table_jwt_def)
qed

definition sample_jwt :: jwt_config where
  "sample_jwt = \<lparr>jc_issuer = ''gateway'', jc_audience = ''api'', jc_leeway = 60 * second\<rparr>"

definition sample_keys :: key_provider where
  "sample_keys = provider_from_pem (\<lambda>p. CHR ''P'' # p) ''k1'' ''one'' [(''k0'', ''Pzero'')]"

definition sample_principal :: auth_principal where
  "sample_principal = \<lparr>pr_type = USER, pr_subject = 7, pr_organization = 1, pr_scopes = [''infer:chat'', ''infer:embed'']\<rparr>"

definition sample_library :: jwt_library where
  "sample_library = table_jwt [(''t1'', access_payload sample_jwt ''j1'' 1700000000000000 sample_principal (900 * second),
     ''one'', ''k1'')] (\<lambda>p. CHR ''P'' # p)"

lemma sample_principal_carried: "carried_principal sample_principal"
  by (simp add: carried_principal_def sample_principal_def word_text_def is_space_def)

lemma sample_token: "issue_access_token sample_library sample_jwt sample_keys ''j1'' 1700000000000000 sample_principal (900 * second) = Inr ''t1''"
  by (simp add: issue_access_token_eq sample_library_def table_jwt_def sample_keys_def provider_from_pem_def signing_key_of_def)


subsection \<open>What is accepted\<close>

text \<open>A signature that checks out against a public key was made with its private half, over those claims.\<close>

definition unforgeable :: "jwt_library \<Rightarrow> (string \<Rightarrow> string) \<Rightarrow> bool" where
  "unforgeable lib derive \<longleftrightarrow>
     (\<forall>token secret audience issuer claims.
        jl_decode lib token (derive secret) audience issuer = Some claims \<longrightarrow>
        (\<exists>kid. jl_encode lib claims secret kid = Inr token) \<and>
        map_of claims ''iss'' = Some (JStr issuer) \<and> map_of claims ''aud'' = Some (JStr audience))"

lemma checked_claims_window:
  assumes "checked_claims claims now leeway = Inr c"
  obtains e b where "claim_instant claims ''exp'' = Inr e" "now \<le> e + leeway"
    "claim_instant claims ''nbf'' = Inr b" "b - leeway \<le> now"
  using assms by (auto simp: checked_claims_def split: sum.splits if_splits)

lemma jwt_verify_accepts:
  assumes "jwt_verify lib cfg keys now token = Inr c"
  obtains header kid public claims where "jl_header lib token = Some header"
    "map_of header ''alg'' = Some (JStr ''RS256'')" "map_of header ''kid'' = Some (JStr kid)" "keys kid = Some public"
    "jl_decode lib token public (jc_audience cfg) (jc_issuer cfg) = Some claims"
    "checked_claims claims now (jc_leeway cfg) = Inr c"
  using assms by (auto simp: jwt_verify_def split: option.splits json.splits if_splits)


lemma table_jwt_unforgeable: "inj derive \<Longrightarrow> distinct (map fst table) \<Longrightarrow> distinct (map snd table) \<Longrightarrow> unforgeable (table_jwt table derive) derive"
proof -
  assume inj: "inj derive" and d: "distinct (map fst table)" "distinct (map snd table)"
  have hit: "find (\<lambda>(_, q, r, k). q = p \<and> r = s \<and> k = kid) table = Some (token, p, s, kid)"
    if "map_of table token = Some (p, s, kid)" for token p s kid
  proof -
    have i: "(token, p, s, kid) \<in> set table" using that map_of_SomeD by metis
    have "find (\<lambda>(_, q, r, k). q = p \<and> r = s \<and> k = kid) table \<noteq> None"
    proof
      assume "find (\<lambda>(_, q, r, k). q = p \<and> r = s \<and> k = kid) table = None"
      from find_NoneD [OF this i] show False by simp
    qed
    then obtain x where x: "find (\<lambda>(_, q, r, k). q = p \<and> r = s \<and> k = kid) table = Some x" by auto
    then have "x \<in> set table" "snd x = (p, s, kid)" using find_SomeD [OF x] by (simp_all add: case_prod_unfold prod_eq_iff)
    moreover have "inj_on snd (set table)" using d(2) by (simp add: distinct_map)
    ultimately have "x = (token, p, s, kid)" using i by (metis inj_on_eq_iff snd_conv)
    with x show ?thesis by simp
  qed
  have "(\<exists>kid. jl_encode (table_jwt table derive) claims secret kid = Inr token) \<and>
      map_of claims ''iss'' = Some (JStr issuer) \<and> map_of claims ''aud'' = Some (JStr audience)"
    if "jl_decode (table_jwt table derive) token (derive secret) audience issuer = Some claims"
    for token secret audience issuer claims
  proof -
    from that obtain s kid where t: "map_of table token = Some (claims, s, kid)" and s: "derive s = derive secret"
      and c: "map_of claims ''iss'' = Some (JStr issuer)" "map_of claims ''aud'' = Some (JStr audience)"
      by (auto simp: table_jwt_def split: option.splits if_splits)
    from s inj have "s = secret" by (rule injD [rotated])
    with hit [OF t] have "jl_encode (table_jwt table derive) claims secret kid = Inr token" by (simp add: table_jwt_def)
    with c show ?thesis by blast
  qed
  then show ?thesis unfolding unforgeable_def by blast
qed


text \<open>
  Rotating to a key id that is still in use locks new tokens out: the new key's entry is shadowed by
  the older key under the same id, so a token signed with the new key is checked against the old one and
  refused, although the provider that issued it is the one that verifies.
\<close>

theorem reused_kid_shadows_new_key:
  assumes "verification_keys kp kid = Some old"
    and "issue_access_token lib cfg (rotate_key derive (kid, secret) kp) jti now p ttl = Inr token"
    and "\<exists>h. jl_header lib token = Some h \<and> map_of h ''kid'' = Some (JStr kid)"
    and "jl_decode lib token old (jc_audience cfg) (jc_issuer cfg) = None"
  shows "verification_keys (rotate_key derive (kid, secret) kp) kid = Some old"
    and "verify_access_token lib cfg (rotate_key derive (kid, secret) kp) later token = Inl TokenInvalidError"
proof -
  show k: "verification_keys (rotate_key derive (kid, secret) kp) kid = Some old" by (rule rotation_keeps [OF assms(1)])
  from assms(3) obtain h where "jl_header lib token = Some h" "map_of h ''kid'' = Some (JStr kid)" by blast
  with k assms(4) have "jwt_verify lib cfg (verification_keys (rotate_key derive (kid, secret) kp)) later token = Inl TokenInvalidError"
    by (simp add: jwt_verify_def)
  then show "verify_access_token lib cfg (rotate_key derive (kid, secret) kp) later token = Inl TokenInvalidError"
    by (simp add: verify_access_token_def)
qed

definition reuse_keys :: key_provider where
  "reuse_keys = rotate_key (\<lambda>p. CHR ''P'' # p) (''k1'', ''new'') sample_keys"

definition reuse_library :: jwt_library where
  "reuse_library = table_jwt [(''t2'', access_payload sample_jwt ''j2'' 1700000000000000 sample_principal (900 * second),
     ''new'', ''k1'')] (\<lambda>p. CHR ''P'' # p)"

theorem reused_kid_shadows_new_key_witness:
  "issue_access_token reuse_library sample_jwt reuse_keys ''j2'' 1700000000000000 sample_principal (900 * second) = Inr ''t2'' \<and>
   verify_access_token reuse_library sample_jwt reuse_keys 1700000000000000 ''t2'' = Inl TokenInvalidError"
proof -
  have i: "issue_access_token reuse_library sample_jwt reuse_keys ''j2'' 1700000000000000 sample_principal (900 * second) = Inr ''t2''"
    by (simp add: issue_access_token_eq reuse_library_def table_jwt_def reuse_keys_def rotate_key_def signing_key_of_def)
  show ?thesis
    using reused_kid_shadows_new_key(2) [OF _ i [unfolded reuse_keys_def], of "''Pone''" 1700000000000000] i
    by (simp add: reuse_keys_def sample_keys_def provider_from_pem_def signing_key_of_def verification_keys_def
        reuse_library_def table_jwt_def)
qed

subsection \<open>API keys\<close>

text \<open>What the database must hold of a key for it to open the door, and the principal it then is.\<close>

definition key_admits :: "digest \<Rightarrow> instant \<Rightarrow> string \<Rightarrow> api_key_row \<Rightarrow> bool" where
  "key_admits sha now presented r \<longleftrightarrow>
     kr_prefix r = take 16 presented \<and> kr_status r = Key_Active \<and> kr_hash r = hash_secret sha presented \<and>
     (case kr_expires r of None \<Rightarrow> True | Some e \<Rightarrow> now \<le> e)"

definition key_principal :: "key_db \<Rightarrow> api_key_row \<Rightarrow> auth_principal" where
  "key_principal db r =
     \<lparr>pr_type = API_KEY, pr_subject = kr_id r, pr_organization = kr_organization r,
      pr_scopes = map sc_scope (filter (\<lambda>s. sc_key s = kr_id r \<and> sc_organization s = kr_organization r) (kd_scopes db))\<rparr>"

lemma find_keyed: "distinct (map k xs) \<Longrightarrow> x \<in> set xs \<Longrightarrow> p x \<Longrightarrow> (\<And>y. p y \<Longrightarrow> k y = k x) \<Longrightarrow> find p xs = Some x"
proof (induction xs)
  case (Cons a xs)
  show ?case
  proof (cases "p a")
    case True
    have "k a = k x" by (rule Cons.prems(4) [OF True])
    then have "k x \<notin> k ` set xs" using Cons.prems(1) by simp
    then have "a = x" using Cons.prems(2) by auto
    with True show ?thesis by simp
  next
    case False
    then have "x \<in> set xs" using Cons.prems(2,3) by auto
    with False Cons.IH [OF _ _ Cons.prems(3,4)] Cons.prems(1) show ?thesis by simp
  qed
qed simp

lemma authenticate_found:
  assumes "find (\<lambda>r. kr_prefix r = take 16 presented \<and> kr_status r = Key_Active) (kd_keys db) = Some old"
    and "find (\<lambda>r. kr_prefix r = take 16 presented \<and> kr_organization r = kr_organization old) (kd_keys db') = Some r"
  shows "authenticate_api_key sha (tenant_scoped_get (Some db) (Some db')) now presented =
           (if key_admits sha now presented r then Inr (key_principal db' r) else Inl CredentialInvalidError)"
proof -
  have r: "kr_prefix r = take 16 presented" "kr_organization r = kr_organization old"
    using find_SomeD [OF assms(2)] by simp_all
  have "tenant_scoped_get (Some db) (Some db') (take 16 presented) =
      Some \<lparr>ak_id = kr_id r, ak_organization = kr_organization r, ak_hash = kr_hash r,
        ak_scopes = pr_scopes (key_principal db' r), ak_active = (kr_status r = Key_Active), ak_expires = kr_expires r\<rparr>"
    by (simp add: tenant_scoped_get_def api_key_tenant_def api_key_get_def assms key_principal_def r(2))
  then show ?thesis
    by (auto simp: authenticate_api_key_def verify_secret_def key_admits_def key_principal_def r(1) split: option.split)
qed

lemma authenticate_missing:
  "find (\<lambda>r. kr_prefix r = take 16 presented \<and> kr_status r = Key_Active) (kd_keys db) = None \<Longrightarrow>
     authenticate_api_key sha (tenant_scoped_get (Some db) later) now presented = Inl CredentialInvalidError"
  "find (\<lambda>r. kr_prefix r = take 16 presented \<and> kr_status r = Key_Active) (kd_keys db) = Some old \<Longrightarrow>
     find (\<lambda>r. kr_prefix r = take 16 presented \<and> kr_organization r = kr_organization old) (kd_keys db') = None \<Longrightarrow>
     authenticate_api_key sha (tenant_scoped_get (Some db) (Some db')) now presented = Inl CredentialInvalidError"
  by (simp_all add: authenticate_api_key_def tenant_scoped_get_def api_key_tenant_def api_key_get_def)

text \<open>C29: An API key opens the door exactly when the database says so: two reads of the store make a
  principal for a presented text if and only if the first finds an active key under its first sixteen
  characters and the second finds in that key's tenant a key under them that is still active, not past
  its expiry and stored with the hash of the whole text; the principal is that key's, in its tenant,
  with the scopes of its tenant's rows. Everything else, an unreadable store included, is refused with
  one and the same error.
\<close>

theorem api_key_authentication_exact:
  assumes "distinct (map kr_prefix (kd_keys db))" "distinct (map kr_prefix (kd_keys db'))"
  shows "(authenticate_api_key sha (tenant_scoped_get (Some db) (Some db')) now presented = Inr p \<longleftrightarrow>
           (\<exists>old\<in>set (kd_keys db). \<exists>r\<in>set (kd_keys db').
              kr_prefix old = take 16 presented \<and> kr_status old = Key_Active \<and>
              kr_organization r = kr_organization old \<and> key_admits sha now presented r \<and> p = key_principal db' r)) \<and>
         ((\<forall>q. authenticate_api_key sha (tenant_scoped_get first later) now presented \<noteq> Inr q) \<longrightarrow>
           authenticate_api_key sha (tenant_scoped_get first later) now presented = Inl CredentialInvalidError) \<and>
         (first = None \<or> later = None \<longrightarrow>
           authenticate_api_key sha (tenant_scoped_get first later) now presented = Inl CredentialInvalidError)"
proof -
  let ?auth = "authenticate_api_key sha (tenant_scoped_get (Some db) (Some db')) now presented"
  let ?f = "find (\<lambda>r. kr_prefix r = take 16 presented \<and> kr_status r = Key_Active) (kd_keys db)"
  let ?g = "\<lambda>old. find (\<lambda>r. kr_prefix r = take 16 presented \<and> kr_organization r = kr_organization old) (kd_keys db')"
  have admits: "?auth = Inr p \<longleftrightarrow>
           (\<exists>old\<in>set (kd_keys db). \<exists>r\<in>set (kd_keys db').
              kr_prefix old = take 16 presented \<and> kr_status old = Key_Active \<and>
              kr_organization r = kr_organization old \<and> key_admits sha now presented r \<and> p = key_principal db' r)"
    (is "_ \<longleftrightarrow> ?rhs")
  proof
    assume a: "?auth = Inr p"
    then obtain old where old: "?f = Some old" using authenticate_missing(1) by (cases ?f) auto
    with a obtain r where r: "?g old = Some r" using authenticate_missing(2) [OF old] by (cases "?g old") auto
    from a have "key_admits sha now presented r" "p = key_principal db' r"
      by (simp_all add: authenticate_found [OF old r] split: if_splits)
    with find_SomeD [OF old] find_SomeD [OF r] show ?rhs by blast
  next
    assume ?rhs
    then obtain old r where old: "old \<in> set (kd_keys db)" "kr_prefix old = take 16 presented" "kr_status old = Key_Active"
      and r: "r \<in> set (kd_keys db')" "kr_organization r = kr_organization old" "key_admits sha now presented r"
      and p: "p = key_principal db' r" by blast
    have "?f = Some old" using old by (intro find_keyed [OF assms(1)]) auto
    moreover have "?g old = Some r" using r by (intro find_keyed [OF assms(2)]) (auto simp: key_admits_def)
    ultimately show "?auth = Inr p" using r(3) p by (simp add: authenticate_found)
  qed
  have refused: "authenticate_api_key sha (tenant_scoped_get first later) now presented = Inl CredentialInvalidError"
    if "\<forall>q. authenticate_api_key sha (tenant_scoped_get first later) now presented \<noteq> Inr q"
    using that by (auto simp: authenticate_api_key_def split: option.splits if_splits)
  have unreadable: "authenticate_api_key sha (tenant_scoped_get first later) now presented = Inl CredentialInvalidError"
    if "first = None \<or> later = None"
    using that by (auto simp: authenticate_api_key_def tenant_scoped_get_def split: option.splits)
  from admits refused unreadable show ?thesis by blast
qed

definition sample_sha :: digest where
  "sample_sha s = rev s"

definition sample_key :: generated_key where
  "sample_key = generate_api_key sample_sha ''live'' ''abcdefghij''"

definition sample_key_db :: key_db where
  "sample_key_db =
     \<lparr>kd_keys = [\<lparr>kr_id = 3, kr_organization = 1, kr_prefix = gk_prefix sample_key, kr_hash = gk_hash sample_key,
        kr_status = Key_Active, kr_expires = Some 100\<rparr>],
      kd_scopes = [\<lparr>sc_key = 3, sc_scope = ''infer:chat'', sc_organization = 1\<rparr>]\<rparr>"

theorem api_key_authentication_exact_witness:
  "authenticate_api_key sample_sha (tenant_scoped_get (Some sample_key_db) (Some sample_key_db)) 100 (gk_secret sample_key) =
     Inr \<lparr>pr_type = API_KEY, pr_subject = 3, pr_organization = 1, pr_scopes = [''infer:chat'']\<rparr> \<and>
   authenticate_api_key sample_sha (tenant_scoped_get (Some sample_key_db) None) 100 (gk_secret sample_key) =
     Inl CredentialInvalidError \<and>
   authenticate_api_key sample_sha (tenant_scoped_get (Some sample_key_db) (Some sample_key_db)) 101 (gk_secret sample_key) =
     Inl CredentialInvalidError"
proof -
  have d: "distinct (map kr_prefix (kd_keys sample_key_db))" by (simp add: sample_key_db_def)
  note all = api_key_authentication_exact [OF d d]
  note admits = all [THEN conjunct1]
  note refused = all [THEN conjunct2, THEN conjunct1, THEN mp]
  note unreadable = all [THEN conjunct2, THEN conjunct2, THEN mp]
  have "authenticate_api_key sample_sha (tenant_scoped_get (Some sample_key_db) (Some sample_key_db)) 100 (gk_secret sample_key) =
     Inr \<lparr>pr_type = API_KEY, pr_subject = 3, pr_organization = 1, pr_scopes = [''infer:chat'']\<rparr>"
    unfolding admits by (simp add: sample_key_db_def sample_key_def generate_api_key_def extract_prefix_def
        key_admits_def key_principal_def Let_def)
  moreover have "authenticate_api_key sample_sha (tenant_scoped_get (Some sample_key_db) (Some sample_key_db)) 101 (gk_secret sample_key) =
     Inl CredentialInvalidError"
    by (rule refused) (simp add: admits, simp add: sample_key_db_def key_admits_def)
  moreover have "authenticate_api_key sample_sha (tenant_scoped_get (Some sample_key_db) None) 100 (gk_secret sample_key) =
     Inl CredentialInvalidError"
    by (rule unreadable) simp
  ultimately show ?thesis by blast
qed

subsection \<open>Service accounts\<close>

lemma credential_revoked: "distinct (map cr_client db) \<Longrightarrow> find (\<lambda>c. cr_id c = cid \<and> cr_organization c = tenant) db = Some c \<Longrightarrow>
    distinct (map cr_id db) \<Longrightarrow>
    credential_get tenant (cr_client c) (credential_revoke tenant cid db) = Some (c\<lparr>cr_status := Key_Revoked\<rparr>)"
proof -
  assume d: "distinct (map cr_client db)" and f: "find (\<lambda>c. cr_id c = cid \<and> cr_organization c = tenant) db = Some c"
  from find_SomeD [OF f] have c: "c \<in> set db" "cr_id c = cid" "cr_organization c = tenant" by auto
  have "find (\<lambda>x. cr_client x = cr_client c \<and> cr_organization x = tenant) db = Some c"
    using c by (intro find_keyed [OF d]) auto
  then show ?thesis using c
    by (simp add: credential_get_def credential_revoke_def find_update_where_key)
qed

text \<open>
  A service account's token speaks for the account and only while its credential lives: the client's
  id and secret, presented while the credential is active and not expired, yield a token that the
  gateway then verifies to that account in its tenant with no scopes of its own; a wrong secret, an
  expired credential, and from the moment it is revoked the right secret too, yield nothing.
\<close>

theorem service_account_speaks_for_itself:
  assumes db: "distinct (map cr_client db)" "distinct (map cr_id db)" "c \<in> set db" "cr_organization c = tenant"
    and active: "cr_status c = Key_Active" "case cr_expires c of None \<Rightarrow> True | Some e \<Rightarrow> now \<le> e"
    and lib: "jwt_contract lib derive wall" "now div second \<le> wall"
    and key: "sk_public (kp_current kp) = derive (sk_private (kp_current kp))"
      "sk_kid (kp_current kp) \<notin> vk_kid ` set (kp_previous kp)"
    and ids: "cr_account c < 2 ^ 128" "tenant < 2 ^ 128"
    and era: "this_era now" "this_era (now + ttl)" "0 \<le> ttl" "0 \<le> jc_leeway cfg"
    and signs: "issue_access_token lib cfg kp jti now \<lparr>pr_type = SERVICE_ACCOUNT, pr_subject = cr_account c,
        pr_organization = tenant, pr_scopes = []\<rparr> ttl = Inr token"
  shows "authenticate_service_account sha (\<lambda>k. credential_get tenant k db) (issue_access_token lib cfg kp jti now) ttl now
           (cr_client c) secret =
           (if hash_secret sha secret = cr_hash c then Inr token else Inl CredentialInvalidError)"
    and "now \<le> later \<Longrightarrow> later \<le> (now + ttl) div second * second \<Longrightarrow>
         bearer_authenticate lib cfg (rotations derive news kp) later token =
           Inr \<lparr>pr_type = SERVICE_ACCOUNT, pr_subject = cr_account c, pr_organization = tenant, pr_scopes = []\<rparr>"
    and "authenticate_service_account sha (\<lambda>k. credential_get tenant k (credential_revoke tenant (cr_id c) db))
           (issue_access_token lib cfg kp jti now) ttl now (cr_client c) secret = Inl CredentialInvalidError"
proof -
  have "find (\<lambda>x. cr_client x = cr_client c \<and> cr_organization x = tenant) db = Some c"
    using db by (intro find_keyed [OF db(1)]) auto
  then have get: "credential_get tenant (cr_client c) db = Some c" by (simp add: credential_get_def)
  then show "authenticate_service_account sha (\<lambda>k. credential_get tenant k db) (issue_access_token lib cfg kp jti now) ttl now
           (cr_client c) secret =
           (if hash_secret sha secret = cr_hash c then Inr token else Inl CredentialInvalidError)"
    using active db(4) signs by (simp add: authenticate_service_account_def verify_secret_def split: option.splits)
  have p: "carried_principal \<lparr>pr_type = SERVICE_ACCOUNT, pr_subject = cr_account c, pr_organization = tenant, pr_scopes = []\<rparr>"
    using ids by (simp add: carried_principal_def)
  have "now div second * second + now mod second = now" "0 \<le> now mod second" by simp_all
  then show "bearer_authenticate lib cfg (rotations derive news kp) later token =
           Inr \<lparr>pr_type = SERVICE_ACCOUNT, pr_subject = cr_account c, pr_organization = tenant, pr_scopes = []\<rparr>"
    if "now \<le> later" "later \<le> (now + ttl) div second * second"
    using that era(4) verify_issued [OF lib(1) lib(2) key signs p era(1) era(2), of news later]
    by (simp add: bearer_authenticate_def)
  have "find (\<lambda>x. cr_id x = cr_id c \<and> cr_organization x = tenant) db = Some c"
    using db by (intro find_keyed [OF db(2)]) auto
  then show "authenticate_service_account sha (\<lambda>k. credential_get tenant k (credential_revoke tenant (cr_id c) db))
           (issue_access_token lib cfg kp jti now) ttl now (cr_client c) secret = Inl CredentialInvalidError"
    using db(1,2) by (simp add: authenticate_service_account_def credential_revoked)
qed

definition sample_credential :: service_credential where
  "sample_credential = \<lparr>cr_id = 5, cr_account = 6, cr_organization = 1, cr_client = ''batch'',
     cr_hash = hash_secret sample_sha ''s3cret'', cr_status = Key_Active, cr_expires = None\<rparr>"

definition sample_account :: auth_principal where
  "sample_account = \<lparr>pr_type = SERVICE_ACCOUNT, pr_subject = 6, pr_organization = 1, pr_scopes = []\<rparr>"

definition account_library :: jwt_library where
  "account_library = table_jwt [(''t3'', access_payload sample_jwt ''j3'' 1700000000000000 sample_account (900 * second),
     ''one'', ''k1'')] (\<lambda>p. CHR ''P'' # p)"

theorem service_account_speaks_for_itself_witness:
  "authenticate_service_account sample_sha (\<lambda>k. credential_get 1 k [sample_credential])
     (issue_access_token account_library sample_jwt sample_keys ''j3'' 1700000000000000) (900 * second) 1700000000000000
     ''batch'' ''s3cret'' = Inr ''t3'' \<and>
   bearer_authenticate account_library sample_jwt (rotations (\<lambda>p. CHR ''P'' # p) [(''k2'', ''two'')] sample_keys)
     1700000500000000 ''t3'' = Inr sample_account \<and>
   authenticate_service_account sample_sha (\<lambda>k. credential_get 1 k (credential_revoke 1 5 [sample_credential]))
     (issue_access_token account_library sample_jwt sample_keys ''j3'' 1700000000000000) (900 * second) 1700000000000000
     ''batch'' ''s3cret'' = Inl CredentialInvalidError"
proof -
  have c: "jwt_contract account_library (\<lambda>p. CHR ''P'' # p) 1700000000"
    unfolding account_library_def by (rule table_jwt_contract) simp
  have i: "issue_access_token account_library sample_jwt sample_keys ''j3'' 1700000000000000
      \<lparr>pr_type = SERVICE_ACCOUNT, pr_subject = cr_account sample_credential, pr_organization = 1, pr_scopes = []\<rparr>
      (900 * second) = Inr ''t3''"
    by (simp add: issue_access_token_eq account_library_def table_jwt_def sample_keys_def provider_from_pem_def
        signing_key_of_def sample_credential_def sample_account_def)
  note it = service_account_speaks_for_itself [OF _ _ _ _ _ _ c _ _ _ _ _ _ _ _ _ i, of "[sample_credential]"]
  show ?thesis
    using it(1) [of sample_sha "''s3cret''"] it(2) [of 1700000500000000 "[(''k2'', ''two'')]"] it(3) [of sample_sha "''s3cret''"]
    by (simp add: sample_credential_def this_era_def sample_jwt_def sample_keys_def provider_from_pem_def
        signing_key_of_def sample_account_def)
qed

subsection \<open>The published keys\<close>

fun number_of_bytes :: "nat \<Rightarrow> string \<Rightarrow> nat" where
  "number_of_bytes acc [] = acc"
| "number_of_bytes acc (c # cs) = number_of_bytes (acc * 256 + of_char c) cs"

lemma number_of_bytes_append: "number_of_bytes acc (xs @ [c]) = number_of_bytes acc xs * 256 + of_char c"
  by (induction xs arbitrary: acc) auto

lemma number_of_big_endian: "n < 256 ^ k \<Longrightarrow> number_of_bytes 0 (big_endian k n) = n"
proof (induction k n rule: big_endian.induct)
  case (2 k n)
  then have "n div 256 < 256 ^ k" by (simp add: less_mult_imp_div_less mult.commute)
  with 2 show ?case by (simp add: number_of_bytes_append div_mult_mod_eq)
qed simp

lemma below_bit_length: "n < 2 ^ bit_length n"
proof (induction n rule: bit_length.induct)
  case (1 n)
  show ?case
  proof (cases "n = 0")
    case False
    with 1 have "n div 2 < 2 ^ bit_length (n div 2)" by simp
    then have "n < 2 * 2 ^ bit_length (n div 2)" by linarith
    with False show ?thesis by (subst bit_length.simps) simp
  qed (simp add: bit_length.simps)
qed

lemma below_bytes: "n < 256 ^ ((bit_length n + 7) div 8)"
proof -
  have "bit_length n \<le> 8 * ((bit_length n + 7) div 8)" by presburger
  then have "(2 :: nat) ^ bit_length n \<le> 2 ^ (8 * ((bit_length n + 7) div 8))" by (rule power_increasing) simp
  also have "\<dots> = 256 ^ ((bit_length n + 7) div 8)" by (simp add: power_mult)
  finally show ?thesis using below_bit_length [of n] by simp
qed

definition number_of_b64url :: "string \<Rightarrow> nat option" where
  "number_of_b64url s = map_option (number_of_bytes 0) (b64_decode (s @ b64_padding s))"

lemma b64url_uint_decodes: "number_of_b64url (b64url_uint n) = Some n"
  using b64_decode_groups [of 0 0 "big_endian ((bit_length n + 7) div 8) n"] below_bytes [of n]
  by (simp add: number_of_b64url_def b64url_uint_def b64_decode_def number_of_big_endian)

lemma jwk_list_member:
  "jwk_list numbers ks = Inr js \<Longrightarrow> k \<in> set ks \<Longrightarrow> \<exists>j\<in>set js. to_jwk numbers k = Inr j"
  by (induction ks arbitrary: js) (auto split: sum.splits)

lemma verifying_key_listed:
  "verification_keys kp kid = Some public \<Longrightarrow>
     \<exists>k\<in>set (to_verification_key (kp_current kp) # kp_previous kp). vk_kid k = kid \<and> vk_public k = public"
  by (auto simp: keys_of_provider to_verification_key_def split: option.splits if_splits dest!: map_of_SomeD)

text \<open>
  The key set the gateway publishes is the one it verifies with: under every key id the provider
  accepts, the JWKS document holds an RS256 signature key whose base64url modulus and exponent decode
  to exactly the numbers of the public key used, so whoever reads the document accepts what the gateway
  accepts.
\<close>

theorem published_keys_cover_verification:
  assumes "provider_jwks numbers kp = Inr doc" and "verification_keys kp kid = Some public"
  shows "\<exists>js n e a b. doc = JObj [(''keys'', JList js)] \<and> numbers public = Some (n, e) \<and>
           JObj [(''kty'', JStr ''RSA''), (''use'', JStr ''sig''), (''alg'', JStr ''RS256''), (''kid'', JStr kid),
             (''n'', JStr a), (''e'', JStr b)] \<in> set js \<and>
           number_of_b64url a = Some n \<and> number_of_b64url b = Some e"
proof -
  obtain js where js: "jwk_list numbers (to_verification_key (kp_current kp) # kp_previous kp) = Inr js"
    "doc = JObj [(''keys'', JList js)]"
    using assms(1) by (auto simp: provider_jwks_def build_jwks_def simp del: jwk_list.simps split: sum.splits)
  obtain k where k: "k \<in> set (to_verification_key (kp_current kp) # kp_previous kp)" "vk_kid k = kid" "vk_public k = public"
    using verifying_key_listed [OF assms(2)] by blast
  obtain j where j: "j \<in> set js" "to_jwk numbers k = Inr j" using jwk_list_member [OF js(1) k(1)] by blast
  from j(2) k obtain n e where "numbers public = Some (n, e)"
    "j = JObj [(''kty'', JStr ''RSA''), (''use'', JStr ''sig''), (''alg'', JStr ''RS256''), (''kid'', JStr kid),
       (''n'', JStr (b64url_uint n)), (''e'', JStr (b64url_uint e))]"
    by (auto simp: to_jwk_def split: option.splits)
  with j(1) js(2) show ?thesis using b64url_uint_decodes by blast
qed

definition sample_numbers :: "string \<Rightarrow> (nat \<times> nat) option" where
  "sample_numbers pem = (if pem = ''Pone'' then Some (193, 65) else if pem = ''Pzero'' then Some (187, 65) else None)"

theorem published_keys_cover_verification_witness:
  "\<exists>doc js n e a b. provider_jwks sample_numbers sample_keys = Inr doc \<and> doc = JObj [(''keys'', JList js)] \<and>
     sample_numbers ''Pzero'' = Some (n, e) \<and>
     JObj [(''kty'', JStr ''RSA''), (''use'', JStr ''sig''), (''alg'', JStr ''RS256''), (''kid'', JStr ''k0''),
       (''n'', JStr a), (''e'', JStr b)] \<in> set js \<and>
     number_of_b64url a = Some n \<and> number_of_b64url b = Some e"
proof -
  have "provider_jwks sample_numbers sample_keys \<noteq> Inl ValueError \<and> (\<exists>doc. provider_jwks sample_numbers sample_keys = Inr doc)"
    by (simp add: provider_jwks_def build_jwks_def to_jwk_def sample_numbers_def sample_keys_def provider_from_pem_def
        signing_key_of_def to_verification_key_def)
  then obtain doc where doc: "provider_jwks sample_numbers sample_keys = Inr doc" by blast
  have "verification_keys sample_keys ''k0'' = Some ''Pzero''"
    by (simp add: verification_keys_def sample_keys_def provider_from_pem_def)
  from published_keys_cover_verification [OF doc this] doc show ?thesis by blast
qed

end
