(* ===== verification/Sessions.thy ===== *)
theory Sessions imports Auth_Domain begin

text \<open>
  Login sessions and their rotating refresh tokens: the repositories over the tables \<open>session\<close> and
  \<open>refresh_token\<close> (\<open>adapters/persistence/repositories/auth_repositories.py\<close>, constraints of the
  schema), and the use cases \<open>IssueSession\<close>, \<open>RefreshSession\<close> and \<open>Logout\<close> (\<open>application/auth\<close>). A
  database session is bound to one tenant; row-level security shows it that tenant's rows and refuses
  others. New ids, new secrets, the clock and the signing of access tokens are arguments.
\<close>

subsection \<open>Tables and repositories\<close>

record auth_db =
  db_sessions :: "session_row list"
  db_refresh :: "refresh_row list"
  db_audit :: "auth_event list"

definition integrity_error :: exn where
  "integrity_error = OtherException ''IntegrityError''"

definition session_add :: "uuid \<Rightarrow> session_row \<Rightarrow> auth_db \<Rightarrow> auth_db \<times> unit res" where
  "session_add tenant s db =
     (if ss_organization s \<noteq> tenant \<or> ss_id s \<in> ss_id ` set (db_sessions db) \<or> ss_expires s \<le> ss_created s
      then (db, Inl integrity_error)
      else (db\<lparr>db_sessions := db_sessions db @ [s]\<rparr>, Inr ()))"

definition session_get :: "uuid \<Rightarrow> uuid \<Rightarrow> auth_db \<Rightarrow> session_row option" where
  "session_get tenant sid db = find (\<lambda>s. ss_id s = sid \<and> ss_organization s = tenant) (db_sessions db)"

definition session_revoke :: "uuid \<Rightarrow> uuid \<Rightarrow> instant \<Rightarrow> auth_db \<Rightarrow> auth_db" where
  "session_revoke tenant sid now db =
     db\<lparr>db_sessions := update_where (\<lambda>s. ss_id s = sid \<and> ss_organization s = tenant)
          (\<lambda>s. s\<lparr>ss_revoked := Some now\<rparr>) (db_sessions db)\<rparr>"

definition refresh_add :: "uuid \<Rightarrow> refresh_row \<Rightarrow> auth_db \<Rightarrow> auth_db \<times> unit res" where
  "refresh_add tenant r db =
     (if rt_organization r \<noteq> tenant \<or> rt_id r \<in> rt_id ` set (db_refresh db) \<or>
         rt_hash r \<in> rt_hash ` set (db_refresh db) \<or> rt_session r \<notin> ss_id ` set (db_sessions db)
      then (db, Inl integrity_error)
      else (db\<lparr>db_refresh := db_refresh db @ [r]\<rparr>, Inr ()))"

definition refresh_get :: "uuid \<Rightarrow> string \<Rightarrow> auth_db \<Rightarrow> refresh_row option" where
  "refresh_get tenant h db = find (\<lambda>r. rt_hash r = h \<and> rt_organization r = tenant) (db_refresh db)"

definition mark_rotated :: "uuid \<Rightarrow> uuid \<Rightarrow> uuid \<Rightarrow> auth_db \<Rightarrow> auth_db \<times> unit res" where
  "mark_rotated tenant tid new_id db =
     (if new_id \<notin> rt_id ` set (db_refresh db) then (db, Inl integrity_error)
      else (db\<lparr>db_refresh := update_where (\<lambda>r. rt_id r = tid \<and> rt_organization r = tenant)
                 (\<lambda>r. r\<lparr>rt_rotated := Some new_id\<rparr>) (db_refresh db)\<rparr>, Inr ()))"

definition revoke_session_tokens :: "uuid \<Rightarrow> uuid \<Rightarrow> instant \<Rightarrow> auth_db \<Rightarrow> auth_db" where
  "revoke_session_tokens tenant sid now db =
     db\<lparr>db_refresh := update_where (\<lambda>r. rt_session r = sid \<and> rt_organization r = tenant)
          (\<lambda>r. r\<lparr>rt_revoked := Some now\<rparr>) (db_refresh db)\<rparr>"

definition audit_event :: "auth_event \<Rightarrow> auth_db \<Rightarrow> auth_db" where
  "audit_event e db = db\<lparr>db_audit := db_audit db @ [e]\<rparr>"

subsection \<open>The use cases\<close>

type_synonym token_mint = "auth_principal \<Rightarrow> duration \<Rightarrow> string res"

record session_env =
  se_sha :: digest
  se_mint :: token_mint
  se_access_ttl :: duration
  se_refresh_ttl :: duration
  se_session_ttl :: duration

definition user_principal :: "uuid \<Rightarrow> uuid \<Rightarrow> auth_principal" where
  "user_principal user org = \<lparr>pr_type = USER, pr_subject = user, pr_organization = org, pr_scopes = []\<rparr>"

definition issue_session :: "session_env \<Rightarrow> uuid \<Rightarrow> uuid \<Rightarrow> uuid \<Rightarrow> uuid \<Rightarrow> uuid \<Rightarrow> string \<Rightarrow> instant \<Rightarrow>
    auth_db \<Rightarrow> auth_db \<times> issued_tokens res" where
  "issue_session env tenant user org session_id token_id secret now db =
     (case session_add tenant
        \<lparr>ss_id = session_id, ss_user = user, ss_organization = org, ss_created = now,
         ss_expires = now + se_session_ttl env, ss_revoked = None\<rparr> db of
        (db1, Inl x) \<Rightarrow> (db1, Inl x)
      | (db1, Inr _) \<Rightarrow>
          (case refresh_add tenant
             \<lparr>rt_id = token_id, rt_session = session_id, rt_organization = org,
              rt_hash = hash_secret (se_sha env) secret, rt_expires = now + se_refresh_ttl env,
              rt_rotated = None, rt_revoked = None\<rparr> db1 of
             (db2, Inl x) \<Rightarrow> (db2, Inl x)
           | (db2, Inr _) \<Rightarrow>
               (case se_mint env (user_principal user org) (se_access_ttl env) of
                  Inl x \<Rightarrow> (db2, Inl x)
                | Inr access \<Rightarrow>
                    (audit_event ((auth_event_new ''session.created'' ''success'')
                       \<lparr>ae_organization := Some org, ae_ptype := Some ''user'', ae_subject := Some user\<rparr>) db2,
                     Inr \<lparr>it_access = access, it_refresh = secret\<rparr>))))"

text \<open>The first half of a refresh reads the token and its session, or detects a reuse.\<close>

definition refresh_check :: "session_env \<Rightarrow> uuid \<Rightarrow> string \<Rightarrow> instant \<Rightarrow> auth_db \<Rightarrow>
    auth_db \<times> (refresh_row \<times> session_row) res" where
  "refresh_check env tenant presented now db =
     (case refresh_get tenant (hash_secret (se_sha env) presented) db of
        None \<Rightarrow> (db, Inl TokenInvalidError)
      | Some r \<Rightarrow>
          if rt_rotated r \<noteq> None \<or> rt_revoked r \<noteq> None
          then (audit_event ((auth_event_new ''refresh.reuse_detected'' ''failure'')
                  \<lparr>ae_organization := Some (rt_organization r),
                   ae_detail := Some ''rotated or revoked refresh token replayed; session revoked''\<rparr>)
                  (session_revoke tenant (rt_session r) now
                    (revoke_session_tokens tenant (rt_session r) now db)),
                Inl RefreshReuseError)
          else if rt_expires r < now then (db, Inl TokenExpiredError)
          else (case session_get tenant (rt_session r) db of
              None \<Rightarrow> (db, Inl SessionRevokedError)
            | Some s \<Rightarrow>
                if ss_revoked s \<noteq> None \<or> ss_expires s < now then (db, Inl SessionRevokedError)
                else (db, Inr (r, s))))"

text \<open>The second half stores the next token, marks this one as rotated and signs an access token.\<close>

definition refresh_rotate :: "session_env \<Rightarrow> uuid \<Rightarrow> uuid \<Rightarrow> string \<Rightarrow> instant \<Rightarrow> refresh_row \<Rightarrow> session_row \<Rightarrow>
    auth_db \<Rightarrow> auth_db \<times> issued_tokens res" where
  "refresh_rotate env tenant new_id secret now r s db =
     (case refresh_add tenant
        \<lparr>rt_id = new_id, rt_session = rt_session r, rt_organization = rt_organization r,
         rt_hash = hash_secret (se_sha env) secret, rt_expires = now + se_refresh_ttl env,
         rt_rotated = None, rt_revoked = None\<rparr> db of
        (db1, Inl x) \<Rightarrow> (db1, Inl x)
      | (db1, Inr _) \<Rightarrow>
          (case mark_rotated tenant (rt_id r) new_id db1 of
             (db2, Inl x) \<Rightarrow> (db2, Inl x)
           | (db2, Inr _) \<Rightarrow>
               (case se_mint env (user_principal (ss_user s) (ss_organization s)) (se_access_ttl env) of
                  Inl x \<Rightarrow> (db2, Inl x)
                | Inr access \<Rightarrow>
                    (audit_event ((auth_event_new ''session.refreshed'' ''success'')
                       \<lparr>ae_organization := Some (ss_organization s), ae_ptype := Some ''user'',
                        ae_subject := Some (ss_user s)\<rparr>) db2,
                     Inr \<lparr>it_access = access, it_refresh = secret\<rparr>))))"

definition refresh_session :: "session_env \<Rightarrow> uuid \<Rightarrow> uuid \<Rightarrow> string \<Rightarrow> instant \<Rightarrow> string \<Rightarrow>
    auth_db \<Rightarrow> auth_db \<times> issued_tokens res" where
  "refresh_session env tenant new_id secret now presented db =
     (case refresh_check env tenant presented now db of
        (db1, Inl x) \<Rightarrow> (db1, Inl x)
      | (db1, Inr (r, s)) \<Rightarrow> refresh_rotate env tenant new_id secret now r s db1)"

definition logout :: "uuid \<Rightarrow> uuid \<Rightarrow> instant \<Rightarrow> instant \<Rightarrow> auth_db \<Rightarrow> auth_db" where
  "logout tenant sid now later db =
     audit_event (auth_event_new ''session.logout'' ''success'')
       (revoke_session_tokens tenant sid later (session_revoke tenant sid now db))"

subsection \<open>Reachable states\<close>

inductive session_step :: "session_env \<Rightarrow> auth_db \<Rightarrow> auth_db \<Rightarrow> bool" for env where
  issue: "session_step env db (fst (issue_session env tenant user org sid tid secret now db))"
| refresh: "session_step env db (fst (refresh_session env tenant nid secret now presented db))"
| logout: "session_step env db (logout tenant sid now later db)"

abbreviation empty_auth_db :: auth_db where
  "empty_auth_db \<equiv> \<lparr>db_sessions = [], db_refresh = [], db_audit = []\<rparr>"

inductive session_steps :: "session_env \<Rightarrow> auth_db \<Rightarrow> auth_db \<Rightarrow> bool" for env where
  start: "session_steps env db db"
| more: "session_steps env db db1 \<Longrightarrow> session_step env db1 db2 \<Longrightarrow> session_steps env db db2"

subsection \<open>The invariant of the tables\<close>

definition live :: "refresh_row \<Rightarrow> bool" where
  "live r \<longleftrightarrow> rt_rotated r = None \<and> rt_revoked r = None"

text \<open>Keys are unique, a token belongs to a session of its own tenant, a session has at most one token
  that is neither rotated nor revoked, and the tokens of a revoked session are revoked.\<close>

definition keys_ok :: "session_row list \<Rightarrow> refresh_row list \<Rightarrow> bool" where
  "keys_ok ss rs \<longleftrightarrow> distinct (map ss_id ss) \<and> distinct (map rt_id rs) \<and> distinct (map rt_hash rs)"

definition fk_ok :: "session_row list \<Rightarrow> refresh_row list \<Rightarrow> bool" where
  "fk_ok ss rs \<longleftrightarrow> (\<forall>r \<in> set rs. \<exists>s \<in> set ss. ss_id s = rt_session r \<and> ss_organization s = rt_organization r)"

definition one_live :: "refresh_row list \<Rightarrow> bool" where
  "one_live rs \<longleftrightarrow> (\<forall>r \<in> set rs. \<forall>q \<in> set rs. rt_session r = rt_session q \<and> live r \<and> live q \<longrightarrow> r = q)"

definition revoked_ok :: "session_row list \<Rightarrow> refresh_row list \<Rightarrow> bool" where
  "revoked_ok ss rs \<longleftrightarrow>
     (\<forall>s \<in> set ss. \<forall>r \<in> set rs. ss_revoked s \<noteq> None \<and> rt_session r = ss_id s \<longrightarrow> rt_revoked r \<noteq> None)"

definition session_inv :: "auth_db \<Rightarrow> bool" where
  "session_inv db \<longleftrightarrow> keys_ok (db_sessions db) (db_refresh db) \<and> fk_ok (db_sessions db) (db_refresh db) \<and>
     one_live (db_refresh db) \<and> revoked_ok (db_sessions db) (db_refresh db)"

lemma unique_by: "distinct (map k xs) \<Longrightarrow> x \<in> set xs \<Longrightarrow> y \<in> set xs \<Longrightarrow> k x = k y \<Longrightarrow> x = y"
  by (auto simp: distinct_map dest: inj_onD)

lemma session_invI:
  "\<lbrakk>keys_ok (db_sessions db) (db_refresh db); fk_ok (db_sessions db) (db_refresh db);
    one_live (db_refresh db); revoked_ok (db_sessions db) (db_refresh db)\<rbrakk> \<Longrightarrow> session_inv db"
  by (simp add: session_inv_def)

lemma session_invD:
  assumes "session_inv db"
  shows "keys_ok (db_sessions db) (db_refresh db)" "fk_ok (db_sessions db) (db_refresh db)"
    "one_live (db_refresh db)" "revoked_ok (db_sessions db) (db_refresh db)"
  using assms by (simp_all add: session_inv_def)

lemma fk_session:
  assumes "keys_ok ss rs" "fk_ok ss rs" "r \<in> set rs" "s \<in> set ss" "ss_id s = rt_session r"
  shows "ss_organization s = rt_organization r"
proof -
  from assms(2,3) obtain s' where s': "s' \<in> set ss" "ss_id s' = rt_session r"
    "ss_organization s' = rt_organization r" by (auto simp: fk_ok_def)
  then have "s = s'" using assms(1,4,5) unique_by [of ss_id ss s s'] by (simp add: keys_ok_def)
  with s' show ?thesis by simp
qed

text \<open>Rewriting rows one by one, keeping their keys.\<close>

lemma keys_ok_map:
  assumes "keys_ok ss rs" "\<And>s. ss_id (g s) = ss_id s" "\<And>r. rt_id (f r) = rt_id r" "\<And>r. rt_hash (f r) = rt_hash r"
  shows "keys_ok (map g ss) (map f rs)"
  using assms by (simp add: keys_ok_def o_def)

lemma fk_ok_map:
  assumes "fk_ok ss rs" "\<And>s. ss_id (g s) = ss_id s" "\<And>s. ss_organization (g s) = ss_organization s"
    and "\<And>r. rt_session (f r) = rt_session r" "\<And>r. rt_organization (f r) = rt_organization r"
  shows "fk_ok (map g ss) (map f rs)"
  using assms by (simp add: fk_ok_def)

lemma one_live_map:
  assumes "one_live rs" "\<And>r. live (f r) \<Longrightarrow> live r" "\<And>r. rt_session (f r) = rt_session r"
  shows "one_live (map f rs)"
  unfolding one_live_def
proof (intro ballI impI)
  fix a b assume ab: "a \<in> set (map f rs)" "b \<in> set (map f rs)" "rt_session a = rt_session b \<and> live a \<and> live b"
  then obtain r q where rq: "r \<in> set rs" "q \<in> set rs" "a = f r" "b = f q" by auto
  with ab(3) assms(2,3) have "rt_session r = rt_session q" "live r" "live q" by auto
  with rq(1,2) assms(1) have "r = q" by (auto simp: one_live_def)
  with rq show "a = b" by simp
qed

lemma revoked_ok_map:
  assumes "revoked_ok ss rs" "\<And>r. rt_session (f r) = rt_session r" "\<And>r. rt_revoked r \<noteq> None \<Longrightarrow> rt_revoked (f r) \<noteq> None"
  shows "revoked_ok ss (map f rs)"
  using assms by (auto simp: revoked_ok_def)

lemma fk_new_session:
  "fk_ok ss rs \<Longrightarrow> sid \<notin> ss_id ` set ss \<Longrightarrow> \<forall>r \<in> set rs. rt_session r \<noteq> sid"
  unfolding fk_ok_def by (metis image_eqI)

lemma session_inv_add_session:
  assumes "session_inv db" "ss_id s \<notin> ss_id ` set (db_sessions db)"
  shows "session_inv (db\<lparr>db_sessions := db_sessions db @ [s]\<rparr>)"
proof -
  note inv = session_invD [OF assms(1)]
  from fk_new_session [OF inv(2) assms(2)]
  have "\<forall>r \<in> set (db_refresh db). rt_session r \<noteq> ss_id s" .
  with inv assms(2) show ?thesis
    by (intro session_invI) (auto simp: keys_ok_def fk_ok_def revoked_ok_def)
qed

lemma session_inv_first_token:
  assumes "session_inv db" "s \<in> set (db_sessions db)" "ss_id s = rt_session q" "ss_organization s = rt_organization q"
    and "rt_id q \<notin> rt_id ` set (db_refresh db)" "rt_hash q \<notin> rt_hash ` set (db_refresh db)"
    and "\<forall>r \<in> set (db_refresh db). rt_session r \<noteq> rt_session q" "ss_revoked s = None"
  shows "session_inv (db\<lparr>db_refresh := db_refresh db @ [q]\<rparr>)"
proof -
  note inv = session_invD [OF assms(1)]
  have "ss_revoked s' = None" if "s' \<in> set (db_sessions db)" "ss_id s' = rt_session q" for s'
    using that assms(2,3,8) inv(1) unique_by [of ss_id "db_sessions db" s' s] by (simp add: keys_ok_def)
  then show ?thesis
    using inv assms(2-7) by (intro session_invI) (auto simp: keys_ok_def fk_ok_def one_live_def revoked_ok_def)
qed

lemma one_live_rotate:
  assumes "one_live rs" "r \<in> set rs" "live r" "rt_session q = rt_session r" "\<And>t. rt_session (f t) = rt_session t"
    and "\<And>t. live (f t) \<Longrightarrow> live t" "\<not> live (f r)"
  shows "one_live (map f (rs @ [q]))"
  unfolding one_live_def
proof (intro ballI impI)
  fix a b assume ab: "a \<in> set (map f (rs @ [q]))" "b \<in> set (map f (rs @ [q]))"
    "rt_session a = rt_session b \<and> live a \<and> live b"
  then obtain t u where tu: "t \<in> insert q (set rs)" "u \<in> insert q (set rs)" "a = f t" "b = f u" by auto
  have l: "live t" "live u" "rt_session t = rt_session u" using ab(3) tu(3,4) assms(5,6) by auto
  have no: "v \<notin> set rs" if "live v" "live (f v)" "rt_session v = rt_session r" for v
  proof
    assume "v \<in> set rs"
    with that assms(1-3) have "v = r" by (auto simp: one_live_def)
    with that(2) assms(7) show False by simp
  qed
  show "a = b"
  proof (cases "t = q \<or> u = q")
    case True
    then have "rt_session t = rt_session r" "rt_session u = rt_session r" using l assms(4) by auto
    with no [of t] no [of u] l ab(3) tu show ?thesis by auto
  next
    case False
    with tu l assms(1) have "t = u" by (auto simp: one_live_def)
    with tu show ?thesis by simp
  qed
qed

lemma session_inv_upd:
  "session_inv (db\<lparr>db_refresh := rs\<rparr>) \<longleftrightarrow>
     keys_ok (db_sessions db) rs \<and> fk_ok (db_sessions db) rs \<and> one_live rs \<and> revoked_ok (db_sessions db) rs"
  "session_inv (db\<lparr>db_sessions := ss, db_refresh := rs\<rparr>) \<longleftrightarrow>
     keys_ok ss rs \<and> fk_ok ss rs \<and> one_live rs \<and> revoked_ok ss rs"
  "session_inv (audit_event e db) \<longleftrightarrow> session_inv db"
  by (simp_all add: session_inv_def audit_event_def)

lemma id_apply_id: "ss_id (id s) = ss_id s" and id_apply_org: "ss_organization (id s) = ss_organization s"
  by simp_all

lemma session_inv_rotate:
  assumes "session_inv db" "r \<in> set (db_refresh db)" "live r" "rt_session q = rt_session r"
    and "rt_organization q = rt_organization r" "rt_organization r = tenant"
    and "rt_id q \<notin> rt_id ` set (db_refresh db)" "rt_hash q \<notin> rt_hash ` set (db_refresh db)"
    and "\<forall>s \<in> set (db_sessions db). ss_id s = rt_session r \<longrightarrow> ss_revoked s = None"
  shows "session_inv (db\<lparr>db_refresh := update_where (\<lambda>t. rt_id t = rt_id r \<and> rt_organization t = tenant)
           (\<lambda>t. t\<lparr>rt_rotated := Some new\<rparr>) (db_refresh db @ [q])\<rparr>)"
proof -
  note inv = session_invD [OF assms(1)]
  let ?f = "\<lambda>t. if rt_id t = rt_id r \<and> rt_organization t = tenant then t\<lparr>rt_rotated := Some new\<rparr> else t"
  have f: "rt_id (?f t) = rt_id t" "rt_hash (?f t) = rt_hash t" "rt_session (?f t) = rt_session t"
    "rt_organization (?f t) = rt_organization t" "rt_revoked (?f t) = rt_revoked t" "live (?f t) \<Longrightarrow> live t" for t
    by (auto simp: live_def split: if_splits)
  have k: "keys_ok (db_sessions db) (db_refresh db @ [q])" using inv(1) assms(7,8) by (simp add: keys_ok_def)
  have fk: "fk_ok (db_sessions db) (db_refresh db @ [q])" using inv(2) assms(2,4,5) by (simp add: fk_ok_def)
  have rv: "revoked_ok (db_sessions db) (db_refresh db @ [q])" using inv(4) assms(4,9) by (auto simp: revoked_ok_def)
  have "one_live (map ?f (db_refresh db @ [q]))"
  proof (rule one_live_rotate [OF inv(3) assms(2-4) f(3)])
    show "live t" if "live (?f t)" for t using that by (rule f(6))
    show "\<not> live (?f r)" using assms(6) by (simp add: live_def)
  qed
  moreover have "keys_ok (map id (db_sessions db)) (map ?f (db_refresh db @ [q]))"
    by (rule keys_ok_map [OF k id_apply_id f(1,2)])
  moreover have "fk_ok (map id (db_sessions db)) (map ?f (db_refresh db @ [q]))"
    by (rule fk_ok_map [OF fk id_apply_id id_apply_org f(3,4)])
  moreover have "revoked_ok (db_sessions db) (map ?f (db_refresh db @ [q]))"
    by (rule revoked_ok_map [OF rv f(3)]) (simp only: f(5) not_False_eq_True)
  ultimately show ?thesis
    unfolding session_inv_upd(1) update_where_def list.map_id by (intro conjI)
qed

lemma session_inv_revoke:
  assumes "session_inv db"
  shows "session_inv (db\<lparr>db_sessions := update_where (\<lambda>s. ss_id s = sid \<and> ss_organization s = tenant)
             (\<lambda>s. s\<lparr>ss_revoked := Some now\<rparr>) (db_sessions db),
           db_refresh := update_where (\<lambda>r. rt_session r = sid \<and> rt_organization r = tenant)
             (\<lambda>r. r\<lparr>rt_revoked := Some later\<rparr>) (db_refresh db)\<rparr>)"
proof -
  note inv = session_invD [OF assms(1)]
  let ?f = "\<lambda>t. if rt_session t = sid \<and> rt_organization t = tenant then t\<lparr>rt_revoked := Some later\<rparr> else t"
  let ?g = "\<lambda>s. if ss_id s = sid \<and> ss_organization s = tenant then s\<lparr>ss_revoked := Some now\<rparr> else s"
  have f: "rt_id (?f t) = rt_id t" "rt_hash (?f t) = rt_hash t" "rt_session (?f t) = rt_session t"
    "rt_organization (?f t) = rt_organization t" "live (?f t) \<Longrightarrow> live t" for t
    by (auto simp: live_def split: if_splits)
  have g: "ss_id (?g s) = ss_id s" "ss_organization (?g s) = ss_organization s" for s by auto
  have "rt_revoked (?f t) \<noteq> None"
    if "s \<in> set (db_sessions db)" "t \<in> set (db_refresh db)" "ss_revoked (?g s) \<noteq> None" "rt_session t = ss_id s" for s t
    using that inv(4) fk_session [OF inv(1,2) that(2,1)] by (auto simp: revoked_ok_def split: if_splits)
  then have "\<forall>s \<in> set (db_sessions db). \<forall>t \<in> set (db_refresh db).
      ss_revoked (?g s) \<noteq> None \<and> rt_session t = ss_id s \<longrightarrow> rt_revoked (?f t) \<noteq> None" by blast
  then have "revoked_ok (map ?g (db_sessions db)) (map ?f (db_refresh db))"
    unfolding revoked_ok_def set_map ball_simps g f(3) .
  moreover have "one_live (map ?f (db_refresh db))"
  proof (rule one_live_map [OF inv(3) _ f(3)])
    show "live t" if "live (?f t)" for t using that by (rule f(5))
  qed
  moreover note keys_ok_map [OF inv(1) g(1) f(1,2)] fk_ok_map [OF inv(2) g f(3,4)]
  ultimately show ?thesis
    unfolding session_inv_upd(2) update_where_def by (intro conjI)
qed

subsection \<open>The operations keep the invariant\<close>

lemma refresh_getD: "refresh_get tenant h db = Some r \<Longrightarrow> r \<in> set (db_refresh db) \<and> rt_hash r = h \<and> rt_organization r = tenant"
  by (auto simp: refresh_get_def dest: find_SomeD)

lemma session_getD: "session_get tenant sid db = Some s \<Longrightarrow> s \<in> set (db_sessions db) \<and> ss_id s = sid \<and> ss_organization s = tenant"
  by (auto simp: session_get_def dest: find_SomeD)

lemma issue_session_inv:
  assumes "session_inv db" shows "session_inv (fst (issue_session env tenant user org sid tid secret now db))"
proof -
  let ?s = "\<lparr>ss_id = sid, ss_user = user, ss_organization = org, ss_created = now,
         ss_expires = now + se_session_ttl env, ss_revoked = None\<rparr>"
  let ?q = "\<lparr>rt_id = tid, rt_session = sid, rt_organization = org, rt_hash = hash_secret (se_sha env) secret,
         rt_expires = now + se_refresh_ttl env, rt_rotated = None, rt_revoked = None\<rparr>"
  let ?db1 = "db\<lparr>db_sessions := db_sessions db @ [?s]\<rparr>"
  have keep: "session_inv ?db1" if "sid \<notin> ss_id ` set (db_sessions db)"
    using session_inv_add_session [OF assms, of ?s] that by simp
  have none: "\<forall>r \<in> set (db_refresh db). rt_session r \<noteq> sid" if "sid \<notin> ss_id ` set (db_sessions db)"
    by (rule fk_new_session [OF session_invD(2) [OF assms] that])
  have tok: "session_inv (?db1\<lparr>db_refresh := db_refresh ?db1 @ [?q]\<rparr>)"
    if "sid \<notin> ss_id ` set (db_sessions db)" "tid \<notin> rt_id ` set (db_refresh db)"
      "hash_secret (se_sha env) secret \<notin> rt_hash ` set (db_refresh db)"
    by (rule session_inv_first_token [OF keep [OF that(1)], of ?s]) (use that none in auto)
  show ?thesis
    using assms keep tok
    by (auto simp: issue_session_def session_add_def refresh_add_def session_inv_upd(3) split: prod.splits sum.splits)
qed

lemma refresh_check_cases:
  obtains (denied) x where "refresh_check env tenant presented now db = (db, Inl x)" "x \<noteq> RefreshReuseError"
  | (reuse) r e where "refresh_get tenant (hash_secret (se_sha env) presented) db = Some r" "\<not> live r"
      "refresh_check env tenant presented now db =
        (audit_event e (session_revoke tenant (rt_session r) now (revoke_session_tokens tenant (rt_session r) now db)),
         Inl RefreshReuseError)"
  | (valid) r s where "refresh_check env tenant presented now db = (db, Inr (r, s))"
      "refresh_get tenant (hash_secret (se_sha env) presented) db = Some r" "live r" "now \<le> rt_expires r"
      "session_get tenant (rt_session r) db = Some s" "ss_revoked s = None" "now \<le> ss_expires s"
proof (cases "refresh_get tenant (hash_secret (se_sha env) presented) db")
  case None
  then show ?thesis by (intro denied [of TokenInvalidError]) (simp_all add: refresh_check_def)
next
  case (Some r)
  show ?thesis
  proof (cases "live r")
    case False
    with Some show ?thesis by (intro reuse [OF Some False]) (auto simp: refresh_check_def live_def)
  next
    case True
    then have l: "\<not> (rt_rotated r \<noteq> None \<or> rt_revoked r \<noteq> None)" by (simp add: live_def)
    show ?thesis
    proof (cases "rt_expires r < now")
      case True
      with Some l show ?thesis by (intro denied [of TokenExpiredError]) (simp_all add: refresh_check_def)
    next
      case False
      show ?thesis
      proof (cases "session_get tenant (rt_session r) db")
        case None
        with Some l False show ?thesis by (intro denied [of SessionRevokedError]) (simp_all add: refresh_check_def)
      next
        case (Some s)
        with \<open>refresh_get _ _ _ = Some r\<close> l False \<open>live r\<close> show ?thesis
          by (cases "ss_revoked s \<noteq> None \<or> ss_expires s < now")
            (intro denied [of SessionRevokedError], simp_all add: refresh_check_def valid)
      qed
    qed
  qed
qed

lemma refresh_rotate_db:
  obtains "fst (refresh_rotate env tenant nid secret now r s db) = db"
      "\<exists>x. snd (refresh_rotate env tenant nid secret now r s db) = Inl x"
  | q e where "nid \<notin> rt_id ` set (db_refresh db)" "rt_hash q \<notin> rt_hash ` set (db_refresh db)"
      "rt_id q = nid" "rt_session q = rt_session r" "rt_organization q = rt_organization r" "live q"
      "rt_hash q = hash_secret (se_sha env) secret" "rt_organization r = tenant"
      "fst (refresh_rotate env tenant nid secret now r s db) =
        (db\<lparr>db_refresh := update_where (\<lambda>t. rt_id t = rt_id r \<and> rt_organization t = tenant)
           (\<lambda>t. t\<lparr>rt_rotated := Some nid\<rparr>) (db_refresh db @ [q])\<rparr>)\<lparr>db_audit := e\<rparr>"
proof -
  let ?q = "\<lparr>rt_id = nid, rt_session = rt_session r, rt_organization = rt_organization r,
         rt_hash = hash_secret (se_sha env) secret, rt_expires = now + se_refresh_ttl env,
         rt_rotated = None, rt_revoked = None\<rparr>"
  show ?thesis
  proof (cases "refresh_add tenant ?q db")
    case (Pair db1 a)
    show ?thesis
    proof (cases a)
      case (Inl x)
      then show ?thesis using Pair
        by (intro that(1)) (auto simp: refresh_rotate_def refresh_add_def split: if_splits)
    next
      case (Inr u)
      with Pair have new: "nid \<notin> rt_id ` set (db_refresh db)" "hash_secret (se_sha env) secret \<notin> rt_hash ` set (db_refresh db)"
        "rt_organization r = tenant" and db1: "db1 = db\<lparr>db_refresh := db_refresh db @ [?q]\<rparr>"
        by (auto simp: refresh_add_def split: if_splits)
      show ?thesis
      proof (rule that(2) [of ?q])
        let ?e = "case se_mint env (user_principal (ss_user s) (ss_organization s)) (se_access_ttl env) of
            Inl x \<Rightarrow> db_audit db
          | Inr access \<Rightarrow> db_audit db @ [(auth_event_new ''session.refreshed'' ''success'')
                       \<lparr>ae_organization := Some (ss_organization s), ae_ptype := Some ''user'',
                        ae_subject := Some (ss_user s)\<rparr>]"
        show "fst (refresh_rotate env tenant nid secret now r s db) =
          (db\<lparr>db_refresh := update_where (\<lambda>t. rt_id t = rt_id r \<and> rt_organization t = tenant)
             (\<lambda>t. t\<lparr>rt_rotated := Some nid\<rparr>) (db_refresh db @ [?q])\<rparr>)\<lparr>db_audit := ?e\<rparr>"
          using Pair Inr by (auto simp: refresh_rotate_def db1 mark_rotated_def audit_event_def split: sum.split)
      qed (use new in \<open>simp_all add: live_def\<close>)
    qed
  qed
qed

lemma session_inv_audit [simp]: "session_inv (db\<lparr>db_audit := e\<rparr>) = session_inv db"
  by (simp add: session_inv_def)

lemma revoke_both:
  "session_revoke tenant sid now (revoke_session_tokens tenant sid later db) =
     db\<lparr>db_sessions := update_where (\<lambda>s. ss_id s = sid \<and> ss_organization s = tenant)
             (\<lambda>s. s\<lparr>ss_revoked := Some now\<rparr>) (db_sessions db),
        db_refresh := update_where (\<lambda>r. rt_session r = sid \<and> rt_organization r = tenant)
             (\<lambda>r. r\<lparr>rt_revoked := Some later\<rparr>) (db_refresh db)\<rparr>"
  "revoke_session_tokens tenant sid later (session_revoke tenant sid now db) =
     session_revoke tenant sid now (revoke_session_tokens tenant sid later db)"
  by (simp_all add: session_revoke_def revoke_session_tokens_def)

lemma refresh_check_inv:
  "session_inv db \<Longrightarrow> session_inv (fst (refresh_check env tenant presented now db))"
  by (cases rule: refresh_check_cases [of env tenant presented now db])
    (auto simp: session_inv_upd(3) revoke_both session_inv_revoke)

lemma refresh_session_inv:
  assumes "session_inv db" shows "session_inv (fst (refresh_session env tenant nid secret now presented db))"
proof (cases rule: refresh_check_cases [of env tenant presented now db])
  case (valid r s)
  have r: "r \<in> set (db_refresh db)" "rt_organization r = tenant" using refresh_getD [OF valid(2)] by auto
  have act: "\<forall>s' \<in> set (db_sessions db). ss_id s' = rt_session r \<longrightarrow> ss_revoked s' = None"
  proof (intro ballI impI)
    fix s' assume s': "s' \<in> set (db_sessions db)" "ss_id s' = rt_session r"
    have "s' = s" using s' session_getD [OF valid(5)] session_invD(1) [OF assms]
      by (intro unique_by [of ss_id "db_sessions db"]) (simp_all add: keys_ok_def)
    with valid(6) show "ss_revoked s' = None" by simp
  qed
  have "session_inv (fst (refresh_rotate env tenant nid secret now r s db))"
    using assms session_inv_rotate [OF assms r(1) valid(3) _ _ r(2) _ _ act]
    by (cases rule: refresh_rotate_db [of env tenant nid secret now r s db]) auto
  then show ?thesis by (simp add: refresh_session_def valid(1))
qed (use assms refresh_check_inv [OF assms, of env tenant presented now] in \<open>simp_all add: refresh_session_def\<close>)

lemma session_step_inv: "session_step env db db' \<Longrightarrow> session_inv db \<Longrightarrow> session_inv db'"
  by (erule session_step.cases)
    (simp_all add: issue_session_inv refresh_session_inv logout_def session_inv_upd(3) revoke_both session_inv_revoke)

lemma session_steps_inv: "session_steps env db db' \<Longrightarrow> session_inv db \<Longrightarrow> session_inv db'"
  by (induction rule: session_steps.induct) (auto intro: session_step_inv)

lemma empty_auth_inv: "session_inv empty_auth_db"
  by (simp add: session_inv_def keys_ok_def fk_ok_def one_live_def revoked_ok_def)

subsection \<open>Rotation and revocation are never undone\<close>

definition evolves :: "auth_db \<Rightarrow> auth_db \<Rightarrow> bool" where
  "evolves db db' \<longleftrightarrow>
     (\<forall>r \<in> set (db_refresh db). \<exists>r' \<in> set (db_refresh db'). rt_hash r' = rt_hash r \<and>
        rt_session r' = rt_session r \<and> rt_organization r' = rt_organization r \<and> (\<not> live r \<longrightarrow> \<not> live r')) \<and>
     (\<forall>s \<in> set (db_sessions db). \<exists>s' \<in> set (db_sessions db'). ss_id s' = ss_id s \<and>
        ss_organization s' = ss_organization s \<and> (ss_revoked s \<noteq> None \<longrightarrow> ss_revoked s' \<noteq> None))"

lemma evolves_refl [simp]: "evolves db db"
  unfolding evolves_def by blast

lemma evolves_trans: "evolves a b \<Longrightarrow> evolves b c \<Longrightarrow> evolves a c"
  unfolding evolves_def by metis

lemma evolves_audit [simp]: "evolves db (db'\<lparr>db_audit := e\<rparr>) = evolves db db'"
  by (simp add: evolves_def)

lemma evolves_upd:
  assumes "\<And>r. rt_hash (f r) = rt_hash r" "\<And>r. rt_session (f r) = rt_session r"
    and "\<And>r. rt_organization (f r) = rt_organization r" "\<And>r. \<not> live r \<Longrightarrow> \<not> live (f r)"
    and "\<And>s. ss_id (g s) = ss_id s" "\<And>s. ss_organization (g s) = ss_organization s"
    and "\<And>s. ss_revoked s \<noteq> None \<Longrightarrow> ss_revoked (g s) \<noteq> None"
    and "f ` set (db_refresh db) \<subseteq> set (db_refresh db')" "g ` set (db_sessions db) \<subseteq> set (db_sessions db')"
  shows "evolves db db'"
  unfolding evolves_def
proof (intro conjI ballI)
  fix r assume "r \<in> set (db_refresh db)"
  with assms(8) have "f r \<in> set (db_refresh db')" by blast
  with assms(1-4) show "\<exists>r' \<in> set (db_refresh db'). rt_hash r' = rt_hash r \<and> rt_session r' = rt_session r \<and>
      rt_organization r' = rt_organization r \<and> (\<not> live r \<longrightarrow> \<not> live r')" by blast
next
  fix s assume "s \<in> set (db_sessions db)"
  with assms(9) have "g s \<in> set (db_sessions db')" by blast
  with assms(5-7) show "\<exists>s' \<in> set (db_sessions db'). ss_id s' = ss_id s \<and>
      ss_organization s' = ss_organization s \<and> (ss_revoked s \<noteq> None \<longrightarrow> ss_revoked s' \<noteq> None)" by blast
qed

lemma evolves_append:
  "set (db_refresh db) \<subseteq> set (db_refresh db') \<Longrightarrow> set (db_sessions db) \<subseteq> set (db_sessions db') \<Longrightarrow> evolves db db'"
  by (rule evolves_upd [of id id]) simp_all

lemma evolves_revoke:
  "evolves db (session_revoke tenant sid now (revoke_session_tokens tenant sid later db))"
  by (rule evolves_upd [of "\<lambda>r. if rt_session r = sid \<and> rt_organization r = tenant then r\<lparr>rt_revoked := Some later\<rparr> else r"
        "\<lambda>s. if ss_id s = sid \<and> ss_organization s = tenant then s\<lparr>ss_revoked := Some now\<rparr> else s"])
    (auto simp: live_def session_revoke_def revoke_session_tokens_def update_where_def)

lemma evolves_rotate:
  "evolves db (db\<lparr>db_refresh := update_where (\<lambda>t. rt_id t = i \<and> rt_organization t = tenant)
     (\<lambda>t. t\<lparr>rt_rotated := Some new\<rparr>) (db_refresh db @ [q])\<rparr>)"
  by (rule evolves_upd [of "\<lambda>t. if rt_id t = i \<and> rt_organization t = tenant then t\<lparr>rt_rotated := Some new\<rparr> else t" id])
    (auto simp: live_def update_where_def)

lemma evolves_issue: "evolves db (fst (issue_session env tenant user org sid tid secret now db))"
  by (auto simp: issue_session_def session_add_def refresh_add_def audit_event_def split: sum.split
      intro!: evolves_append)

lemma evolves_refresh: "evolves db (fst (refresh_session env tenant nid secret now presented db))"
proof (cases rule: refresh_check_cases [of env tenant presented now db])
  case (valid r s)
  then show ?thesis
    by (cases rule: refresh_rotate_db [of env tenant nid secret now r s db])
      (auto simp: refresh_session_def evolves_rotate)
qed (auto simp: refresh_session_def audit_event_def evolves_revoke)

lemma session_step_evolves: "session_step env db db' \<Longrightarrow> evolves db db'"
  by (erule session_step.cases)
    (auto simp: evolves_issue evolves_refresh logout_def audit_event_def revoke_both(2) evolves_revoke)

lemma session_steps_evolves: "session_steps env db db' \<Longrightarrow> evolves db db'"
  by (induction rule: session_steps.induct) (auto intro: evolves_trans session_step_evolves)

lemma session_steps_trans: "session_steps env a b \<Longrightarrow> session_steps env b c \<Longrightarrow> session_steps env a c"
  by (rotate_tac, induction rule: session_steps.induct) (auto intro: session_steps.more)

subsection \<open>Spent tokens and dead sessions\<close>

lemma refresh_get_unique:
  assumes "session_inv db" "r \<in> set (db_refresh db)" "rt_hash r = h" "rt_organization r = tenant"
  shows "refresh_get tenant h db = Some r"
proof -
  obtain q where "find (\<lambda>r. rt_hash r = h \<and> rt_organization r = tenant) (db_refresh db) = Some q"
    using assms(2-4) by (cases "find (\<lambda>r. rt_hash r = h \<and> rt_organization r = tenant) (db_refresh db)")
      (auto dest: find_NoneD)
  moreover from find_SomeD [OF this] have "q = r"
    using assms session_invD(1) [OF assms(1)] unique_by [of rt_hash "db_refresh db" q r] by (simp add: keys_ok_def)
  ultimately show ?thesis by (simp add: refresh_get_def)
qed

lemma spent_stays_spent:
  assumes "refresh_get tenant h db = Some r" "\<not> live r" "session_steps env db db'" "session_inv db"
  obtains r' where "refresh_get tenant h db' = Some r'" "\<not> live r'" "rt_session r' = rt_session r"
proof -
  from refresh_getD [OF assms(1)] session_steps_evolves [OF assms(3)] assms(2)
  obtain r' where r': "r' \<in> set (db_refresh db')" "rt_hash r' = h" "rt_organization r' = tenant"
    "rt_session r' = rt_session r" "\<not> live r'" unfolding evolves_def by metis
  from that [OF refresh_get_unique [OF session_steps_inv [OF assms(3,4)] r'(1-3)] r'(5,4)] show ?thesis .
qed

lemma spent_token_replayed:
  assumes "refresh_get tenant (hash_secret (se_sha env) presented) db = Some r" "\<not> live r"
  shows "snd (refresh_session env tenant nid secret now presented db) = Inl RefreshReuseError"
  using assms by (auto simp: refresh_session_def refresh_check_def live_def)

definition dead_session :: "uuid \<Rightarrow> uuid \<Rightarrow> auth_db \<Rightarrow> bool" where
  "dead_session tenant sid db \<longleftrightarrow>
     (\<exists>s \<in> set (db_sessions db). ss_id s = sid \<and> ss_organization s = tenant \<and> ss_revoked s \<noteq> None)"

lemma dead_stays_dead:
  "dead_session tenant sid db \<Longrightarrow> session_steps env db db' \<Longrightarrow> dead_session tenant sid db'"
  unfolding dead_session_def using session_steps_evolves [of env db db'] unfolding evolves_def by metis

lemma dead_session_refuses:
  assumes "session_inv db" "dead_session tenant sid db"
    and "refresh_get tenant (hash_secret (se_sha env) presented) db = Some r" "rt_session r = sid"
  shows "snd (refresh_session env tenant nid secret now presented db) = Inl RefreshReuseError"
proof (rule spent_token_replayed [OF assms(3)])
  show "\<not> live r"
    using session_invD(4) [OF assms(1)] assms(2,4) refresh_getD [OF assms(3)]
    by (auto simp: dead_session_def revoked_ok_def live_def)
qed

lemma session_revoke_dead:
  assumes "s \<in> set (db_sessions db)" "ss_id s = sid" "ss_organization s = tenant"
  shows "dead_session tenant sid (session_revoke tenant sid now db)"
proof -
  have "s\<lparr>ss_revoked := Some now\<rparr> \<in> set (db_sessions (session_revoke tenant sid now db))"
    using assms by (auto simp: session_revoke_def update_where_def image_iff intro!: bexI [of _ s])
  with assms show ?thesis unfolding dead_session_def by (intro bexI) auto
qed

lemma revoke_kills:
  assumes "session_inv db" "r \<in> set (db_refresh db)" "rt_organization r = tenant"
    and that: "db_sessions db' = db_sessions db"
  shows "dead_session tenant (rt_session r) (session_revoke tenant (rt_session r) now db')"
proof -
  from session_invD(2) [OF assms(1)] assms(2,3) obtain s where "s \<in> set (db_sessions db)"
    "ss_id s = rt_session r" "ss_organization s = tenant" by (auto simp: fk_ok_def)
  with that show ?thesis by (intro session_revoke_dead) auto
qed

lemma rotated_is_spent:
  assumes "session_inv db" "refresh_session env tenant nid secret now presented db = (db1, Inr tok)"
  obtains r s r1 where "refresh_get tenant (hash_secret (se_sha env) presented) db = Some r" "live r"
    "session_get tenant (rt_session r) db = Some s" "ss_revoked s = None" "now \<le> ss_expires s" "now \<le> rt_expires r"
    "refresh_get tenant (hash_secret (se_sha env) presented) db1 = Some r1" "\<not> live r1" "rt_session r1 = rt_session r"
    "se_mint env (user_principal (ss_user s) tenant) (se_access_ttl env) = Inr (it_access tok)" "it_refresh tok = secret"
proof (cases rule: refresh_check_cases [of env tenant presented now db])
  case (valid r s)
  have rot: "refresh_rotate env tenant nid secret now r s db = (db1, Inr tok)"
    using assms(2) by (simp add: refresh_session_def valid(1))
  note g = refresh_getD [OF valid(2)] session_getD [OF valid(5)]
  have m: "se_mint env (user_principal (ss_user s) tenant) (se_access_ttl env) = Inr (it_access tok)" "it_refresh tok = secret"
    using rot g by (auto simp: refresh_rotate_def split: prod.splits sum.splits)
  from rot have "r\<lparr>rt_rotated := Some nid\<rparr> \<in> set (db_refresh db1)"
  proof (cases rule: refresh_rotate_db [of env tenant nid secret now r s db])
    case (2 q e)
    with rot g(1) show ?thesis by (auto simp: update_where_def image_iff intro!: bexI [of _ r])
  qed simp
  moreover have "session_inv db1" using refresh_session_inv [OF assms(1), of env tenant nid secret now presented] assms(2) by simp
  ultimately have "refresh_get tenant (hash_secret (se_sha env) presented) db1 = Some (r\<lparr>rt_rotated := Some nid\<rparr>)"
    using g(1) by (intro refresh_get_unique) auto
  from that [OF valid(2,3,5,6,7,4) this _ _ m] show ?thesis by (simp add: live_def)
qed (use assms(2) in \<open>simp_all add: refresh_session_def\<close>)

lemma exchanged_token:
  assumes "session_inv db" "refresh_session env tenant nid secret now presented db = (db1, Inr tok)"
  shows "\<exists>r q. refresh_get tenant (hash_secret (se_sha env) presented) db = Some r \<and>
    refresh_get tenant (hash_secret (se_sha env) (it_refresh tok)) db1 = Some q \<and> rt_session q = rt_session r"
proof (cases rule: refresh_check_cases [of env tenant presented now db])
  case (valid r s)
  have rot: "refresh_rotate env tenant nid secret now r s db = (db1, Inr tok)"
    using assms(2) by (simp add: refresh_session_def valid(1))
  have sec: "it_refresh tok = secret" using rot by (auto simp: refresh_rotate_def split: prod.splits sum.splits)
  have inv1: "session_inv db1" using refresh_session_inv [OF assms(1), of env tenant nid secret now presented] assms(2) by simp
  note r = refresh_getD [OF valid(2)]
  from rot show ?thesis
  proof (cases rule: refresh_rotate_db [of env tenant nid secret now r s db])
    case (2 q e)
    have "rt_id q \<noteq> rt_id r" using 2(1,3) r by auto
    with 2 rot have "q \<in> set (db_refresh db1)" by (auto simp: update_where_def image_iff)
    from refresh_get_unique [OF inv1 this 2(7)] 2(4,5) r valid(2) sec show ?thesis by auto
  qed simp
qed (use assms(2) in \<open>simp_all add: refresh_session_def\<close>)

lemma replay_kills:
  assumes "session_inv db" "refresh_get tenant (hash_secret (se_sha env) presented) db = Some r" "\<not> live r"
  shows "dead_session tenant (rt_session r) (fst (refresh_session env tenant nid secret now presented db))"
proof -
  note g = refresh_getD [OF assms(2)]
  have "dead_session tenant (rt_session r)
      (session_revoke tenant (rt_session r) now (revoke_session_tokens tenant (rt_session r) now db))"
    using g by (intro revoke_kills [OF assms(1)]) (auto simp: revoke_session_tokens_def)
  then show ?thesis
    using assms(2,3) by (auto simp: refresh_session_def refresh_check_def live_def audit_event_def dead_session_def)
qed

subsection \<open>Properties\<close>

text \<open>C5: Refresh tokens are single-use and a replay ends the session. Once a token has been exchanged,
  presenting it again at any later point, whatever was issued, refreshed or logged out in between, is
  reported as reuse; and from then on no token of that session, the newest included, is ever
  exchanged again.\<close>

theorem refresh_tokens_single_use:
  assumes "session_steps env empty_auth_db db"
    and "refresh_session env tenant nid secret now presented db = (db1, Inr tok)"
    and "session_steps env db1 db2"
    and "refresh_session env tenant nid' secret' now' presented db2 = (db3, a)"
    and "session_steps env db3 db4"
  shows "a = Inl RefreshReuseError \<and>
    (\<exists>r q. refresh_get tenant (hash_secret (se_sha env) presented) db = Some r \<and>
       refresh_get tenant (hash_secret (se_sha env) (it_refresh tok)) db1 = Some q \<and> rt_session q = rt_session r) \<and>
    (\<forall>r q any nid'' secret'' now''. refresh_get tenant (hash_secret (se_sha env) presented) db = Some r \<and>
       refresh_get tenant (hash_secret (se_sha env) any) db4 = Some q \<and> rt_session q = rt_session r \<longrightarrow>
       snd (refresh_session env tenant nid'' secret'' now'' any db4) = Inl RefreshReuseError)"
proof (intro conjI allI impI)
  note inv = session_steps_inv [OF assms(1) empty_auth_inv]
  have inv1: "session_inv db1" using refresh_session_inv [OF inv, of env tenant nid secret now presented] assms(2) by simp
  note inv2 = session_steps_inv [OF assms(3) inv1]
  from rotated_is_spent [OF inv assms(2)] obtain r s r1 where r:
    "refresh_get tenant (hash_secret (se_sha env) presented) db = Some r" "live r"
    "refresh_get tenant (hash_secret (se_sha env) presented) db1 = Some r1" "\<not> live r1" "rt_session r1 = rt_session r"
    "it_refresh tok = secret" .
  from spent_stays_spent [OF r(3,4) assms(3) inv1] obtain r2 where r2:
    "refresh_get tenant (hash_secret (se_sha env) presented) db2 = Some r2" "\<not> live r2" "rt_session r2 = rt_session r1" .
  have reuse: "snd (refresh_session env tenant nid' secret' now' presented db2) = Inl RefreshReuseError"
    by (rule spent_token_replayed [OF r2(1,2)])
  then show "a = Inl RefreshReuseError" using assms(4) by simp
  show "\<exists>r q. refresh_get tenant (hash_secret (se_sha env) presented) db = Some r \<and>
       refresh_get tenant (hash_secret (se_sha env) (it_refresh tok)) db1 = Some q \<and> rt_session q = rt_session r"
    using exchanged_token [OF inv assms(2)] by blast
  have "dead_session tenant (rt_session r) db3"
    using replay_kills [OF inv2 r2(1,2), of nid' secret' now'] assms(4) r2(3) r(5) by auto
  fix ra q any nid'' secret'' now''
  assume q: "refresh_get tenant (hash_secret (se_sha env) presented) db = Some ra \<and>
       refresh_get tenant (hash_secret (se_sha env) any) db4 = Some q \<and> rt_session q = rt_session ra"
  have inv3: "session_inv db3" using refresh_session_inv [OF inv2, of env tenant nid' secret' now' presented] assms(4) by simp
  show "snd (refresh_session env tenant nid'' secret'' now'' any db4) = Inl RefreshReuseError"
    using q r(1) dead_session_refuses [OF session_steps_inv [OF assms(5) inv3]
        dead_stays_dead [OF \<open>dead_session tenant (rt_session r) db3\<close> assms(5)]] by auto
qed

text \<open>C36: Logging out is final. After a session's logout no token of that session is exchanged, at any
  later point and whatever happens in between.\<close>

theorem logout_is_final:
  assumes "session_steps env empty_auth_db db" "session_get tenant sid db = Some s"
    and "session_steps env (logout tenant sid now later db) db'"
    and "refresh_get tenant (hash_secret (se_sha env) presented) db' = Some r" "rt_session r = sid"
  shows "snd (refresh_session env tenant nid secret t presented db') = Inl RefreshReuseError"
proof -
  note inv = session_steps_inv [OF assms(1) empty_auth_inv]
  have "session_step env db (logout tenant sid now later db)" by (rule session_step.logout)
  from session_step_inv [OF this inv] have "session_inv (logout tenant sid now later db)" .
  moreover have "dead_session tenant sid (logout tenant sid now later db)"
  proof -
    from session_getD [OF assms(2)] have "dead_session tenant sid (session_revoke tenant sid now db)"
      by (intro session_revoke_dead) auto
    then show ?thesis by (simp add: logout_def audit_event_def dead_session_def revoke_session_tokens_def)
  qed
  ultimately show ?thesis
    using dead_session_refuses [OF session_steps_inv [OF assms(3)] dead_stays_dead [OF _ assms(3)] assms(4,5)] by blast
qed

text \<open>At any point a session has at most one token that can still be exchanged, a revoked session
  has none, and every token belongs to a session of its own tenant.\<close>

theorem one_live_token_per_session:
  assumes "session_steps env empty_auth_db db"
  shows "(\<forall>r \<in> set (db_refresh db). \<forall>q \<in> set (db_refresh db).
      rt_session r = rt_session q \<and> live r \<and> live q \<longrightarrow> r = q) \<and>
    (\<forall>s \<in> set (db_sessions db). \<forall>r \<in> set (db_refresh db).
      ss_revoked s \<noteq> None \<and> rt_session r = ss_id s \<longrightarrow> \<not> live r) \<and>
    (\<forall>r \<in> set (db_refresh db). \<exists>s \<in> set (db_sessions db).
      ss_id s = rt_session r \<and> ss_organization s = rt_organization r)"
  using session_invD [OF session_steps_inv [OF assms empty_auth_inv]]
  by (auto simp: one_live_def revoked_ok_def fk_ok_def live_def)

text \<open>Who a refresh speaks for. A refresh succeeds only for a live, unexpired token of the tenant
  whose session is neither revoked nor expired, and the access token it returns is signed for the user
  of that session in that tenant, with no scopes, for the configured lifetime.\<close>

theorem refresh_speaks_for_session:
  assumes "session_steps env empty_auth_db db"
    and "refresh_session env tenant nid secret now presented db = (db1, Inr tok)"
  shows "\<exists>r s. refresh_get tenant (hash_secret (se_sha env) presented) db = Some r \<and> live r \<and> now \<le> rt_expires r \<and>
    session_get tenant (rt_session r) db = Some s \<and> ss_revoked s = None \<and> now \<le> ss_expires s \<and>
    se_mint env \<lparr>pr_type = USER, pr_subject = ss_user s, pr_organization = tenant, pr_scopes = []\<rparr>
      (se_access_ttl env) = Inr (it_access tok) \<and> it_refresh tok = secret"
  using rotated_is_spent [OF session_steps_inv [OF assms(1) empty_auth_inv] assms(2)]
  unfolding user_principal_def by metis

text \<open>A refresh reads before it writes and takes no lock, so two concurrent presentations of one
  token can both read it as live. Both are then answered with new tokens, the reuse goes unnoticed,
  and the session has two live tokens.\<close>

theorem concurrent_refresh_forks_session:
  assumes "session_steps env empty_auth_db db"
    and "refresh_check env tenant presented now db = (db, Inr (r, s))"
    and "nid1 \<notin> rt_id ` set (db_refresh db)" "nid2 \<notin> rt_id ` set (db_refresh db)" "nid1 \<noteq> nid2"
    and "hash_secret (se_sha env) secret1 \<notin> rt_hash ` set (db_refresh db)"
    and "hash_secret (se_sha env) secret2 \<notin> rt_hash ` set (db_refresh db)"
    and "hash_secret (se_sha env) secret1 \<noteq> hash_secret (se_sha env) secret2"
    and "se_mint env (user_principal (ss_user s) (ss_organization s)) (se_access_ttl env) = Inr access"
  shows "\<exists>db1 db2. refresh_rotate env tenant nid1 secret1 now r s db = (db1, Inr \<lparr>it_access = access, it_refresh = secret1\<rparr>) \<and>
    refresh_rotate env tenant nid2 secret2 now r s db1 = (db2, Inr \<lparr>it_access = access, it_refresh = secret2\<rparr>) \<and>
    (\<exists>q1 \<in> set (db_refresh db2). \<exists>q2 \<in> set (db_refresh db2). q1 \<noteq> q2 \<and> live q1 \<and> live q2 \<and>
       rt_session q1 = rt_session r \<and> rt_session q2 = rt_session r)"
proof -
  let ?row = "\<lambda>n secret. \<lparr>rt_id = n, rt_session = rt_session r, rt_organization = rt_organization r,
         rt_hash = hash_secret (se_sha env) secret, rt_expires = now + se_refresh_ttl env,
         rt_rotated = None, rt_revoked = None\<rparr>"
  let ?mark = "\<lambda>n. update_where (\<lambda>t. rt_id t = rt_id r \<and> rt_organization t = tenant) (\<lambda>t. t\<lparr>rt_rotated := Some n\<rparr>)"
  let ?ev = "(auth_event_new ''session.refreshed'' ''success'')
    \<lparr>ae_organization := Some (ss_organization s), ae_ptype := Some ''user'', ae_subject := Some (ss_user s)\<rparr>"
  note inv = session_steps_inv [OF assms(1) empty_auth_inv]
  have r: "r \<in> set (db_refresh db)" "rt_organization r = tenant"
  proof -
    have "refresh_get tenant (hash_secret (se_sha env) presented) db = Some r"
      using assms(2) by (cases rule: refresh_check_cases [of env tenant presented now db]) auto
    from refresh_getD [OF this] show "r \<in> set (db_refresh db)" "rt_organization r = tenant" by auto
  qed
  have fk: "rt_session r \<in> ss_id ` set (db_sessions db)"
    using session_invD(2) [OF inv] r(1) unfolding fk_ok_def by (metis image_eqI)
  have keys: "rt_id ` set (?mark n rows) = rt_id ` set rows" "rt_hash ` set (?mark n rows) = rt_hash ` set rows" for n rows
    by (simp_all add: map_update_where flip: set_map)
  let ?rows1 = "?mark nid1 (db_refresh db @ [?row nid1 secret1])"
  let ?db1 = "audit_event ?ev (db\<lparr>db_refresh := ?rows1\<rparr>)"
  have one: "refresh_rotate env tenant nid1 secret1 now r s db = (?db1, Inr \<lparr>it_access = access, it_refresh = secret1\<rparr>)"
    using assms(3,6,9) fk r(2) by (simp add: refresh_rotate_def refresh_add_def mark_rotated_def audit_event_def)
  let ?rows2 = "?mark nid2 (?rows1 @ [?row nid2 secret2])"
  have two: "refresh_rotate env tenant nid2 secret2 now r s ?db1 =
      (audit_event ?ev (?db1\<lparr>db_refresh := ?rows2\<rparr>), Inr \<lparr>it_access = access, it_refresh = secret2\<rparr>)"
    using assms(4,5,7-9) fk r(2)
    by (simp add: refresh_rotate_def refresh_add_def mark_rotated_def audit_event_def keys)
  have ids: "nid1 \<noteq> rt_id r" "nid2 \<noteq> rt_id r" using assms(3,4) r(1) by auto
  then have "?row nid1 secret1 \<in> set ?rows2" "?row nid2 secret2 \<in> set ?rows2"
    by (auto simp: update_where_def)
  moreover have "?row nid1 secret1 \<noteq> ?row nid2 secret2" using assms(5) by simp
  moreover have "live (?row n secret)" "rt_session (?row n secret) = rt_session r" for n secret
    by (simp_all add: live_def)
  ultimately have "\<exists>q1 \<in> set ?rows2. \<exists>q2 \<in> set ?rows2. q1 \<noteq> q2 \<and> live q1 \<and> live q2 \<and>
      rt_session q1 = rt_session r \<and> rt_session q2 = rt_session r" by blast
  then have "\<exists>q1 \<in> set (db_refresh (audit_event ?ev (?db1\<lparr>db_refresh := ?rows2\<rparr>))).
      \<exists>q2 \<in> set (db_refresh (audit_event ?ev (?db1\<lparr>db_refresh := ?rows2\<rparr>))). q1 \<noteq> q2 \<and> live q1 \<and> live q2 \<and>
      rt_session q1 = rt_session r \<and> rt_session q2 = rt_session r" by (simp add: audit_event_def)
  with one two show ?thesis by blast
qed

subsection \<open>A concrete session\<close>

definition sample_auth :: session_env where
  "sample_auth = \<lparr>se_sha = (\<lambda>s. s), se_mint = (\<lambda>p ttl. Inr (''user-'' @ str_int (int (pr_subject p)))),
     se_access_ttl = 9, se_refresh_ttl = 50, se_session_ttl = 80\<rparr>"

definition login_db :: auth_db where
  "login_db = fst (issue_session sample_auth 7 4 7 2 3 ''t0'' 10 empty_auth_db)"

definition refreshed_db :: auth_db where
  "refreshed_db = fst (refresh_session sample_auth 7 5 ''t1'' 20 ''t0'' login_db)"

definition replayed_db :: auth_db where
  "replayed_db = fst (refresh_session sample_auth 7 6 ''t2'' 30 ''t0'' refreshed_db)"

lemma login_reachable: "session_steps sample_auth empty_auth_db login_db"
  unfolding login_db_def by (intro session_steps.more [OF session_steps.start] session_step.issue)

lemma sample_refresh:
  "refresh_session sample_auth 7 5 ''t1'' 20 ''t0'' login_db =
     (refreshed_db, Inr \<lparr>it_access = ''user-4'', it_refresh = ''t1''\<rparr>)"
proof -
  have "snd (refresh_session sample_auth 7 5 ''t1'' 20 ''t0'' login_db) = Inr \<lparr>it_access = ''user-4'', it_refresh = ''t1''\<rparr>"
    by code_simp
  then show ?thesis by (simp add: refreshed_db_def prod_eq_iff)
qed

lemma sample_replayed:
  "refresh_session sample_auth 7 6 ''t2'' 30 ''t0'' refreshed_db = (replayed_db, snd (refresh_session sample_auth 7 6 ''t2'' 30 ''t0'' refreshed_db))"
  by (simp add: replayed_db_def)

theorem refresh_tokens_single_use_witness:
  "snd (refresh_session sample_auth 7 6 ''t2'' 30 ''t0'' refreshed_db) = Inl RefreshReuseError \<and>
   snd (refresh_session sample_auth 7 8 ''t3'' 31 ''t1'' replayed_db) = Inl RefreshReuseError"
proof -
  note use = refresh_tokens_single_use [OF login_reachable sample_refresh session_steps.start sample_replayed session_steps.start]
  have t0: "map_option rt_session (refresh_get 7 (hash_secret (se_sha sample_auth) ''t0'') login_db) = Some 2"
    and t1: "map_option rt_session (refresh_get 7 (hash_secret (se_sha sample_auth) ''t1'') replayed_db) = Some 2"
    by code_simp+
  with use show ?thesis by auto
qed

theorem logout_is_final_witness:
  "snd (refresh_session sample_auth 7 5 ''t1'' 20 ''t0'' (logout 7 2 12 13 login_db)) = Inl RefreshReuseError"
proof -
  have s: "session_get 7 2 login_db = Some \<lparr>ss_id = 2, ss_user = 4, ss_organization = 7, ss_created = 10,
      ss_expires = 90, ss_revoked = None\<rparr>"
    and t: "map_option rt_session (refresh_get 7 (hash_secret (se_sha sample_auth) ''t0'') (logout 7 2 12 13 login_db)) = Some 2"
    by code_simp+
  from t obtain r where "refresh_get 7 (hash_secret (se_sha sample_auth) ''t0'') (logout 7 2 12 13 login_db) = Some r"
    "rt_session r = 2" by auto
  from logout_is_final [OF login_reachable s session_steps.start this] show ?thesis .
qed

theorem one_live_token_per_session_witness:
  "\<forall>r \<in> set (db_refresh login_db). \<forall>q \<in> set (db_refresh login_db).
      rt_session r = rt_session q \<and> live r \<and> live q \<longrightarrow> r = q"
  using one_live_token_per_session [OF login_reachable] by blast

theorem refresh_speaks_for_session_witness:
  "\<exists>r s. refresh_get 7 (hash_secret (se_sha sample_auth) ''t0'') login_db = Some r \<and>
    session_get 7 (rt_session r) login_db = Some s \<and>
    se_mint sample_auth \<lparr>pr_type = USER, pr_subject = ss_user s, pr_organization = 7, pr_scopes = []\<rparr>
      (se_access_ttl sample_auth) = Inr ''user-4''"
  using refresh_speaks_for_session [OF login_reachable sample_refresh] by auto

theorem concurrent_refresh_forks_session_witness:
  "\<exists>r s db1 db2. refresh_rotate sample_auth 7 5 ''t1'' 20 r s login_db =
      (db1, Inr \<lparr>it_access = ''user-4'', it_refresh = ''t1''\<rparr>) \<and>
    refresh_rotate sample_auth 7 6 ''t2'' 20 r s db1 = (db2, Inr \<lparr>it_access = ''user-4'', it_refresh = ''t2''\<rparr>)"
proof -
  let ?r = "\<lparr>rt_id = 3, rt_session = 2, rt_organization = 7, rt_hash = hash_secret (\<lambda>s. s) ''t0'', rt_expires = 60,
    rt_rotated = None, rt_revoked = None\<rparr>"
  let ?s = "\<lparr>ss_id = 2, ss_user = 4, ss_organization = 7, ss_created = 10, ss_expires = 90, ss_revoked = None\<rparr>"
  have c: "refresh_check sample_auth 7 ''t0'' 20 login_db = (login_db, Inr (?r, ?s))"
    and n: "5 \<notin> rt_id ` set (db_refresh login_db)" "6 \<notin> rt_id ` set (db_refresh login_db)"
    and h: "hash_secret (se_sha sample_auth) ''t1'' \<notin> rt_hash ` set (db_refresh login_db)"
      "hash_secret (se_sha sample_auth) ''t2'' \<notin> rt_hash ` set (db_refresh login_db)"
      "hash_secret (se_sha sample_auth) ''t1'' \<noteq> hash_secret (se_sha sample_auth) ''t2''"
    and m: "se_mint sample_auth (user_principal (ss_user ?s) (ss_organization ?s)) (se_access_ttl sample_auth) = Inr ''user-4''"
    by code_simp+
  from concurrent_refresh_forks_session [OF login_reachable c n _ h m] show ?thesis by auto
qed

end
