(* ===== verification/Oidc.thy ===== *)
theory Oidc imports Credentials Sessions begin

text \<open>
  Federated login (\<open>adapters/security/oidc_state.py\<close>, \<open>jwks_cache.py\<close>, \<open>oidc_provider.py\<close>,
  \<open>application/auth/complete_oidc_login.py\<close> and its two repositories): the signed \<open>state\<close> of a login,
  the cache of the identity provider's signing keys, the provider's adapter, and the callback that turns
  a verified identity into a session. SHA-256, HMAC, the random tokens, the JWT library and the HTTP
  client are arguments. A login's metrics and log lines are not modelled.
\<close>

subsection \<open>The signed state\<close>

record parsed_state =
  ps_organization :: uuid
  ps_random :: string

definition sha256_hex :: "digest \<Rightarrow> string \<Rightarrow> string" where
  "sha256_hex sha s = hex_bytes (sha s)"

definition hmac_sha256_hex :: "(string \<Rightarrow> string \<Rightarrow> string) \<Rightarrow> string \<Rightarrow> string \<Rightarrow> string" where
  "hmac_sha256_hex mac k m = hex_bytes (mac k m)"

definition state_hash :: "digest \<Rightarrow> parsed_state \<Rightarrow> string" where
  "state_hash sha p = sha256_hex sha (ps_random p)"

definition state_signer_new :: "string \<Rightarrow> string res" where
  "state_signer_new k = (if k = [] then Inl ValueError else Inr k)"

definition state_issue :: "(string \<Rightarrow> string \<Rightarrow> string) \<Rightarrow> string \<Rightarrow> string \<Rightarrow> uuid \<Rightarrow> string \<times> parsed_state" where
  "state_issue mac k token org =
     (let p = b64url_encode (uuid_text org @ ''.'' @ token)
      in (p @ ''.'' @ hmac_sha256_hex mac k p, \<lparr>ps_organization = org, ps_random = token\<rparr>))"

definition state_verify :: "(string \<Rightarrow> string \<Rightarrow> string) \<Rightarrow> string \<Rightarrow> string \<Rightarrow> parsed_state res" where
  "state_verify mac k state =
     (case rpartition_at (CHR ''.'') state of (p, sep, tag) \<Rightarrow>
        if sep = [] \<or> p = [] \<or> tag = [] then Inl InvalidStateError
        else if hmac_sha256_hex mac k p \<noteq> tag then Inl InvalidStateError
        else case b64url_decode p of
          Inl x \<Rightarrow> Inl InvalidStateError
        | Inr d \<Rightarrow>
            (case partition_at (CHR ''.'') d of (org, inner, token) \<Rightarrow>
               if inner = [] \<or> token = [] then Inl InvalidStateError
               else case uuid_of org of
                 Inl x \<Rightarrow> Inl InvalidStateError
               | Inr u \<Rightarrow> Inr \<lparr>ps_organization = u, ps_random = token\<rparr>))"

definition sha256_b64url :: "digest \<Rightarrow> string \<Rightarrow> string" where
  "sha256_b64url sha s = b64url_strip (b64_groups (sha s))"

definition pkce_pair :: "digest \<Rightarrow> string \<Rightarrow> string \<times> string" where
  "pkce_pair sha verifier = (verifier, sha256_b64url sha verifier)"

subsection \<open>The provider's signing keys\<close>

record jwks_config =
  jk_ttl :: duration
  jk_interval :: duration

record jwks_cache =
  jk_keys :: "(string \<times> payload) list"
  jk_fetched :: "instant option"
  jk_attempted :: "instant option"

definition empty_jwks :: jwks_cache where
  "empty_jwks = \<lparr>jk_keys = [], jk_fetched = None, jk_attempted = None\<rparr>"

definition default_jwks :: jwks_config where
  "default_jwks = \<lparr>jk_ttl = 600 * second, jk_interval = 30 * second\<rparr>"

text \<open>The transport returns a document, or raises: a time-out or anything else, which the cache turns
  into the same exception.\<close>

type_synonym 'w transport = "'w \<Rightarrow> 'w \<times> json res"

definition keyed :: "json \<Rightarrow> (string \<times> payload) option" where
  "keyed j = (case j of JObj fs \<Rightarrow> (case map_of fs ''kid'' of Some (JStr kid) \<Rightarrow> Some (kid, fs) | _ \<Rightarrow> None) | _ \<Rightarrow> None)"

text \<open>The keys of a document, the last one of a key id first, as the dictionary keeps it.\<close>

definition parsed_keys :: "json \<Rightarrow> (string \<times> payload) list res" where
  "parsed_keys doc =
     (case doc of
        JObj fs \<Rightarrow>
          (case map_of fs ''keys'' of
             Some (JList (k # ks)) \<Rightarrow>
               (let parsed = rev (List.map_filter keyed (k # ks)) in if parsed = [] then Inl JwksFetchError else Inr parsed)
           | _ \<Rightarrow> Inl JwksFetchError)
      | _ \<Rightarrow> Inl JwksFetchError)"

definition jwks_refresh :: "'w transport \<Rightarrow> instant \<Rightarrow> jwks_cache \<times> 'w \<Rightarrow> (jwks_cache \<times> 'w) \<times> unit res" where
  "jwks_refresh fetch now s =
     (case fetch (snd s) of
        (w, Inl x) \<Rightarrow> (((fst s)\<lparr>jk_attempted := Some now\<rparr>, w), Inl JwksFetchError)
      | (w, Inr doc) \<Rightarrow>
          (case parsed_keys doc of
             Inl x \<Rightarrow> (((fst s)\<lparr>jk_attempted := Some now\<rparr>, w), Inl x)
           | Inr ks \<Rightarrow> ((\<lparr>jk_keys = ks, jk_fetched = Some now, jk_attempted = Some now\<rparr>, w), Inr ())))"

definition is_fresh :: "jwks_config \<Rightarrow> instant \<Rightarrow> jwks_cache \<Rightarrow> bool" where
  "is_fresh cfg now c = (case jk_fetched c of None \<Rightarrow> False | Some t \<Rightarrow> now - t < jk_ttl cfg)"

definition may_refresh :: "jwks_config \<Rightarrow> instant \<Rightarrow> jwks_cache \<Rightarrow> bool" where
  "may_refresh cfg now c =
     (case (jk_attempted c, jk_fetched c) of (Some t, Some _) \<Rightarrow> jk_interval cfg \<le> now - t | _ \<Rightarrow> True)"

text \<open>The clock is read for the freshness, for the throttle and for the refresh.\<close>

type_synonym readings = "instant \<times> instant \<times> instant"

definition jwks_get_key ::
  "jwks_config \<Rightarrow> 'w transport \<Rightarrow> readings \<Rightarrow> string \<Rightarrow> jwks_cache \<times> 'w \<Rightarrow> (jwks_cache \<times> 'w) \<times> payload res" where
  "jwks_get_key cfg fetch ts kid s =
     (case ts of (t1, t2, t3) \<Rightarrow>
        if is_fresh cfg t1 (fst s) \<and> map_of (jk_keys (fst s)) kid \<noteq> None
        then (s, Inr (the (map_of (jk_keys (fst s)) kid)))
        else if \<not> may_refresh cfg t2 (fst s) then (s, Inl JwksFetchError)
        else case jwks_refresh fetch t3 s of
          (s', Inl x) \<Rightarrow> (s', Inl x)
        | (s', Inr _) \<Rightarrow>
            (case map_of (jk_keys (fst s')) kid of None \<Rightarrow> (s', Inl JwksFetchError) | Some k \<Rightarrow> (s', Inr k)))"

subsection \<open>The provider's adapter\<close>

record oidc_config =
  oc_issuer :: string
  oc_client :: string
  oc_secret :: string
  oc_authorization :: string
  oc_token :: string
  oc_scopes :: "string list"

definition default_scopes :: "string list" where
  "default_scopes = [''openid'', ''profile'', ''email'']"

record authorization_request =
  ar_url :: string
  ar_state :: string
  ar_nonce :: string
  ar_verifier :: string
  ar_challenge :: string

record token_response =
  tr_id_token :: string
  tr_access :: json
  tr_refresh :: json
  tr_expires :: json

record id_claims =
  ic_subject :: string
  ic_issuer :: string
  ic_audience :: string
  ic_nonce :: json
  ic_email :: json
  ic_verified :: json
  ic_name :: json

text \<open>\<open>urllib.parse.urlencode\<close>: \<open>quote_plus\<close> of the UTF-8 bytes of names and values.\<close>

definition unreserved :: "char \<Rightarrow> bool" where
  "unreserved c \<longleftrightarrow>
     (let n = of_char c :: nat in
      48 \<le> n \<and> n \<le> 57 \<or> 65 \<le> n \<and> n \<le> 90 \<or> 97 \<le> n \<and> n \<le> 122 \<or> c \<in> {CHR ''_'', CHR ''.'', CHR ''-'', CHR ''~''})"

definition upper_hex :: "nat \<Rightarrow> char" where
  "upper_hex d = (if d < 10 then char_of (48 + d) else char_of (55 + d))"

definition quote_byte :: "char \<Rightarrow> string" where
  "quote_byte c =
     (if unreserved c then [c] else if c = CHR '' '' then ''+''
      else [CHR ''%'', upper_hex (of_char c div 16), upper_hex (of_char c mod 16)])"

definition quote_plus :: "string \<Rightarrow> string" where
  "quote_plus s = concat (map quote_byte (utf8_encode s))"

definition urlencode :: "(string \<times> string) list \<Rightarrow> string" where
  "urlencode fs = join ''&'' (map (\<lambda>(k, v). quote_plus k @ ''='' @ quote_plus v) fs)"

definition authorization_fields :: "oidc_config \<Rightarrow> string \<Rightarrow> string \<Rightarrow> string \<Rightarrow> string \<Rightarrow> (string \<times> string) list" where
  "authorization_fields cfg state redirect nonce challenge =
     [(''response_type'', ''code''), (''client_id'', oc_client cfg), (''redirect_uri'', redirect),
      (''scope'', join '' '' (oc_scopes cfg)), (''state'', state), (''nonce'', nonce),
      (''code_challenge'', challenge), (''code_challenge_method'', ''S256'')]"

definition build_authorization_url ::
  "digest \<Rightarrow> oidc_config \<Rightarrow> string \<Rightarrow> string \<Rightarrow> string \<Rightarrow> string \<Rightarrow> authorization_request" where
  "build_authorization_url sha cfg verifier nonce state redirect =
     (case pkce_pair sha verifier of (v, challenge) \<Rightarrow>
        \<lparr>ar_url = oc_authorization cfg @ ''?'' @ urlencode (authorization_fields cfg state redirect nonce challenge),
         ar_state = state, ar_nonce = nonce, ar_verifier = v, ar_challenge = challenge\<rparr>)"

text \<open>The HTTP client posts a form; a time-out, an error status or a body that is no JSON raises.\<close>

type_synonym 'w poster = "string \<Rightarrow> (string \<times> string) list \<Rightarrow> 'w \<Rightarrow> 'w \<times> json res"

definition exchange_code :: "oidc_config \<Rightarrow> 'w poster \<Rightarrow> string \<Rightarrow> string \<Rightarrow> string \<Rightarrow> 'w \<Rightarrow> 'w \<times> token_response res" where
  "exchange_code cfg post code verifier redirect w =
     (case post (oc_token cfg)
             [(''grant_type'', ''authorization_code''), (''code'', code), (''redirect_uri'', redirect),
              (''client_id'', oc_client cfg), (''client_secret'', oc_secret cfg), (''code_verifier'', verifier)] w of
        (w', Inl x) \<Rightarrow> (w', Inl OidcExchangeError)
      | (w', Inr body) \<Rightarrow>
          (w', case body of
                 JObj fs \<Rightarrow>
                   (let val = (\<lambda>k. case map_of fs k of None \<Rightarrow> JNull | Some v \<Rightarrow> v) in
                    case val ''id_token'' of
                      JStr t \<Rightarrow> if t = [] then Inl OidcExchangeError
                        else Inr \<lparr>tr_id_token = t, tr_access = val ''access_token'', tr_refresh = val ''refresh_token'',
                               tr_expires = val ''expires_in''\<rparr>
                    | _ \<Rightarrow> Inl OidcExchangeError)
               | _ \<Rightarrow> Inl (OtherException ''AttributeError'')))"

text \<open>The JWT library: a token's unverified header, an RSA key from a JWK, and the claims of a token
  signed by that key for an issuer and an audience, unexpired and with the required claims. \<open>pyjwt_error\<close>
  is its own base exception.\<close>

definition pyjwt_error :: exn where
  "pyjwt_error = OtherException ''PyJWTError''"

record id_token_library =
  il_header :: "string \<Rightarrow> payload res"
  il_key :: "payload \<Rightarrow> string res"
  il_decode :: "string \<Rightarrow> string \<Rightarrow> string \<Rightarrow> string \<Rightarrow> payload res"

definition as_verification_error :: "exn \<Rightarrow> exn" where
  "as_verification_error x = (if x = pyjwt_error then IdTokenVerificationError else x)"

definition claims_of :: "digest \<Rightarrow> oidc_config \<Rightarrow> payload \<Rightarrow> string \<Rightarrow> id_claims res" where
  "claims_of sha cfg claims expected =
     (let val = (\<lambda>k. case map_of claims k of None \<Rightarrow> JNull | Some v \<Rightarrow> v);
          nonce = (case val ''nonce'' of JStr n \<Rightarrow> Some n | _ \<Rightarrow> None)
      in if (case nonce of None \<Rightarrow> [] | Some n \<Rightarrow> sha256_hex sha n) \<noteq> expected then Inl IdTokenVerificationError
         else case (map_of claims ''sub'', map_of claims ''iss'') of
           (Some s, Some i) \<Rightarrow>
             Inr \<lparr>ic_subject = json_str s, ic_issuer = json_str i, ic_audience = oc_client cfg, ic_nonce = val ''nonce'',
                  ic_email = val ''email'', ic_verified = val ''email_verified'', ic_name = val ''name''\<rparr>
         | _ \<Rightarrow> Inl KeyError)"

definition verify_id_token ::
  "digest \<Rightarrow> oidc_config \<Rightarrow> jwks_config \<Rightarrow> id_token_library \<Rightarrow> 'w transport \<Rightarrow> readings \<Rightarrow> string \<Rightarrow> string \<Rightarrow>
     jwks_cache \<times> 'w \<Rightarrow> (jwks_cache \<times> 'w) \<times> id_claims res" where
  "verify_id_token sha cfg jcfg lib fetch ts token expected s =
     (case il_header lib token of
        Inl x \<Rightarrow> (s, Inl (as_verification_error x))
      | Inr header \<Rightarrow>
          if map_of header ''alg'' \<noteq> Some (JStr ''RS256'') then (s, Inl IdTokenVerificationError)
          else case map_of header ''kid'' of
            Some (JStr kid) \<Rightarrow>
              (case jwks_get_key jcfg fetch ts kid s of
                 (s', Inl x) \<Rightarrow> (s', Inl (if x = JwksFetchError then IdTokenVerificationError else x))
               | (s', Inr jwk) \<Rightarrow>
                   (s', case il_key lib jwk of
                          Inl x \<Rightarrow> Inl (as_verification_error x)
                        | Inr k \<Rightarrow>
                            (case il_decode lib token k (oc_issuer cfg) (oc_client cfg) of
                               Inl x \<Rightarrow> Inl (as_verification_error x)
                             | Inr claims \<Rightarrow> claims_of sha cfg claims expected)))
          | _ \<Rightarrow> (s, Inl IdTokenVerificationError))"

subsection \<open>Repositories of the login\<close>

record oidc_db =
  od_auth :: auth_db
  od_identities :: "oauth_identity list"
  od_states :: "login_state list"

text \<open>A hash is its hexadecimal text, as \<open>sha256_hex\<close> writes it.\<close>

definition identity_add :: "uuid \<Rightarrow> oauth_identity \<Rightarrow> oidc_db \<Rightarrow> oidc_db \<times> unit res" where
  "identity_add tenant r db =
     (if oi_organization r \<noteq> tenant \<or> oi_id r \<in> oi_id ` set (od_identities db) \<or>
         (oi_provider r, oi_subject r) \<in> (\<lambda>x. (oi_provider x, oi_subject x)) ` set (od_identities db)
      then (db, Inl integrity_error)
      else (db\<lparr>od_identities := od_identities db @ [r]\<rparr>, Inr ()))"

definition get_by_subject :: "uuid \<Rightarrow> string \<Rightarrow> string \<Rightarrow> oidc_db \<Rightarrow> oauth_identity option" where
  "get_by_subject tenant provider subject db =
     find (\<lambda>r. oi_provider r = provider \<and> oi_subject r = subject \<and> oi_organization r = tenant) (od_identities db)"

definition state_save :: "uuid \<Rightarrow> login_state \<Rightarrow> oidc_db \<Rightarrow> oidc_db \<times> unit res" where
  "state_save tenant r db =
     (if ls_organization r \<noteq> tenant \<or> ls_id r \<in> ls_id ` set (od_states db) \<or> ls_hash r \<in> ls_hash ` set (od_states db)
      then (db, Inl integrity_error)
      else (db\<lparr>od_states := od_states db @ [r]\<rparr>, Inr ()))"

definition state_consume :: "uuid \<Rightarrow> string \<Rightarrow> instant \<Rightarrow> oidc_db \<Rightarrow> oidc_db \<times> login_state option" where
  "state_consume tenant h now db =
     (let hit = (\<lambda>r. ls_hash r = h \<and> ls_organization r = tenant) in
      (db\<lparr>od_states := filter (\<lambda>r. \<not> hit r) (od_states db)\<rparr>,
       case find hit (od_states db) of
         None \<Rightarrow> None
       | Some r \<Rightarrow> if ls_expires r \<le> now then None else Some r))"

definition purge_expired :: "uuid \<Rightarrow> instant \<Rightarrow> oidc_db \<Rightarrow> oidc_db \<times> nat" where
  "purge_expired tenant now db =
     (let old = (\<lambda>r. ls_expires r \<le> now \<and> ls_organization r = tenant) in
      (db\<lparr>od_states := filter (\<lambda>r. \<not> old r) (od_states db)\<rparr>, length (filter old (od_states db))))"

subsection \<open>The callback\<close>

record 's oidc_port =
  op_exchange :: "string \<Rightarrow> string \<Rightarrow> string \<Rightarrow> 's \<Rightarrow> 's \<times> token_response res"
  op_verify :: "string \<Rightarrow> string \<Rightarrow> 's \<Rightarrow> 's \<times> id_claims res"

definition login_event :: "auth_decision \<Rightarrow> uuid \<Rightarrow> uuid option \<Rightarrow> string option \<Rightarrow> auth_event" where
  "login_event d org subject detail =
     \<lparr>ae_action = ''oidc.login'', ae_result = auth_decision_value d, ae_organization = Some org,
      ae_ptype = Some ''user'', ae_subject = subject, ae_detail = detail\<rparr>"

definition login_record :: "auth_event \<Rightarrow> oidc_db \<Rightarrow> oidc_db" where
  "login_record e db = db\<lparr>od_auth := audit_event e (od_auth db)\<rparr>"

text \<open>The session of the linked user, its first refresh token and the access token.\<close>

definition open_session :: "session_env \<Rightarrow> uuid \<Rightarrow> uuid \<Rightarrow> uuid \<Rightarrow> uuid \<Rightarrow> uuid \<Rightarrow> string \<Rightarrow> instant \<Rightarrow>
    oidc_db \<Rightarrow> oidc_db \<times> issued_tokens res" where
  "open_session env tenant user org sid tid secret now db =
     (case session_add tenant
        \<lparr>ss_id = sid, ss_user = user, ss_organization = org, ss_created = now,
         ss_expires = now + se_session_ttl env, ss_revoked = None\<rparr> (od_auth db) of
        (a, Inl x) \<Rightarrow> (db\<lparr>od_auth := a\<rparr>, Inl x)
      | (a, Inr _) \<Rightarrow>
          (case se_mint env (user_principal user org) (se_access_ttl env) of
             Inl x \<Rightarrow> (db\<lparr>od_auth := a\<rparr>, Inl x)
           | Inr access \<Rightarrow>
               (case refresh_add tenant
                  \<lparr>rt_id = tid, rt_session = sid, rt_organization = org, rt_hash = hash_secret (se_sha env) secret,
                   rt_expires = now + se_session_ttl env, rt_rotated = None, rt_revoked = None\<rparr> a of
                  (b, Inl x) \<Rightarrow> (db\<lparr>od_auth := b\<rparr>, Inl x)
                | (b, Inr _) \<Rightarrow>
                    (login_record (login_event Success org (Some user) None) (db\<lparr>od_auth := b\<rparr>),
                     Inr \<lparr>it_access = access, it_refresh = secret\<rparr>))))"

definition complete_login ::
  "session_env \<Rightarrow> 's oidc_port \<Rightarrow> uuid \<Rightarrow> uuid \<Rightarrow> string \<Rightarrow> string \<Rightarrow> string \<Rightarrow> uuid \<Rightarrow> uuid \<Rightarrow> string \<Rightarrow> instant \<Rightarrow>
     oidc_db \<times> 's \<Rightarrow> (oidc_db \<times> 's) \<times> issued_tokens res" where
  "complete_login env port tenant org h code redirect sid tid secret now s0 =
     (case s0 of (db0, s) \<Rightarrow>
      case state_consume tenant h now db0 of
        (db, None) \<Rightarrow>
          ((login_record (login_event Invalid_Token org None (Some ''oidc_state_unknown_expired_or_replayed'')) db, s),
           Inl OidcStateInvalidError)
      | (db, Some st) \<Rightarrow>
          if ls_organization st \<noteq> org
          then ((login_record (login_event Invalid_Token org None (Some ''oidc_state_tenant_mismatch'')) db, s),
                Inl OidcStateInvalidError)
          else case op_exchange port code (ls_verifier st) (if redirect = [] then ls_redirect st else redirect) s of
            (s1, Inl x) \<Rightarrow> ((db, s1), Inl x)
          | (s1, Inr tr) \<Rightarrow>
              (case op_verify port (tr_id_token tr) (ls_nonce_hash st) s1 of
                 (s2, Inl x) \<Rightarrow> ((db, s2), Inl x)
               | (s2, Inr cl) \<Rightarrow>
                   (case get_by_subject tenant (ls_provider st) (ic_subject cl) db of
                      None \<Rightarrow>
                        ((login_record (login_event Invalid_Token org None (Some ''oidc_identity_unknown'')) db, s2),
                         Inl OidcIdentityError)
                    | Some i \<Rightarrow>
                        (case open_session env tenant (oi_user i) org sid tid secret now db of
                           (db', r) \<Rightarrow> ((db', s2), r)))))"

text \<open>The port the adapter provides, over the HTTP client's state and the key cache.\<close>

record 'w idp_env =
  ie_sha :: digest
  ie_config :: oidc_config
  ie_jwks :: jwks_config
  ie_library :: id_token_library
  ie_fetch :: "'w transport"
  ie_post :: "'w poster"

definition oidc_adapter :: "'w idp_env \<Rightarrow> readings \<Rightarrow> (jwks_cache \<times> 'w) oidc_port" where
  "oidc_adapter e ts =
     \<lparr>op_exchange = (\<lambda>code verifier redirect (c, w).
        case exchange_code (ie_config e) (ie_post e) code verifier redirect w of (w', r) \<Rightarrow> ((c, w'), r)),
      op_verify = verify_id_token (ie_sha e) (ie_config e) (ie_jwks e) (ie_library e) (ie_fetch e) ts\<rparr>"

subsection \<open>A verified state was issued\<close>

lemma hex_bytes_plain: "c \<in> set (hex_bytes bs) \<Longrightarrow> c \<noteq> CHR ''.''"
proof -
  assume "c \<in> set (hex_bytes bs)"
  then obtain x where "c = hex_digit (of_char x div 16) \<or> c = hex_digit (of_char x mod 16)" by (auto simp: hex_bytes_def)
  moreover have "(of_char x :: nat) div 16 < 16" by (rule less_mult_imp_div_less) (use char_parts [of x] in simp)
  moreover have "(of_char x :: nat) mod 16 < 16" by simp
  ultimately have "hex_char c" unfolding hex_char_def by blast
  from hex_charD [OF this] show ?thesis by simp
qed

lemma uuid_text_plain: "c \<in> set (uuid_text u) \<Longrightarrow> of_char c < (128 :: nat) \<and> c \<noteq> CHR ''.''"
  using uuid_text_chars [of c u] hex_charD [of c] by auto

lemma state_issue_payload:
  assumes "\<forall>c\<in>set token. of_char c < (128 :: nat)"
  shows "b64url_decode (b64url_encode (uuid_text org @ ''.'' @ token)) = Inr (uuid_text org @ ''.'' @ token)"
  using assms uuid_text_plain by (intro b64url_roundtrip) auto

lemma state_verify_sound:
  assumes "state_verify mac k s = Inr p"
  obtains m d t where "s = m @ ''.'' @ hmac_sha256_hex mac k m" "b64url_decode m = Inr d"
    "partition_at (CHR ''.'') d = (t, ''.'', ps_random p)" "uuid_of t = Inr (ps_organization p)"
proof -
  obtain m sep tag where r: "rpartition_at (CHR ''.'') s = (m, sep, tag)" by (metis prod_cases3)
  with assms have "sep \<noteq> []" "hmac_sha256_hex mac k m = tag" by (auto simp: state_verify_def split: if_splits)
  moreover from rpartition_at_parts [OF r] calculation(1) have "s = m @ ''.'' @ tag" by auto
  moreover obtain d where d: "b64url_decode m = Inr d" using assms r
    by (auto simp: state_verify_def split: if_splits sum.splits)
  obtain t i token where pt: "partition_at (CHR ''.'') d = (t, i, token)" by (metis prod_cases3)
  with assms r d have "i \<noteq> []" "uuid_of t = Inr (ps_organization p)" "token = ps_random p"
    by (auto simp: state_verify_def split: if_splits sum.splits)
  moreover from pt calculation(4) have "i = ''.''" by (auto simp: partition_at_def split: if_splits list.splits prod.splits)
  ultimately show ?thesis using d pt that by blast
qed

lemma state_issue_parsed: "snd (state_issue mac k token org) = \<lparr>ps_organization = org, ps_random = token\<rparr>"
  by (simp add: state_issue_def Let_def)

lemma issued_state_verifies:
  assumes "org < 2 ^ 128" "token \<noteq> []" "\<forall>c\<in>set token. of_char c < (128 :: nat)" "\<And>k m. mac k m \<noteq> []"
  shows "state_verify mac k (fst (state_issue mac k token org)) = Inr (snd (state_issue mac k token org))"
proof -
  let ?d = "uuid_text org @ ''.'' @ token"
  let ?p = "b64url_encode ?d"
  have d: "b64url_decode ?p = Inr ?d" by (rule state_issue_payload [OF assms(3)])
  have e: "b64url_decode [] = Inr []" by code_simp
  then have "?p \<noteq> []" using d by auto
  moreover have "hmac_sha256_hex mac k ?p \<noteq> []" using assms(4) [of k ?p] by (auto simp: hmac_sha256_hex_def hex_bytes_def neq_Nil_conv)
  moreover have "rpartition_at (CHR ''.'') (?p @ CHR ''.'' # hmac_sha256_hex mac k ?p) = (?p, ''.'', hmac_sha256_hex mac k ?p)"
    by (rule rpartition_at_app) (use hex_bytes_plain in \<open>auto simp: hmac_sha256_hex_def\<close>)
  moreover have "partition_at (CHR ''.'') (uuid_text org @ CHR ''.'' # token) = (uuid_text org, ''.'', token)"
    by (rule partition_at_app) (use uuid_text_plain in auto)
  ultimately show ?thesis
    using d assms(1,2) uuid_of_text [of org] by (simp add: state_issue_def state_verify_def Let_def)
qed

lemma verified_state_was_issued:
  assumes "state_verify mac k s = Inr p"
    and "\<forall>(org, token)\<in>set issued. org < 2 ^ 128 \<and> (\<forall>c\<in>set token. of_char c < (128 :: nat))"
    and "\<forall>m. s = m @ ''.'' @ hmac_sha256_hex mac k m \<longrightarrow>
           (\<exists>(org, token)\<in>set issued. m = b64url_encode (uuid_text org @ ''.'' @ token))"
  shows "(ps_organization p, ps_random p) \<in> set issued"
proof -
  from assms(1) obtain m d t where m: "s = m @ ''.'' @ hmac_sha256_hex mac k m" "b64url_decode m = Inr d"
    "partition_at (CHR ''.'') d = (t, ''.'', ps_random p)" "uuid_of t = Inr (ps_organization p)"
    by (rule state_verify_sound)
  from m(1) assms(3) obtain org token where i: "(org, token) \<in> set issued" "m = b64url_encode (uuid_text org @ ''.'' @ token)"
    by blast
  have b: "org < 2 ^ 128" "\<forall>c\<in>set token. of_char c < (128 :: nat)" using i(1) assms(2) by auto
  from m(2) i(2) state_issue_payload [OF b(2)] have "d = uuid_text org @ CHR ''.'' # token" by simp
  moreover have "partition_at (CHR ''.'') (uuid_text org @ CHR ''.'' # token) = (uuid_text org, ''.'', token)"
    by (rule partition_at_app) (use uuid_text_plain in auto)
  ultimately have "t = uuid_text org" "ps_random p = token" using m(3) by auto
  with m(4) uuid_of_text [OF b(1)] i(1) show ?thesis by simp
qed

text \<open>The signed state carries the tenant of the login and nobody else's. What \<open>issue\<close> hands out
verifies back to its tenant and random part, for every tenant id and token; and when the tags of the key
are known only for the payloads it issued, whatever a callback presents either is refused or names a
tenant and a random part that were issued together.\<close>

theorem oidc_state_bound_to_tenant:
  assumes "\<And>k m. mac k m \<noteq> []"
    and "\<forall>(org, token)\<in>set issued. org < 2 ^ 128 \<and> token \<noteq> [] \<and> (\<forall>c\<in>set token. of_char c < (128 :: nat))"
    and "\<forall>m. s = m @ ''.'' @ hmac_sha256_hex mac k m \<longrightarrow>
           (\<exists>(org, token)\<in>set issued. m = b64url_encode (uuid_text org @ ''.'' @ token))"
  shows "(\<forall>(org, token)\<in>set issued. state_verify mac k (fst (state_issue mac k token org)) = Inr (snd (state_issue mac k token org))) \<and>
    (case state_verify mac k s of Inl x \<Rightarrow> x = InvalidStateError | Inr p \<Rightarrow> (ps_organization p, ps_random p) \<in> set issued)"
proof
  show "\<forall>(org, token)\<in>set issued. state_verify mac k (fst (state_issue mac k token org)) = Inr (snd (state_issue mac k token org))"
    using issued_state_verifies [of _ _ mac k] assms(1,2) by blast
  show "case state_verify mac k s of Inl x \<Rightarrow> x = InvalidStateError | Inr p \<Rightarrow> (ps_organization p, ps_random p) \<in> set issued"
  proof (cases "state_verify mac k s")
    case (Inl x)
    obtain m sep tag where r: "rpartition_at (CHR ''.'') s = (m, sep, tag)" by (metis prod_cases3)
    have "x = InvalidStateError"
    proof (cases "b64url_decode m")
      case (Inr d)
      obtain t i token where "partition_at (CHR ''.'') d = (t, i, token)" by (metis prod_cases3)
      with Inl r Inr show ?thesis by (cases "uuid_of t") (simp_all add: state_verify_def split: if_split_asm)
    qed (use Inl r in \<open>simp add: state_verify_def split: if_split_asm\<close>)
    with Inl show ?thesis by simp
  next
    case (Inr p)
    from verified_state_was_issued [OF Inr _ assms(3)] assms(2) Inr show ?thesis by fastforce
  qed
qed

theorem oidc_state_bound_to_tenant_witness:
  "state_verify (\<lambda>k m. ''k'') ''key'' (fst (state_issue (\<lambda>k m. ''k'') ''key'' ''r'' 7)) = Inr \<lparr>ps_organization = 7, ps_random = ''r''\<rparr>"
proof -
  have "\<forall>(org, token)\<in>set [(7 :: uuid, ''r'')]. org < 2 ^ 128 \<and> token \<noteq> [] \<and> (\<forall>c\<in>set token. of_char c < (128 :: nat))"
    by simp
  moreover have "\<forall>m. [] = m @ ''.'' @ hmac_sha256_hex (\<lambda>k m. ''k'') ''key'' m \<longrightarrow>
      (\<exists>(org, token)\<in>set [(7 :: uuid, ''r'')]. m = b64url_encode (uuid_text org @ ''.'' @ token))" by simp
  moreover have "(''k'' :: string) \<noteq> []" by simp
  ultimately have "\<forall>(org, token)\<in>set [(7 :: uuid, ''r'')].
      state_verify (\<lambda>k m. ''k'') ''key'' (fst (state_issue (\<lambda>k m. ''k'') ''key'' token org)) =
        Inr (snd (state_issue (\<lambda>k m. ''k'') ''key'' token org))"
    using oidc_state_bound_to_tenant [of "\<lambda>k m. ''k''" "[(7, ''r'')]" "[]" "''key''"] by blast
  then show ?thesis by (simp add: state_issue_parsed)
qed

subsection \<open>The provider is asked for its keys at most once an interval\<close>

text \<open>The refreshes a series of key look-ups makes, by the time each was attempted.\<close>

definition asks_provider :: "jwks_config \<Rightarrow> readings \<Rightarrow> string \<Rightarrow> jwks_cache \<Rightarrow> bool" where
  "asks_provider cfg ts kid c \<longleftrightarrow>
     \<not> (is_fresh cfg (fst ts) c \<and> map_of (jk_keys c) kid \<noteq> None) \<and> may_refresh cfg (fst (snd ts)) c"

fun key_lookups :: "jwks_config \<Rightarrow> 'w transport \<Rightarrow> (readings \<times> string) list \<Rightarrow> jwks_cache \<times> 'w \<Rightarrow> (jwks_cache \<times> 'w) \<times> instant list" where
  "key_lookups cfg fetch [] s = (s, [])"
| "key_lookups cfg fetch ((ts, kid) # rest) s =
     (fst (key_lookups cfg fetch rest (fst (jwks_get_key cfg fetch ts kid s))),
      (if asks_provider cfg ts kid (fst s) then [snd (snd ts)] else []) @
        snd (key_lookups cfg fetch rest (fst (jwks_get_key cfg fetch ts kid s))))"

lemma jwks_refresh_state:
  assumes "jwks_refresh fetch now s = (s', r)"
  shows "jk_attempted (fst s') = Some now" "jk_fetched (fst s) \<noteq> None \<Longrightarrow> jk_fetched (fst s') \<noteq> None"
    "snd s' = fst (fetch (snd s))"
  using assms by (auto simp: jwks_refresh_def split: prod.splits sum.splits)

lemma jwks_get_key_kept:
  "\<not> asks_provider cfg ts kid (fst s) \<Longrightarrow> fst (jwks_get_key cfg fetch ts kid s) = s"
  by (cases ts) (auto simp: jwks_get_key_def asks_provider_def)

lemma jwks_get_key_asked:
  "asks_provider cfg ts kid (fst s) \<Longrightarrow> fst (jwks_get_key cfg fetch ts kid s) = fst (jwks_refresh fetch (snd (snd ts)) s)"
  by (cases ts) (auto simp: jwks_get_key_def asks_provider_def split: prod.splits sum.splits option.splits)

lemma lookups_spaced:
  assumes "\<forall>c\<in>set calls. fst (snd (fst c)) \<le> snd (snd (fst c))" "0 \<le> jk_interval cfg" "jk_fetched (fst s) \<noteq> None"
  shows "sorted_wrt (\<lambda>x y. x + jk_interval cfg \<le> y) (snd (key_lookups cfg fetch calls s)) \<and>
    (\<forall>t\<in>set (snd (key_lookups cfg fetch calls s)). \<forall>a. jk_attempted (fst s) = Some a \<longrightarrow> a + jk_interval cfg \<le> t)"
  using assms
proof (induction calls arbitrary: s)
  case (Cons call rest)
  obtain ts kid where c: "call = (ts, kid)" by fastforce
  let ?s1 = "fst (jwks_get_key cfg fetch ts kid s)"
  show ?case
  proof (cases "asks_provider cfg ts kid (fst s)")
    case False
    with Cons c show ?thesis by (simp add: jwks_get_key_kept)
  next
    case True
    obtain a where r: "jwks_refresh fetch (snd (snd ts)) s = (?s1, a)" using jwks_get_key_asked [OF True] by (metis prod.collapse)
    note st = jwks_refresh_state [OF r]
    have f1: "jk_fetched (fst ?s1) \<noteq> None" using st(2) Cons.prems(3) by blast
    have gap: "b + jk_interval cfg \<le> snd (snd ts)" if "jk_attempted (fst s) = Some b" for b
      using True that Cons.prems c by (auto simp: asks_provider_def may_refresh_def split: option.splits)
    have later: "snd (snd ts) + jk_interval cfg \<le> t" if "t \<in> set (snd (key_lookups cfg fetch rest ?s1))" for t
      using Cons.IH [OF _ Cons.prems(2) f1] Cons.prems(1) st(1) that by auto
    have "sorted_wrt (\<lambda>x y. x + jk_interval cfg \<le> y) (snd (key_lookups cfg fetch rest ?s1))"
      using Cons.IH [OF _ Cons.prems(2) f1] Cons.prems(1) by auto
    moreover have "b + jk_interval cfg \<le> t"
      if "jk_attempted (fst s) = Some b" "t \<in> set (snd (key_lookups cfg fetch rest ?s1))" for b t
      using gap [OF that(1)] later [OF that(2)] Cons.prems(2) by simp
    ultimately show ?thesis using True c later gap  by auto
  qed
qed simp

lemma spaced_in_window:
  fixes a d :: int
  assumes "sorted_wrt (\<lambda>x y. x + d \<le> y) ts" "\<forall>t\<in>set ts. a \<le> t \<and> t < a + int n * d"
  shows "length ts \<le> n"
  using assms
proof (induction ts arbitrary: a n)
  case (Cons t ts)
  then obtain m where n: "n = Suc m" by (cases n) auto
  have "\<forall>x\<in>set ts. a + d \<le> x \<and> x < (a + d) + int m * d" using Cons.prems n by (fastforce simp: algebra_simps)
  with Cons.IH [of "a + d" m] Cons.prems(1) n show ?case by simp
qed simp

lemma refreshes_bounded:
  assumes "\<forall>c\<in>set calls. fst (snd (fst c)) \<le> snd (snd (fst c))" "0 \<le> jk_interval cfg" "jk_fetched (fst s) \<noteq> None"
  shows "length (filter (\<lambda>t. a \<le> t \<and> t < a + int n * jk_interval cfg) (snd (key_lookups cfg fetch calls s))) \<le> n"
  by (rule spaced_in_window [of "jk_interval cfg" _ a])
    (use lookups_spaced [OF assms] in \<open>auto intro: sorted_wrt_filter\<close>)

text \<open>Forged key ids cannot make the gateway hammer the identity provider once it has its keys. After
a first successful fetch, whatever key ids are looked up and whatever the provider answers, the refreshes
attempted within any window of \<open>n\<close> refresh intervals are at most \<open>n\<close>.\<close>

theorem jwks_refreshes_bounded:
  assumes "\<forall>c\<in>set calls. fst (snd (fst c)) \<le> snd (snd (fst c))" "0 \<le> jk_interval cfg" "jk_fetched (fst s) \<noteq> None"
  shows "length (filter (\<lambda>t. a \<le> t \<and> t < a + int n * jk_interval cfg) (snd (key_lookups cfg fetch calls s))) \<le> n"
  using assms by (rule refreshes_bounded)

lemma unfetched_refreshes:
  assumes "jk_fetched (fst s) = None" "\<And>w. \<exists>x. snd (fetch w) = Inl x"
  shows "snd (key_lookups cfg fetch calls s) = map (snd \<circ> snd \<circ> fst) calls"
  using assms(1)
proof (induction calls arbitrary: s)
  case (Cons call rest)
  obtain ts kid where c: "call = (ts, kid)" by fastforce
  obtain w x where f: "fetch (snd s) = (w, Inl x)" using assms(2) by (metis prod.collapse)
  have a: "asks_provider cfg ts kid (fst s)"
    using Cons.prems by (auto simp: asks_provider_def is_fresh_def may_refresh_def split: option.split)
  have "jk_fetched (fst (fst (jwks_get_key cfg fetch ts kid s))) = None"
    using Cons.prems f by (simp add: jwks_get_key_asked [OF a] jwks_refresh_def)
  from Cons.IH [OF this] a c show ?case by simp
qed simp

text \<open>Before the first success nothing is throttled. While the provider has not answered yet, every
look-up, of any key id and at any moment, is a request to it, although the cache promises a minimum
interval between refreshes.\<close>

theorem jwks_unthrottled_before_success:
  assumes "jk_fetched (fst s) = None" "\<And>w. \<exists>x. snd (fetch w) = Inl x"
  shows "length (snd (key_lookups cfg fetch calls s)) = length calls"
  using unfetched_refreshes [of s fetch cfg calls] assms by simp

definition sample_fetch :: "nat transport" where
  "sample_fetch n = (Suc n, if n = 0 then Inr (JObj [(''keys'', JList [JObj [(''kid'', JStr ''k1''), (''n'', JStr ''one'')]])])
     else Inl (OtherException ''TimeoutError''))"

definition sample_jwks :: "jwks_cache \<times> nat" where
  "sample_jwks = fst (jwks_refresh sample_fetch 0 (empty_jwks, 0))"

lemma sample_jwks_fetched: "jk_fetched (fst sample_jwks) = Some 0"
  by (simp add: sample_jwks_def jwks_refresh_def sample_fetch_def parsed_keys_def map_filter_simps keyed_def)

theorem jwks_refreshes_bounded_witness:
  "length (filter (\<lambda>t. 0 \<le> t \<and> t < 30 * second)
     (snd (key_lookups default_jwks sample_fetch [((31, 31, 32), ''f1''), ((40, 40, 41), ''f2'')] sample_jwks))) \<le> 1"
  using jwks_refreshes_bounded [of "[((31, 31, 32), ''f1''), ((40, 40, 41), ''f2'')]" default_jwks sample_jwks 0 1 sample_fetch]
  by (simp add: sample_jwks_fetched default_jwks_def)

theorem jwks_unthrottled_before_success_witness:
  "length (snd (key_lookups default_jwks (\<lambda>w. ((), Inl RuntimeError)) [((1, 1, 1), ''f1''), ((2, 2, 2), ''f1'')] (empty_jwks, ()))) = 2"
  using jwks_unthrottled_before_success [of "(empty_jwks, ())" "\<lambda>w. ((), Inl RuntimeError)" default_jwks
      "[((1, 1, 1), ''f1''), ((2, 2, 2), ''f1'')]"]
  by (simp add: empty_jwks_def)

subsection \<open>An accepted identity token\<close>

text \<open>A key the cache may serve: of the document fetched just now, or still within its time to live.\<close>

definition current_key :: "jwks_config \<Rightarrow> readings \<Rightarrow> string \<Rightarrow> payload \<Rightarrow> jwks_cache \<Rightarrow> bool" where
  "current_key cfg ts kid jwk c \<longleftrightarrow>
     map_of (jk_keys c) kid = Some jwk \<and>
     (\<exists>t. jk_fetched c = Some t \<and> (t = snd (snd ts) \<or> fst ts - t < jk_ttl cfg))"

lemma jwks_get_key_current:
  assumes "jwks_get_key cfg fetch ts kid s = (s', Inr jwk)"
  shows "current_key cfg ts kid jwk (fst s')"
proof -
  obtain t1 t2 t3 where ts: "ts = (t1, t2, t3)" by (metis prod_cases3)
  show ?thesis
  proof (cases "is_fresh cfg t1 (fst s) \<and> map_of (jk_keys (fst s)) kid \<noteq> None")
    case True
    with assms ts show ?thesis
      by (auto simp: jwks_get_key_def current_key_def is_fresh_def split: option.splits)
  next
    case False
    with assms ts obtain u where r: "jwks_refresh fetch t3 s = (s', Inr u)" "map_of (jk_keys (fst s')) kid = Some jwk"
      by (auto simp: jwks_get_key_def split: if_splits prod.splits sum.splits option.splits)
    from r(1) have "jk_fetched (fst s') = Some t3" by (auto simp: jwks_refresh_def split: prod.splits sum.splits)
    with r(2) ts show ?thesis by (simp add: current_key_def)
  qed
qed

lemma verify_id_token_sound:
  assumes "verify_id_token sha cfg jcfg lib fetch ts token expected s = (s', Inr cl)" "expected \<noteq> []"
  obtains header kid jwk k claims n i where
    "il_header lib token = Inr header" "map_of header ''alg'' = Some (JStr ''RS256'')" "map_of header ''kid'' = Some (JStr kid)"
    "current_key jcfg ts kid jwk (fst s')" "il_key lib jwk = Inr k"
    "il_decode lib token k (oc_issuer cfg) (oc_client cfg) = Inr claims"
    "map_of claims ''nonce'' = Some (JStr n)" "sha256_hex sha n = expected"
    "map_of claims ''sub'' = Some i" "ic_subject cl = json_str i"
proof -
  from assms(1) obtain header where h: "il_header lib token = Inr header" "map_of header ''alg'' = Some (JStr ''RS256'')"
    by (auto simp: verify_id_token_def split: sum.splits if_splits)
  with assms(1) obtain kid where kid: "map_of header ''kid'' = Some (JStr kid)"
    by (auto simp: verify_id_token_def split: option.splits json.splits)
  obtain s1 r where g: "jwks_get_key jcfg fetch ts kid s = (s1, r)" by fastforce
  with assms(1) h kid obtain jwk where r: "r = Inr jwk" "s1 = s'"
    by (cases r) (auto simp: verify_id_token_def split: if_splits)
  with assms(1) h kid g obtain k where k: "il_key lib jwk = Inr k"
    by (cases "il_key lib jwk") (auto simp: verify_id_token_def)
  with assms(1) h kid g r obtain claims where d: "il_decode lib token k (oc_issuer cfg) (oc_client cfg) = Inr claims"
    by (cases "il_decode lib token k (oc_issuer cfg) (oc_client cfg)") (auto simp: verify_id_token_def)
  with assms(1) h kid g r k have c: "claims_of sha cfg claims expected = Inr cl" by (simp add: verify_id_token_def)
  from c assms(2) obtain n where n: "map_of claims ''nonce'' = Some (JStr n)" "sha256_hex sha n = expected"
    by (auto simp: claims_of_def Let_def split: if_splits option.splits json.splits)
  from c n obtain i where "map_of claims ''sub'' = Some i" "ic_subject cl = json_str i"
    by (auto simp: claims_of_def Let_def split: option.splits)
  with that [OF h kid _ k d n] jwks_get_key_current [of jcfg fetch ts kid s s' jwk] g r show ?thesis by blast
qed

subsection \<open>What a completed login proves\<close>

lemma state_consume_cases:
  assumes "state_consume tenant h now db = (db', a)"
  shows "od_auth db' = od_auth db" "od_identities db' = od_identities db"
    "od_states db' = filter (\<lambda>r. \<not> (ls_hash r = h \<and> ls_organization r = tenant)) (od_states db)"
    "a = Some st \<Longrightarrow> st \<in> set (od_states db) \<and> ls_hash st = h \<and> ls_organization st = tenant \<and> now < ls_expires st"
  using assms by (auto simp: state_consume_def Let_def find_Some_iff split: option.splits if_splits)

lemma open_session_success:
  assumes "open_session env tenant user org sid tid secret now db = (db', Inr tokens)"
  obtains access where "se_mint env (user_principal user org) (se_access_ttl env) = Inr access"
    "tokens = \<lparr>it_access = access, it_refresh = secret\<rparr>"
    "od_states db' = od_states db" "od_identities db' = od_identities db"
    "db_sessions (od_auth db') = db_sessions (od_auth db) @ [\<lparr>ss_id = sid, ss_user = user, ss_organization = org, ss_created = now,
       ss_expires = now + se_session_ttl env, ss_revoked = None\<rparr>]"
    "db_refresh (od_auth db') = db_refresh (od_auth db) @ [\<lparr>rt_id = tid, rt_session = sid, rt_organization = org,
       rt_hash = hash_secret (se_sha env) secret, rt_expires = now + se_session_ttl env, rt_rotated = None, rt_revoked = None\<rparr>]"
    "db_audit (od_auth db') = db_audit (od_auth db) @ [login_event Success org (Some user) None]"
  using assms
  by (auto simp: open_session_def session_add_def refresh_add_def login_record_def audit_event_def
      split: prod.splits sum.splits if_splits)

lemma open_session_kept:
  "od_states (fst (open_session env tenant user org sid tid secret now db)) = od_states db"
  "od_identities (fst (open_session env tenant user org sid tid secret now db)) = od_identities db"
  by (auto simp: open_session_def login_record_def split: prod.splits sum.splits)

lemma login_record_kept [simp]:
  "od_states (login_record e db) = od_states db" "od_identities (login_record e db) = od_identities db"
  "db_sessions (od_auth (login_record e db)) = db_sessions (od_auth db)"
  "db_refresh (od_auth (login_record e db)) = db_refresh (od_auth db)"
  "db_audit (od_auth (login_record e db)) = db_audit (od_auth db) @ [e]"
  by (simp_all add: login_record_def audit_event_def)

lemma complete_login_cases:
  assumes "complete_login env port tenant org h code redirect sid tid secret now (db, s) = ((db', s'), r)"
  obtains (unknown) db1 where "state_consume tenant h now db = (db1, None)"
      "db' = login_record (login_event Invalid_Token org None (Some ''oidc_state_unknown_expired_or_replayed'')) db1"
      "s' = s" "r = Inl OidcStateInvalidError"
  | (foreign) st db1 where "state_consume tenant h now db = (db1, Some st)" "ls_organization st \<noteq> org"
      "db' = login_record (login_event Invalid_Token org None (Some ''oidc_state_tenant_mismatch'')) db1"
      "s' = s" "r = Inl OidcStateInvalidError"
  | (unredeemed) st db1 x where "state_consume tenant h now db = (db1, Some st)" "ls_organization st = org"
      "op_exchange port code (ls_verifier st) (if redirect = [] then ls_redirect st else redirect) s = (s', Inl x)"
      "db' = db1" "r = Inl x"
  | (unverified) st db1 s1 tr x where "state_consume tenant h now db = (db1, Some st)" "ls_organization st = org"
      "op_exchange port code (ls_verifier st) (if redirect = [] then ls_redirect st else redirect) s = (s1, Inr tr)"
      "op_verify port (tr_id_token tr) (ls_nonce_hash st) s1 = (s', Inl x)" "db' = db1" "r = Inl x"
  | (unlinked) st db1 s1 tr cl where "state_consume tenant h now db = (db1, Some st)" "ls_organization st = org"
      "op_exchange port code (ls_verifier st) (if redirect = [] then ls_redirect st else redirect) s = (s1, Inr tr)"
      "op_verify port (tr_id_token tr) (ls_nonce_hash st) s1 = (s', Inr cl)"
      "get_by_subject tenant (ls_provider st) (ic_subject cl) db1 = None"
      "db' = login_record (login_event Invalid_Token org None (Some ''oidc_identity_unknown'')) db1" "r = Inl OidcIdentityError"
  | (linked) st db1 s1 tr cl i where "state_consume tenant h now db = (db1, Some st)" "ls_organization st = org"
      "op_exchange port code (ls_verifier st) (if redirect = [] then ls_redirect st else redirect) s = (s1, Inr tr)"
      "op_verify port (tr_id_token tr) (ls_nonce_hash st) s1 = (s', Inr cl)"
      "get_by_subject tenant (ls_provider st) (ic_subject cl) db1 = Some i"
      "open_session env tenant (oi_user i) org sid tid secret now db1 = (db', r)"
proof -
  obtain db1 a where c: "state_consume tenant h now db = (db1, a)" by fastforce
  show ?thesis
  proof (cases a)
    case None
    with assms c unknown show ?thesis by (simp add: complete_login_def)
  next
    case (Some st)
    show ?thesis
    proof (cases "ls_organization st = org")
      case False
      with assms c Some foreign show ?thesis by (simp add: complete_login_def)
    next
      case True
      obtain s1 b where e: "op_exchange port code (ls_verifier st) (if redirect = [] then ls_redirect st else redirect) s = (s1, b)"
        by fastforce
      show ?thesis
      proof (cases b)
        case (Inl x)
        with assms c Some True e unredeemed show ?thesis by (simp add: complete_login_def)
      next
        case (Inr tr)
        obtain s2 v where v: "op_verify port (tr_id_token tr) (ls_nonce_hash st) s1 = (s2, v)" by fastforce
        show ?thesis
        proof (cases v)
          case (Inl x)
          with assms c Some True e Inr v unverified show ?thesis by (simp add: complete_login_def)
        next
          case cl: (Inr cl)
          with assms c Some True e Inr v unlinked linked show ?thesis
            by (cases "get_by_subject tenant (ls_provider st) (ic_subject cl) db1")
              (simp_all add: complete_login_def split: prod.splits)
        qed
      qed
    qed
  qed
qed

inductive oidc_step :: "session_env \<Rightarrow> 's oidc_port \<Rightarrow> (string \<Rightarrow> bool) \<Rightarrow> oidc_db \<Rightarrow> oidc_db \<Rightarrow> bool" for env port savable where
  login: "complete_login env port tenant org h code redirect sid tid secret now (db, s) = ((db', s'), r) \<Longrightarrow>
     oidc_step env port savable db db'"
| save: "savable (ls_hash st) \<Longrightarrow> oidc_step env port savable db (fst (state_save tenant st db))"
| link: "oidc_step env port savable db (fst (identity_add tenant i db))"
| purge: "oidc_step env port savable db (fst (purge_expired tenant now db))"
| session: "session_step env (od_auth db) a \<Longrightarrow> oidc_step env port savable db (db\<lparr>od_auth := a\<rparr>)"

inductive oidc_steps :: "session_env \<Rightarrow> 's oidc_port \<Rightarrow> (string \<Rightarrow> bool) \<Rightarrow> oidc_db \<Rightarrow> oidc_db \<Rightarrow> bool" for env port savable where
  start: "oidc_steps env port savable db db"
| more: "oidc_steps env port savable db db1 \<Longrightarrow> oidc_step env port savable db1 db2 \<Longrightarrow> oidc_steps env port savable db db2"

definition oidc_inv :: "oidc_db \<Rightarrow> bool" where
  "oidc_inv db \<longleftrightarrow> session_inv (od_auth db) \<and> distinct (map ls_hash (od_states db)) \<and>
     distinct (map (\<lambda>i. (oi_provider i, oi_subject i)) (od_identities db))"

abbreviation empty_oidc :: oidc_db where
  "empty_oidc \<equiv> \<lparr>od_auth = empty_auth_db, od_identities = [], od_states = []\<rparr>"

lemma open_session_inv:
  assumes "session_inv (od_auth db)"
  shows "session_inv (od_auth (fst (open_session env tenant user org sid tid secret now db)))"
proof -
  let ?a = "od_auth db"
  let ?s = "\<lparr>ss_id = sid, ss_user = user, ss_organization = org, ss_created = now,
         ss_expires = now + se_session_ttl env, ss_revoked = None\<rparr>"
  let ?q = "\<lparr>rt_id = tid, rt_session = sid, rt_organization = org, rt_hash = hash_secret (se_sha env) secret,
         rt_expires = now + se_session_ttl env, rt_rotated = None, rt_revoked = None\<rparr>"
  let ?b = "?a\<lparr>db_sessions := db_sessions ?a @ [?s]\<rparr>"
  have keep: "session_inv ?b" if "sid \<notin> ss_id ` set (db_sessions ?a)"
    using session_inv_add_session [OF assms, of ?s] that by simp
  have none: "\<forall>r \<in> set (db_refresh ?a). rt_session r \<noteq> sid" if "sid \<notin> ss_id ` set (db_sessions ?a)"
    by (rule fk_new_session [OF session_invD(2) [OF assms] that])
  have tok: "session_inv (?b\<lparr>db_refresh := db_refresh ?b @ [?q]\<rparr>)"
    if "sid \<notin> ss_id ` set (db_sessions ?a)" "tid \<notin> rt_id ` set (db_refresh ?a)"
      "hash_secret (se_sha env) secret \<notin> rt_hash ` set (db_refresh ?a)"
    by (rule session_inv_first_token [OF keep [OF that(1)], of ?s]) (use that none in auto)
  show ?thesis
    using assms keep tok
    by (auto simp: open_session_def session_add_def refresh_add_def login_record_def audit_event_def
        split: prod.splits sum.splits)
qed

lemma login_record_inv [simp]: "session_inv (od_auth (login_record e db)) = session_inv (od_auth db)"
  by (simp add: login_record_def audit_event_def)

lemma complete_login_effect:
  assumes "complete_login env port tenant org h code redirect sid tid secret now (db, s) = ((db', s'), r)"
  shows "\<exists>db1. od_states db1 = filter (\<lambda>st. \<not> (ls_hash st = h \<and> ls_organization st = tenant)) (od_states db) \<and>
      od_identities db1 = od_identities db \<and> od_auth db1 = od_auth db \<and>
      (db' = db1 \<or> (\<exists>e. db' = login_record e db1) \<or> (\<exists>user. db' = fst (open_session env tenant user org sid tid secret now db1)))"
proof -
  obtain db1 a where c: "state_consume tenant h now db = (db1, a)" by fastforce
  have "db' = db1 \<or> (\<exists>e. db' = login_record e db1) \<or> (\<exists>user. db' = fst (open_session env tenant user org sid tid secret now db1))"
    using assms
  proof (cases rule: complete_login_cases)
    case (linked st db2 s1 tr cl i)
    then have "db2 = db1" "db' = fst (open_session env tenant (oi_user i) org sid tid secret now db2)" using c by auto
    then show ?thesis by blast
  qed (use c in auto)
  with state_consume_cases(1,2,3) [OF c] show ?thesis by blast
qed

lemma complete_login_state:
  assumes "complete_login env port tenant org h code redirect sid tid secret now (db, s) = ((db', s'), r)"
  shows "od_states db' = filter (\<lambda>st. \<not> (ls_hash st = h \<and> ls_organization st = tenant)) (od_states db)"
    "od_identities db' = od_identities db" "session_inv (od_auth db) \<Longrightarrow> session_inv (od_auth db')"
proof -
  obtain db1 where db1: "od_states db1 = filter (\<lambda>st. \<not> (ls_hash st = h \<and> ls_organization st = tenant)) (od_states db)"
      "od_identities db1 = od_identities db" "od_auth db1 = od_auth db"
    and e: "db' = db1 \<or> (\<exists>e. db' = login_record e db1) \<or> (\<exists>user. db' = fst (open_session env tenant user org sid tid secret now db1))"
    using complete_login_effect [OF assms] by blast
  show "od_states db' = filter (\<lambda>st. \<not> (ls_hash st = h \<and> ls_organization st = tenant)) (od_states db)"
    "od_identities db' = od_identities db"
    using e db1 by (auto simp: open_session_kept)
  show "session_inv (od_auth db')" if "session_inv (od_auth db)"
    using e db1(3) that open_session_inv [of db1] by auto
qed

lemma oidc_step_inv: "oidc_step env port savable db db' \<Longrightarrow> oidc_inv db \<Longrightarrow> oidc_inv db'"
proof (induction rule: oidc_step.induct)
  case (login tenant org h code redirect sid tid secret now db s db' s' r)
  with complete_login_state [OF login(1)] show ?case by (simp add: oidc_inv_def distinct_map_filter)
next
  case (session db a)
  then show ?case by (simp add: oidc_inv_def session_step_inv)
qed (auto simp: oidc_inv_def state_save_def identity_add_def purge_expired_def Let_def distinct_map_filter)

lemma oidc_steps_inv: "oidc_steps env port savable db db' \<Longrightarrow> oidc_inv db \<Longrightarrow> oidc_inv db'"
  by (induction rule: oidc_steps.induct) (auto intro: oidc_step_inv)

lemma empty_oidc_inv: "oidc_inv empty_oidc"
  by (simp add: oidc_inv_def empty_auth_inv)

lemma oidc_step_gone:
  "oidc_step env port savable db db' \<Longrightarrow> \<not> savable h \<Longrightarrow> h \<notin> ls_hash ` set (od_states db) \<Longrightarrow> h \<notin> ls_hash ` set (od_states db')"
proof (induction rule: oidc_step.induct)
  case (login tenant org h' code redirect sid tid secret now db s db' s' r)
  with complete_login_state(1) [OF login(1)] show ?case by auto
qed (auto simp: state_save_def identity_add_def purge_expired_def Let_def)

lemma oidc_steps_gone:
  "oidc_steps env port savable db db' \<Longrightarrow> \<not> savable h \<Longrightarrow> h \<notin> ls_hash ` set (od_states db) \<Longrightarrow> h \<notin> ls_hash ` set (od_states db')"
  by (induction rule: oidc_steps.induct) (auto dest: oidc_step_gone)

text \<open>C28: A login state completes at most one login. In every history of the tables, once a callback has
turned the state of hash \<open>h\<close> into a session, no later callback presenting it - for whatever tenant, code or
moment, after any further logins, purges, links and sessions - gets further than the state store: it is
refused, the identity provider is not contacted and no session or token is made.\<close>

theorem oidc_login_single_use:
  assumes "oidc_steps env port (\<lambda>_. True) empty_oidc db"
    and "complete_login env port tenant org h code redirect sid tid secret now (db, s) = ((db1, s1), Inr tokens)"
    and "oidc_steps env port (\<lambda>x. x \<noteq> h) db1 db2"
    and "complete_login env port tenant2 org2 h code2 redirect2 sid2 tid2 secret2 later (db2, s2) = ((db3, s3), r)"
  shows "r = Inl OidcStateInvalidError \<and> s3 = s2 \<and>
    db_sessions (od_auth db3) = db_sessions (od_auth db2) \<and> db_refresh (od_auth db3) = db_refresh (od_auth db2)"
proof -
  have d: "distinct (map ls_hash (od_states db))" using oidc_steps_inv [OF assms(1) empty_oidc_inv] by (simp add: oidc_inv_def)
  obtain st where st: "st \<in> set (od_states db)" "ls_hash st = h" "ls_organization st = tenant"
    using assms(2) by (cases rule: complete_login_cases) (auto dest: state_consume_cases(4))
  have "h \<notin> ls_hash ` set (od_states db1)"
    unfolding complete_login_state(1) [OF assms(2)] using unique_by [OF d _ st(1)] st(2,3) by auto
  then have g: "h \<notin> ls_hash ` set (od_states db2)" using oidc_steps_gone [OF assms(3)] by simp
  obtain db4 a where c: "state_consume tenant2 h later db2 = (db4, a)" by fastforce
  then have "a = None" using g state_consume_cases(4) [OF c] by (cases a) auto
  with assms(4) c state_consume_cases(1) [OF c] show ?thesis by (cases rule: complete_login_cases) auto
qed

text \<open>What stands behind an accepted identity token: a signature by a current key of the provider over
  claims that carry the login's nonce and name the linked subject.\<close>

definition identity_proven ::
  "'w idp_env \<Rightarrow> readings \<Rightarrow> jwks_cache \<Rightarrow> string \<Rightarrow> login_state \<Rightarrow> oauth_identity \<Rightarrow> bool" where
  "identity_proven e ts cache token st i \<longleftrightarrow>
     (\<exists>kid jwk k claims n sub. current_key (ie_jwks e) ts kid jwk cache \<and> il_key (ie_library e) jwk = Inr k \<and>
        il_decode (ie_library e) token k (oc_issuer (ie_config e)) (oc_client (ie_config e)) = Inr claims \<and>
        map_of claims ''nonce'' = Some (JStr n) \<and> sha256_hex (ie_sha e) n = ls_nonce_hash st \<and>
        map_of claims ''sub'' = Some sub \<and> oi_subject i = json_str sub \<and> oi_provider i = ls_provider st)"

lemma login_proves:
  assumes "complete_login env (oidc_adapter e ts) tenant org h code redirect sid tid secret now (db, (c, w)) = ((db', (c', w')), Inr tokens)"
    and "\<forall>st\<in>set (od_states db). ls_nonce_hash st \<noteq> []"
  obtains st i tr access w1 where
    "st \<in> set (od_states db)" "ls_hash st = h" "ls_organization st = org" "org = tenant" "now < ls_expires st"
    "exchange_code (ie_config e) (ie_post e) code (ls_verifier st) (if redirect = [] then ls_redirect st else redirect) w = (w1, Inr tr)"
    "i \<in> set (od_identities db)" "oi_organization i = org" "identity_proven e ts c' (tr_id_token tr) st i"
    "se_mint env (user_principal (oi_user i) org) (se_access_ttl env) = Inr access"
    "tokens = \<lparr>it_access = access, it_refresh = secret\<rparr>"
    "\<exists>s. db_sessions (od_auth db') = db_sessions (od_auth db) @ [s] \<and> ss_user s = oi_user i \<and> ss_organization s = org"
    "db_audit (od_auth db') = db_audit (od_auth db) @ [login_event Success org (Some (oi_user i)) None]"
  using assms(1)
proof (cases rule: complete_login_cases)
  case (linked st db1 s1 tr cl i)
  note k = state_consume_cases [OF linked(1)]
  from k(4) linked(2) have st: "st \<in> set (od_states db)" "ls_hash st = h" "ls_organization st = org" "org = tenant" "now < ls_expires st"
    by auto
  obtain w1 where w1: "s1 = (c, w1)"
    "exchange_code (ie_config e) (ie_post e) code (ls_verifier st) (if redirect = [] then ls_redirect st else redirect) w = (w1, Inr tr)"
    using linked(3) by (auto simp: oidc_adapter_def split: prod.splits)
  have v: "verify_id_token (ie_sha e) (ie_config e) (ie_jwks e) (ie_library e) (ie_fetch e) ts (tr_id_token tr) (ls_nonce_hash st) s1 =
      ((c', w'), Inr cl)"
    using linked(4) by (simp add: oidc_adapter_def)
  have i: "i \<in> set (od_identities db)" "oi_provider i = ls_provider st" "oi_subject i = ic_subject cl" "oi_organization i = tenant"
    using linked(5) k(2) by (auto simp: get_by_subject_def find_Some_iff)
  have "ls_nonce_hash st \<noteq> []" using assms(2) st(1) by blast
  from verify_id_token_sound [OF v this] i(2,3) have "identity_proven e ts c' (tr_id_token tr) st i"
    unfolding identity_proven_def by (metis fst_conv)
  moreover from linked(6) obtain access where "se_mint env (user_principal (oi_user i) org) (se_access_ttl env) = Inr access"
    "tokens = \<lparr>it_access = access, it_refresh = secret\<rparr>"
    "\<exists>s. db_sessions (od_auth db') = db_sessions (od_auth db1) @ [s] \<and> ss_user s = oi_user i \<and> ss_organization s = org"
    "db_audit (od_auth db') = db_audit (od_auth db1) @ [login_event Success org (Some (oi_user i)) None]"
    by (rule open_session_success) auto
  ultimately show ?thesis using that st w1(2) i(1,4) k(1) by metis
qed simp_all


text \<open>A login the provider fails leaves no audit record. When the code is not redeemed or the identity
token is not accepted, the callback raises with the audit log as it was: only a state, a tenant or an
identity that is unknown is recorded, although every failure is said to be audited.\<close>

theorem oidc_provider_failure_unaudited:
  assumes "complete_login env port tenant org h code redirect sid tid secret now (db, s) = ((db', s'), Inl x)"
    and "state_consume tenant h now db = (db1, Some st)" "ls_organization st = org"
    and "op_exchange port code (ls_verifier st) (if redirect = [] then ls_redirect st else redirect) s = (s1, a)"
    and "a = Inl x \<or> (\<exists>tr. a = Inr tr \<and> snd (op_verify port (tr_id_token tr) (ls_nonce_hash st) s1) = Inl x)"
  shows "db_audit (od_auth db') = db_audit (od_auth db)"
  using assms(1)
proof (cases rule: complete_login_cases)
  case (unredeemed st2 db2 y)
  with assms(2) state_consume_cases(1) [OF assms(2)] show ?thesis by simp
next
  case (unverified st2 db2 s3 tr y)
  with assms(2) state_consume_cases(1) [OF assms(2)] show ?thesis by simp
qed (use assms(2-5) in auto)

subsection \<open>A concrete login\<close>

definition sample_idp :: "nat idp_env" where
  "sample_idp =
     \<lparr>ie_sha = (\<lambda>s. s),
      ie_config = \<lparr>oc_issuer = ''idp'', oc_client = ''gw'', oc_secret = ''s'', oc_authorization = ''https://idp/a'',
        oc_token = ''https://idp/t'', oc_scopes = default_scopes\<rparr>,
      ie_jwks = default_jwks,
      ie_library = \<lparr>il_header = (\<lambda>t. Inr [(''alg'', JStr ''RS256''), (''kid'', JStr ''k1'')]), il_key = (\<lambda>jwk. Inr ''one''),
        il_decode = (\<lambda>t k issuer client. if t = ''t1'' then Inr [(''sub'', JStr ''u9''), (''iss'', JStr ''idp''), (''nonce'', JStr ''n'')]
          else Inl pyjwt_error)\<rparr>,
      ie_fetch = sample_fetch,
      ie_post = (\<lambda>url fs w. (w, if map_of fs ''code'' = Some ''c1'' then Inr (JObj [(''id_token'', JStr ''t1'')])
        else Inl (OtherException ''HTTPStatusError'')))\<rparr>"

definition sample_state :: login_state where
  "sample_state = \<lparr>ls_id = 1, ls_organization = 7, ls_hash = ''68'', ls_nonce_hash = ''6e'', ls_verifier = ''v'',
     ls_provider = ''okta'', ls_redirect = ''https://gw/cb'', ls_expires = 300, ls_return = None\<rparr>"

lemma sample_state_simps [simp]:
  "ls_organization sample_state = 7" "ls_hash sample_state = ''68''" "ls_expires sample_state = 300"
  by (simp_all add: sample_state_def)

definition sample_oidc_db :: oidc_db where
  "sample_oidc_db = fst (state_save 7 sample_state (fst (identity_add 7
     \<lparr>oi_id = 2, oi_organization = 7, oi_user = 9, oi_provider = ''okta'', oi_subject = ''u9''\<rparr> empty_oidc)))"

definition sample_callback :: "string \<Rightarrow> uuid \<Rightarrow> oidc_db \<times> jwks_cache \<times> nat \<Rightarrow> (oidc_db \<times> jwks_cache \<times> nat) \<times> issued_tokens res" where
  "sample_callback code sid s =
     complete_login sample_auth (oidc_adapter sample_idp (10, 10, 11)) 7 7 ''68'' code [] sid sid ''r'' 20 s"

lemma sample_login:
  "snd (sample_callback ''c1'' 3 (sample_oidc_db, empty_jwks, 0)) = Inr \<lparr>it_access = ''user-9'', it_refresh = ''r''\<rparr>"
  by code_simp

lemma sample_oidc_reachable: "oidc_steps sample_auth port savable empty_oidc sample_oidc_db" if "savable ''68''"
proof -
  have "ls_hash sample_state = ''68''" by (simp add: sample_state_def)
  with that have "savable (ls_hash sample_state)" by simp
  then show ?thesis unfolding sample_oidc_db_def
    by (rule oidc_steps.more [OF oidc_steps.more [OF oidc_steps.start oidc_step.link] oidc_step.save])
qed

theorem oidc_login_single_use_witness:
  "\<exists>db1 c1. fst (sample_callback ''c1'' 3 (sample_oidc_db, empty_jwks, 0)) = (db1, c1) \<and>
     snd (sample_callback ''c1'' 4 (db1, c1)) = Inl OidcStateInvalidError"
proof -
  obtain db1 c1 where l: "fst (sample_callback ''c1'' 3 (sample_oidc_db, empty_jwks, 0)) = (db1, c1)" by (rule prod.exhaust)
  then have e: "sample_callback ''c1'' 3 (sample_oidc_db, empty_jwks, 0) = ((db1, c1), Inr \<lparr>it_access = ''user-9'', it_refresh = ''r''\<rparr>)"
    using sample_login by (simp add: prod_eq_iff)
  obtain db3 c3 r where n: "sample_callback ''c1'' 4 (db1, c1) = ((db3, c3), r)" by (metis prod.collapse)
  have "r = Inl OidcStateInvalidError"
    using oidc_login_single_use [OF sample_oidc_reachable [OF TrueI] e [unfolded sample_callback_def] oidc_steps.start
        n [unfolded sample_callback_def]] by blast
  with l n show ?thesis by auto
qed


theorem oidc_provider_failure_unaudited_witness:
  "snd (sample_callback ''c2'' 3 (sample_oidc_db, empty_jwks, 0)) = Inl OidcExchangeError \<and>
   db_audit (od_auth (fst (fst (sample_callback ''c2'' 3 (sample_oidc_db, empty_jwks, 0))))) = []"
proof -
  have r: "snd (sample_callback ''c2'' 3 (sample_oidc_db, empty_jwks, 0)) = Inl OidcExchangeError" by code_simp
  then obtain db' s' where e: "sample_callback ''c2'' 3 (sample_oidc_db, empty_jwks, 0) = ((db', s'), Inl OidcExchangeError)"
    by (metis prod.collapse)
  have st: "od_states sample_oidc_db = [sample_state]" "db_audit (od_auth sample_oidc_db) = []"
    by (simp_all add: sample_oidc_db_def state_save_def identity_add_def)
  obtain db1 where c: "state_consume 7 ''68'' 20 sample_oidc_db = (db1, Some sample_state)"
    using st(1) by (simp add: state_consume_def Let_def)
  have o: "ls_organization sample_state = 7" by simp
  have x: "op_exchange (oidc_adapter sample_idp (10, 10, 11)) ''c2'' (ls_verifier sample_state)
      (if [] = [] then ls_redirect sample_state else []) (empty_jwks, 0) = ((empty_jwks, 0), Inl OidcExchangeError)"
    by (simp add: oidc_adapter_def exchange_code_def sample_idp_def)
  from oidc_provider_failure_unaudited [OF e [unfolded sample_callback_def] c o x] e r st(2) show ?thesis by simp
qed

end
