(* ===== verification/Rate_Limit.thy ===== *)
theory Rate_Limit imports Floating Cache begin

text \<open>
  Ingress rate limiting: the port (\<open>application/ports/rate_limit.py\<close>), the in-process token bucket
  (\<open>adapters/ratelimit/in_memory_token_bucket.py\<close>), the shared bucket whose arithmetic is the Lua
  script of \<open>adapters/ratelimit/redis_token_bucket.py\<close>, and the fallback between the two
  (\<open>adapters/ratelimit/degraded.py\<close>). Tokens, rates and seconds are binary64 numbers (\<^verbatim>\<open>float64\<close>).
  The Redis server is a map from keys to hashes; what it answers, and which keys have expired, is
  an argument of each call.
\<close>

subsection \<open>Policy, decision, port\<close>

record rate_limit_policy =
  rp_rate :: rat
  rp_burst :: int

definition rate_limit_policy_new :: "rat \<Rightarrow> int \<Rightarrow> rate_limit_policy res" where
  "rate_limit_policy_new rate burst =
     (if rate \<le> 0 then Inl ValueError
      else if burst < 1 then Inl ValueError
      else Inr \<lparr>rp_rate = rate, rp_burst = burst\<rparr>)"

record rate_limit_decision =
  rl_allowed :: bool
  rl_limit :: int
  rl_remaining :: int
  rl_reset :: int
  rl_retry_after :: "int option"

definition rate_limit_decision_new ::
  "bool \<Rightarrow> int \<Rightarrow> int \<Rightarrow> int \<Rightarrow> int option \<Rightarrow> rate_limit_decision res" where
  "rate_limit_decision_new ok limit remaining reset retry =
     (if ok \<and> retry \<noteq> None then Inl ValueError
      else if \<not> ok \<and> retry = None then Inl ValueError
      else Inr \<lparr>rl_allowed = ok, rl_limit = limit, rl_remaining = remaining, rl_reset = reset,
                rl_retry_after = retry\<rparr>)"

text \<open>
  What a limiter promises its caller: every answer is a decision or an honest "unavailable", and an
  answer touches the allowance of the tenant it was asked for and no other. \<open>'e\<close> is what a call
  finds outside the limiter (a clock reading, a server's answer), \<open>allowance\<close> what a state says of
  one tenant.
\<close>

type_synonym ('e, 's) limiter = "'e \<Rightarrow> uuid \<Rightarrow> 's \<Rightarrow> 's \<times> rate_limit_decision res"

locale rate_limiter =
  fixes acquire :: "('e, 's) limiter"
    and allowance :: "'s \<Rightarrow> uuid \<Rightarrow> 'a"
    and answers :: "'e \<Rightarrow> bool"
    and tenant :: "uuid \<Rightarrow> bool"
    and limit :: int
  assumes acquire_answers: "answers e \<Longrightarrow> \<exists>d. snd (acquire e org s) = Inr d \<and> rl_limit d = limit \<and>
            (rl_allowed d \<longrightarrow> rl_retry_after d = None) \<and>
            (\<not> rl_allowed d \<longrightarrow> (\<exists>k \<ge> 1. rl_retry_after d = Some k))"
    and acquire_silent: "\<not> answers e \<Longrightarrow> snd (acquire e org s) = Inl RateLimiterUnavailableError"
    and acquire_other: "tenant org \<Longrightarrow> tenant org' \<Longrightarrow> org' \<noteq> org \<Longrightarrow> allowance (fst (acquire e org s)) org' = allowance s org'"
begin

lemma error_is_outage: "snd (acquire e org s) = Inl x \<Longrightarrow> x = RateLimiterUnavailableError \<and> \<not> answers e"
  using acquire_answers [of e org s] acquire_silent [of e org s] by (cases "answers e") auto

lemma denial_says_when:
  "snd (acquire e org s) = Inr d \<Longrightarrow> \<not> rl_allowed d \<Longrightarrow> \<exists>k \<ge> 1. rl_retry_after d = Some k"
  using acquire_answers [of e org s] acquire_silent [of e org s] by (cases "answers e") auto

end

subsection \<open>InMemoryTokenBucketRateLimiter\<close>

record bucket =
  bk_tokens :: rat
  bk_updated :: instant

type_synonym bucket_limiter = "uuid \<rightharpoonup> bucket"

definition refill :: "rate_limit_policy \<Rightarrow> bucket \<Rightarrow> instant \<Rightarrow> bucket" where
  "refill p b now =
     (let elapsed = max 0 (total_seconds (now - bk_updated b))
      in b\<lparr>bk_tokens := min (float64 (of_int (rp_burst p)))
                            (float64 (bk_tokens b + float64 (elapsed * rp_rate p))),
           bk_updated := now\<rparr>)"

definition seconds_to_next_token :: "rate_limit_policy \<Rightarrow> bucket \<Rightarrow> int" where
  "seconds_to_next_token p b =
     (let deficit = float64 (1 - bk_tokens b) in max 1 \<lceil>float64 (deficit / rp_rate p)\<rceil>)"

definition seconds_to_full :: "rate_limit_policy \<Rightarrow> bucket \<Rightarrow> int" where
  "seconds_to_full p b =
     (let deficit = float64 (float64 (of_int (rp_burst p)) - bk_tokens b)
      in if deficit \<le> 0 then 0 else max 1 \<lceil>float64 (deficit / rp_rate p)\<rceil>)"

definition bucket_for :: "rate_limit_policy \<Rightarrow> uuid \<Rightarrow> instant \<Rightarrow> bucket_limiter \<Rightarrow> bucket" where
  "bucket_for p org now st =
     (case st org of
        None \<Rightarrow> \<lparr>bk_tokens = float64 (of_int (rp_burst p)), bk_updated = now\<rparr>
      | Some b \<Rightarrow> refill p b now)"

definition bucket_acquire :: "rate_limit_policy \<Rightarrow> (instant, bucket_limiter) limiter" where
  "bucket_acquire p now org st =
     (let b = bucket_for p org now st
      in if 1 \<le> bk_tokens b
         then (let b' = b\<lparr>bk_tokens := float64 (bk_tokens b - 1)\<rparr>
               in (st(org \<mapsto> b'),
                   rate_limit_decision_new True (rp_burst p) (trunc (bk_tokens b')) (seconds_to_full p b') None))
         else (st(org \<mapsto> b),
               rate_limit_decision_new False (rp_burst p) 0 (seconds_to_full p b)
                 (Some (seconds_to_next_token p b))))"

subsection \<open>RedisTokenBucketRateLimiter\<close>

text \<open>
  The script runs against one key. \<^verbatim>\<open>TIME\<close> answers whole seconds and microseconds; the stored hash
  holds two numbers, printed with 17 significant digits, so they are read back unchanged.
\<close>

record script_result =
  sr_tokens :: rat
  sr_updated :: rat
  sr_allowed :: int
  sr_remaining :: int
  sr_ttl :: int
  sr_retry :: int

definition acquire_script ::
  "int \<Rightarrow> rat \<Rightarrow> int \<times> int \<Rightarrow> rat option \<times> rat option \<Rightarrow> script_result" where
  "acquire_script burst rate time stored =
     (let cap = float64 (of_int burst);
          now = float64 (of_int (fst time) + float64 (of_int (snd time) / of_int second));
          (tokens, updated) = (case stored of (Some t, Some u) \<Rightarrow> (t, u) | _ \<Rightarrow> (cap, now));
          elapsed = (let e = float64 (now - updated) in if e < 0 then 0 else e);
          refilled = min cap (float64 (tokens + float64 (elapsed * rate)));
          allowed = (if 1 \<le> refilled then 1 else 0);
          left = (if 1 \<le> refilled then float64 (refilled - 1) else refilled);
          ttl = (let s = \<lceil>float64 (float64 (cap - left) / rate)\<rceil> in if s < 1 then 1 else s);
          retry = (if allowed = 0
                   then (let s = \<lceil>float64 (float64 (1 - left) / rate)\<rceil> in if s < 1 then 1 else s)
                   else 0)
      in \<lparr>sr_tokens = left, sr_updated = now, sr_allowed = allowed, sr_remaining = \<lfloor>left\<rfloor>,
          sr_ttl = ttl, sr_retry = retry\<rparr>)"

record redis_hash =
  rh_tokens :: rat
  rh_updated :: rat
  rh_ttl :: int

type_synonym redis = "string \<rightharpoonup> redis_hash"

text \<open>
  What one call finds: the server runs the script at \<^verbatim>\<open>TIME\<close> (having dropped the keys \<^verbatim>\<open>gone\<close> says have
  expired) and the reply arrives, or the reply is lost after the script ran (a read timeout), or the
  server is not reached at all.
\<close>

record server_time =
  st_time :: "int \<times> int"
  st_gone :: "string \<Rightarrow> bool"

datatype redis_answer = Replied server_time | Reply_Lost server_time | Unreachable

definition limiter_key :: "string \<Rightarrow> uuid \<Rightarrow> string" where
  "limiter_key prefix org = prefix @ '':rl:'' @ uuid_text org"

definition stored_hash :: "server_time \<Rightarrow> string \<Rightarrow> redis \<Rightarrow> rat option \<times> rat option" where
  "stored_hash t key db =
     (case db key of
        None \<Rightarrow> (None, None)
      | Some h \<Rightarrow> if st_gone t key then (None, None) else (Some (rh_tokens h), Some (rh_updated h)))"

definition run_script ::
  "rate_limit_policy \<Rightarrow> string \<Rightarrow> server_time \<Rightarrow> redis \<Rightarrow> redis \<times> script_result" where
  "run_script p key t db =
     (let r = acquire_script (rp_burst p) (rp_rate p) (st_time t) (stored_hash t key db)
      in (db(key \<mapsto> \<lparr>rh_tokens = sr_tokens r, rh_updated = sr_updated r, rh_ttl = sr_ttl r\<rparr>), r))"

definition redis_acquire :: "rate_limit_policy \<Rightarrow> string \<Rightarrow> (redis_answer, redis) limiter" where
  "redis_acquire p prefix answer org db =
     (case answer of
        Unreachable \<Rightarrow> (db, Inl RateLimiterUnavailableError)
      | Reply_Lost t \<Rightarrow> (fst (run_script p (limiter_key prefix org) t db), Inl RateLimiterUnavailableError)
      | Replied t \<Rightarrow>
          (let (db', r) = run_script p (limiter_key prefix org) t db
           in (db', rate_limit_decision_new (sr_allowed r \<noteq> 0) (rp_burst p) (sr_remaining r) (sr_ttl r)
                 (if sr_allowed r \<noteq> 0 then None else Some (max 1 (sr_retry r))))))"

subsection \<open>DegradedRateLimiter\<close>

record ('s, 'l) degraded_limiter =
  dl_shared :: 's
  dl_local :: 'l
  dl_degraded :: bool

definition degraded_acquire ::
  "('e, 's) limiter \<Rightarrow> ('f, 'l) limiter \<Rightarrow> ('e \<times> 'f, ('s, 'l) degraded_limiter) limiter" where
  "degraded_acquire shared local e org st =
     (case shared (fst e) org (dl_shared st) of
        (s, Inl x) \<Rightarrow>
          (if x = RateLimiterUnavailableError
           then (let (l, r) = local (snd e) org (dl_local st)
                 in (st\<lparr>dl_shared := s, dl_local := l, dl_degraded := True\<rparr>, r))
           else (st\<lparr>dl_shared := s\<rparr>, Inl x))
      | (s, Inr d) \<Rightarrow> (st\<lparr>dl_shared := s, dl_degraded := False\<rparr>, Inr d))"

subsection \<open>Tokens stay between nothing and the capacity\<close>

definition policy_ok :: "rate_limit_policy \<Rightarrow> bool" where
  "policy_ok p \<longleftrightarrow> 0 < rp_rate p \<and> 1 \<le> rp_burst p \<and> rp_burst p \<le> 2 ^ 53"

lemma policy_new_ok: "rate_limit_policy_new rate burst = Inr p \<Longrightarrow> burst \<le> 2 ^ 53 \<Longrightarrow> policy_ok p"
  by (auto simp: rate_limit_policy_new_def policy_ok_def split: if_splits)

lemma policy_cap: "policy_ok p \<Longrightarrow> float64 (of_int (rp_burst p)) = of_int (rp_burst p)"
  by (rule float64_of_int) (simp add: policy_ok_def)

definition bucket_ok :: "rate_limit_policy \<Rightarrow> bucket \<Rightarrow> bool" where
  "bucket_ok p b \<longleftrightarrow> 0 \<le> bk_tokens b \<and> bk_tokens b \<le> of_int (rp_burst p)"

definition limiter_inv :: "rate_limit_policy \<Rightarrow> bucket_limiter \<Rightarrow> bool" where
  "limiter_inv p st \<longleftrightarrow> (\<forall>org b. st org = Some b \<longrightarrow> bucket_ok p b)"

lemma take_bounds:
  assumes "1 \<le> t" "t \<le> of_int n" "n \<le> 2 ^ 53"
  shows "0 \<le> float64 (t - 1) \<and> float64 (t - 1) \<le> of_int (n - 1)"
proof -
  have "1 \<le> n" using assms(1,2) by (metis of_int_1_le_iff order_trans)
  moreover have "float64 (t - 1) \<le> float64 (of_int (n - 1))" using assms by (intro float64_mono) simp
  moreover have "float64 (of_int (n - 1)) = of_int (n - 1)" using calculation(1) assms(3) by (intro float64_of_int) simp
  ultimately show ?thesis using assms(1) by simp
qed

lemma refill_ok: "policy_ok p \<Longrightarrow> bucket_ok p b \<Longrightarrow> bucket_ok p (refill p b now)"
  by (auto simp: bucket_ok_def refill_def Let_def policy_cap policy_ok_def intro!: float64_nonneg
      add_nonneg_nonneg mult_nonneg_nonneg)

lemma bucket_for_ok: "policy_ok p \<Longrightarrow> limiter_inv p st \<Longrightarrow> bucket_ok p (bucket_for p org now st)"
  by (auto simp: bucket_for_def limiter_inv_def refill_ok policy_cap split: option.splits)
    (auto simp: bucket_ok_def policy_ok_def)

lemma bucket_acquire_inv:
  assumes "policy_ok p" "limiter_inv p st"
  shows "limiter_inv p (fst (bucket_acquire p now org st))"
proof -
  have b: "bucket_ok p (bucket_for p org now st)" using bucket_for_ok [OF assms] .
  then have "bucket_ok p ((bucket_for p org now st)
      \<lparr>bk_tokens := float64 (bk_tokens (bucket_for p org now st) - 1)\<rparr>)"
    if "1 \<le> bk_tokens (bucket_for p org now st)"
    using take_bounds [OF that, of "rp_burst p"] assms(1) by (auto simp: bucket_ok_def policy_ok_def)
  with b assms(2) show ?thesis by (auto simp: bucket_acquire_def Let_def limiter_inv_def)
qed

lemma decision_new_simps [simp]:
  "rate_limit_decision_new True limit remaining reset None =
     Inr \<lparr>rl_allowed = True, rl_limit = limit, rl_remaining = remaining, rl_reset = reset, rl_retry_after = None\<rparr>"
  "rate_limit_decision_new False limit remaining reset (Some k) =
     Inr \<lparr>rl_allowed = False, rl_limit = limit, rl_remaining = remaining, rl_reset = reset, rl_retry_after = Some k\<rparr>"
  by (simp_all add: rate_limit_decision_new_def)

subsection \<open>The two limiters and the fallback keep the port's promise\<close>

definition is_uuid :: "uuid \<Rightarrow> bool" where
  "is_uuid u \<longleftrightarrow> u < 2 ^ 128"

lemma limiter_key_inj:
  "is_uuid u \<Longrightarrow> is_uuid v \<Longrightarrow> limiter_key prefix u = limiter_key prefix v \<Longrightarrow> u = v"
  by (auto simp: limiter_key_def is_uuid_def intro: uuid_text_inj)

interpretation local_limiter: rate_limiter "bucket_acquire p" "\<lambda>st. st" "\<lambda>now. True" is_uuid "rp_burst p" for p
  by unfold_locales (auto simp: bucket_acquire_def Let_def seconds_to_next_token_def)

fun replied :: "redis_answer \<Rightarrow> bool" where
  "replied (Replied t) = True"
| "replied _ = False"

interpretation shared_limiter: rate_limiter "redis_acquire p prefix"
  "\<lambda>db org. db (limiter_key prefix org)" replied is_uuid "rp_burst p" for p prefix
  by unfold_locales
    (auto simp: redis_acquire_def run_script_def Let_def dest: limiter_key_inj split: redis_answer.splits)

locale fallback =
  shared: rate_limiter acq al ans tenant limit + local: rate_limiter acq' al' ans' tenant limit
  for acq :: "('e, 's) limiter" and al :: "'s \<Rightarrow> uuid \<Rightarrow> 'a" and ans
    and acq' :: "('f, 'l) limiter" and al' :: "'l \<Rightarrow> uuid \<Rightarrow> 'b" and ans' and tenant limit
begin

text \<open>An answer of the shared limiter stands; its silence is answered by the local one.\<close>

lemma shared_stands:
  assumes "ans e"
  shows "snd (degraded_acquire acq acq' (e, f) org st) = snd (acq e org (dl_shared st))"
    "dl_local (fst (degraded_acquire acq acq' (e, f) org st)) = dl_local st"
    "\<not> dl_degraded (fst (degraded_acquire acq acq' (e, f) org st))"
  using shared.acquire_answers [OF assms, of org "dl_shared st"]
  by (auto simp: degraded_acquire_def split: prod.splits sum.splits)

lemma local_answers:
  assumes "\<not> ans e"
  shows "snd (degraded_acquire acq acq' (e, f) org st) = snd (acq' f org (dl_local st))"
    "dl_local (fst (degraded_acquire acq acq' (e, f) org st)) = fst (acq' f org (dl_local st))"
    "dl_degraded (fst (degraded_acquire acq acq' (e, f) org st))"
  using shared.acquire_silent [OF assms, of org "dl_shared st"]
  by (auto simp: degraded_acquire_def split: prod.splits sum.splits)

lemma shared_state:
  "dl_shared (fst (degraded_acquire acq acq' (e, f) org st)) = fst (acq e org (dl_shared st))"
  by (auto simp: degraded_acquire_def split: prod.splits sum.splits)

end

sublocale fallback \<subseteq> degraded: rate_limiter "degraded_acquire acq acq'"
  "\<lambda>st org. (al (dl_shared st) org, al' (dl_local st) org)" "\<lambda>(e, f). ans e \<or> ans' f" tenant limit
proof
  fix e :: "'e \<times> 'f" and org st
  obtain e1 f where e: "e = (e1, f)" by (cases e)
  show "\<exists>d. snd (degraded_acquire acq acq' e org st) = Inr d \<and> rl_limit d = limit \<and>
      (rl_allowed d \<longrightarrow> rl_retry_after d = None) \<and> (\<not> rl_allowed d \<longrightarrow> (\<exists>k \<ge> 1. rl_retry_after d = Some k))"
    if "case e of (e, f) \<Rightarrow> ans e \<or> ans' f"
    using that shared.acquire_answers [of e1 org "dl_shared st"] local.acquire_answers [of f org "dl_local st"]
    by (cases "ans e1") (simp_all add: e shared_stands local_answers)
  show "snd (degraded_acquire acq acq' e org st) = Inl RateLimiterUnavailableError"
    if "\<not> (case e of (e, f) \<Rightarrow> ans e \<or> ans' f)"
    using that local.acquire_silent [of f org "dl_local st"] by (simp add: e local_answers)
  fix org'
  show "(al (dl_shared (fst (degraded_acquire acq acq' e org st))) org',
      al' (dl_local (fst (degraded_acquire acq acq' e org st))) org') =
      (al (dl_shared st) org', al' (dl_local st) org')"
    if "tenant org" "tenant org'" "org' \<noteq> org"
    using that shared.acquire_other [of org org' e1 "dl_shared st"]
      local.acquire_other [of org org' f "dl_local st"]
    by (cases "ans e1") (simp_all add: e shared_state shared_stands local_answers)
qed

interpretation gateway_limiter: fallback "redis_acquire p prefix" "\<lambda>db org. db (limiter_key prefix org)"
  replied "bucket_acquire p" "\<lambda>st. st" "\<lambda>now. True" is_uuid "rp_burst p" for p prefix
  by unfold_locales

subsection \<open>Sequences of calls\<close>

fun bucket_run :: "rate_limit_policy \<Rightarrow> (instant \<times> uuid) list \<Rightarrow> bucket_limiter \<Rightarrow>
    bucket_limiter \<times> (uuid \<times> rate_limit_decision res) list" where
  "bucket_run p [] st = (st, [])"
| "bucket_run p ((now, org) # calls) st =
     (let (st1, d) = bucket_acquire p now org st; (st2, ds) = bucket_run p calls st1
      in (st2, (org, d) # ds))"

fun allows :: "rate_limit_decision res \<Rightarrow> bool" where
  "allows (Inr d) = rl_allowed d"
| "allows (Inl x) = False"

definition grants :: "uuid \<Rightarrow> (uuid \<times> rate_limit_decision res) list \<Rightarrow> nat" where
  "grants org ds = length (filter (\<lambda>(o', d). o' = org \<and> allows d) ds)"

definition calls_of :: "uuid \<Rightarrow> (instant \<times> uuid) list \<Rightarrow> instant list" where
  "calls_of org calls = map fst (filter (\<lambda>(now, o'). o' = org) calls)"

text \<open>How far a sequence of clock readings moves forward; steps back do not count.\<close>

fun forward :: "instant list \<Rightarrow> duration" where
  "forward (a # b # ts) = max 0 (b - a) + forward (b # ts)"
| "forward ts = 0"

lemma grants_simps [simp]:
  "grants org [] = 0"
  "grants org ((o', d) # ds) = (if o' = org \<and> allows d then 1 else 0) + grants org ds"
  by (auto simp: grants_def)

lemma calls_of_simps [simp]:
  "calls_of org [] = []"
  "calls_of org ((now, o') # calls) = (if o' = org then now # calls_of org calls else calls_of org calls)"
  by (auto simp: calls_of_def)

lemma bucket_acquire_inv':
  "bucket_acquire p now org st = (st', d) \<Longrightarrow> policy_ok p \<Longrightarrow> limiter_inv p st \<Longrightarrow> limiter_inv p st'"
  using bucket_acquire_inv [of p st now org] by simp

lemma bucket_run_inv:
  "policy_ok p \<Longrightarrow> limiter_inv p st \<Longrightarrow> limiter_inv p (fst (bucket_run p calls st))"
  by (induction p calls st rule: bucket_run.induct)
    (auto simp: Let_def split: prod.splits, metis bucket_acquire_inv')

text \<open>The most that a forward step of the clock adds, with the three roundings of the refill.\<close>

definition growth :: "rate_limit_policy \<Rightarrow> duration \<Rightarrow> rat" where
  "growth p d = of_int d / of_int second * rp_rate p * (1 + ulp_half) ^ 3"

definition slack :: "rate_limit_policy \<Rightarrow> rat" where
  "slack p = of_int (rp_burst p) * ulp_half"

lemma growth_add: "growth p (a + b) = growth p a + growth p b"
  by (simp add: growth_def add_divide_distrib distrib_right)

lemma refill_le:
  assumes "policy_ok p" "bucket_ok p b"
  shows "bk_tokens (refill p b now) \<le> bk_tokens b + growth p (max 0 (now - bk_updated b)) + slack p"
proof -
  let ?d = "max 0 (now - bk_updated b)" and ?u = "1 + ulp_half"
  let ?e = "max 0 (total_seconds (now - bk_updated b))"
  let ?s = "bk_tokens b + float64 (?e * rp_rate p)"
  have r: "0 < rp_rate p" and t: "0 \<le> bk_tokens b" "bk_tokens b \<le> of_int (rp_burst p)" and u: "0 < ulp_half"
    using assms ulp_half_pos by (auto simp: policy_ok_def bucket_ok_def)
  have e: "?e \<le> of_int ?d / of_int second * ?u"
  proof (cases "0 \<le> now - bk_updated b")
    case True
    then have "total_seconds (now - bk_updated b) \<le> of_int (now - bk_updated b) / of_int second * ?u"
      unfolding total_seconds_def by (intro float64_le) simp
    moreover have "0 \<le> of_int (now - bk_updated b) / of_int second * ?u"
      using True u by (intro mult_nonneg_nonneg divide_nonneg_nonneg) auto
    moreover have "?d = now - bk_updated b" using True by simp
    ultimately show ?thesis by (simp only: max.bounded_iff)
  next
    case False
    then have "total_seconds (now - bk_updated b) \<le> total_seconds 0"
      unfolding total_seconds_def by (intro float64_mono divide_right_mono) auto
    with False show ?thesis by (simp add: total_seconds_def)
  qed
  have "float64 (?e * rp_rate p) \<le> ?e * rp_rate p * ?u" using r by (intro float64_le) simp
  also have "\<dots> \<le> of_int ?d / of_int second * ?u * rp_rate p * ?u"
    using e r u by (intro mult_right_mono) auto
  finally have p: "float64 (?e * rp_rate p) \<le> of_int ?d / of_int second * rp_rate p * ?u ^ 2"
    by (simp add: power2_eq_square mult_ac)
  have "0 \<le> ?s" using t r by (auto intro!: add_nonneg_nonneg float64_nonneg mult_nonneg_nonneg)
  then have "float64 ?s \<le> ?s * ?u" by (rule float64_le)
  also have "\<dots> \<le> (bk_tokens b + of_int ?d / of_int second * rp_rate p * ?u ^ 2) * ?u"
    using p u by (intro mult_right_mono) auto
  also have "\<dots> = bk_tokens b + bk_tokens b * ulp_half + growth p ?d"
  proof -
    have "?u ^ 3 = ?u ^ 2 * ?u" by (simp add: power3_eq_cube power2_eq_square)
    then show ?thesis unfolding growth_def by (simp only: distrib_right mult.assoc distrib_left mult_1_right)
  qed
  also have "\<dots> \<le> bk_tokens b + slack p + growth p ?d"
    using t u by (simp add: slack_def mult_right_mono)
  finally show ?thesis by (simp add: refill_def Let_def)
qed

lemma take_le:
  assumes "policy_ok p" "bucket_ok p b" "1 \<le> bk_tokens b"
  shows "1 + float64 (bk_tokens b - 1) \<le> bk_tokens b + slack p"
proof -
  have "float64 (bk_tokens b - 1) \<le> (bk_tokens b - 1) * (1 + ulp_half)"
    using assms(3) by (intro float64_le) simp
  also have "\<dots> \<le> bk_tokens b - 1 + slack p"
    using assms ulp_half_pos by (simp add: distrib_left slack_def bucket_ok_def mult_right_mono)
  finally show ?thesis by simp
qed

lemma acquire_step:
  assumes "policy_ok p" "limiter_inv p st" "bucket_acquire p now org st = (st', d)"
  obtains b where "st' org = Some b" "bk_updated b = now"
    "(if allows d then 1 else 0) + bk_tokens b \<le> bk_tokens (bucket_for p org now st) + slack p"
  using assms take_le [OF assms(1) bucket_for_ok [OF assms(1,2)], of org now] ulp_half_pos
  by (cases "st org")
    (auto simp: bucket_acquire_def Let_def bucket_for_def refill_def slack_def policy_ok_def split: if_splits)

lemma admitted_from_bucket:
  assumes "policy_ok p" "limiter_inv p st" "st org = Some b"
  shows "of_nat (grants org (snd (bucket_run p calls st))) \<le>
    bk_tokens b + growth p (forward (bk_updated b # calls_of org calls)) +
      2 * slack p * of_nat (length (calls_of org calls))"
  using assms
proof (induction p calls st arbitrary: b rule: bucket_run.induct)
  case (1 p st)
  then show ?case by (auto simp: limiter_inv_def bucket_ok_def growth_def)
next
  case (2 p now o' calls st)
  obtain st1 d where s: "bucket_acquire p now o' st = (st1, d)" by (cases "bucket_acquire p now o' st")
  obtain st2 ds where s2: "bucket_run p calls st1 = (st2, ds)" by (cases "bucket_run p calls st1")
  have inv: "limiter_inv p st1" using bucket_acquire_inv [OF 2(2,3)] s by (metis fst_conv)
  note IH = 2(1) [OF s [symmetric] refl 2(2) inv, unfolded s2 snd_conv]
  show ?case
  proof (cases "o' = org")
    case False
    with s 2(4) have "st1 org = Some b" by (auto simp: bucket_acquire_def Let_def split: if_splits)
    from IH [OF this] False show ?thesis by (simp add: s s2)
  next
    case True
    from acquire_step [OF 2(2,3) s] obtain b' where b': "st1 o' = Some b'" "bk_updated b' = now"
      "(if allows d then 1 else 0) + bk_tokens b' \<le> bk_tokens (bucket_for p o' now st) + slack p"
      by blast
    have "bucket_ok p b" using 2(3,4) by (auto simp: limiter_inv_def)
    from refill_le [OF 2(2) this, of now] b'(3) True 2(4)
    have "(if allows d then 1 else 0) + bk_tokens b' \<le>
        bk_tokens b + growth p (max 0 (now - bk_updated b)) + 2 * slack p"
      by (simp add: bucket_for_def)
    with IH [of b'] b'(1,2) True have
      "of_nat (grants o' ds) + (if allows d then 1 else 0) \<le>
        bk_tokens b + growth p (max 0 (now - bk_updated b)) + 2 * slack p +
        growth p (forward (now # calls_of org calls)) + 2 * slack p * of_nat (length (calls_of org calls))"
      by (simp add: algebra_simps)
    moreover have "of_nat (grants org (snd (bucket_run p ((now, o') # calls) st))) =
        of_nat (grants o' ds) + (if allows d then 1 else 0 :: rat)"
      using True by (simp add: s [unfolded True] s2)
    moreover have "growth p (forward (bk_updated b # calls_of org ((now, o') # calls))) =
        growth p (max 0 (now - bk_updated b)) + growth p (forward (now # calls_of org calls))"
      using True by (simp add: growth_add)
    moreover have "2 * slack p * of_nat (length (calls_of org ((now, o') # calls))) =
        2 * slack p + 2 * slack p * of_nat (length (calls_of org calls))"
      using True by (simp add: algebra_simps)
    ultimately show ?thesis by linarith
  qed
qed

text \<open>A tenant without a bucket gets one, full, at its first call.\<close>

lemma admitted_from_none:
  assumes "policy_ok p" "limiter_inv p st" "st org = None"
  shows "of_nat (grants org (snd (bucket_run p calls st))) \<le>
    of_int (rp_burst p) + growth p (forward (calls_of org calls)) +
      2 * slack p * of_nat (length (calls_of org calls))"
  using assms
proof (induction p calls st rule: bucket_run.induct)
  case (1 p st)
  then show ?case by (simp add: growth_def policy_ok_def)
next
  case (2 p now o' calls st)
  obtain st1 d where s: "bucket_acquire p now o' st = (st1, d)" by (cases "bucket_acquire p now o' st")
  obtain st2 ds where s2: "bucket_run p calls st1 = (st2, ds)" by (cases "bucket_run p calls st1")
  have inv: "limiter_inv p st1" using bucket_acquire_inv [OF 2(2,3)] s by (metis fst_conv)
  show ?case
  proof (cases "o' = org")
    case False
    with s 2(4) have "st1 org = None" by (auto simp: bucket_acquire_def Let_def split: if_splits)
    from 2(1) [OF s [symmetric] refl 2(2) inv this] False show ?thesis by (simp add: s s2)
  next
    case True
    from acquire_step [OF 2(2,3) s] obtain b' where b': "st1 o' = Some b'" "bk_updated b' = now"
      "(if allows d then 1 else 0) + bk_tokens b' \<le> bk_tokens (bucket_for p o' now st) + slack p"
      by blast
    have "0 \<le> slack p" using 2(2) ulp_half_pos by (simp add: slack_def policy_ok_def)
    with b'(3) True 2(4) policy_cap [OF 2(2)]
    have "(if allows d then 1 else 0) + bk_tokens b' \<le> of_int (rp_burst p) + 2 * slack p"
      by (simp add: bucket_for_def)
    with admitted_from_bucket [OF 2(2) inv b'(1), of calls] b'(2) True show ?thesis
      by (auto simp: s [unfolded True] s2 algebra_simps)
  qed
qed

subsection \<open>Verdicts\<close>

lemma refill_stored:
  assumes "limiter_inv p st" "policy_ok p" "st org = Some b" "bk_updated b = now" "float64 (bk_tokens b) = bk_tokens b"
  shows "bucket_for p org now st = b"
proof -
  have "bk_tokens b \<le> of_int (rp_burst p)" using assms(1,3) by (auto simp: limiter_inv_def bucket_ok_def)
  then show ?thesis using assms(3-5) policy_cap [OF assms(2)]
    by (simp add: bucket_for_def refill_def total_seconds_def)
qed

lemma bucket_for_rounded: "policy_ok p \<Longrightarrow> float64 (bk_tokens (bucket_for p org now st)) = bk_tokens (bucket_for p org now st)"
  by (auto simp: bucket_for_def refill_def Let_def policy_cap min_def split: option.splits)

lemma bucket_for_updated [simp]: "bk_updated (bucket_for p org now st) = now"
  by (simp add: bucket_for_def refill_def Let_def split: option.splits)

lemma denied_call:
  assumes "policy_ok p" "limiter_inv p st" "bucket_acquire p now org st = (st', d)" "\<not> allows d"
  shows "st' = st(org \<mapsto> bucket_for p org now st)" "bucket_acquire p now org st' = (st', d)"
proof -
  let ?b = "bucket_for p org now st"
  show st': "st' = st(org \<mapsto> ?b)"
    using assms(3,4) by (auto simp: bucket_acquire_def Let_def split: if_splits)
  have "bucket_for p org now st' = ?b"
    by (rule refill_stored [OF bucket_acquire_inv' [OF assms(3,1,2)] assms(1)])
      (simp_all add: st' bucket_for_rounded [OF assms(1)])
  with assms(3,4) show "bucket_acquire p now org st' = (st', d)"
    by (auto simp: bucket_acquire_def Let_def st' split: if_splits)
qed

lemma denied_flood:
  assumes "policy_ok p" "limiter_inv p st" "bucket_acquire p now org st = (st', d)" "\<not> allows d"
  shows "bucket_run p (replicate n (now, org)) st' = (st', replicate n (org, d))"
  by (induction n) (simp_all add: denied_call(2) [OF assms])

lemma refill_ge_one:
  assumes "policy_ok p" "bucket_ok p b" "1 \<le> rp_rate p" "bk_updated b + second \<le> now"
  shows "1 \<le> bk_tokens (refill p b now)"
proof -
  have "float64 1 \<le> total_seconds (now - bk_updated b)"
    unfolding total_seconds_def using assms(4) by (intro float64_mono) (simp add: of_int_le_iff [symmetric])
  then have e: "1 \<le> total_seconds (now - bk_updated b)" by simp
  then have "1 * 1 \<le> max 0 (total_seconds (now - bk_updated b)) * rp_rate p"
    using assms(3) by (intro mult_mono) auto
  then have "float64 1 \<le> float64 (max 0 (total_seconds (now - bk_updated b)) * rp_rate p)"
    by (intro float64_mono) simp
  then have "float64 1 \<le> float64 (bk_tokens b + float64 (max 0 (total_seconds (now - bk_updated b)) * rp_rate p))"
    using assms(2) by (intro float64_mono) (simp add: bucket_ok_def)
  moreover have "1 \<le> (of_int (rp_burst p) :: rat)" using assms(1) by (simp add: policy_ok_def)
  ultimately show ?thesis by (simp add: refill_def Let_def policy_cap [OF assms(1)])
qed

subsection \<open>The script computes what the local bucket computes\<close>

lemma script_matches_bucket:
  assumes "policy_ok p" "float64 (redis_now - u) = total_seconds (now - bk_updated b)"
    "redis_now = float64 (of_int (fst time) + float64 (of_int (snd time) / of_int second))"
    "bucket_ok p b"
  defines "r \<equiv> acquire_script (rp_burst p) (rp_rate p) time (Some (bk_tokens b), Some u)"
  shows "sr_allowed r = (if 1 \<le> bk_tokens (refill p b now) then 1 else 0)"
    "sr_tokens r = (if 1 \<le> bk_tokens (refill p b now)
        then float64 (bk_tokens (refill p b now) - 1) else bk_tokens (refill p b now))"
    "sr_updated r = redis_now"
proof -
  have m: "(if float64 (redis_now - u) < 0 then 0 else float64 (redis_now - u)) =
      max 0 (total_seconds (now - bk_updated b))"
    using assms(2) by (simp add: max_def)
  show "sr_allowed r = (if 1 \<le> bk_tokens (refill p b now) then 1 else 0)"
    "sr_tokens r = (if 1 \<le> bk_tokens (refill p b now)
        then float64 (bk_tokens (refill p b now) - 1) else bk_tokens (refill p b now))"
    "sr_updated r = redis_now"
    unfolding r_def acquire_script_def Let_def refill_def assms(3) [symmetric] m prod.case option.case
    by simp_all
qed

lemma float64_pos_iff: "0 < x \<Longrightarrow> 0 < float64 x"
  using float64_pos_pos [of x] by (simp add: float64_def)

definition ceil1 :: "rat \<Rightarrow> int" where "ceil1 x = (let n = \<lceil>x\<rceil> in if n < 1 then 1 else n)"

lemma script_shape:
  "\<exists>x. acquire_script n rate t s =
     (let left = (if 1 \<le> x then float64 (x - 1) else x); ok = (if 1 \<le> x then 1 else 0)
      in \<lparr>sr_tokens = left,
          sr_updated = float64 (of_int (fst t) + float64 (of_int (snd t) / of_int second)),
          sr_allowed = ok, sr_remaining = \<lfloor>left\<rfloor>,
          sr_ttl = ceil1 (float64 (float64 (float64 (of_int n) - left) / rate)),
          sr_retry = (if ok = (0::int) then ceil1 (float64 (float64 (1 - left) / rate)) else 0)\<rparr>)"
  unfolding acquire_script_def Let_def case_prod_beta ceil1_def by (rule exI, rule refl)

lemma script_numbers:
  fixes p t s
  defines "r \<equiv> acquire_script (rp_burst p) (rp_rate p) t s"
  shows "sr_remaining r = \<lfloor>sr_tokens r\<rfloor>"
    "sr_ttl r = ceil1 (float64 (float64 (float64 (of_int (rp_burst p)) - sr_tokens r) / rp_rate p))"
    "sr_allowed r = 0 \<Longrightarrow> sr_retry r = ceil1 (float64 (float64 (1 - sr_tokens r) / rp_rate p))"
proof -
  obtain x where "r =
     (let left = (if 1 \<le> x then float64 (x - 1) else x); ok = (if 1 \<le> x then 1 else 0)
      in \<lparr>sr_tokens = left,
          sr_updated = float64 (of_int (fst t) + float64 (of_int (snd t) / of_int second)),
          sr_allowed = ok, sr_remaining = \<lfloor>left\<rfloor>,
          sr_ttl = ceil1 (float64 (float64 (float64 (of_int (rp_burst p)) - left) / rp_rate p)),
          sr_retry = (if ok = (0::int) then ceil1 (float64 (float64 (1 - left) / rp_rate p)) else 0)\<rparr>)"
    using script_shape [of "rp_burst p" "rp_rate p" t s] unfolding r_def by blast
  then show "sr_remaining r = \<lfloor>sr_tokens r\<rfloor>"
    "sr_ttl r = ceil1 (float64 (float64 (float64 (of_int (rp_burst p)) - sr_tokens r) / rp_rate p))"
    "sr_allowed r = 0 \<Longrightarrow> sr_retry r = ceil1 (float64 (float64 (1 - sr_tokens r) / rp_rate p))"
    by (simp_all add: Let_def)
qed

lemma ceil1_max: "ceil1 x = max 1 \<lceil>x\<rceil>"
  by (auto simp: ceil1_def Let_def max_def)

lemma seconds_to_full_alt:
  assumes "policy_ok p" "bk_tokens b < of_int (rp_burst p)"
  shows "seconds_to_full p b = ceil1 (float64 (float64 (float64 (of_int (rp_burst p)) - bk_tokens b) / rp_rate p))"
  using float64_pos_iff [of "of_int (rp_burst p) - bk_tokens b"] assms(2)
  by (simp add: seconds_to_full_def Let_def policy_cap [OF assms(1)] ceil1_max)

lemma shared_decision:
  assumes p: "policy_ok p" and b: "st org = Some b" "bucket_ok p b"
    and h: "stored_hash t (limiter_key prefix org) db = (Some (bk_tokens b), Some u)"
    and clock: "float64 (float64 (of_int (fst (st_time t)) + float64 (of_int (snd (st_time t)) / of_int second)) - u) =
        total_seconds (now - bk_updated b)"
  shows "snd (redis_acquire p prefix (Replied t) org db) = snd (bucket_acquire p now org st)"
proof -
  let ?r = "acquire_script (rp_burst p) (rp_rate p) (st_time t) (Some (bk_tokens b), Some u)"
  let ?b = "refill p b now"
  note m = script_matches_bucket [OF p clock refl b(2)]
  have ok: "bucket_ok p ?b" using refill_ok [OF p b(2)] .
  have s: "bucket_for p org now st = ?b" using b(1) by (simp add: bucket_for_def)
  have r: "snd (redis_acquire p prefix (Replied t) org db) =
      rate_limit_decision_new (sr_allowed ?r \<noteq> 0) (rp_burst p) (sr_remaining ?r) (sr_ttl ?r)
        (if sr_allowed ?r \<noteq> 0 then None else Some (max 1 (sr_retry ?r)))"
    by (simp add: redis_acquire_def run_script_def h Let_def)
  show ?thesis
  proof (cases "1 \<le> bk_tokens ?b")
    case True
    from take_bounds [OF True, of "rp_burst p"] ok p
    have left: "0 \<le> float64 (bk_tokens ?b - 1)" "float64 (bk_tokens ?b - 1) < of_int (rp_burst p)"
      by (auto simp: bucket_ok_def policy_ok_def)
    then show ?thesis using True m
      by (simp add: r bucket_acquire_def s script_numbers trunc_def Let_def
          seconds_to_full_alt [OF p, of "?b\<lparr>bk_tokens := float64 (bk_tokens ?b - 1)\<rparr>"])
  next
    case False
    with ok p have left: "0 \<le> bk_tokens ?b" "bk_tokens ?b < of_int (rp_burst p)" "\<lfloor>bk_tokens ?b\<rfloor> = 0"
      by (auto simp: bucket_ok_def policy_ok_def not_le floor_eq_iff intro: less_le_trans)
    then show ?thesis using False m script_numbers(3) [of p "st_time t" "(Some (bk_tokens b), Some u)"]
      by (simp add: r bucket_acquire_def s script_numbers Let_def seconds_to_full_alt [OF p]
          seconds_to_next_token_def ceil1_max)
  qed
qed

subsection \<open>Properties\<close>

text \<open>C17: Whatever the order and the times of the calls of all tenants, the in-process limiter
  admits of one tenant at most the burst, plus what the rate gives for the time its clock readings
  move forward, with three roundings of relative size \<^verbatim>\<open>2^-53\<close> in that product and an error of at
  most one part in \<^verbatim>\<open>2^52\<close> of the burst for each of the tenant's calls. Other tenants do not occur in
  the bound.\<close>

theorem admitted_requests_bounded:
  assumes "rate_limit_policy_new rate n = Inr p" "n \<le> 2 ^ 53"
  shows "of_nat (grants org (snd (bucket_run p calls Map.empty))) \<le>
    of_int n + of_int (forward (calls_of org calls)) / 1000000 * rate * (1 + 1 / 2 ^ 53) ^ 3
      + of_nat (length (calls_of org calls)) * (of_int n / 2 ^ 52)"
proof -
  have p: "p = \<lparr>rp_rate = rate, rp_burst = n\<rparr>"
    using assms(1) by (auto simp: rate_limit_policy_new_def split: if_splits)
  have "limiter_inv p Map.empty" by (simp add: limiter_inv_def)
  from admitted_from_none [OF policy_new_ok [OF assms] this, of org calls]
  show ?thesis by (simp add: p growth_def slack_def ulp_half_def mult_ac)
qed

definition sample_policy :: rate_limit_policy where
  "sample_policy = \<lparr>rp_rate = 10, rp_burst = 2\<rparr>"

definition sample_calls :: "(instant \<times> uuid) list" where
  "sample_calls = [(0, 3), (0, 5), (0, 3), (1, 3), (100000, 3)]"

lemma sample_run:
  "map (allows \<circ> snd) (snd (bucket_run sample_policy sample_calls Map.empty)) = [True, True, True, False, True]"
  by code_simp

theorem admitted_requests_bounded_witness:
  "of_nat (grants 3 (snd (bucket_run sample_policy sample_calls Map.empty))) \<le>
    of_int 2 + of_int (forward (calls_of 3 sample_calls)) / 1000000 * (10 :: rat) * (1 + 1 / 2 ^ 53) ^ 3
      + of_nat (length (calls_of 3 sample_calls)) * (of_int 2 / 2 ^ 52)"
  by (rule admitted_requests_bounded)
    (simp_all add: rate_limit_policy_new_def sample_policy_def)

text \<open>A denial consumes nothing. The tenant's bucket is only refilled to the instant of the call,
  no other tenant's bucket changes, and any number of further calls at that instant are denied with
  the same answer and leave the limiter as it is.\<close>

theorem denied_flood_is_free:
  assumes "rate_limit_policy_new rate n = Inr p" "n \<le> 2 ^ 53"
    and "bucket_acquire p now org (fst (bucket_run p calls Map.empty)) = (st, Inr d)" "\<not> rl_allowed d"
  shows "st = (fst (bucket_run p calls Map.empty))
           (org \<mapsto> bucket_for p org now (fst (bucket_run p calls Map.empty)))"
    and "bucket_run p (replicate k (now, org)) st = (st, replicate k (org, Inr d))"
proof -
  note p = policy_new_ok [OF assms(1,2)]
  have inv: "limiter_inv p (fst (bucket_run p calls Map.empty))"
    by (rule bucket_run_inv [OF p]) (simp add: limiter_inv_def)
  have d: "\<not> allows (Inr d)" using assms(4) by simp
  show "st = (fst (bucket_run p calls Map.empty))
           (org \<mapsto> bucket_for p org now (fst (bucket_run p calls Map.empty)))"
    by (rule denied_call(1) [OF p inv assms(3) d])
  show "bucket_run p (replicate k (now, org)) st = (st, replicate k (org, Inr d))"
    by (rule denied_flood [OF p inv assms(3) d])
qed

definition sample_denial :: rate_limit_decision where
  "sample_denial = \<lparr>rl_allowed = False, rl_limit = 2, rl_remaining = 0, rl_reset = 1, rl_retry_after = Some 1\<rparr>"

lemma sample_denied:
  "bucket_acquire sample_policy 1 3 (fst (bucket_run sample_policy (take 3 sample_calls) Map.empty)) =
     (fst (bucket_run sample_policy (take 4 sample_calls) Map.empty), Inr sample_denial)"
proof -
  have "snd (bucket_acquire sample_policy 1 3 (fst (bucket_run sample_policy (take 3 sample_calls) Map.empty))) =
      Inr sample_denial" by code_simp
  then show ?thesis by (simp add: sample_calls_def Let_def prod_eq_iff split: prod.splits)
qed

theorem denied_flood_is_free_witness:
  "bucket_run sample_policy (replicate 1000 (1, 3)) (fst (bucket_run sample_policy (take 4 sample_calls) Map.empty)) =
    (fst (bucket_run sample_policy (take 4 sample_calls) Map.empty), replicate 1000 (3, Inr sample_denial))"
  by (rule denied_flood_is_free(2) [OF _ _ sample_denied, of 10 2])
    (simp_all add: rate_limit_policy_new_def sample_policy_def sample_denial_def)

text \<open>At a rate of at least one request a second a client that obeys \<open>Retry-After\<close> is served: a
  call that comes that many seconds or more after a denial, as the tenant's next, is admitted.\<close>

theorem retry_hint_honoured:
  assumes "rate_limit_policy_new rate n = Inr p" "n \<le> 2 ^ 53" "1 \<le> rate"
    and "bucket_acquire p now org (fst (bucket_run p calls Map.empty)) = (st, Inr d)" "\<not> rl_allowed d"
    and "now + the (rl_retry_after d) * second \<le> later"
  shows "\<exists>d'. snd (bucket_acquire p later org st) = Inr d' \<and> rl_allowed d'"
proof -
  note p = policy_new_ok [OF assms(1,2)]
  have rate: "1 \<le> rp_rate p" using assms(1,3) by (auto simp: rate_limit_policy_new_def split: if_splits)
  have inv: "limiter_inv p (fst (bucket_run p calls Map.empty))"
    by (rule bucket_run_inv [OF p]) (simp add: limiter_inv_def)
  let ?b = "bucket_for p org now (fst (bucket_run p calls Map.empty))"
  have "\<not> allows (Inr d)" using assms(5) by simp
  from denied_call(1) [OF p inv assms(4) this] have st: "st org = Some ?b" by simp
  have "\<exists>k \<ge> 1. rl_retry_after d = Some k"
    using local_limiter.denial_says_when [of p now org] assms(4,5) by (metis snd_conv)
  with assms(6) have "bk_updated ?b + second \<le> later" by auto
  from refill_ge_one [OF p bucket_for_ok [OF p inv] rate this] st show ?thesis
    by (simp add: bucket_acquire_def bucket_for_def Let_def)
qed

theorem retry_hint_honoured_witness:
  "\<exists>d'. snd (bucket_acquire sample_policy 1000001 3
      (fst (bucket_run sample_policy (take 4 sample_calls) Map.empty))) = Inr d' \<and> rl_allowed d'"
  by (rule retry_hint_honoured [OF _ _ _ sample_denied, of 10 2])
    (simp_all add: rate_limit_policy_new_def sample_policy_def sample_denial_def)

text \<open>Below one request a second the hint can fall short by a rounding error. At one request in
  seven seconds (the nearest binary64 number) and a burst of one, a tenant served at time 0 and denied
  at 2 s is told to come back in 5 s; at 7 s it has one token less one rounding error and is denied
  again.\<close>

theorem retry_hint_falls_short:
  "map snd (snd (bucket_run \<lparr>rp_rate = float64 (1 / 7), rp_burst = 1\<rparr>
      [(0, 3), (2 * second, 3), (7 * second, 3)] Map.empty)) =
     [Inr \<lparr>rl_allowed = True, rl_limit = 1, rl_remaining = 0, rl_reset = 7, rl_retry_after = None\<rparr>,
      Inr \<lparr>rl_allowed = False, rl_limit = 1, rl_remaining = 0, rl_reset = 5, rl_retry_after = Some 5\<rparr>,
      Inr \<lparr>rl_allowed = False, rl_limit = 1, rl_remaining = 0, rl_reset = 1, rl_retry_after = Some 1\<rparr>]"
  by code_simp

text \<open>An outage of the shared store never reaches the caller and never lifts the limit. When the
  store answers, its decision stands and the local bucket is left as it was; when it does not, the
  decision is the one the local bucket takes under the same policy, and the limiter says it is
  degraded. Either way the caller gets a decision with the policy's burst as its limit.\<close>

theorem store_outage_limited_locally:
  assumes "degraded_acquire (redis_acquire p prefix) (bucket_acquire p) (answer, now) org st = (st', r)"
  shows "\<exists>d. r = Inr d \<and> rl_limit d = rp_burst p \<and>
    (replied answer \<longrightarrow> r = snd (redis_acquire p prefix answer org (dl_shared st)) \<and>
       dl_local st' = dl_local st \<and> \<not> dl_degraded st') \<and>
    (\<not> replied answer \<longrightarrow> r = snd (bucket_acquire p now org (dl_local st)) \<and>
       dl_local st' = fst (bucket_acquire p now org (dl_local st)) \<and> dl_degraded st')"
proof -
  obtain d where "r = Inr d" "rl_limit d = rp_burst p"
    using gateway_limiter.degraded.acquire_answers [of "(answer, now)" p prefix org st] assms by auto
  moreover note gateway_limiter.shared_stands [of answer p prefix now org st]
    gateway_limiter.local_answers [of answer p prefix now org st]
  ultimately show ?thesis using assms by simp
qed

theorem store_outage_limited_locally_witness:
  "\<exists>d. snd (degraded_acquire (redis_acquire sample_policy ''gw'') (bucket_acquire sample_policy) (Unreachable, 1) 3
      \<lparr>dl_shared = Map.empty, dl_local = fst (bucket_run sample_policy (take 3 sample_calls) Map.empty),
       dl_degraded = False\<rparr>) = Inr d \<and> rl_limit d = 2 \<and> \<not> rl_allowed d"
proof -
  let ?st = "\<lparr>dl_shared = Map.empty, dl_local = fst (bucket_run sample_policy (take 3 sample_calls) Map.empty),
    dl_degraded = False\<rparr> :: (redis, bucket_limiter) degraded_limiter"
  obtain st' r where s: "degraded_acquire (redis_acquire sample_policy ''gw'') (bucket_acquire sample_policy)
      (Unreachable, 1) 3 ?st = (st', r)" by (meson surj_pair)
  from store_outage_limited_locally [OF this] sample_denied s show ?thesis
    by (auto simp: sample_denial_def sample_policy_def)
qed

text \<open>The shared bucket and the local one are the same limiter. When the store holds for a tenant
  the tokens its local bucket holds, and both clocks measure the same time since they were last
  touched, the script in the store and the in-process code take the same decision, down to the
  remaining allowance, the reset and the retry hint.\<close>

theorem shared_bucket_matches_local:
  assumes "rate_limit_policy_new rate n = Inr p" "n \<le> 2 ^ 53"
    and "fst (bucket_run p calls Map.empty) org = Some b"
    and "stored_hash t (limiter_key prefix org) db = (Some (bk_tokens b), Some u)"
    and "float64 (float64 (of_int (fst (st_time t)) + float64 (of_int (snd (st_time t)) / of_int second)) - u) =
        total_seconds (now - bk_updated b)"
  shows "snd (redis_acquire p prefix (Replied t) org db) =
    snd (bucket_acquire p now org (fst (bucket_run p calls Map.empty)))"
proof -
  note p = policy_new_ok [OF assms(1,2)]
  have "limiter_inv p (fst (bucket_run p calls Map.empty))"
    by (rule bucket_run_inv [OF p]) (simp add: limiter_inv_def)
  with assms(3) have "bucket_ok p b" by (auto simp: limiter_inv_def)
  then show ?thesis
    using shared_decision [OF p, where st = "fst (bucket_run p calls Map.empty)" and org = org and b = b] assms(3-5)
    by blast
qed

lemma sample_bucket:
  "fst (bucket_run sample_policy (take 3 sample_calls) Map.empty) 3 = Some \<lparr>bk_tokens = 0, bk_updated = 0\<rparr>"
  by code_simp

definition sample_store :: redis where
  "sample_store = [limiter_key ''gw'' 3 \<mapsto> \<lparr>rh_tokens = 0, rh_updated = 70, rh_ttl = 1\<rparr>]"

definition sample_time :: server_time where
  "sample_time = \<lparr>st_time = (70, 500000), st_gone = (\<lambda>k. False)\<rparr>"

theorem shared_bucket_matches_local_witness:
  "snd (redis_acquire sample_policy ''gw'' (Replied sample_time) 3 sample_store) =
    snd (bucket_acquire sample_policy 500000 3 (fst (bucket_run sample_policy (take 3 sample_calls) Map.empty)))"
proof -
  have "float64 (float64 (of_int 70 + float64 (of_int 500000 / of_int second)) - 70) = total_seconds (500000 - 0)"
    by code_simp
  with sample_bucket show ?thesis
    by (intro shared_bucket_matches_local [of 10 2 _ _ 3 "\<lparr>bk_tokens = 0, bk_updated = 0\<rparr>" _ _ _ 70])
      (simp_all add: rate_limit_policy_new_def sample_policy_def stored_hash_def sample_store_def sample_time_def)
qed

end
