(* ===== verification/Http.thy ===== *)
theory Http imports Credentials Rate_Limit begin

text \<open>
  The HTTP edge: the four middleware layers of \<open>delivery/http/middleware\<close> and the order in which
  \<open>delivery/http/app.py\<close> composes them around the routes, with the operational routes of
  \<open>delivery/http/ops\<close>. A request is its method, path, headers (names in lower case, as ASGI delivers
  them), the messages of its \<open>receive\<close> channel and the two values the layers keep in its state; what
  the framework answers by itself is opaque. \<open>'s\<close> is the state the layers and the routes share, \<open>'b\<close> a
  streamed body.
\<close>

subsection \<open>Requests and replies\<close>

datatype message = Http_Request string bool | Http_Disconnect

record http_request =
  hr_method :: string
  hr_path :: string
  hr_headers :: "(string \<times> string) list"
  hr_messages :: "message list"
  hr_id :: "string option"
  hr_auth :: "auth_context option"

datatype 'b http_body = Json_Body json | Stream_Body 'b | Framework_Body

record 'b http_response =
  rs_status :: nat
  rs_headers :: "(string \<times> string) list"
  rs_body :: "'b http_body"

text \<open>A request whose body never ends keeps the gateway waiting; an exception that leaves the outermost
  layer is the server's 500.\<close>

datatype 'b reply = Responded "'b http_response" | Failed exn | Waiting

type_synonym ('b, 's) http_app = "http_request \<Rightarrow> 's \<Rightarrow> 's \<times> 'b reply"

definition header :: "http_request \<Rightarrow> string \<Rightarrow> string option" where
  "header req name = map_of (hr_headers req) name"

definition request_id_of :: "http_request \<Rightarrow> string" where
  "request_id_of req = (case hr_id req of None \<Rightarrow> ''unknown'' | Some i \<Rightarrow> i)"

definition set_header :: "string \<Rightarrow> string \<Rightarrow> (string \<times> string) list \<Rightarrow> (string \<times> string) list" where
  "set_header name v hs =
     (if name \<in> fst ` set hs
      then takeWhile (\<lambda>h. fst h \<noteq> name) hs @ (name, v) #
             filter (\<lambda>h. fst h \<noteq> name) (tl (dropWhile (\<lambda>h. fst h \<noteq> name) hs))
      else hs @ [(name, v)])"

fun with_header :: "string \<Rightarrow> string \<Rightarrow> 'b reply \<Rightarrow> 'b reply" where
  "with_header name v (Responded r) = Responded (r\<lparr>rs_headers := set_header name v (rs_headers r)\<rparr>)"
| "with_header name v (Failed x) = Failed x"
| "with_header name v Waiting = Waiting"

definition json_response :: "nat \<Rightarrow> json \<Rightarrow> (string \<times> string) list \<Rightarrow> 'b reply" where
  "json_response status content headers =
     Responded \<lparr>rs_status = status, rs_headers = (''content-type'', ''application/json'') # headers, rs_body = Json_Body content\<rparr>"

subsection \<open>Request context\<close>

text \<open>\<open>fresh\<close> is the id generated when the client supplies none.\<close>

definition request_context :: "string \<Rightarrow> ('b, 's) http_app \<Rightarrow> ('b, 's) http_app" where
  "request_context fresh app req s =
     (let rid = (case header req ''x-request-id'' of None \<Rightarrow> fresh | Some h \<Rightarrow> if h = [] then fresh else h);
          (s', r) = app (req\<lparr>hr_id := Some rid\<rparr>) s
      in (s', with_header ''x-request-id'' rid r))"

subsection \<open>Body size\<close>

definition declared_length :: "http_request \<Rightarrow> int option" where
  "declared_length req =
     (case header req ''content-length'' of None \<Rightarrow> None
      | Some v \<Rightarrow> (case bytes_int v of Inl _ \<Rightarrow> None | Inr n \<Rightarrow> Some n))"

definition too_large_body :: "http_request \<Rightarrow> int \<Rightarrow> json" where
  "too_large_body req cap =
     JObj [(''error'', JObj [(''type'', JStr ''invalid_request_error''), (''code'', JStr ''request_too_large''),
       (''message'', JStr (''Request body exceeds the maximum of '' @ str_int cap @ '' bytes.'')),
       (''request_id'', JStr (request_id_of req)), (''retryable'', JBool False)])]"

datatype body_read = Over_Cap | Within_Cap "message list" "message list" | Unfinished

fun read_body :: "int \<Rightarrow> int \<Rightarrow> message list \<Rightarrow> body_read" where
  "read_body cap received [] = Unfinished"
| "read_body cap received (Http_Disconnect # ms) = Within_Cap [Http_Disconnect] ms"
| "read_body cap received (Http_Request chunk further # ms) =
     (let received' = received + int (length chunk) in
      if cap < received' then Over_Cap
      else if \<not> further then Within_Cap [Http_Request chunk further] ms
      else (case read_body cap received' ms of
              Within_Cap buffered rest \<Rightarrow> Within_Cap (Http_Request chunk further # buffered) rest
            | other \<Rightarrow> other))"

definition size_limit_new :: "int \<Rightarrow> int res" where
  "size_limit_new cap = (if cap < 1 then Inl ValueError else Inr cap)"

definition size_limit :: "int \<Rightarrow> ('b, 's) http_app \<Rightarrow> ('b, 's) http_app" where
  "size_limit cap app req s =
     (case declared_length req of
        Some n \<Rightarrow> if cap < n then (s, json_response 413 (too_large_body req cap) []) else app req s
      | None \<Rightarrow>
          (case read_body cap 0 (hr_messages req) of
             Over_Cap \<Rightarrow> (s, json_response 413 (too_large_body req cap) [])
           | Within_Cap buffered rest \<Rightarrow> app (req\<lparr>hr_messages := buffered @ rest\<rparr>) s
           | Unfinished \<Rightarrow> (s, Waiting)))"

subsection \<open>Authentication\<close>

record 's auth_layer =
  al_authenticate :: "string \<Rightarrow> auth_principal res"
  al_audit :: "auth_event \<Rightarrow> 's \<Rightarrow> 's \<times> unit res"

definition method_for :: "string \<Rightarrow> auth_method" where
  "method_for credential = (if take 4 credential = api_key_prefix then Api_Key_Method else Jwt_Method)"

definition method_for_principal :: "auth_principal \<Rightarrow> auth_method \<Rightarrow> auth_method" where
  "method_for_principal p shape =
     (case pr_type p of SERVICE_ACCOUNT \<Rightarrow> Service_Account_Method | API_KEY \<Rightarrow> Api_Key_Method | USER \<Rightarrow> shape)"

definition decision_code :: "auth_decision \<Rightarrow> string" where
  "decision_code d =
     (case d of Invalid_Token \<Rightarrow> ''invalid_credential'' | Expired \<Rightarrow> ''token_expired''
      | Internal_Error \<Rightarrow> ''authentication_unavailable'' | _ \<Rightarrow> ''invalid_credential'')"

definition unauthorized_body :: "http_request \<Rightarrow> string \<Rightarrow> string \<Rightarrow> json" where
  "unauthorized_body req code msg =
     JObj [(''error'', JObj [(''type'', JStr ''authentication_error''), (''code'', JStr code),
       (''message'', JStr msg), (''request_id'', JStr (request_id_of req))])]"

definition unauthorized ::
  "'s auth_layer \<Rightarrow> http_request \<Rightarrow> auth_decision \<Rightarrow> string \<Rightarrow> string option \<Rightarrow> 's \<Rightarrow> 's \<times> 'b reply" where
  "unauthorized env req d msg override s =
     (let code = (case override of Some c \<Rightarrow> c | None \<Rightarrow> decision_code d) in
      case al_audit env ((auth_event_new ''request.rejected'' (auth_decision_value d))\<lparr>ae_detail := Some code\<rparr>) s of
        (s', Inl x) \<Rightarrow> (s', Failed x)
      | (s', Inr _) \<Rightarrow> (s', json_response 401 (unauthorized_body req code msg) []))"

definition authenticated_event :: "auth_context \<Rightarrow> auth_event" where
  "authenticated_event c =
     (auth_event_new ''request.authenticated'' (auth_decision_value Success))
       \<lparr>ae_organization := Some (ac_organization c), ae_ptype := Some (principal_type_value (ac_type c)),
        ae_subject := Some (ac_principal c), ae_detail := Some (auth_method_value (ac_method c))\<rparr>"

definition bearer :: string where
  "bearer = ''Bearer ''"

definition authentication :: "'s auth_layer \<Rightarrow> ('b, 's) http_app \<Rightarrow> ('b, 's) http_app" where
  "authentication env app req s =
     (case header req ''authorization'' of
        None \<Rightarrow> app req s
      | Some h \<Rightarrow>
          if take 7 h \<noteq> bearer then
            unauthorized env req Invalid_Token ''Malformed Authorization header.'' (Some ''invalid_authorization_header'') s
          else
            (let credential = strip_by is_space (drop 7 h); m = method_for credential in
             case al_authenticate env credential of
               Inl x \<Rightarrow>
                 if x = TokenExpiredError then unauthorized env req Expired ''Access token has expired.'' None s
                 else if auth_error x then unauthorized env req Invalid_Token ''Authentication failed.'' None s
                 else (s, Failed x)
             | Inr p \<Rightarrow>
                 (let c = context_of p (method_for_principal p m) in
                  case al_audit env (authenticated_event c) s of
                    (s', Inl x) \<Rightarrow> (s', Failed x)
                  | (s', Inr _) \<Rightarrow> app (req\<lparr>hr_auth := Some c\<rparr>) s')))"

subsection \<open>Rate limit\<close>

type_synonym 's rate_layer = "uuid \<Rightarrow> 's \<Rightarrow> 's \<times> rate_limit_decision res"

definition rate_limit_value :: "rate_limit_decision \<Rightarrow> string" where
  "rate_limit_value d =
     ''limit='' @ str_int (rl_limit d) @ '', remaining='' @ str_int (rl_remaining d) @ '', reset='' @ str_int (rl_reset d)"

definition limiter_down_body :: "http_request \<Rightarrow> json" where
  "limiter_down_body req =
     JObj [(''error'', JObj [(''type'', JStr ''availability_error''), (''code'', JStr ''rate_limit_unavailable''),
       (''message'', JStr ''Request rate could not be verified, so the request was not accepted.''),
       (''request_id'', JStr (request_id_of req)), (''retryable'', JBool True)])]"

definition rate_limited_body :: "http_request \<Rightarrow> int \<Rightarrow> json" where
  "rate_limited_body req after =
     JObj [(''error'', JObj [(''type'', JStr ''rate_limit_error''), (''code'', JStr ''rate_limited''),
       (''message'', JStr ''Too many requests. Retry after the indicated delay.''),
       (''request_id'', JStr (request_id_of req)), (''retryable'', JBool True),
       (''retry_after_seconds'', JInt after)])]"

definition rate_limit :: "'s rate_layer \<Rightarrow> ('b, 's) http_app \<Rightarrow> ('b, 's) http_app" where
  "rate_limit acquire app req s =
     (case hr_auth req of
        None \<Rightarrow> app req s
      | Some c \<Rightarrow>
          (case acquire (ac_organization c) s of
             (s', Inl x) \<Rightarrow>
               if x = RateLimiterUnavailableError then (s', json_response 503 (limiter_down_body req) [])
               else (s', Failed x)
           | (s', Inr d) \<Rightarrow>
               if \<not> rl_allowed d then
                 (case rl_retry_after d of
                    None \<Rightarrow> (s', Failed AssertionError)
                  | Some k \<Rightarrow> (s', json_response 429 (rate_limited_body req k)
                      [(''retry-after'', str_int k), (''ratelimit'', rate_limit_value d)]))
               else (case app req s' of (s2, r) \<Rightarrow> (s2, with_header ''ratelimit'' (rate_limit_value d) r))))"

subsection \<open>The application\<close>

record 's http_config =
  hc_limiter :: "'s rate_layer option"
  hc_auth :: "'s auth_layer option"
  hc_max_bytes :: "int option"

definition http_app :: "'s http_config \<Rightarrow> string \<Rightarrow> ('b, 's) http_app \<Rightarrow> ('b, 's) http_app" where
  "http_app cfg fresh routes =
     (let limited = (case hc_limiter cfg of None \<Rightarrow> routes | Some l \<Rightarrow> rate_limit l routes);
          authed = (case hc_auth cfg of None \<Rightarrow> limited | Some a \<Rightarrow> authentication a limited);
          sized = (case hc_max_bytes cfg of None \<Rightarrow> authed | Some n \<Rightarrow> size_limit n authed)
      in request_context fresh sized)"

subsection \<open>Bodies within the cap pass untouched, others never pass\<close>

text \<open>The bytes a body holds up to its last message, and whether that message is there.\<close>

fun body_bytes :: "message list \<Rightarrow> int" where
  "body_bytes [] = 0"
| "body_bytes (Http_Disconnect # ms) = 0"
| "body_bytes (Http_Request chunk further # ms) = int (length chunk) + (if further then body_bytes ms else 0)"

fun body_complete :: "message list \<Rightarrow> bool" where
  "body_complete [] = False"
| "body_complete (Http_Disconnect # ms) = True"
| "body_complete (Http_Request chunk further # ms) = (further \<longrightarrow> body_complete ms)"

lemma body_bytes_nonneg: "0 \<le> body_bytes ms"
  by (induction ms rule: body_bytes.induct) auto



lemma read_body_eq:
  assumes "n \<le> cap"
  shows "(case read_body cap n ms of
            Over_Cap \<Rightarrow> cap < n + body_bytes ms
          | Within_Cap buffered rest \<Rightarrow> n + body_bytes ms \<le> cap \<and> body_complete ms \<and> buffered @ rest = ms
          | Unfinished \<Rightarrow> n + body_bytes ms \<le> cap \<and> \<not> body_complete ms)"
  using assms
proof (induction cap n ms rule: read_body.induct)
  case (3 cap n chunk further ms)
  show ?case
  proof (cases "cap < n + int (length chunk)")
    case True
    then show ?thesis using body_bytes_nonneg [of ms] by (simp add: Let_def)
  next
    case False
    with 3 show ?thesis by (auto simp: Let_def not_less add.assoc split: body_read.splits)
  qed
qed auto

lemma size_limit_undeclared:
  assumes "1 \<le> cap" "declared_length req = None"
  shows "size_limit cap app req s =
           (if cap < body_bytes (hr_messages req) then (s, json_response 413 (too_large_body req cap) [])
            else if body_complete (hr_messages req) then app req s else (s, Waiting))"
  using read_body_eq [of 0 cap "hr_messages req"] assms
  by (auto simp: size_limit_def split: body_read.splits)

definition fits :: "int \<Rightarrow> http_request \<Rightarrow> bool" where
  "fits cap req \<longleftrightarrow>
     (case declared_length req of Some n \<Rightarrow> n \<le> cap
      | None \<Rightarrow> body_bytes (hr_messages req) \<le> cap \<and> body_complete (hr_messages req))"

definition oversized :: "int \<Rightarrow> http_request \<Rightarrow> bool" where
  "oversized cap req \<longleftrightarrow>
     (case declared_length req of Some n \<Rightarrow> cap < n | None \<Rightarrow> cap < body_bytes (hr_messages req))"

lemma declared_length_id [simp]: "declared_length (req\<lparr>hr_id := i\<rparr>) = declared_length req"
  by (simp add: declared_length_def header_def)

lemma size_limit_cases:
  assumes "1 \<le> cap"
  shows "oversized cap req \<Longrightarrow> size_limit cap app req s = (s, json_response 413 (too_large_body req cap) [])"
    and "fits cap req \<Longrightarrow> size_limit cap app req s = app req s"
    and "\<not> oversized cap req \<Longrightarrow> \<not> fits cap req \<Longrightarrow> size_limit cap app req s = (s, Waiting)"
  using assms by (cases "declared_length req";
      simp add: size_limit_undeclared oversized_def fits_def; simp add: size_limit_def)+

text \<open>What the outermost layer makes of an id: the client's, or a new one.\<close>

definition context_id :: "string \<Rightarrow> http_request \<Rightarrow> string" where
  "context_id fresh req =
     (case header req ''x-request-id'' of None \<Rightarrow> fresh | Some h \<Rightarrow> if h = [] then fresh else h)"

lemma request_context_eq:
  "request_context fresh app req s =
     (case app (req\<lparr>hr_id := Some (context_id fresh req)\<rparr>) s of
        (s', r) \<Rightarrow> (s', with_header ''x-request-id'' (context_id fresh req) r))"
  by (simp add: request_context_def context_id_def Let_def)

definition refusal :: "string \<Rightarrow> nat \<Rightarrow> json \<Rightarrow> (string \<times> string) list \<Rightarrow> 'b reply" where
  "refusal rid status content headers = with_header ''x-request-id'' rid (json_response status content headers)"

text \<open>C34: The body cap holds for every request, declared or not: a request whose declared length, or whose
  delivered bytes when it declares none it can read, exceed the cap is answered 413 under its request id
  with the state untouched and nothing behind the cap consulted; a request within the cap gets exactly
  the answer of the same application without a cap, every byte and message of it delivered; and one that
  declares nothing and never ends is never handed on.
\<close>

theorem body_cap_exact:
  assumes "hc_max_bytes cfg = Some cap" "1 \<le> cap"
  shows "(oversized cap req \<longrightarrow> http_app cfg fresh routes req s =
           (s, refusal (context_id fresh req) 413 (too_large_body (req\<lparr>hr_id := Some (context_id fresh req)\<rparr>) cap) [])) \<and>
         (fits cap req \<longrightarrow> http_app cfg fresh routes req s = http_app (cfg\<lparr>hc_max_bytes := None\<rparr>) fresh routes req s) \<and>
         (\<not> oversized cap req \<and> \<not> fits cap req \<longrightarrow> http_app cfg fresh routes req s = (s, Waiting))"
proof -
  have id: "oversized cap (req\<lparr>hr_id := i\<rparr>) = oversized cap req" "fits cap (req\<lparr>hr_id := i\<rparr>) = fits cap req" for i
    by (simp_all add: oversized_def fits_def cong: option.case_cong)
  note size = size_limit_cases [OF assms(2), where req = "req\<lparr>hr_id := Some (context_id fresh req)\<rparr>", unfolded id]
  have over: "http_app cfg fresh routes req s =
           (s, refusal (context_id fresh req) 413 (too_large_body (req\<lparr>hr_id := Some (context_id fresh req)\<rparr>) cap) [])"
    if "oversized cap req"
    using that by (simp add: http_app_def Let_def assms(1) request_context_eq size refusal_def)
  have within: "http_app cfg fresh routes req s = http_app (cfg\<lparr>hc_max_bytes := None\<rparr>) fresh routes req s" if "fits cap req"
    using that by (simp add: http_app_def Let_def assms(1) request_context_eq size)
  have waits: "http_app cfg fresh routes req s = (s, Waiting)" if "\<not> oversized cap req" "\<not> fits cap req"
    using that by (simp add: http_app_def Let_def assms(1) request_context_eq size)
  from over within waits show ?thesis by blast
qed

subsection \<open>Credentials and allowances\<close>

definition passes_size :: "'s http_config \<Rightarrow> http_request \<Rightarrow> bool" where
  "passes_size cfg req \<longleftrightarrow> (case hc_max_bytes cfg of None \<Rightarrow> True | Some cap \<Rightarrow> 1 \<le> cap \<and> fits cap req)"

definition identified :: "string \<Rightarrow> http_request \<Rightarrow> http_request" where
  "identified fresh req = req\<lparr>hr_id := Some (context_id fresh req)\<rparr>"

definition behind_auth :: "'s http_config \<Rightarrow> ('b, 's) http_app \<Rightarrow> ('b, 's) http_app" where
  "behind_auth cfg routes = (case hc_limiter cfg of None \<Rightarrow> routes | Some l \<Rightarrow> rate_limit l routes)"

lemma http_app_sized:
  assumes "passes_size cfg req" "hc_auth cfg = Some a"
  shows "http_app cfg fresh routes req s =
           (case authentication a (behind_auth cfg routes) (identified fresh req) s of
              (s', r) \<Rightarrow> (s', with_header ''x-request-id'' (context_id fresh req) r))"
proof (cases "hc_max_bytes cfg")
  case None
  with assms show ?thesis
    by (simp add: http_app_def Let_def behind_auth_def request_context_eq identified_def cong: option.case_cong)
next
  case (Some cap)
  with assms(1) have cap: "1 \<le> cap" "fits cap (identified fresh req)"
    by (simp_all add: passes_size_def fits_def identified_def cong: option.case_cong)
  from Some assms(2) show ?thesis
    by (simp add: http_app_def Let_def behind_auth_def request_context_eq size_limit_cases(2) [OF cap] identified_def [symmetric]
        cong: option.case_cong)
qed

definition presented :: "string \<Rightarrow> string" where
  "presented h = strip_by is_space (drop 7 h)"

text \<open>How a presented header is turned away: the decision that is recorded, the code and the message.\<close>

definition turned_away :: "'s auth_layer \<Rightarrow> string \<Rightarrow> (auth_decision \<times> string \<times> string) option" where
  "turned_away a h =
     (if take 7 h \<noteq> bearer then Some (Invalid_Token, ''invalid_authorization_header'', ''Malformed Authorization header.'')
      else case al_authenticate a (presented h) of
        Inr _ \<Rightarrow> None
      | Inl x \<Rightarrow> if x = TokenExpiredError then Some (Expired, ''token_expired'', ''Access token has expired.'')
                else if auth_error x then Some (Invalid_Token, ''invalid_credential'', ''Authentication failed.'')
                else None)"

lemma authentication_turned_away:
  assumes "header req ''authorization'' = Some h" "turned_away a h = Some (d, code, msg)"
  shows "authentication a app req s =
           (case al_audit a ((auth_event_new ''request.rejected'' (auth_decision_value d))\<lparr>ae_detail := Some code\<rparr>) s of
              (s', Inl x) \<Rightarrow> (s', Failed x)
            | (s', Inr _) \<Rightarrow> (s', json_response 401 (unauthorized_body req code msg) []))"
  using assms
  by (auto simp: authentication_def turned_away_def unauthorized_def presented_def decision_code_def Let_def
      split: if_splits sum.splits)

lemma header_identified [simp]: "header (identified fresh req) = header req"
  by (simp add: identified_def header_def fun_eq_iff)


lemma authentication_verified:
  assumes "header req ''authorization'' = Some h" "take 7 h = bearer" "al_authenticate a (presented h) = Inr p"
    and "al_audit a (authenticated_event (context_of p (method_for_principal p (method_for (presented h))))) s = (s1, Inr ())"
  shows "authentication a app req s =
           app (req\<lparr>hr_auth := Some (context_of p (method_for_principal p (method_for (presented h))))\<rparr>) s1"
  using assms by (simp add: authentication_def presented_def Let_def)

definition verified_request :: "string \<Rightarrow> http_request \<Rightarrow> string \<Rightarrow> auth_principal \<Rightarrow> http_request" where
  "verified_request fresh req h p =
     (identified fresh req)\<lparr>hr_auth := Some (context_of p (method_for_principal p (method_for (presented h))))\<rparr>"

text \<open>An authenticated request is charged to the tenant its credential proves and to nobody else,
  whatever its headers, path or body say: the limiter is asked once, for the principal's organization;
  an outage is answered 503 and a refusal 429 with the decision's own delay, both under the request's id
  and with no route run; only an allowed request reaches the routes, carrying that principal, and its
  response advertises the allowance the decision names.
\<close>

theorem verified_tenant_is_charged:
  assumes "passes_size cfg req" "hc_auth cfg = Some a" "hc_limiter cfg = Some l"
    and "header req ''authorization'' = Some h" "take 7 h = bearer" "al_authenticate a (presented h) = Inr p"
    and "al_audit a (authenticated_event (context_of p (method_for_principal p (method_for (presented h))))) s = (s1, Inr ())"
    and "l (pr_organization p) s1 = (s2, d)"
  shows "d = Inl RateLimiterUnavailableError \<Longrightarrow> http_app cfg fresh routes req s =
           (s2, refusal (context_id fresh req) 503 (limiter_down_body (identified fresh req)) [])"
    and "d = Inr \<lparr>rl_allowed = False, rl_limit = n, rl_remaining = k, rl_reset = t, rl_retry_after = Some w\<rparr> \<Longrightarrow>
         http_app cfg fresh routes req s =
           (s2, refusal (context_id fresh req) 429 (rate_limited_body (identified fresh req) w)
             [(''retry-after'', str_int w), (''ratelimit'', rate_limit_value (projr d))])"
    and "d = Inr r \<Longrightarrow> rl_allowed r \<Longrightarrow> http_app cfg fresh routes req s =
           (case routes (verified_request fresh req h p) s2 of
              (s3, rep) \<Rightarrow> (s3, with_header ''x-request-id'' (context_id fresh req)
                                 (with_header ''ratelimit'' (rate_limit_value r) rep)))"
proof -
  note app = http_app_sized [OF assms(1,2)]
  have auth: "authentication a (behind_auth cfg routes) (identified fresh req) s =
      rate_limit l routes (verified_request fresh req h p) s1"
    using authentication_verified [of "identified fresh req", unfolded header_identified, OF assms(4-7)] assms(3)
    by (simp add: behind_auth_def verified_request_def)
  have org: "hr_auth (verified_request fresh req h p) =
      Some (context_of p (method_for_principal p (method_for (presented h))))"
    "ac_organization (context_of p m) = pr_organization p" for m
    by (simp_all add: verified_request_def context_of_def)
  have id: "limiter_down_body (verified_request fresh req h p) = limiter_down_body (identified fresh req)"
    "rate_limited_body (verified_request fresh req h p) w = rate_limited_body (identified fresh req) w" for w
    by (simp_all add: limiter_down_body_def rate_limited_body_def request_id_of_def verified_request_def)
  show "http_app cfg fresh routes req s =
           (s2, refusal (context_id fresh req) 503 (limiter_down_body (identified fresh req)) [])"
    if "d = Inl RateLimiterUnavailableError"
    using that assms(8) by (simp add: app auth rate_limit_def org id refusal_def)
  show "http_app cfg fresh routes req s =
           (s2, refusal (context_id fresh req) 429 (rate_limited_body (identified fresh req) w)
             [(''retry-after'', str_int w), (''ratelimit'', rate_limit_value (projr d))])"
    if "d = Inr \<lparr>rl_allowed = False, rl_limit = n, rl_remaining = k, rl_reset = t, rl_retry_after = Some w\<rparr>"
    using that assms(8) by (simp add: app auth rate_limit_def org id refusal_def)
  show "http_app cfg fresh routes req s =
           (case routes (verified_request fresh req h p) s2 of
              (s3, rep) \<Rightarrow> (s3, with_header ''x-request-id'' (context_id fresh req)
                                 (with_header ''ratelimit'' (rate_limit_value r) rep)))"
    if "d = Inr r" "rl_allowed r"
    using that assms(8) by (simp add: app auth rate_limit_def org split: prod.splits)
qed

subsection \<open>The theorems at inputs\<close>

text \<open>A deployment whose audit log is a list and whose limiter answers from a list of decisions.\<close>

type_synonym sample_edge = "rate_limit_decision res list \<times> auth_event list"

definition sample_auth_layer :: "sample_edge auth_layer" where
  "sample_auth_layer =
     \<lparr>al_authenticate = bearer_authenticate sample_library sample_jwt sample_keys 1700000600000000,
      al_audit = (\<lambda>e (ds, es). ((ds, es @ [e]), Inr ()))\<rparr>"

definition sample_limiter :: "sample_edge rate_layer" where
  "sample_limiter org s =
     (case fst s of [] \<Rightarrow> (s, Inl RateLimiterUnavailableError) | d # ds \<Rightarrow> ((ds, snd s), d))"

definition sample_http :: "sample_edge http_config" where
  "sample_http = \<lparr>hc_limiter = Some sample_limiter, hc_auth = Some sample_auth_layer, hc_max_bytes = Some 5\<rparr>"

definition sample_routes :: "(unit, sample_edge) http_app" where
  "sample_routes req s = (s, json_response 200 (JStr (request_id_of req)) [])"

definition sample_post :: "(string \<times> string) list \<Rightarrow> message list \<Rightarrow> http_request" where
  "sample_post hs ms = \<lparr>hr_method = ''POST'', hr_path = ''/v1/inference'', hr_headers = hs, hr_messages = ms,
     hr_id = None, hr_auth = None\<rparr>"

definition sample_allow :: rate_limit_decision where
  "sample_allow = \<lparr>rl_allowed = True, rl_limit = 3, rl_remaining = 2, rl_reset = 1, rl_retry_after = None\<rparr>"

theorem body_cap_exact_witness:
  "http_app sample_http ''req_1'' sample_routes (sample_post [] [Http_Request ''abc'' True, Http_Request ''def'' False]) ([], []) =
     (([], []), refusal ''req_1'' 413
        (too_large_body ((sample_post [] [Http_Request ''abc'' True, Http_Request ''def'' False])\<lparr>hr_id := Some ''req_1''\<rparr>) 5) []) \<and>
   http_app sample_http ''req_1'' sample_routes (sample_post [] [Http_Request ''abc'' True, Http_Request ''de'' False]) ([], []) =
     http_app (sample_http\<lparr>hc_max_bytes := None\<rparr>) ''req_1'' sample_routes
       (sample_post [] [Http_Request ''abc'' True, Http_Request ''de'' False]) ([], []) \<and>
   http_app sample_http ''req_1'' sample_routes (sample_post [] [Http_Request ''abc'' True]) ([], []) = (([], []), Waiting)"
proof -
  have c: "hc_max_bytes sample_http = Some 5" "(1 :: int) \<le> 5" by (simp_all add: sample_http_def)
  show ?thesis
    using body_cap_exact [OF c, of "sample_post [] [Http_Request ''abc'' True, Http_Request ''def'' False]" "''req_1''" sample_routes]
      body_cap_exact [OF c, of "sample_post [] [Http_Request ''abc'' True, Http_Request ''de'' False]" "''req_1''" sample_routes]
      body_cap_exact [OF c, of "sample_post [] [Http_Request ''abc'' True]" "''req_1''" sample_routes]
    by (simp add: oversized_def fits_def declared_length_def header_def sample_post_def context_id_def)
qed

lemma sample_passes [simp]: "passes_size sample_http (sample_post ((''content-length'', ''0'') # hs) ms)"
proof -
  have "bytes_int ''0'' = Inr 0" by code_simp
  then show ?thesis by (simp add: passes_size_def sample_http_def fits_def declared_length_def header_def sample_post_def)
qed


theorem verified_tenant_is_charged_witness:
  "\<exists>e req. http_app sample_http ''req_1'' sample_routes
     (sample_post [(''content-length'', ''0''), (''authorization'', ''Bearer t1'')] []) ([Inr sample_allow], []) =
     (([], [e]), with_header ''x-request-id'' ''req_1'' (with_header ''ratelimit'' (rate_limit_value sample_allow)
        (json_response 200 (JStr ''req_1'') []))) \<and> sample_routes req ([], [e]) = (([], [e]), json_response 200 (JStr ''req_1'') [])"
proof -
  let ?req = "sample_post [(''content-length'', ''0''), (''authorization'', ''Bearer t1'')] []"
  let ?e = "authenticated_event (context_of sample_principal (method_for_principal sample_principal (method_for (presented ''Bearer t1''))))"
  have p: "presented ''Bearer t1'' = ''t1''" by code_simp
  have v: "al_authenticate sample_auth_layer (presented ''Bearer t1'') = Inr sample_principal"
    unfolding p sample_auth_layer_def by code_simp
  have c: "hc_auth sample_http = Some sample_auth_layer" "hc_limiter sample_http = Some sample_limiter"
    by (simp_all add: sample_http_def)
  have h: "header ?req ''authorization'' = Some ''Bearer t1''" by (simp add: header_def sample_post_def)
  have b: "take 7 ''Bearer t1'' = bearer" by (simp add: bearer_def)
  have a: "al_audit sample_auth_layer ?e ([Inr sample_allow], []) = (([Inr sample_allow], [?e]), Inr ())"
    by (simp add: sample_auth_layer_def)
  have l: "sample_limiter (pr_organization sample_principal) ([Inr sample_allow], [?e]) = (([], [?e]), Inr sample_allow)"
    by (simp add: sample_limiter_def)
  have rid: "context_id ''req_1'' ?req = ''req_1''" by (simp add: context_id_def header_def sample_post_def)
  have r: "sample_routes (verified_request ''req_1'' ?req ''Bearer t1'' sample_principal) ([], [?e]) =
      (([], [?e]), json_response 200 (JStr ''req_1'') [])"
    by (simp add: sample_routes_def verified_request_def identified_def request_id_of_def rid)
  from verified_tenant_is_charged(3) [OF sample_passes c h b v a l refl, of "''req_1''" sample_routes] r rid show ?thesis
    by (intro exI [of _ ?e] exI [of _ "verified_request ''req_1'' ?req ''Bearer t1'' sample_principal"])
      (simp add: sample_allow_def)
qed

end
