(* ===== verification/Health.thy ===== *)
theory Health imports Http begin

text \<open>
  Health reporting: the states and results of \<open>application/ports/health.py\<close>, the registry of
  \<open>delivery/http/ops/health.py\<close>, the two checks of the adapters and the operational routes that publish
  the report. A check is a function of the state it observes; the text of an exception is the argument
  \<open>describe\<close>.
\<close>

datatype health_state = Health_Ok | Health_Degraded | Health_Down

definition health_value :: "health_state \<Rightarrow> string" where
  "health_value h = (case h of Health_Ok \<Rightarrow> ''ok'' | Health_Degraded \<Rightarrow> ''degraded'' | Health_Down \<Rightarrow> ''down'')"

record check_result =
  cr_state :: health_state
  cr_detail :: "string option"

definition check_ok :: "string option \<Rightarrow> check_result" where
  "check_ok detail = \<lparr>cr_state = Health_Ok, cr_detail = detail\<rparr>"

definition check_degraded :: "string \<Rightarrow> check_result" where
  "check_degraded detail = \<lparr>cr_state = Health_Degraded, cr_detail = Some detail\<rparr>"

definition check_down :: "string \<Rightarrow> check_result" where
  "check_down detail = \<lparr>cr_state = Health_Down, cr_detail = Some detail\<rparr>"

type_synonym 's check = "'s \<Rightarrow> check_result res"

subsection \<open>The registry\<close>

definition severity :: "health_state \<Rightarrow> nat" where
  "severity h = (case h of Health_Ok \<Rightarrow> 0 | Health_Degraded \<Rightarrow> 1 | Health_Down \<Rightarrow> 2)"

definition worst :: "health_state \<Rightarrow> health_state \<Rightarrow> health_state" where
  "worst current candidate = (if severity current < severity candidate then candidate else current)"

record component_health =
  ch_name :: string
  ch_state :: health_state
  ch_detail :: "string option"

record health_report =
  hp_status :: health_state
  hp_version :: string
  hp_checked :: string
  hp_components :: "component_health list"

definition is_ready :: "health_report \<Rightarrow> bool" where
  "is_ready r \<longleftrightarrow> hp_status r \<noteq> Health_Down"

type_synonym 's registry = "(string \<times> 's check) list"

definition register :: "string \<Rightarrow> 's check \<Rightarrow> 's registry \<Rightarrow> 's registry res" where
  "register name check reg = (if name \<in> fst ` set reg then Inl ValueError else Inr (reg @ [(name, check)]))"

fun run_checks :: "(exn \<Rightarrow> string) \<Rightarrow> 's \<Rightarrow> 's registry \<Rightarrow> health_state \<Rightarrow> component_health list \<Rightarrow>
    health_state \<times> component_health list" where
  "run_checks describe s [] overall components = (overall, components)"
| "run_checks describe s ((name, check) # reg) overall components =
     (case check s of
        Inl x \<Rightarrow> run_checks describe s reg Health_Down
          (components @ [\<lparr>ch_name = name, ch_state = Health_Down, ch_detail = Some (''check raised: '' @ describe x)\<rparr>])
      | Inr r \<Rightarrow> run_checks describe s reg (worst overall (cr_state r))
          (components @ [\<lparr>ch_name = name, ch_state = cr_state r, ch_detail = cr_detail r\<rparr>]))"

definition run_registry :: "(exn \<Rightarrow> string) \<Rightarrow> string \<Rightarrow> string \<Rightarrow> 's registry \<Rightarrow> 's \<Rightarrow> health_report" where
  "run_registry describe version checked reg s =
     (case run_checks describe s reg Health_Ok [] of
        (overall, components) \<Rightarrow>
          \<lparr>hp_status = overall, hp_version = version, hp_checked = checked, hp_components = components\<rparr>)"

subsection \<open>The checks of the adapters\<close>

text \<open>\<open>reachable\<close> is what \<open>SELECT 1\<close> finds: \<open>None\<close> when it succeeds, else the text of the failure.\<close>

definition database_check :: "('s \<Rightarrow> string option) \<Rightarrow> 's check" where
  "database_check reachable s =
     Inr (case reachable s of None \<Rightarrow> check_ok (Some ''ok'') | Some e \<Rightarrow> check_down (''database unreachable: '' @ e))"

definition shared_state_check :: "('s \<Rightarrow> ('a, 'b) degraded_limiter) \<Rightarrow> 's check" where
  "shared_state_check limiter s =
     Inr (if dl_degraded (limiter s)
          then check_degraded ''rate-limit store unreachable; limits are enforced per replica, not shared''
          else check_ok (Some ''shared''))"

subsection \<open>The operational routes\<close>

definition report_payload :: "health_report \<Rightarrow> json" where
  "report_payload r =
     JObj [(''status'', JStr (health_value (hp_status r))), (''version'', JStr (hp_version r)),
       (''checked_at'', JStr (hp_checked r)),
       (''checks'', JList (map (\<lambda>c. JObj [(''name'', JStr (ch_name c)), (''status'', JStr (health_value (ch_state c))),
          (''detail'', case ch_detail c of None \<Rightarrow> JNull | Some d \<Rightarrow> JStr d)]) (hp_components r)))]"

definition report_reply :: "health_report \<Rightarrow> 'b reply" where
  "report_reply r = json_response (if is_ready r then 200 else 503) (report_payload r) []"

text \<open>\<open>/metrics\<close> writes the exposition of the metrics library.\<close>

definition ops_route :: "('s \<Rightarrow> health_report) \<Rightarrow> string \<Rightarrow> 's \<Rightarrow> 'b reply option" where
  "ops_route report path s =
     (if path = ''/livez'' then Some (json_response 200 (JObj [(''status'', JStr ''alive'')]) [])
      else if path \<in> {''/readyz'', ''/healthz''} then Some (report_reply (report s))
      else if path = ''/metrics'' then Some (Responded \<lparr>rs_status = 200, rs_headers = [], rs_body = Framework_Body\<rparr>)
      else None)"

definition jwks_path :: string where
  "jwks_path = ''/.well-known/jwks.json''"

definition jwks_route :: "(string \<Rightarrow> (nat \<times> nat) option) \<Rightarrow> key_provider \<Rightarrow> string \<Rightarrow> 'b reply option" where
  "jwks_route numbers kp path =
     (if path = jwks_path
      then Some (case provider_jwks numbers kp of Inl x \<Rightarrow> Failed x | Inr doc \<Rightarrow> json_response 200 doc [])
      else None)"

subsection \<open>Worst wins\<close>

definition outcome_state :: "check_result res \<Rightarrow> health_state" where
  "outcome_state a = (case a of Inl _ \<Rightarrow> Health_Down | Inr r \<Rightarrow> cr_state r)"

lemma severity_inj: "severity a = severity b \<Longrightarrow> a = b"
  by (cases a; cases b) (simp_all add: severity_def)

lemma severity_worst: "severity (worst a b) = max (severity a) (severity b)"
  by (simp add: worst_def max_def)

lemma severity_down: "severity h \<le> severity Health_Down"
  by (cases h) (simp_all add: severity_def)

lemma run_checks_state:
  "severity (fst (run_checks describe s reg overall components)) \<le> k \<longleftrightarrow>
     severity overall \<le> k \<and> (\<forall>(n, c)\<in>set reg. severity (outcome_state (c s)) \<le> k)"
proof (induction reg arbitrary: overall components)
  case (Cons nc reg)
  obtain n c where nc: "nc = (n, c)" by (cases nc)
  have "severity Health_Down \<le> k \<Longrightarrow> severity overall \<le> k" using severity_down [of overall] by simp
  then show ?case by (cases "c s") (auto simp: nc Cons.IH severity_worst outcome_state_def)
qed simp

lemma run_checks_components:
  "snd (run_checks describe s reg overall components) = components @
     map (\<lambda>(n, c). \<lparr>ch_name = n, ch_state = outcome_state (c s),
       ch_detail = (case c s of Inl x \<Rightarrow> Some (''check raised: '' @ describe x) | Inr r \<Rightarrow> cr_detail r)\<rparr>) reg"
  by (induction reg arbitrary: overall components) (auto simp: outcome_state_def split: sum.split)


definition sample_registry :: "bool registry" where
  "sample_registry =
     [(''database'', database_check (\<lambda>up. if up then None else Some ''refused'')),
      (''rate_limit'', \<lambda>up. Inr (check_degraded ''per replica'')), (''cache'', \<lambda>up. if up then Inr (check_ok None) else Inl ValueError)]"

text \<open>
  Health is the worst of its parts and never breaks: every registered check is reported once, in
  order and under its own name, a check that raises as DOWN with what it raised; the status is DOWN when
  some check is, otherwise DEGRADED when some check is, otherwise OK; both probes answer 503 exactly when
  it is DOWN, so a degraded gateway stays in rotation, and the same names cannot be registered twice.
\<close>

theorem health_worst_wins:
  shows "map (\<lambda>c. (ch_name c, ch_state c)) (hp_components (run_registry describe version checked reg s)) = map (\<lambda>(n, c). (n, outcome_state (c s))) reg"
    and "hp_status (run_registry describe version checked reg s) = (if \<exists>(n, c)\<in>set reg. outcome_state (c s) = Health_Down then Health_Down
           else if \<exists>(n, c)\<in>set reg. outcome_state (c s) = Health_Degraded then Health_Degraded else Health_Ok)"
    and "ops_route (run_registry describe version checked reg) ''/readyz'' s = Some (report_reply (run_registry describe version checked reg s))"
    and "report_reply (run_registry describe version checked reg s) = json_response
           (if \<exists>(n, c)\<in>set reg. outcome_state (c s) = Health_Down then 503 else 200) (report_payload (run_registry describe version checked reg s)) []"
    and "register name check reg = Inl ValueError \<longleftrightarrow> name \<in> fst ` set reg"
proof -
  have status: "hp_status (run_registry describe version checked reg s) = fst (run_checks describe s reg Health_Ok [])"
    by (simp add: run_registry_def split: prod.split)
  have le: "severity (hp_status (run_registry describe version checked reg s)) \<le> k \<longleftrightarrow> (\<forall>(n, c)\<in>set reg. severity (outcome_state (c s)) \<le> k)" for k
    unfolding status run_checks_state by (simp add: severity_def)
  have sev: "severity h \<le> 1 \<longleftrightarrow> h \<noteq> Health_Down" "severity h \<le> 0 \<longleftrightarrow> h = Health_Ok" for h
    by (cases h; simp add: severity_def)+
  show "map (\<lambda>c. (ch_name c, ch_state c)) (hp_components (run_registry describe version checked reg s)) = map (\<lambda>(n, c). (n, outcome_state (c s))) reg"
    using run_checks_components [of describe s reg Health_Ok "[]"]
    by (auto simp: run_registry_def split: prod.split)
  show st: "hp_status (run_registry describe version checked reg s) = (if \<exists>(n, c)\<in>set reg. outcome_state (c s) = Health_Down then Health_Down
           else if \<exists>(n, c)\<in>set reg. outcome_state (c s) = Health_Degraded then Health_Degraded else Health_Ok)"
  proof (cases "hp_status (run_registry describe version checked reg s)")
    case Health_Ok
    with le [of 0] show ?thesis unfolding sev by auto
  next
    case Health_Degraded
    with le [of 0] obtain n c where nc: "(n, c) \<in> set reg" "outcome_state (c s) \<noteq> Health_Ok" unfolding sev by auto
    have none: "\<not> (\<exists>(n, c)\<in>set reg. outcome_state (c s) = Health_Down)" using le [of 1] Health_Degraded unfolding sev by auto
    then have "outcome_state (c s) = Health_Degraded" using nc by (cases "outcome_state (c s)") auto
    then have "\<exists>(n, c)\<in>set reg. outcome_state (c s) = Health_Degraded" using nc(1) by auto
    with none Health_Degraded show ?thesis by (simp only: if_True if_False)
  next
    case Health_Down
    with le [of 1] show ?thesis unfolding sev by auto
  qed
  show "ops_route (run_registry describe version checked reg) ''/readyz'' s = Some (report_reply (run_registry describe version checked reg s))"
    by (simp add: ops_route_def)
  show "report_reply (run_registry describe version checked reg s) = json_response
           (if \<exists>(n, c)\<in>set reg. outcome_state (c s) = Health_Down then 503 else 200) (report_payload (run_registry describe version checked reg s)) []"
    by (simp add: report_reply_def is_ready_def st)
  show "register name check reg = Inl ValueError \<longleftrightarrow> name \<in> fst ` set reg"
    by (simp add: register_def)
qed

end
