(* ===== verification/Pricing.thy ===== *)
theory Pricing imports Money begin

text \<open>
  The two price sources behind \<open>PricingPort\<close>: the fixed in-process table
  (\<open>adapters/pricing/static_price_table.py\<close>) and the effective-dated table of the database
  (\<open>adapters/pricing/sql_price_table.py\<close>). Both are instances of the type \<open>pricing\<close> of \<open>Money\<close>.
\<close>

subsection \<open>StaticPriceTable\<close>

definition static_price_table :: "model_price list \<Rightarrow> string \<times> string \<rightharpoonup> model_price" where
  "static_price_table prices =
     foldl (\<lambda>m p. m((price_provider p, price_model p) \<mapsto> p)) Map.empty prices"

definition static_price_for :: "model_price list \<Rightarrow> pricing" where
  "static_price_for prices org provider model =
     Inr (static_price_table prices (provider, model))"

subsection \<open>SqlPriceTable\<close>

record provider_row =
  pr_id :: uuid
  pr_organization :: uuid
  pr_name :: string

record model_row =
  mr_id :: uuid
  mr_organization :: uuid
  mr_provider_id :: uuid
  mr_name :: string

record price_row =
  pt_organization :: uuid
  pt_model_id :: uuid
  pt_input :: decimal
  pt_output :: decimal
  pt_currency :: string
  pt_from :: instant
  pt_to :: "instant option"

record price_db =
  pdb_up :: bool
  pdb_providers :: "provider_row list"
  pdb_models :: "model_row list"
  pdb_prices :: "price_row list"

text \<open>The unit of work is bound to the tenant, so row-level security hides every other tenant's
  rows of the three tables before the query's own conditions are applied.\<close>

definition price_names ::
  "price_db \<Rightarrow> uuid \<Rightarrow> string \<Rightarrow> string \<Rightarrow> price_row \<Rightarrow> bool" where
  "price_names db org provider model p \<longleftrightarrow>
     pt_organization p = org \<and>
     list_ex (\<lambda>m. mr_organization m = org \<and> mr_id m = pt_model_id p \<and> mr_name m = model \<and>
        list_ex (\<lambda>v. pr_organization v = org \<and> pr_id v = mr_provider_id m \<and> pr_name v = provider)
          (pdb_providers db)) (pdb_models db)"

definition price_effective :: "instant \<Rightarrow> price_row \<Rightarrow> bool" where
  "price_effective now p \<longleftrightarrow>
     pt_from p \<le> now \<and> (case pt_to p of None \<Rightarrow> True | Some e \<Rightarrow> now < e)"

text \<open>\<open>ORDER BY effective_from DESC LIMIT 1\<close>: the first of the rows with the latest start.\<close>

fun latest_price :: "price_row list \<Rightarrow> price_row option" where
  "latest_price [] = None"
| "latest_price (p # ps) =
     (case latest_price ps of
        None \<Rightarrow> Some p
      | Some q \<Rightarrow> if pt_from p < pt_from q then Some q else Some p)"

definition sql_price_for :: "price_db \<Rightarrow> instant \<Rightarrow> pricing" where
  "sql_price_for db now org provider model =
     (if \<not> pdb_up db then Inl PriceTableUnavailableError
      else (case latest_price
                  (filter (\<lambda>p. price_names db org provider model p \<and> price_effective now p)
                    (pdb_prices db)) of
          None \<Rightarrow> Inr None
        | Some r \<Rightarrow> Inr (Some \<lparr>price_provider = provider, price_model = model,
             input_price_per_1k = pt_input r, output_price_per_1k = pt_output r,
             price_currency = pt_currency r\<rparr>)))"

lemma latest_price_Some:
  "latest_price ps = Some r \<Longrightarrow> r \<in> set ps \<and> (\<forall>p\<in>set ps. pt_from p \<le> pt_from r)"
  proof (induction ps arbitrary: r)
  case Nil
  then show ?case by simp
next
  case (Cons p ps)
  show ?case
  proof (cases "latest_price ps")
    case None
    with Cons.prems show ?thesis by (cases ps) (auto split: option.splits if_splits)
  next
    case (Some q)
    with Cons.IH [OF Some] Cons.prems show ?thesis by (auto split: if_splits)
  qed
qed

lemma latest_price_None [simp]: "latest_price ps = None \<longleftrightarrow> ps = []"
  by (cases ps) (auto split: option.splits)

text \<open>A price served from the database belongs to the asking tenant and to the named provider
  and model, is in force at the moment of the lookup, and no other such price in force starts later;
  a model is reported as unpriced exactly when the tenant has no such price in force.\<close>

theorem sql_price_for_current:
  assumes "pdb_up db"
  shows "(case sql_price_for db now org provider model of
            Inl e \<Rightarrow> False
          | Inr None \<Rightarrow> \<nexists>p. p \<in> set (pdb_prices db) \<and> price_names db org provider model p \<and>
                            price_effective now p
          | Inr (Some mp) \<Rightarrow>
              price_provider mp = provider \<and> price_model mp = model \<and>
              (\<exists>r. r \<in> set (pdb_prices db) \<and> price_names db org provider model r \<and>
                price_effective now r \<and> pt_organization r = org \<and>
                input_price_per_1k mp = pt_input r \<and> output_price_per_1k mp = pt_output r \<and>
                price_currency mp = pt_currency r \<and>
                (\<nexists>p. p \<in> set (pdb_prices db) \<and> price_names db org provider model p \<and>
                     price_effective now p \<and> pt_from r < pt_from p)))"
proof -
  let ?ps = "filter (\<lambda>p. price_names db org provider model p \<and> price_effective now p)
    (pdb_prices db)"
  show ?thesis
  proof (cases "latest_price ?ps")
    case None
    with assms show ?thesis
      by (auto simp: sql_price_for_def filter_empty_conv)
  next
    case (Some r)
    from latest_price_Some [OF Some] have r: "r \<in> set (pdb_prices db)"
      "price_names db org provider model r" "price_effective now r"
      and last: "\<And>p. p \<in> set (pdb_prices db) \<Longrightarrow> price_names db org provider model p \<Longrightarrow>
        price_effective now p \<Longrightarrow> \<not> pt_from r < pt_from p"
      by (auto simp: not_less)
    from r(2) have "pt_organization r = org" by (simp add: price_names_def)
    with assms Some r last show ?thesis
      by (auto simp: sql_price_for_def)
  qed
qed

definition sample_price_db :: price_db where
  "sample_price_db = \<lparr>pdb_up = True,
     pdb_providers = [\<lparr>pr_id = 10, pr_organization = 7, pr_name = ''acme''\<rparr>],
     pdb_models = [\<lparr>mr_id = 20, mr_organization = 7, mr_provider_id = 10, mr_name = ''m1''\<rparr>],
     pdb_prices =
       [\<lparr>pt_organization = 7, pt_model_id = 20, pt_input = Dec 100 (-8), pt_output = Dec 200 (-8),
         pt_currency = ''USD'', pt_from = 0, pt_to = None\<rparr>,
        \<lparr>pt_organization = 7, pt_model_id = 20, pt_input = Dec 150 (-8), pt_output = Dec 250 (-8),
         pt_currency = ''USD'', pt_from = 50, pt_to = Some 90\<rparr>]\<rparr>"

lemma sample_price_lookup:
  "sql_price_for sample_price_db 60 7 ''acme'' ''m1'' =
     Inr (Some \<lparr>price_provider = ''acme'', price_model = ''m1'',
       input_price_per_1k = Dec 150 (-8), output_price_per_1k = Dec 250 (-8),
       price_currency = ''USD''\<rparr>)"
  by (simp add: sql_price_for_def sample_price_db_def price_names_def price_effective_def)

theorem sql_price_for_current_witness:
  "\<exists>r. r \<in> set (pdb_prices sample_price_db) \<and> price_effective 60 r \<and>
       pt_input r = Dec 150 (-8)"
proof -
  have "pdb_up sample_price_db" by (simp add: sample_price_db_def)
  from sql_price_for_current [OF this, where now = 60 and org = 7 and provider = "''acme''"
      and model = "''m1''"]
  show ?thesis by (auto simp: sample_price_lookup)
qed

lemma static_price_for_last:
  "static_price_for (prices @ [p]) org (price_provider p) (price_model p) = Inr (Some p)"
  by (simp add: static_price_for_def static_price_table_def)

end
