(* ===== verification/Reservation.thy ===== *)
theory Reservation imports Sql_Ledger_History Pricing begin

text \<open>
  The reservation service (\<open>application/accounting/reservation_service.py\<close>) and the reconciler it runs
  first (\<open>application/accounting/reservation_reconciler.py\<close>), over any ledger port and any price
  source. The port's guarantees carry over in the context \<open>budget_ledger\<close>; the SQL ledger's
  interpretation gives the properties at the end.
\<close>

subsection \<open>ReservationReconciler\<close>

definition default_reservation_ttl :: duration where
  "default_reservation_ttl = 15 * 60 * second"

definition reconciler_new :: "duration \<Rightarrow> duration res" where
  "reconciler_new ttl = (if ttl \<le> 0 then Inl ValueError else Inr ttl)"

definition reclaim :: "'l ledger_port \<Rightarrow> duration \<Rightarrow> uuid \<Rightarrow> instant \<Rightarrow> 'l \<Rightarrow> 'l \<times> nat res" where
  "reclaim port ttl org now l =
     (case lp_reconcile port org (now - ttl) now l of
        (l', Inr n) \<Rightarrow> (l', Inr n)
      | (l', Inl e) \<Rightarrow> (l', if e = LedgerUnavailableError then Inr 0 else Inl e))"

subsection \<open>ReservationService\<close>

definition service_estimate :: "pricing \<Rightarrow> uuid \<Rightarrow> provider_descriptor \<Rightarrow> inference_request \<Rightarrow> money res" where
  "service_estimate price_for org provider req =
     (case price_for org (prov_name provider) (prov_model provider) of
        Inl e \<Rightarrow> Inl e
      | Inr None \<Rightarrow> Inl UnknownPriceError
      | Inr (Some price) \<Rightarrow>
          (case compute_cost (estimate_usage req) price of
             Inl e \<Rightarrow> Inl e
           | Inr (ic, oc, tc) \<Rightarrow> Inr tc))"

definition service_reserve ::
  "'l ledger_port \<Rightarrow> pricing \<Rightarrow> duration \<Rightarrow> uuid \<Rightarrow> provider_descriptor \<Rightarrow> inference_request \<Rightarrow> instant \<Rightarrow>
     'l \<Rightarrow> 'l \<times> reservation_result res" where
  "service_reserve port price_for ttl org provider req now l =
     (case reclaim port ttl org now l of
        (l1, Inl e) \<Rightarrow> (l1, Inl e)
      | (l1, Inr n) \<Rightarrow>
          (case service_estimate price_for org provider req of
             Inl e \<Rightarrow> (l1, Inl e)
           | Inr est \<Rightarrow>
               (case lp_reserve port org (correlation_id req) est now l1 of
                  (l2, Inr r) \<Rightarrow> (l2, Inr r)
                | (l2, Inl e) \<Rightarrow>
                    (l2, if e = LedgerUnavailableError
                         then Inr \<lparr>rs_outcome = UNAVAILABLE, rs_organization = org,
                                   rs_correlation = correlation_id req, rs_estimated = est,
                                   rs_remaining = None\<rparr>
                         else Inl e))))"

definition settlement_of :: "cost_record \<Rightarrow> settlement_detail" where
  "settlement_of r =
     \<lparr>sd_provider = cr_provider r, sd_model = cr_model r,
      sd_prompt = prompt_tokens (cr_usage r), sd_completion = completion_tokens (cr_usage r),
      sd_input = cr_input_cost r, sd_output = cr_output_cost r, sd_total = cr_total_cost r\<rparr>"

definition service_settle ::
  "'l ledger_port \<Rightarrow> pricing \<Rightarrow> uuid \<Rightarrow> string \<Rightarrow> provider_response \<Rightarrow> provider_descriptor \<Rightarrow> instant \<Rightarrow>
     'l \<Rightarrow> 'l \<times> cost_record res" where
  "service_settle port price_for org cid response provider now l =
     (case account price_for response provider org cid of
        Inl e \<Rightarrow> (l, Inl e)
      | Inr rec \<Rightarrow>
          (case lp_settle port org cid (settlement_of rec) now l of
             (l', Inl e) \<Rightarrow> (l', Inl e)
           | (l', Inr u) \<Rightarrow> (l', Inr rec)))"

definition service_release ::
  "'l ledger_port \<Rightarrow> uuid \<Rightarrow> string \<Rightarrow> instant \<Rightarrow> 'l \<Rightarrow> 'l \<times> unit res" where
  "service_release port org cid now l = lp_release port org cid now l"

subsection \<open>For every ledger\<close>

context budget_ledger
begin

lemma wf_reclaim: "wf l \<Longrightarrow> wf (fst (reclaim port ttl org now l))"
  using wf_reconcile [of l org "now - ttl" now]
  by (auto simp: reclaim_def split: prod.split sum.split)

lemma reclaim_total: "(\<And>l l' e. lp_reconcile port org (now - ttl) now l = (l', Inl e) \<Longrightarrow> e = LedgerUnavailableError) \<Longrightarrow>
    \<exists>n. snd (reclaim port ttl org now l) = Inr n"
  by (auto simp: reclaim_def split: prod.split sum.split)

lemma service_reserve_wf: "wf l \<Longrightarrow> wf (fst (service_reserve port price_for ttl org provider req now l))"
  using wf_reclaim [of l ttl org now] wf_reserve
  by (auto simp: service_reserve_def split: prod.split sum.split)
    (metis fst_conv)+

lemma service_reserve_permitted:
  assumes "wf l" "service_reserve port price_for ttl org provider req now l = (l', Inr r)" "permitted r"
  shows "held l' org (correlation_id req) \<noteq> None \<or> booked l' org (correlation_id req)"
proof -
  obtain l1 n est where l1: "reclaim port ttl org now l = (l1, Inr n)"
    and r: "lp_reserve port org (correlation_id req) est now l1 = (l', Inr r)"
    using assms(2,3)
    by (auto simp: service_reserve_def permitted_def split: prod.splits sum.splits if_splits)
  have "wf l1" using wf_reclaim [OF assms(1), of ttl org now] l1 by simp
  with r assms(3) show ?thesis by (auto simp: permitted_def dest: reserve_granted)
qed

lemma service_settle_wf: "wf l \<Longrightarrow> wf (fst (service_settle port price_for org cid response provider now l))"
  using wf_settle by (auto simp: service_settle_def split: prod.split sum.split) (metis fst_conv)+

lemma service_settle_done:
  assumes "wf l" "service_settle port price_for org cid response provider now l = (l', Inr rec)"
  shows "held l' org cid = None \<and> booked l' org cid"
  using assms by (auto simp: service_settle_def split: prod.splits sum.splits dest: settle_done)

lemma service_settle_unaccounted:
  "account price_for response provider org cid = Inl e \<Longrightarrow>
     service_settle port price_for org cid response provider now l = (l, Inl e)"
  by (simp add: service_settle_def)

end

subsection \<open>Over the SQL ledger\<close>

lemma reconcile_tx_total:
  assumes "ledger_inv db"
  obtains db' n where "reconcile_tx org older now db = Commit db' n"
proof (cases "filter (stale org older) (budget_reservation db) = []")
  case True
  then show ?thesis by (intro that) (simp add: reconcile_tx_def)
next
  case False
  let ?m = "sum_where (stale org older) rr_estimated (budget_reservation db)"
  have le: "?m \<le> held_sum org db" unfolding held_sum_def
    using assms by (intro sum_where_mono) (auto simp: stale_def ledger_inv_defs reservation_row_ok_def)
  have pos: "0 \<le> ?m"
    using assms by (intro sum_where_nonneg) (auto simp: ledger_inv_defs reservation_row_ok_def)
  have "budget_row_ok (add_reserved (- ?m) b)" if "b \<in> set (org_budget db)" "bg_organization b = org" for b
    using that le pos assms
    by (fastforce simp: ledger_inv_defs budget_row_ok_def in_range_def add_reserved_def)
  then have "\<forall>b\<in>set (org_budget (update_budget org (add_reserved (- ?m)) db)).
      bg_organization b = org \<longrightarrow> budget_row_ok b"
    unfolding update_budget_def by simp (intro ball_update_where; auto)
  then have "budget_checked org (update_budget org (add_reserved (- ?m)) db)"
    by (auto simp: budget_checked_def list_all_iff)
  with False show ?thesis
    by (intro that) (simp add: reconcile_tx_def Let_def sum_where_def add_reserved_def [abs_def]
        budget_checked_def update_budget_def)
qed

lemma sql_reclaim:
  assumes "ledger_inv db" "db_faults db = []"
  obtains db' n where "reclaim sql_ledger_port ttl org now db = (db', Inr n)"
    "reconcile_tx org (now - ttl) now db = Commit db' n"
proof -
  obtain db' n where t: "reconcile_tx org (now - ttl) now db = Commit db' n"
    using assms(1) by (rule reconcile_tx_total)
  with assms(2) show ?thesis
    by (intro that) (simp_all add: reclaim_def sql_ledger_port_def sql_reconcile_expired_def run_tx_no_fault)
qed

text \<open>The reconciler reclaims exactly the stale holds. With a reachable database it always
succeeds; afterwards a reservation of the tenant is expired if and only if it was live and older
than the time to live or already expired, every other row of the tenant is as it was, reserved has
dropped by exactly the estimates of the reclaimed holds and the returned count is their number.\<close>

theorem reclaim_exact:
  assumes "ledger_inv db" "db_faults db = []" "find_budget org db = Some b"
  shows "\<exists>db' n. reclaim sql_ledger_port ttl org now db = (db', Inr n) \<and>
    n = length (filter (stale org (now - ttl)) (budget_reservation db)) \<and>
    (\<forall>cid. find_reservation org cid db' =
       map_option (\<lambda>r. if stale org (now - ttl) r then mark_expired now r else r)
         (find_reservation org cid db)) \<and>
    find_budget org db' = Some (b\<lparr>bg_reserved := bg_reserved b -
       sum_list (map rr_estimated (filter (stale org (now - ttl)) (budget_reservation db)))\<rparr>)"
proof -
  obtain db' n where t: "reclaim sql_ledger_port ttl org now db = (db', Inr n)"
    "reconcile_tx org (now - ttl) now db = Commit db' n"
    using assms(1,2) by (rule sql_reclaim)
  have "n = length (filter (stale org (now - ttl)) (budget_reservation db)) \<and>
      find_budget org db' = Some (b\<lparr>bg_reserved := bg_reserved b -
        sum_list (map rr_estimated (filter (stale org (now - ttl)) (budget_reservation db)))\<rparr>)"
    using t(2) assms(3)
    by (cases rule: reconcile_tx_cases) (auto simp: find_budget_update sum_where_def add_reserved_def)
  with t show ?thesis by (auto simp: reconcile_tx_find)
qed

theorem reclaim_exact_witness:
  "\<exists>db' n. reclaim sql_ledger_port 100 7 500 sample_held = (db', Inr n) \<and>
     n = length (filter (stale 7 (500 - 100)) (budget_reservation sample_held))"
proof -
  have f: "db_faults sample_held = []" by code_simp
  have b: "find_budget 7 sample_held = Some (sample_budget\<lparr>bg_reserved := 300\<rparr>)" by code_simp
  show ?thesis using reclaim_exact [OF sample_inv(2) f b, of 100 500] by blast
qed

lemma compute_cost_errors:
  "compute_cost u p = Inl e \<Longrightarrow> e = ValueError \<or> e = InvalidOperation"
  by (auto simp: compute_cost_def money_new_def quantize_def money_add_def
      split: sum.splits option.splits if_splits)

lemma sql_reserve_errors:
  "sql_reserve org cid est now db = (db', Inl e) \<Longrightarrow> e = LedgerUnavailableError \<or> e = UnsupportedCurrencyError"
  by (auto simp: sql_reserve_def run_tx_def Let_def reserve_tx_def reserve_decide_def take_hold_def guarded_def
      split: tx.splits option.splits if_splits list.splits)

lemma sql_reconcile_errors:
  "sql_reconcile_expired org older now db = (db', Inl e) \<Longrightarrow> e = LedgerUnavailableError"
  by (auto simp: sql_reconcile_expired_def run_tx_def Let_def reconcile_tx_def guarded_def
      split: tx.splits option.splits if_splits list.splits)

lemma sql_price_for_errors: "sql_price_for pdb t org p m = Inl e \<Longrightarrow> e = PriceTableUnavailableError"
  by (auto simp: sql_price_for_def split: if_splits option.splits)

text \<open>The budget gate fails closed. Whatever connections the ledger loses, reserving through the
service never raises an outage of the ledger: a call is either permitted, and then the ledger holds
the estimate or has already booked the call, or it is refused, an outage being reported as
UNAVAILABLE and not permitted; the errors left are an unpriced model, a price table that cannot
answer, a currency mismatch and an amount Decimal refuses.\<close>

theorem service_reserve_fails_closed:
  assumes "ledger_inv db"
    and "service_reserve sql_ledger_port (sql_price_for pdb t) ttl org provider req now db = (db', a)"
  shows "ledger_inv db' \<and>
    (case a of
       Inl e \<Rightarrow> e \<in> {UnknownPriceError, PriceTableUnavailableError, UnsupportedCurrencyError,
                    ValueError, InvalidOperation}
     | Inr r \<Rightarrow> (permitted r \<longrightarrow> sql_held db' org (correlation_id req) \<noteq> None \<or>
                               sql_booked db' org (correlation_id req)) \<and>
               (rs_outcome r = UNAVAILABLE \<longrightarrow> \<not> permitted r))"
proof -
  have "ledger_inv db'"
    using sql.service_reserve_wf [OF assms(1)] assms(2) by (metis fst_conv)
  moreover have "e \<in> {UnknownPriceError, PriceTableUnavailableError, UnsupportedCurrencyError,
      ValueError, InvalidOperation}" if "a = Inl e" for e
    using assms(2) that
    by (auto simp: service_reserve_def reclaim_def service_estimate_def sql_ledger_port_def
        split: prod.splits sum.splits option.splits if_splits
        dest: sql_reconcile_errors sql_reserve_errors sql_price_for_errors compute_cost_errors)
  moreover have "permitted r \<longrightarrow> sql_held db' org (correlation_id req) \<noteq> None \<or>
      sql_booked db' org (correlation_id req)" if "a = Inr r" for r
    using sql.service_reserve_permitted [OF assms(1)] assms(2) that by blast
  ultimately show ?thesis
    by (auto simp: permitted_def split: sum.split)
qed

definition sample_request :: inference_request where
  "sample_request = \<lparr>correlation_id = ''a#1'', payload = [(''prompt'', JStr ''hello'')]\<rparr>"

definition sample_provider :: provider_descriptor where
  "sample_provider = \<lparr>prov_name = ''acme'', prov_model = ''m1'', prov_region = ''eu''\<rparr>"

theorem service_reserve_fails_closed_witness:
  "ledger_inv (fst (service_reserve sql_ledger_port (sql_price_for sample_price_db 60) 100 7
     sample_provider sample_request 500 (sample_held\<lparr>db_faults := [None, Some Lost_before_commit]\<rparr>)))"
proof -
  have "ledger_inv (sample_held\<lparr>db_faults := [None, Some Lost_before_commit]\<rparr>)"
    using sample_inv(2) by simp
  from service_reserve_fails_closed [OF this surjective_pairing] show ?thesis by blast
qed

lemma account_cases:
  assumes "account price_for response provider org cid = Inr rec"
  obtains usage price where "resp_usage response = Some usage"
    "0 \<le> prompt_tokens usage" "0 \<le> completion_tokens usage"
    "price_for org (prov_name provider) (prov_model provider) = Inr (Some price)"
    "compute_cost usage price = Inr (cr_input_cost rec, cr_output_cost rec, cr_total_cost rec)"
    "cr_usage rec = usage" "cr_provider rec = prov_name provider" "cr_model rec = prov_model provider"
    "cr_organization rec = org" "cr_correlation rec = cid"
  using assms by (auto simp: account_def split: option.splits sum.splits if_splits)

lemma numeric8_grid: "expo d = -8 \<Longrightarrow> numeric8 d = coef d"
  by (cases d) simp

lemma settle_new_row:
  assumes "ledger_inv db" "\<not> sql_booked db org cid" "sql_settle org cid d now db = (db', Inr u)"
  shows "cost_rows org cid db' = [settled_cost org cid d]"
proof -
  have "settle_tx org cid d now (db\<lparr>db_faults := tl (db_faults db)\<rparr>) = Commit db' u"
    using assms(3) unfolding sql_settle_def by (auto elim: run_tx_Inr)
  then show ?thesis
  proof (cases rule: settle_tx_cases)
    case (replay r)
    with assms(2) show ?thesis by (simp add: sql_booked_def)
  next
    case (book r n d1 d2)
    have "(org, cid) \<notin> cl_key ` set (cost_ledger db)"
      using assms(1) find_reservation_Some [of org cid db r] book(1,2)
      by (auto simp: ledger_inv_defs rr_key_def)
    then have none: "cost_rows org cid db = []" and
      "\<not> list_ex (\<lambda>r. cl_key r = (org, cid)) (cost_ledger db)"
      by (auto simp: cost_rows_def filter_empty_conv list_ex_iff image_iff)
    then have "cost_ledger db' = cost_ledger db @ [settled_cost org cid d]"
      unfolding book(5-7) by (simp add: insert_cost_def update_reservation_def update_budget_def)
    with none show ?thesis by (simp add: cost_rows_def)
  qed
qed

text \<open>The bill is the response's own usage at the price in force. When the service settles a
reservation that was not yet booked, the reservation's only cost row carries the token counts the
provider reported, both non-negative, the input and output costs compute_cost gives them at the
tenant's price, and a total that is exactly their sum.\<close>

theorem service_settle_bills_usage:
  assumes "ledger_inv db" "\<not> sql_booked db org cid"
    and "service_settle sql_ledger_port price_for org cid response provider now db = (db', Inr rec)"
  shows "\<exists>usage price row ic oc tc.
    resp_usage response = Some usage \<and>
    price_for org (prov_name provider) (prov_model provider) = Inr (Some price) \<and>
    compute_cost usage price = Inr (ic, oc, tc) \<and>
    cost_rows org cid db' = [row] \<and>
    cl_prompt row = prompt_tokens usage \<and> cl_completion row = completion_tokens usage \<and>
    0 \<le> cl_prompt row \<and> 0 \<le> cl_completion row \<and>
    cl_input row = coef (amount ic) \<and> cl_output row = coef (amount oc) \<and>
    cl_total row = cl_input row + cl_output row \<and> cl_currency row = price_currency price"
proof -
  from assms(3) have acc: "account price_for response provider org cid = Inr rec"
    and s: "sql_settle org cid (settlement_of rec) now db = (db', Inr ())"
    by (auto simp: service_settle_def sql_ledger_port_def split: sum.splits prod.splits)
  from acc obtain usage price where u: "resp_usage response = Some usage"
    "0 \<le> prompt_tokens usage" "0 \<le> completion_tokens usage"
    "price_for org (prov_name provider) (prov_model provider) = Inr (Some price)"
    "compute_cost usage price = Inr (cr_input_cost rec, cr_output_cost rec, cr_total_cost rec)"
    "cr_usage rec = usage" by (rule account_cases)
  note sh = compute_cost_shape [OF u(5)]
  have "cost_rows org cid db' = [settled_cost org cid (settlement_of rec)]"
    by (rule settle_new_row [OF assms(1,2) s])
  then show ?thesis
    using u sh
    by (intro exI [of _ usage] exI [of _ price] exI [of _ "settled_cost org cid (settlement_of rec)"]
        exI [of _ "cr_input_cost rec"] exI [of _ "cr_output_cost rec"] exI [of _ "cr_total_cost rec"])
      (simp add: settled_cost_def settlement_of_def numeric8_grid)
qed

definition sample_response :: provider_response where
  "sample_response = \<lparr>resp_ok = True, resp_content = JStr ''hi'', resp_error = None,
     resp_provider = ''acme'', resp_usage = Some \<lparr>prompt_tokens = 200, completion_tokens = 300\<rparr>,
     resp_category = None\<rparr>"

definition sample_record :: cost_record where
  "sample_record = \<lparr>cr_organization = 7, cr_correlation = ''a#1'', cr_provider = ''acme'', cr_model = ''m1'',
     cr_usage = \<lparr>prompt_tokens = 200, completion_tokens = 300\<rparr>,
     cr_input_cost = \<lparr>amount = Dec 30 (-8), currency = ''USD''\<rparr>,
     cr_output_cost = \<lparr>amount = Dec 75 (-8), currency = ''USD''\<rparr>,
     cr_total_cost = \<lparr>amount = Dec 105 (-8), currency = ''USD''\<rparr>\<rparr>"

lemma sample_account:
  "account (sql_price_for sample_price_db 60) sample_response sample_provider 7 ''a#1'' = Inr sample_record"
  by (simp add: account_def sample_response_def sample_provider_def sample_record_def sample_price_lookup
      compute_cost_def money_new_def currency_ok_def per_thousand_def quantize_def money_add_def
      round_half_even_def dec_prec_def)

lemma sample_service_settle:
  "service_settle sql_ledger_port (sql_price_for sample_price_db 60) 7 ''a#1'' sample_response
     sample_provider 30 sample_held =
   (fst (sql_settle 7 ''a#1'' (settlement_of sample_record) 30 sample_held), Inr sample_record)"
proof -
  have "snd (sql_settle 7 ''a#1'' (settlement_of sample_record) 30 sample_held) = Inr ()" by code_simp
  then obtain db' where "sql_settle 7 ''a#1'' (settlement_of sample_record) 30 sample_held = (db', Inr ())"
    by (metis surjective_pairing)
  then show ?thesis
    by (simp add: service_settle_def sample_account sql_ledger_port_def)
qed

theorem service_settle_bills_usage_witness:
  "\<exists>row. cost_rows 7 ''a#1''
       (fst (sql_settle 7 ''a#1'' (settlement_of sample_record) 30 sample_held)) = [row] \<and>
     cl_prompt row = 200 \<and> cl_completion row = 300 \<and> cl_total row = cl_input row + cl_output row"
proof -
  have nb: "\<not> sql_booked sample_held 7 ''a#1''" by code_simp
  show ?thesis
    using service_settle_bills_usage [OF sample_inv(2) nb sample_service_settle]
    by (auto simp: sample_response_def)
qed

end
