(* ===== verification/Execution.thy ===== *)
theory Execution imports Reservation Cache begin

text \<open>
  Coordinated execution of one routed request: the outcome vocabulary
  (\<open>application/ports/execution.py\<close>), the call to the provider
  (\<open>application/providers/provider_executor.py\<close>) and the coordinator
  (\<open>application/execution/inference_coordinator.py\<close>). A gateway state holds the ledger, the cache,
  the circuits, the clock and the calls made so far; an environment holds the collaborators. The
  provider client is a parameter: a function from the number of calls made before, the provider
  and the request to a response and the time it took. Only calls and pauses take time.
\<close>

subsection \<open>State and environment\<close>

datatype execution_outcome =
    CACHE_HIT | EXECUTED | NOT_ROUTED | BUDGET_DENIED | BUDGET_UNAVAILABLE | NOT_ACCOUNTABLE

definition execution_outcome_value :: "execution_outcome \<Rightarrow> string" where
  "execution_outcome_value oc =
     (case oc of
        CACHE_HIT \<Rightarrow> ''cache_hit''
      | EXECUTED \<Rightarrow> ''executed''
      | NOT_ROUTED \<Rightarrow> ''not_routed''
      | BUDGET_DENIED \<Rightarrow> ''budget_denied''
      | BUDGET_UNAVAILABLE \<Rightarrow> ''budget_unavailable''
      | NOT_ACCOUNTABLE \<Rightarrow> ''not_accountable'')"

record execution_result =
  ex_outcome :: execution_outcome
  ex_response :: provider_response
  ex_cost :: "cost_record option"

record provider_call =
  pc_provider :: provider_descriptor
  pc_request :: inference_request
  pc_response :: provider_response

record ('l, 'c) gateway =
  gw_ledger :: 'l
  gw_cache :: 'c
  gw_breaker :: breaker
  gw_now :: instant
  gw_calls :: "provider_call list"

type_synonym provider_client =
  "nat \<Rightarrow> provider_descriptor \<Rightarrow> inference_request \<Rightarrow> provider_response \<times> nat"

record ('l, 'c) gateway_env =
  ge_ledger :: "'l ledger_port"
  ge_cache :: "'c cache_port"
  ge_pricing :: "instant \<Rightarrow> pricing"
  ge_ttl :: duration
  ge_breaker :: breaker_config
  ge_client :: provider_client
  ge_digest :: digest

subsection \<open>ProviderExecutor\<close>

definition failed_response :: "string \<Rightarrow> provider_response" where
  "failed_response err =
     \<lparr>resp_ok = False, resp_content = JNull, resp_error = Some err, resp_provider = '''',
      resp_usage = None, resp_category = None\<rparr>"

definition invoke :: "provider_client \<Rightarrow> provider_descriptor \<Rightarrow> inference_request \<Rightarrow>
    ('l, 'c) gateway \<Rightarrow> ('l, 'c) gateway \<times> provider_response" where
  "invoke client p req st =
     (let (resp, elapsed) = client (length (gw_calls st)) p req in
      (st\<lparr>gw_now := gw_now st + int elapsed,
          gw_calls := gw_calls st @ [\<lparr>pc_provider = p, pc_request = req, pc_response = resp\<rparr>]\<rparr>, resp))"

definition provider_execute :: "provider_client \<Rightarrow> routing_execution \<Rightarrow> inference_request \<Rightarrow>
    ('l, 'c) gateway \<Rightarrow> ('l, 'c) gateway \<times> provider_response" where
  "provider_execute client e req st =
     (case re_provider e of
        None \<Rightarrow> (st, failed_response (''not_routed: '' @ routing_outcome_value (rd_outcome (re_decision e))))
      | Some p \<Rightarrow>
          if \<not> routed e
          then (st, failed_response (''not_routed: '' @ routing_outcome_value (rd_outcome (re_decision e))))
          else invoke client p req st)"

subsection \<open>InferenceCoordinator\<close>

definition accounting_defect :: "exn \<Rightarrow> bool" where
  "accounting_defect x \<longleftrightarrow> x \<in> {UnknownPriceError, MissingUsageError, MalformedUsageError}"

definition not_accountable_result :: execution_result where
  "not_accountable_result =
     \<lparr>ex_outcome = NOT_ACCOUNTABLE, ex_response = failed_response ''not_accountable'', ex_cost = None\<rparr>"

definition safe_get :: "('l, 'c) gateway_env \<Rightarrow> uuid \<Rightarrow> string \<Rightarrow> ('l, 'c) gateway \<Rightarrow>
    ('l, 'c) gateway \<times> cached_response option res" where
  "safe_get env org key st =
     (case cache_get (ge_cache env) org key (gw_now st) (gw_cache st) of
        (c, Inr r) \<Rightarrow> (st\<lparr>gw_cache := c\<rparr>, Inr r)
      | (c, Inl x) \<Rightarrow> (st\<lparr>gw_cache := c\<rparr>, if x = CacheUnavailableError then Inr None else Inl x))"

definition safe_put :: "('l, 'c) gateway_env \<Rightarrow> uuid \<Rightarrow> string \<Rightarrow> cached_response \<Rightarrow> ('l, 'c) gateway \<Rightarrow>
    ('l, 'c) gateway \<times> unit res" where
  "safe_put env org key r st =
     (case cache_put (ge_cache env) org key r (gw_now st) (gw_cache st) of
        (c, Inr u) \<Rightarrow> (st\<lparr>gw_cache := c\<rparr>, Inr ())
      | (c, Inl x) \<Rightarrow> (st\<lparr>gw_cache := c\<rparr>, if x = CacheUnavailableError then Inr () else Inl x))"

definition release_hold :: "('l, 'c) gateway_env \<Rightarrow> uuid \<Rightarrow> string \<Rightarrow> execution_result \<Rightarrow>
    ('l, 'c) gateway \<Rightarrow> ('l, 'c) gateway \<times> execution_result res" where
  "release_hold env org cid result st =
     (case service_release (ge_ledger env) org cid (gw_now st) (gw_ledger st) of
        (l, Inl x) \<Rightarrow> (st\<lparr>gw_ledger := l\<rparr>, Inl x)
      | (l, Inr u) \<Rightarrow> (st\<lparr>gw_ledger := l\<rparr>, Inr result))"

definition settle_call :: "('l, 'c) gateway_env \<Rightarrow> uuid \<Rightarrow> string \<Rightarrow> provider_descriptor \<Rightarrow> string \<Rightarrow>
    provider_response \<Rightarrow> ('l, 'c) gateway \<Rightarrow> ('l, 'c) gateway \<times> execution_result res" where
  "settle_call env org cid p key resp st =
     (case service_settle (ge_ledger env) (ge_pricing env (gw_now st)) org cid resp p (gw_now st) (gw_ledger st) of
        (l, Inl x) \<Rightarrow>
          (if accounting_defect x
           then release_hold env org cid not_accountable_result (st\<lparr>gw_ledger := l\<rparr>)
           else (st\<lparr>gw_ledger := l\<rparr>, Inl x))
      | (l, Inr rec) \<Rightarrow>
          (case safe_put env org key
                  \<lparr>ca_provider = resp_provider resp, ca_model = prov_model p, ca_content = resp_content resp\<rparr>
                  (st\<lparr>gw_ledger := l\<rparr>) of
             (st', Inl x) \<Rightarrow> (st', Inl x)
           | (st', Inr u) \<Rightarrow>
               (st', Inr \<lparr>ex_outcome = EXECUTED, ex_response = resp, ex_cost = Some rec\<rparr>)))"

definition observe_call :: "('l, 'c) gateway_env \<Rightarrow> uuid \<Rightarrow> provider_descriptor \<Rightarrow> provider_response \<Rightarrow>
    ('l, 'c) gateway \<Rightarrow> ('l, 'c) gateway" where
  "observe_call env org p resp st =
     st\<lparr>gw_breaker := observe (ge_breaker env) org (prov_name p)
          \<lparr>call_ok = resp_ok resp, call_category = resp_category resp\<rparr> (gw_now st) (gw_breaker st)\<rparr>"

definition execute_and_settle :: "('l, 'c) gateway_env \<Rightarrow> routing_execution \<Rightarrow> inference_request \<Rightarrow>
    string \<Rightarrow> ('l, 'c) gateway \<Rightarrow> ('l, 'c) gateway \<times> execution_result res" where
  "execute_and_settle env e req key st =
     (case re_provider e of
        None \<Rightarrow> (st, Inl AssertionError)
      | Some p \<Rightarrow>
          (let org = rd_organization (re_decision e) in
           case service_reserve (ge_ledger env) (ge_pricing env (gw_now st)) (ge_ttl env) org p req
                  (gw_now st) (gw_ledger st) of
             (l, Inl x) \<Rightarrow>
               (st\<lparr>gw_ledger := l\<rparr>, if accounting_defect x then Inr not_accountable_result else Inl x)
           | (l, Inr r) \<Rightarrow>
               (if \<not> permitted r
                then (st\<lparr>gw_ledger := l\<rparr>, Inr
                       \<lparr>ex_outcome = (if rs_outcome r = UNAVAILABLE then BUDGET_UNAVAILABLE else BUDGET_DENIED),
                        ex_response = failed_response (''budget_'' @ outcome_value (rs_outcome r)),
                        ex_cost = None\<rparr>)
                else (let (st1, resp) = provider_execute (ge_client env) e req (st\<lparr>gw_ledger := l\<rparr>);
                          st2 = observe_call env org p resp st1
                      in if \<not> resp_ok resp
                         then release_hold env org (correlation_id req)
                                \<lparr>ex_outcome = EXECUTED, ex_response = resp, ex_cost = None\<rparr> st2
                         else settle_call env org (correlation_id req) p key resp st2))))"

definition cached_result :: "cached_response \<Rightarrow> execution_result" where
  "cached_result c =
     \<lparr>ex_outcome = CACHE_HIT,
      ex_response = \<lparr>resp_ok = True, resp_content = ca_content c, resp_error = None,
        resp_provider = ca_provider c, resp_usage = None, resp_category = None\<rparr>,
      ex_cost = None\<rparr>"

text \<open>A call that no other shares runs its operation at once, so the deduplicator does not appear
  here; its interleavings are the subject of \<open>Deduplication\<close>.\<close>

definition coordinator_execute :: "('l, 'c) gateway_env \<Rightarrow> routing_execution \<Rightarrow> inference_request \<Rightarrow>
    ('l, 'c) gateway \<Rightarrow> ('l, 'c) gateway \<times> execution_result res" where
  "coordinator_execute env e req st =
     (case (if routed e then re_provider e else None) of
        None \<Rightarrow>
          (let (st', resp) = provider_execute (ge_client env) e req st in
           (st', Inr \<lparr>ex_outcome = NOT_ROUTED, ex_response = resp, ex_cost = None\<rparr>))
      | Some p \<Rightarrow>
          (let org = rd_organization (re_decision e) in
           case compute_cache_key (ge_digest env) org (prov_name p) (prov_model p) (payload req) of
             Inl x \<Rightarrow> (st, Inl x)
           | Inr key \<Rightarrow>
               (case safe_get env org key st of
                  (st', Inl x) \<Rightarrow> (st', Inl x)
                | (st', Inr (Some c)) \<Rightarrow> (st', Inr (cached_result c))
                | (st', Inr None) \<Rightarrow> execute_and_settle env e req key st')))"

subsection \<open>What one execution did\<close>

lemma invoke_state:
  assumes "invoke client p req st = (st', resp)"
  shows "gw_ledger st' = gw_ledger st" "gw_cache st' = gw_cache st" "gw_breaker st' = gw_breaker st"
    "gw_now st \<le> gw_now st'" "resp = fst (client (length (gw_calls st)) p req)"
    "gw_calls st' = gw_calls st @ [\<lparr>pc_provider = p, pc_request = req, pc_response = resp\<rparr>]"
  using assms by (auto simp: invoke_def Let_def split: prod.splits)

lemma safe_get_state:
  assumes "safe_get env org key st = (st', a)"
  shows "gw_ledger st' = gw_ledger st" "gw_calls st' = gw_calls st" "gw_breaker st' = gw_breaker st"
    "gw_now st' = gw_now st" "gw_cache st' = fst (cache_get (ge_cache env) org key (gw_now st) (gw_cache st))"
  using assms by (auto simp: safe_get_def split: prod.splits sum.splits)

lemma safe_put_state:
  assumes "safe_put env org key r st = (st', a)"
  shows "gw_ledger st' = gw_ledger st" "gw_calls st' = gw_calls st" "gw_breaker st' = gw_breaker st"
    "gw_now st' = gw_now st" "gw_cache st' = fst (cache_put (ge_cache env) org key r (gw_now st) (gw_cache st))"
  using assms by (auto simp: safe_put_def split: prod.splits sum.splits)

lemma release_hold_state:
  assumes "release_hold env org cid result st = (st', a)"
  shows "gw_ledger st' = fst (lp_release (ge_ledger env) org cid (gw_now st) (gw_ledger st))"
    "gw_calls st' = gw_calls st" "gw_breaker st' = gw_breaker st" "gw_now st' = gw_now st"
    "gw_cache st' = gw_cache st"
    "a = Inr r \<Longrightarrow> r = result \<and> snd (lp_release (ge_ledger env) org cid (gw_now st) (gw_ledger st)) = Inr ()"
  using assms by (auto simp: release_hold_def service_release_def split: prod.splits sum.splits)

lemma observe_call_simps [simp]:
  "gw_ledger (observe_call env org p resp st) = gw_ledger st"
  "gw_cache (observe_call env org p resp st) = gw_cache st"
  "gw_now (observe_call env org p resp st) = gw_now st"
  "gw_calls (observe_call env org p resp st) = gw_calls st"
  by (simp_all add: observe_call_def)

lemma settle_call_frame:
  assumes "settle_call env org cid p key resp st = (st', a)"
  shows "gw_calls st' = gw_calls st" "gw_breaker st' = gw_breaker st" "gw_now st' = gw_now st"
  using assms
  by (auto simp: settle_call_def split: prod.splits sum.splits if_splits
      dest: release_hold_state safe_put_state)

text \<open>The shape of an execution past the cache: refused before the call, or called and then
  released or settled.\<close>

lemma execute_and_settle_cases:
  assumes "execute_and_settle env e req key st = (st', a)" "routed e" "re_provider e = Some p"
  defines "org \<equiv> rd_organization (re_decision e)"
  obtains (unreserved) l x where
      "service_reserve (ge_ledger env) (ge_pricing env (gw_now st)) (ge_ttl env) org p req
         (gw_now st) (gw_ledger st) = (l, Inl x)"
      "st' = st\<lparr>gw_ledger := l\<rparr>" "a = (if accounting_defect x then Inr not_accountable_result else Inl x)"
    | (refused) l r where
      "service_reserve (ge_ledger env) (ge_pricing env (gw_now st)) (ge_ttl env) org p req
         (gw_now st) (gw_ledger st) = (l, Inr r)" "\<not> permitted r"
      "st' = st\<lparr>gw_ledger := l\<rparr>"
      "a = Inr \<lparr>ex_outcome = (if rs_outcome r = UNAVAILABLE then BUDGET_UNAVAILABLE else BUDGET_DENIED),
                ex_response = failed_response (''budget_'' @ outcome_value (rs_outcome r)), ex_cost = None\<rparr>"
    | (failed) l r st1 resp where
      "service_reserve (ge_ledger env) (ge_pricing env (gw_now st)) (ge_ttl env) org p req
         (gw_now st) (gw_ledger st) = (l, Inr r)" "permitted r"
      "invoke (ge_client env) p req (st\<lparr>gw_ledger := l\<rparr>) = (st1, resp)" "\<not> resp_ok resp"
      "release_hold env org (correlation_id req) \<lparr>ex_outcome = EXECUTED, ex_response = resp, ex_cost = None\<rparr>
         (observe_call env org p resp st1) = (st', a)"
    | (answered) l r st1 resp where
      "service_reserve (ge_ledger env) (ge_pricing env (gw_now st)) (ge_ttl env) org p req
         (gw_now st) (gw_ledger st) = (l, Inr r)" "permitted r"
      "invoke (ge_client env) p req (st\<lparr>gw_ledger := l\<rparr>) = (st1, resp)" "resp_ok resp"
      "settle_call env org (correlation_id req) p key resp (observe_call env org p resp st1) = (st', a)"
  using assms
  by (auto simp: execute_and_settle_def provider_execute_def Let_def
      split: prod.splits sum.splits if_splits)

lemma coordinator_cases:
  assumes "coordinator_execute env e req st = (st', a)"
  obtains (unrouted) "\<not> routed e" "st' = st" "a = Inr \<lparr>ex_outcome = NOT_ROUTED,
        ex_response = failed_response (''not_routed: '' @ routing_outcome_value (rd_outcome (re_decision e))),
        ex_cost = None\<rparr>"
    | (no_key) x where "routed e" "st' = st" "a = Inl x"
    | (cache_error) p key x where "routed e" "re_provider e = Some p"
        "safe_get env (rd_organization (re_decision e)) key st = (st', Inl x)" "a = Inl x"
    | (hit) p key c where "routed e" "re_provider e = Some p"
        "compute_cache_key (ge_digest env) (rd_organization (re_decision e)) (prov_name p) (prov_model p) (payload req) = Inr key"
        "safe_get env (rd_organization (re_decision e)) key st = (st', Inr (Some c))"
        "a = Inr (cached_result c)"
    | (miss) p key st1 where "routed e" "re_provider e = Some p"
        "compute_cache_key (ge_digest env) (rd_organization (re_decision e)) (prov_name p) (prov_model p) (payload req) = Inr key"
        "safe_get env (rd_organization (re_decision e)) key st = (st1, Inr None)"
        "execute_and_settle env e req key st1 = (st', a)"
proof (cases "routed e")
  case False
  then show ?thesis
    using assms that(1) by (auto simp: coordinator_execute_def provider_execute_def split: option.splits)
next
  case True
  then obtain p where p: "re_provider e = Some p" by (auto simp: routed_def)
  show ?thesis
    using assms True p that(2-)
    by (auto simp: coordinator_execute_def Let_def split: sum.splits prod.splits option.splits)
qed

lemma settle_call_cases:
  assumes "settle_call env org cid p key resp st = (st', a)"
  obtains (settled) l rec where
      "service_settle (ge_ledger env) (ge_pricing env (gw_now st)) org cid resp p (gw_now st) (gw_ledger st) = (l, Inr rec)"
      "gw_ledger st' = l"
      "gw_cache st' = fst (cache_put (ge_cache env) org key
         \<lparr>ca_provider = resp_provider resp, ca_model = prov_model p, ca_content = resp_content resp\<rparr>
         (gw_now st) (gw_cache st))"
      "a = Inr \<lparr>ex_outcome = EXECUTED, ex_response = resp, ex_cost = Some rec\<rparr> \<or> (\<exists>x. a = Inl x)"
    | (defect) l x where
      "service_settle (ge_ledger env) (ge_pricing env (gw_now st)) org cid resp p (gw_now st) (gw_ledger st) = (l, Inl x)"
      "accounting_defect x" "release_hold env org cid not_accountable_result (st\<lparr>gw_ledger := l\<rparr>) = (st', a)"
    | (error) l x where
      "service_settle (ge_ledger env) (ge_pricing env (gw_now st)) org cid resp p (gw_now st) (gw_ledger st) = (l, Inl x)"
      "\<not> accounting_defect x" "st' = st\<lparr>gw_ledger := l\<rparr>" "a = Inl x"
proof (cases "service_settle (ge_ledger env) (ge_pricing env (gw_now st)) org cid resp p (gw_now st) (gw_ledger st)")
  case (Pair l b)
  show ?thesis
  proof (cases b)
    case (Inl x)
    with Pair assms that(2,3) show ?thesis by (auto simp: settle_call_def split: if_splits)
  next
    case (Inr rec)
    obtain st2 u where put: "safe_put env org key \<lparr>ca_provider = resp_provider resp,
        ca_model = prov_model p, ca_content = resp_content resp\<rparr> (st\<lparr>gw_ledger := l\<rparr>) = (st2, u)"
      by (meson surj_pair)
    with Pair Inr assms have "st' = st2" "a = Inr \<lparr>ex_outcome = EXECUTED, ex_response = resp, ex_cost = Some rec\<rparr> \<or> (\<exists>x. a = Inl x)"
      by (auto simp: settle_call_def split: sum.splits)
    with safe_put_state [OF put] Pair Inr that(1) show ?thesis by simp
  qed
qed

text \<open>An exception that leaves the coordinator came from the digest, the cache, the ledger, the price
  source or the arithmetic; no outcome but these six.\<close>

locale inference_execution =
  ledger: budget_ledger "ge_ledger env" wf held booked + cache: response_cache "ge_cache env" up lookup cttl
  for env :: "('l, 'c) gateway_env" and wf held booked up lookup cttl
begin

lemma wf_settle_call:
  assumes "settle_call env org cid p key resp st = (st', a)" "wf (gw_ledger st)"
  shows "wf (gw_ledger st')"
  using assms(1)
proof (cases rule: settle_call_cases)
  case (settled l rec)
  then show ?thesis by (metis ledger.service_settle_wf [OF assms(2)] fst_conv)
next
  case (defect l x)
  have "wf l" by (metis defect(1) ledger.service_settle_wf [OF assms(2)] fst_conv)
  with release_hold_state(1) [OF defect(3)] show ?thesis by (simp add: ledger.wf_release)
next
  case (error l x)
  then show ?thesis by (metis ledger.service_settle_wf [OF assms(2)] fst_conv gateway.select_convs(1) gateway.surjective gateway.update_convs(1))
qed

lemma wf_reserved:
  "service_reserve (ge_ledger env) prices ttl org p req now l = (l', b) \<Longrightarrow> wf l \<Longrightarrow> wf l'"
  by (metis ledger.service_reserve_wf fst_conv)

lemma wf_execute:
  assumes "coordinator_execute env e req st = (st', a)" "wf (gw_ledger st)"
  shows "wf (gw_ledger st')"
  using assms(1)
proof (cases rule: coordinator_cases)
  case (miss p key st1)
  have l: "gw_ledger st1 = gw_ledger st" by (rule safe_get_state(1) [OF miss(4)])
  show ?thesis
    using miss(5,1,2)
  proof (cases rule: execute_and_settle_cases)
    case (failed l r st2 resp)
    have "wf l" using failed(1) assms(2) l by (auto intro: wf_reserved)
    with release_hold_state(1) [OF failed(5)] invoke_state(1) [OF failed(3)]
    show ?thesis by (simp add: ledger.wf_release)
  next
    case (answered l r st2 resp)
    have "wf l" using answered(1) assms(2) l by (auto intro: wf_reserved)
    with invoke_state(1) [OF answered(3)] show ?thesis
      by (intro wf_settle_call [OF answered(5)]) simp
  qed (use assms(2) l in \<open>auto intro: wf_reserved\<close>)
qed (use assms(2) in \<open>auto dest: safe_get_state(1)\<close>)

lemma settled_hold:
  assumes "settle_call env org cid p key resp st = (st', Inr r)" "wf (gw_ledger st)"
  shows "held (gw_ledger st') org cid = None \<and>
    (ex_outcome r = EXECUTED \<and> ex_response r = resp \<and> booked (gw_ledger st') org cid \<or> r = not_accountable_result)"
  using assms(1)
proof (cases rule: settle_call_cases)
  case (settled l rec)
  with ledger.service_settle_done [OF assms(2) settled(1)] show ?thesis by auto
next
  case (defect l x)
  have "wf l" by (metis defect(1) ledger.service_settle_wf [OF assms(2)] fst_conv)
  moreover obtain l' where "lp_release (ge_ledger env) org cid (gw_now st) l = (l', Inr ())" "gw_ledger st' = l'"
    using release_hold_state(1,6) [OF defect(3)] by (metis gateway.select_convs(1,4) gateway.surjective gateway.update_convs(1) prod.collapse)
  ultimately show ?thesis
    using release_hold_state(6) [OF defect(3)] by (auto dest: ledger.release_done)
qed simp

end

context inference_execution
begin

text \<open>The provider is reached at most once, and only past the cache and the budget gate.\<close>

lemma call_gated:
  assumes "coordinator_execute env e req st = (st', a)" "wf (gw_ledger st)" "gw_calls st' \<noteq> gw_calls st"
  defines "org \<equiv> rd_organization (re_decision e)" and "cid \<equiv> correlation_id req"
  obtains p key l r resp where "routed e" "re_provider e = Some p"
    "compute_cache_key (ge_digest env) org (prov_name p) (prov_model p) (payload req) = Inr key"
    "\<not> up (gw_cache st) \<or> lookup (gw_cache st) (gw_now st) org key = None"
    "service_reserve (ge_ledger env) (ge_pricing env (gw_now st)) (ge_ttl env) org p req
         (gw_now st) (gw_ledger st) = (l, Inr r)" "permitted r"
    "held l org cid \<noteq> None \<or> booked l org cid"
    "resp = fst (ge_client env (length (gw_calls st)) p req)"
    "gw_calls st' = gw_calls st @ [\<lparr>pc_provider = p, pc_request = req, pc_response = resp\<rparr>]"
    "\<forall>r. a = Inr r \<longrightarrow> held (gw_ledger st') org cid = None \<and>
       (ex_outcome r = EXECUTED \<and> ex_response r = resp \<and> (resp_ok resp \<longrightarrow> booked (gw_ledger st') org cid) \<or>
        r = not_accountable_result)"
  using assms(1)
proof (cases rule: coordinator_cases)
  case (miss p key st1)
  note g = safe_get_state [OF miss(4)]
  have look: "\<not> up (gw_cache st) \<or> lookup (gw_cache st) (gw_now st) org key = None"
    using miss(4) cache.get_up [of "gw_cache st" org key "gw_now st"]
    by (auto simp: safe_get_def org_def split: prod.splits sum.splits if_splits)
  show ?thesis
    using miss(5,1,2)
  proof (cases rule: execute_and_settle_cases)
    case (failed l r st2 resp)
    note i = invoke_state [OF failed(3)] and h = release_hold_state [OF failed(5)]
    have res: "service_reserve (ge_ledger env) (ge_pricing env (gw_now st)) (ge_ttl env) org p req
         (gw_now st) (gw_ledger st) = (l, Inr r)" using failed(1) g by (simp add: org_def)
    have "wf l" using res assms(2) by (rule wf_reserved)
    have "held (gw_ledger st') org cid = None \<and> ex_outcome r' = EXECUTED \<and> ex_response r' = resp"
      if "a = Inr r'" for r'
    proof -
      from h(6) [OF that] have rel: "lp_release (ge_ledger env) org cid (gw_now st2) l = (gw_ledger st', Inr ())"
        and "r' = \<lparr>ex_outcome = EXECUTED, ex_response = resp, ex_cost = None\<rparr>"
        using h(1) i(1) by (auto simp: org_def cid_def prod_eq_iff)
      with ledger.release_done [OF \<open>wf l\<close> rel] show ?thesis by simp
    qed
    with failed(4) have "\<forall>r'. a = Inr r' \<longrightarrow> held (gw_ledger st') org cid = None \<and>
       (ex_outcome r' = EXECUTED \<and> ex_response r' = resp \<and> (resp_ok resp \<longrightarrow> booked (gw_ledger st') org cid) \<or>
        r' = not_accountable_result)" by blast
    moreover have "held l org cid \<noteq> None \<or> booked l org cid"
      using ledger.service_reserve_permitted [OF assms(2) res failed(2)] by (simp add: cid_def)
    ultimately show ?thesis
      using miss(1,2,3) look res failed(2) i(5,6) h(2) g(2)
      by (intro that [of p key l r resp]) (simp_all add: org_def cid_def)
  next
    case (answered l r st2 resp)
    note i = invoke_state [OF answered(3)]
    have res: "service_reserve (ge_ledger env) (ge_pricing env (gw_now st)) (ge_ttl env) org p req
         (gw_now st) (gw_ledger st) = (l, Inr r)" using answered(1) g by (simp add: org_def)
    have "wf l" using res assms(2) by (rule wf_reserved)
    then have w: "wf (gw_ledger (observe_call env org p resp st2))" using i(1) by simp
    have "\<forall>r'. a = Inr r' \<longrightarrow> held (gw_ledger st') org cid = None \<and>
       (ex_outcome r' = EXECUTED \<and> ex_response r' = resp \<and> (resp_ok resp \<longrightarrow> booked (gw_ledger st') org cid) \<or>
        r' = not_accountable_result)"
      using settled_hold [OF _ w] answered(5) by (fastforce simp: org_def cid_def)
    moreover have "held l org cid \<noteq> None \<or> booked l org cid"
      using ledger.service_reserve_permitted [OF assms(2) res answered(2)] by (simp add: cid_def)
    moreover have "gw_calls st' = gw_calls st2"
      using settle_call_frame(1) [OF answered(5)] by simp
    ultimately show ?thesis
      using miss(1,2,3) look res answered(2) i(5,6) g(2)
      by (intro that [of p key l r resp]) (simp_all add: org_def cid_def)
  qed (use assms(3) g in auto)
qed (use assms(3) in \<open>auto dest: safe_get_state\<close>)

text \<open>A hit costs nothing: no call, no word to the ledger or the breaker.\<close>

lemma hit_is_free:
  assumes "coordinator_execute env e req st = (st', a)" "routed e" "re_provider e = Some p"
    "compute_cache_key (ge_digest env) (rd_organization (re_decision e)) (prov_name p) (prov_model p)
       (payload req) = Inr key"
    "up (gw_cache st)" "lookup (gw_cache st) (gw_now st) (rd_organization (re_decision e)) key = Some c"
  shows "a = Inr (cached_result c) \<and> gw_ledger st' = gw_ledger st \<and> gw_calls st' = gw_calls st \<and>
    gw_breaker st' = gw_breaker st"
proof -
  from cache.get_up [OF assms(5)] assms(6) obtain c' where
    "cache_get (ge_cache env) (rd_organization (re_decision e)) key (gw_now st) (gw_cache st) = (c', Inr (Some c))"
    by (metis prod.collapse)
  then show ?thesis
    using assms(1-4) by (auto simp: coordinator_execute_def safe_get_def)
qed

text \<open>A cost on the result means that the response was offered to the cache.\<close>

lemma answered_is_cached:
  assumes "coordinator_execute env e req st = (st', Inr r)" "ex_outcome r = EXECUTED" "resp_ok (ex_response r)"
  obtains p key where "routed e" "re_provider e = Some p"
    "compute_cache_key (ge_digest env) (rd_organization (re_decision e)) (prov_name p) (prov_model p)
       (payload req) = Inr key"
    "gw_cache st' = fst (cache_put (ge_cache env) (rd_organization (re_decision e)) key
       \<lparr>ca_provider = resp_provider (ex_response r), ca_model = prov_model p,
        ca_content = resp_content (ex_response r)\<rparr> (gw_now st')
       (fst (cache_get (ge_cache env) (rd_organization (re_decision e)) key (gw_now st) (gw_cache st))))"
    "ex_cost r \<noteq> None"
    "gw_calls st' = gw_calls st @ [\<lparr>pc_provider = p, pc_request = req, pc_response = ex_response r\<rparr>]"
  using assms(1)
proof (cases rule: coordinator_cases)
  case (miss p key st1)
  note g = safe_get_state [OF miss(4)]
  show ?thesis
    using miss(5,1,2)
  proof (cases rule: execute_and_settle_cases)
    case (failed l r1 st2 resp)
    then show ?thesis using release_hold_state(6) [OF failed(5)] assms(3) by simp
  next
    case (answered l r1 st2 resp)
    note i = invoke_state [OF answered(3)] and fr = settle_call_frame [OF answered(5)]
    show ?thesis
      using answered(5)
    proof (cases rule: settle_call_cases)
      case (settled l2 rec)
      then show ?thesis
        using miss(1-3) fr i(2,6) g
        by (intro that [of p key]) auto
    next
      case (defect l2 x)
      then show ?thesis
        using release_hold_state(6) [OF defect(3)] assms(2) by (simp add: not_accountable_result_def)
    qed simp
  qed (use assms in \<open>auto simp: not_accountable_result_def failed_response_def split: if_splits\<close>)
qed (use assms in \<open>auto simp: cached_result_def failed_response_def\<close>)

end

end
