(* ===== verification/Execution_Props.thy ===== *)
theory Execution_Props imports Execution begin

text \<open>
  Coordinated execution over the SQL ledger and the SQL cache, the composition of
  \<open>config/container.py\<close> on PostgreSQL: the gate before the provider, the fate of the hold, the
  repeat served from the cache, and two ways spend escapes the books.
\<close>

definition sql_env :: "duration \<Rightarrow> (instant \<Rightarrow> pricing) \<Rightarrow> duration \<Rightarrow> breaker_config \<Rightarrow> provider_client \<Rightarrow>
    digest \<Rightarrow> (ledger_db, cache_db) gateway_env" where
  "sql_env cttl prices ttl bcfg client sha =
     \<lparr>ge_ledger = sql_ledger_port, ge_cache = sql_cache_port cttl, ge_pricing = prices, ge_ttl = ttl,
      ge_breaker = bcfg, ge_client = client, ge_digest = sha\<rparr>"

lemma sql_env_simps [simp]:
  "ge_ledger (sql_env cttl prices ttl bcfg client sha) = sql_ledger_port"
  "ge_cache (sql_env cttl prices ttl bcfg client sha) = sql_cache_port cttl"
  "ge_pricing (sql_env cttl prices ttl bcfg client sha) = prices"
  "ge_ttl (sql_env cttl prices ttl bcfg client sha) = ttl"
  "ge_breaker (sql_env cttl prices ttl bcfg client sha) = bcfg"
  "ge_client (sql_env cttl prices ttl bcfg client sha) = client"
  "ge_digest (sql_env cttl prices ttl bcfg client sha) = sha"
  by (simp_all add: sql_env_def)

interpretation gw: inference_execution "sql_env cttl prices ttl bcfg client sha" ledger_inv sql_held
  sql_booked "\<lambda>db. next_fault db = None" cache_lookup cttl
  for cttl prices ttl bcfg client sha
  by (intro inference_execution.intro)
    (simp_all only: sql_env_simps sql.budget_ledger_axioms sqlcache.response_cache_axioms)

subsection \<open>A gateway to try things on\<close>

definition sample_selection :: routing_execution where
  "sample_selection =
     \<lparr>re_decision = \<lparr>rd_outcome = SELECTED, rd_organization = 7, rd_correlation = ''a'', rd_decided = 10,
        rd_steps = [], rd_selected = Some ''acme'', rd_planner = None, rd_policy = None, rd_cost = None,
        rd_health = None, rd_confidence = None\<rparr>,
      re_provider = Some sample_provider\<rparr>"

definition sample_digest :: digest where
  "sample_digest s = replicate 32 CHR ''k''"

definition sample_env :: "provider_client \<Rightarrow> (instant \<Rightarrow> pricing) \<Rightarrow> (ledger_db, cache_db) gateway_env" where
  "sample_env client prices = sql_env (100 * second) prices default_reservation_ttl
     default_breaker_config client sample_digest"

definition sample_client :: provider_client where
  "sample_client n p req = (sample_response, 5)"

definition sample_prices :: "instant \<Rightarrow> pricing" where
  "sample_prices t = sql_price_for sample_price_db 60"

definition sample_gateway :: "(ledger_db, cache_db) gateway" where
  "sample_gateway =
     \<lparr>gw_ledger = fresh_ledger [sample_budget] [], gw_cache = \<lparr>semantic_cache_entry = [], cache_faults = []\<rparr>,
      gw_breaker = Map.empty, gw_now = 60, gw_calls = []\<rparr>"

definition sample_executed :: "(ledger_db, cache_db) gateway \<times> execution_result res" where
  "sample_executed = coordinator_execute (sample_env sample_client sample_prices) sample_selection
     sample_request sample_gateway"

definition sample_small :: money where
  "sample_small = \<lparr>amount = Dec 2 (-8), currency = ''USD''\<rparr>"

definition sample_reserved :: ledger_db where
  "sample_reserved = fst (sql_reserve 7 ''a#1'' sample_small 60 (fresh_ledger [sample_budget] []))"

definition sample_paid :: ledger_db where
  "sample_paid = fst (sql_settle 7 ''a#1'' (settlement_of sample_record) 65 sample_reserved)"

lemma sample_reclaimed:
  "reclaim sql_ledger_port default_reservation_ttl 7 60 (fresh_ledger [sample_budget] []) =
     (fresh_ledger [sample_budget] [], Inr 0)"
  by code_simp

lemma sample_granted:
  "sql_reserve 7 ''a#1'' sample_small 60 (fresh_ledger [sample_budget] []) =
     (sample_reserved, Inr (reservation_result RESERVED 7 ''a#1'' sample_small None))"
  by (simp add: sample_reserved_def prod_eq_iff, code_simp)

lemma sample_paid_settled:
  "sql_settle 7 ''a#1'' (settlement_of sample_record) 65 sample_reserved = (sample_paid, Inr ())"
  by (simp add: sample_paid_def prod_eq_iff, code_simp)

lemma sample_estimated:
  "service_estimate (sample_prices t) 7 sample_provider sample_request = Inr sample_small"
proof -
  have "estimate_usage sample_request = \<lparr>prompt_tokens = 4, completion_tokens = 4\<rparr>" by code_simp
  then show ?thesis
    by (simp add: service_estimate_def sample_prices_def sample_provider_def sample_price_lookup
        compute_cost_def money_new_def currency_ok_def per_thousand_def quantize_def money_add_def
        round_half_even_def dec_prec_def sample_small_def)
qed

lemma sample_service_reserve:
  "service_reserve sql_ledger_port (sample_prices t) default_reservation_ttl 7 sample_provider
     sample_request 60 (fresh_ledger [sample_budget] []) =
   (sample_reserved, Inr (reservation_result RESERVED 7 ''a#1'' sample_small None))"
proof -
  have "lp_reserve sql_ledger_port = sql_reserve" by (simp add: sql_ledger_port_def)
  moreover have "correlation_id sample_request = ''a#1''" by (simp add: sample_request_def)
  ultimately show ?thesis
    by (simp add: service_reserve_def sample_reclaimed sample_estimated sample_granted)
qed

lemma sample_service_paid:
  "service_settle sql_ledger_port (sample_prices t) 7 ''a#1'' sample_response sample_provider 65
     sample_reserved = (sample_paid, Inr sample_record)"
proof -
  have "lp_settle sql_ledger_port = sql_settle" by (simp add: sql_ledger_port_def)
  then show ?thesis
    by (simp add: service_settle_def sample_account sample_prices_def sample_paid_settled)
qed

lemma sample_key:
  "compute_cache_key sample_digest org p m f = Inr (replicate 32 CHR ''k'')"
  by (simp add: compute_cache_key_def cache_key_new_def sample_digest_def)

definition sample_answered :: "(ledger_db, cache_db) gateway" where
  "sample_answered =
     \<lparr>gw_ledger = sample_paid,
      gw_cache = \<lparr>semantic_cache_entry =
          [\<lparr>sce_organization = 7, sce_hash = replicate 32 CHR ''k'',
            sce_response = render_cached \<lparr>ca_provider = ''acme'', ca_model = ''m1'', ca_content = JStr ''hi''\<rparr>,
            sce_expires = Some (65 + 100 * second)\<rparr>],
        cache_faults = []\<rparr>,
      gw_breaker = Map.empty, gw_now = 65,
      gw_calls = [\<lparr>pc_provider = sample_provider, pc_request = sample_request, pc_response = sample_response\<rparr>]\<rparr>"

lemma sample_selection_simps [simp]:
  "routed sample_selection" "re_provider sample_selection = Some sample_provider"
  "rd_organization (re_decision sample_selection) = 7"
  by (simp_all add: sample_selection_def routed_def)

lemma sample_names [simp]:
  "prov_name sample_provider = ''acme''" "prov_model sample_provider = ''m1''"
  "correlation_id sample_request = ''a#1''" "resp_ok sample_response"
  "resp_content sample_response = JStr ''hi''" "resp_provider sample_response = ''acme''"
  by (simp_all add: sample_provider_def sample_request_def sample_response_def)

lemma sample_execution:
  "coordinator_execute (sample_env sample_client sample_prices) sample_selection sample_request sample_gateway =
     (sample_answered,
      Inr \<lparr>ex_outcome = EXECUTED, ex_response = sample_response, ex_cost = Some sample_record\<rparr>)"
proof -
  have g: "safe_get (sample_env sample_client sample_prices) 7 (replicate 32 CHR ''k'') sample_gateway =
      (sample_gateway, Inr None)"
    by (simp add: safe_get_def sample_env_def sql_cache_port_def sql_cache_get_def sample_gateway_def
        next_fault_def cache_lookup_def)
  have p: "permitted (reservation_result RESERVED 7 ''a#1'' sample_small None)"
    by (simp add: permitted_def reservation_result_def)
  have "execute_and_settle (sample_env sample_client sample_prices) sample_selection sample_request
      (replicate 32 CHR ''k'') sample_gateway = (sample_answered,
      Inr \<lparr>ex_outcome = EXECUTED, ex_response = sample_response, ex_cost = Some sample_record\<rparr>)"
    by (simp add: execute_and_settle_def sample_env_def sample_gateway_def sample_service_reserve p
        provider_execute_def invoke_def sample_client_def observe_call_def observe_def on_success_def
        settle_call_def sample_service_paid safe_put_def sql_cache_port_def sql_cache_put_def
        next_fault_def upsert_cached_def sample_answered_def)
  with g show ?thesis
    by (simp add: coordinator_execute_def sample_key sample_env_def)
qed

lemma sample_gateway_inv: "ledger_inv (gw_ledger sample_gateway)" "ledger_inv (gw_ledger sample_answered)"
proof -
  show "ledger_inv (gw_ledger sample_gateway)" by (simp add: sample_gateway_def sample_inv)
  with sample_execution show "ledger_inv (gw_ledger sample_answered)"
    unfolding sample_env_def by (rule gw.wf_execute)
qed

subsection \<open>Properties\<close>

text \<open>C9: the provider is called at most once per execution and only behind the gate. Whatever
connections the ledger and the cache lose, one coordinated execution keeps the ledger's invariant
and either makes no call or exactly one, of the routed provider with the request it was given; the
call is made only when the cache was down or had no live entry for the request and the budget gate
had permitted it, so that the ledger held the estimate or had booked the call already.\<close>

theorem provider_called_behind_gate:
  assumes "ledger_inv (gw_ledger st)"
    and "coordinator_execute (sql_env cttl prices ttl bcfg client sha) e req st = (st', a)"
  shows "ledger_inv (gw_ledger st') \<and>
    (gw_calls st' = gw_calls st \<or>
     (\<exists>p key l r. routed e \<and> re_provider e = Some p \<and>
        compute_cache_key sha (rd_organization (re_decision e)) (prov_name p) (prov_model p) (payload req) = Inr key \<and>
        (next_fault (gw_cache st) \<noteq> None \<or>
         cache_lookup (gw_cache st) (gw_now st) (rd_organization (re_decision e)) key = None) \<and>
        service_reserve sql_ledger_port (prices (gw_now st)) ttl (rd_organization (re_decision e)) p req
          (gw_now st) (gw_ledger st) = (l, Inr r) \<and> permitted r \<and>
        (sql_held l (rd_organization (re_decision e)) (correlation_id req) \<noteq> None \<or>
         sql_booked l (rd_organization (re_decision e)) (correlation_id req)) \<and>
        gw_calls st' = gw_calls st @
          [\<lparr>pc_provider = p, pc_request = req,
            pc_response = fst (client (length (gw_calls st)) p req)\<rparr>]))"
proof (cases "gw_calls st' = gw_calls st")
  case True
  with gw.wf_execute [OF assms(2,1)] show ?thesis by simp
next
  case False
  from gw.call_gated [OF assms(2,1) False] show ?thesis
    unfolding sql_env_simps not_not using gw.wf_execute [OF assms(2,1)] by metis
qed

theorem provider_called_behind_gate_witness:
  "\<exists>l r. service_reserve sql_ledger_port (sample_prices 60) default_reservation_ttl 7 sample_provider
       sample_request 60 (gw_ledger sample_gateway) = (l, Inr r) \<and> permitted r"
proof -
  have "gw_calls sample_answered \<noteq> gw_calls sample_gateway" "gw_now sample_gateway = 60"
    by (simp_all add: sample_answered_def sample_gateway_def)
  with provider_called_behind_gate
    [OF sample_gateway_inv(1) sample_execution [unfolded sample_env_def]] show ?thesis
    by auto
qed

text \<open>C10: a call that returned a result left no hold behind. When an execution that called the
provider returns, its reservation holds nothing any more: a failed call's hold was released, an
answered call is booked in the ledger under its correlation id, and a call whose usage cannot be
priced was released and reported as not accountable.\<close>

theorem executed_call_leaves_no_hold:
  assumes "ledger_inv (gw_ledger st)"
    and "coordinator_execute (sql_env cttl prices ttl bcfg client sha) e req st = (st', Inr r)"
    and "gw_calls st' \<noteq> gw_calls st"
  shows "sql_held (gw_ledger st') (rd_organization (re_decision e)) (correlation_id req) = None \<and>
    (ex_outcome r = EXECUTED \<and> ex_response r = pc_response (last (gw_calls st')) \<and>
       (resp_ok (ex_response r) \<longrightarrow>
          sql_booked (gw_ledger st') (rd_organization (re_decision e)) (correlation_id req)) \<or>
     r = not_accountable_result)"
  using assms(2,1,3) by (rule gw.call_gated) auto

theorem executed_call_leaves_no_hold_witness:
  "sql_held (gw_ledger sample_answered) 7 ''a#1'' = None \<and> sql_booked (gw_ledger sample_answered) 7 ''a#1''"
proof -
  have "gw_calls sample_answered \<noteq> gw_calls sample_gateway"
    by (simp add: sample_answered_def sample_gateway_def)
  from executed_call_leaves_no_hold
    [OF sample_gateway_inv(1) sample_execution [unfolded sample_env_def] this] show ?thesis
    by (simp add: not_accountable_result_def)
qed

text \<open>A repeat is served from the cache. Once an execution has answered with the cache's
database reachable, any later execution for the same tenant, provider and payload, under whatever
correlation id and whatever happened to the ledger and the circuits in between, is a hit with the
same content until the entry's time to live has passed; it calls nobody and leaves the ledger and
the circuits as they are.\<close>

theorem repeat_served_from_cache:
  assumes "coordinator_execute (sql_env cttl prices ttl bcfg client sha) e req st = (st1, Inr r)"
    and "ex_outcome r = EXECUTED" "resp_ok (ex_response r)" "cache_faults (gw_cache st) = []"
    and "gw_cache st2 = gw_cache st1" "gw_now st2 < gw_now st1 + cttl"
    and "routed e2" "rd_organization (re_decision e2) = rd_organization (re_decision e)"
    and "re_provider e2 = re_provider e" "payload req2 = payload req"
    and "coordinator_execute (sql_env cttl prices ttl bcfg client sha) e2 req2 st2 = (st3, a)"
  shows "\<exists>r3. a = Inr r3 \<and> ex_outcome r3 = CACHE_HIT \<and>
    resp_content (ex_response r3) = resp_content (ex_response r) \<and>
    resp_provider (ex_response r3) = resp_provider (ex_response r) \<and> ex_cost r3 = None \<and>
    gw_calls st3 = gw_calls st2 \<and> gw_ledger st3 = gw_ledger st2 \<and> gw_breaker st3 = gw_breaker st2"
proof -
  let ?org = "rd_organization (re_decision e)"
  obtain p key where p: "re_provider e = Some p"
    and key: "compute_cache_key sha ?org (prov_name p) (prov_model p) (payload req) = Inr key"
    and c1: "gw_cache st1 = fst (cache_put (sql_cache_port cttl) ?org key
       \<lparr>ca_provider = resp_provider (ex_response r), ca_model = prov_model p,
        ca_content = resp_content (ex_response r)\<rparr> (gw_now st1)
       (fst (cache_get (sql_cache_port cttl) ?org key (gw_now st) (gw_cache st))))"
    by (rule gw.answered_is_cached [OF assms(1-3)]) (simp add: that)
  let ?c = "\<lparr>ca_provider = resp_provider (ex_response r), ca_model = prov_model p,
        ca_content = resp_content (ex_response r)\<rparr>"
  let ?before = "fst (cache_get (sql_cache_port cttl) ?org key (gw_now st) (gw_cache st))"
  have f0: "cache_faults ?before = []"
    using assms(4) by (simp add: sql_cache_port_def sql_cache_get_def)
  then have put: "cache_put (sql_cache_port cttl) ?org key ?c (gw_now st1) ?before = (gw_cache st1, Inr ())"
    using c1 by (simp add: sql_cache_port_def sql_cache_put_def next_fault_def)
  have up: "next_fault (gw_cache st2) = None"
    using f0 c1 assms(5) by (simp add: sql_cache_port_def sql_cache_put_def next_fault_def)
  have look: "cache_lookup (gw_cache st2) (gw_now st2) ?org key = Some ?c"
    using sqlcache.put_done [OF put] assms(5,6) by simp
  have "a = Inr (cached_result ?c) \<and> gw_ledger st3 = gw_ledger st2 \<and> gw_calls st3 = gw_calls st2 \<and>
      gw_breaker st3 = gw_breaker st2"
    using assms(8-10) p key up look by (intro gw.hit_is_free [OF assms(11,7)]) simp_all
  then show ?thesis by (simp add: cached_result_def)
qed

theorem repeat_served_from_cache_witness:
  "\<exists>r3. snd (coordinator_execute (sample_env sample_client sample_prices) sample_selection
        (sample_request\<lparr>correlation_id := ''b#1''\<rparr>) (sample_answered\<lparr>gw_now := 99\<rparr>)) = Inr r3 \<and>
     ex_outcome r3 = CACHE_HIT \<and> resp_content (ex_response r3) = JStr ''hi''"
proof -
  have f: "cache_faults (gw_cache sample_gateway) = []" by (simp add: sample_gateway_def)
  have n: "gw_now (sample_answered\<lparr>gw_now := 99\<rparr>) < gw_now sample_answered + 100 * second"
    by (simp add: sample_answered_def)
  show ?thesis
    using repeat_served_from_cache [OF sample_execution [unfolded sample_env_def] _ _ f _ n
        sample_selection_simps(1) refl refl _ surjective_pairing,
        of "sample_request\<lparr>correlation_id := ''b#1''\<rparr>"]
    by (auto simp: sample_env_def)
qed

subsection \<open>Spend that escapes the books\<close>

text \<open>What has been spent: the cost ledger and every budget's spent amount.\<close>

definition books :: "ledger_db \<Rightarrow> cost_row list \<times> (uuid \<times> int) list" where
  "books db = (cost_ledger db, map (\<lambda>b. (bg_organization b, bg_spent b)) (org_budget db))"

lemma books_same [simp]:
  "books (db\<lparr>db_faults := fs\<rparr>) = books db"
  "books (update_budget org (add_reserved n) db) = books db"
  "books (update_reservation org cid g db) = books db"
  "books (hold existing org cid est now db) = books db"
  "books (db\<lparr>budget_reservation := rs\<rparr>) = books db"
  by (simp_all add: books_def update_budget_def update_reservation_def hold_def map_update_where
      split: option.splits)

lemma books_reserve: "books (fst (sql_reserve org cid est now db)) = books db"
  unfolding sql_reserve_def by (rule run_tx_frame) (auto elim!: reserve_tx_cases)

lemma books_reconcile: "books (fst (sql_reconcile_expired org older now db)) = books db"
  unfolding sql_reconcile_expired_def by (rule run_tx_frame) (auto elim!: reconcile_tx_cases)

lemma books_settle_booked:
  assumes "sql_booked db org cid"
  shows "books (fst (sql_settle org cid d now db)) = books db"
  unfolding sql_settle_def
  by (rule run_tx_frame) (use assms in \<open>auto simp: sql_booked_def elim!: settle_tx_cases\<close>)

lemma reclaim_sql_fst:
  "fst (reclaim sql_ledger_port ttl org now db) = fst (sql_reconcile_expired org (now - ttl) now db)"
  by (auto simp: reclaim_def sql_ledger_port_def split: prod.split sum.split)

lemma service_reserve_sql_fst:
  "fst (service_reserve sql_ledger_port prices ttl org p req now db) =
     fst (reclaim sql_ledger_port ttl org now db) \<or>
   (\<exists>est. fst (service_reserve sql_ledger_port prices ttl org p req now db) =
     fst (sql_reserve org (correlation_id req) est now (fst (reclaim sql_ledger_port ttl org now db))))"
  by (auto simp: service_reserve_def sql_ledger_port_def split: prod.split sum.split) (metis fst_conv)+

lemma service_reserve_books:
  "books (fst (service_reserve sql_ledger_port prices ttl org p req now db)) = books db"
  using service_reserve_sql_fst [of prices ttl org p req now db]
  by (auto simp: reclaim_sql_fst books_reserve books_reconcile)

lemma service_reserve_booked:
  assumes "ledger_inv db"
  shows "sql_booked (fst (service_reserve sql_ledger_port prices ttl org p req now db)) = sql_booked db"
proof -
  have r: "sql_booked (fst (reclaim sql_ledger_port ttl org now db)) = sql_booked db"
    unfolding reclaim_sql_fst
    using sql.reconcile_booked [OF assms, of org "now - ttl" now] by (simp add: sql_ledger_port_def)
  have "ledger_inv (fst (reclaim sql_ledger_port ttl org now db))"
    using assms by (rule sql.wf_reclaim)
  then have "sql_booked (fst (sql_reserve org cid est now (fst (reclaim sql_ledger_port ttl org now db)))) =
      sql_booked db" for cid est
    using sql.reserve_booked [of "fst (reclaim sql_ledger_port ttl org now db)" org cid est now] r
    by (simp add: sql_ledger_port_def)
  with r service_reserve_sql_fst [of prices ttl org p req now db] show ?thesis by auto
qed

lemma service_settle_sql_fst:
  "fst (service_settle sql_ledger_port prices org cid resp p now db) = db \<or>
   (\<exists>d. fst (service_settle sql_ledger_port prices org cid resp p now db) = fst (sql_settle org cid d now db))"
  by (auto simp: service_settle_def sql_ledger_port_def split: prod.split sum.split) (metis fst_conv)+


definition sample_other :: inference_request where
  "sample_other = sample_request\<lparr>payload := [(''prompt'', JStr ''other'')]\<rparr>"

lemma sample_paid_state:
  "db_faults sample_paid = []"
  "find_reservation 7 ''a#1'' sample_paid = Some (commit_row 105 65 (new_reservation 7 ''a#1'' sample_small 60))"
  "reclaim sql_ledger_port default_reservation_ttl 7 (200 * second) sample_paid = (sample_paid, Inr 0)"
    apply code_simp
   apply code_simp
  apply code_simp
  done

lemma sample_paid_replays:
  obtains r where "sql_reserve 7 ''a#1'' est t sample_paid = (sample_paid, Inr r)" "permitted r"
  by (simp add: sql_reserve_def run_tx_no_fault sample_paid_state reserve_tx_def commit_row_def
      replayable_def permitted_def reservation_result_def)

lemma sample_paid_again: "sql_settle 7 ''a#1'' d t sample_paid = (sample_paid, Inr ())"
  by (simp add: sql_settle_def run_tx_no_fault sample_paid_state settle_tx_def commit_row_def)

lemma sample_replay:
  "\<exists>st. coordinator_execute (sample_env sample_client sample_prices) sample_selection sample_other
       (sample_answered\<lparr>gw_now := 200 * second\<rparr>) =
     (st, Inr \<lparr>ex_outcome = EXECUTED, ex_response = sample_response, ex_cost = Some sample_record\<rparr>)"
proof -
  have "estimate_usage sample_other = estimate_usage sample_request" by code_simp
  then have est: "service_estimate (sample_prices t) 7 sample_provider sample_other = Inr sample_small" for t
    using sample_estimated [of t] unfolding service_estimate_def by (simp only:)
  obtain r where r: "sql_reserve 7 ''a#1'' sample_small (200 * second) sample_paid = (sample_paid, Inr r)" "permitted r"
    by (rule sample_paid_replays)
  have cid: "correlation_id sample_other = ''a#1''" by (simp add: sample_other_def)
  have "service_reserve sql_ledger_port (sample_prices t) default_reservation_ttl 7 sample_provider
      sample_other (200 * second) sample_paid = (sample_paid, Inr r)" for t
    using est r cid sample_paid_state(3) by (simp add: service_reserve_def sql_ledger_port_def)
  moreover have "service_settle sql_ledger_port (sample_prices t) 7 ''a#1'' sample_response sample_provider t'
      sample_paid = (sample_paid, Inr sample_record)" for t t'
    using sample_paid_again by (simp add: service_settle_def sample_account sample_prices_def sql_ledger_port_def)
  ultimately show ?thesis
    by (simp add: coordinator_execute_def sample_key sample_env_def safe_get_def sample_answered_def
        sql_cache_port_def sql_cache_get_def next_fault_def cache_lookup_def row_at_def
        execute_and_settle_def r(2) cid provider_execute_def invoke_def sample_client_def
        settle_call_def observe_call_def safe_put_def sql_cache_put_def)
qed


text \<open>C40: an outage of the price table at settlement strands the hold. When the gate has permitted a
call, the provider answers it with well-formed usage and the price source cannot answer at that
moment, the outage leaves the coordinator as an exception: the caller gets no response, nothing is
booked, nothing is cached and the hold the gate took is still there.\<close>

theorem settlement_outage_strands_hold:
  assumes "ledger_inv (gw_ledger st)" "routed e" "re_provider e = Some p"
    and "compute_cache_key sha (rd_organization (re_decision e)) (prov_name p) (prov_model p) (payload req) = Inr key"
    and "next_fault (gw_cache st) = None"
    and "cache_lookup (gw_cache st) (gw_now st) (rd_organization (re_decision e)) key = None"
    and "service_reserve sql_ledger_port (prices (gw_now st)) ttl (rd_organization (re_decision e)) p req
          (gw_now st) (gw_ledger st) = (l, Inr r)" "permitted r"
    and "client (length (gw_calls st)) p req = (resp, elapsed)" "resp_ok resp"
    and "resp_usage resp = Some u" "0 \<le> prompt_tokens u" "0 \<le> completion_tokens u"
    and "prices (gw_now st + int elapsed) (rd_organization (re_decision e)) (prov_name p) (prov_model p) =
          Inl PriceTableUnavailableError"
  shows "\<exists>st'. coordinator_execute (sql_env cttl prices ttl bcfg client sha) e req st =
      (st', Inl PriceTableUnavailableError) \<and> gw_ledger st' = l \<and>
    length (gw_calls st') = length (gw_calls st) + 1 \<and>
    semantic_cache_entry (gw_cache st') = semantic_cache_entry (gw_cache st)"
proof -
  have acc: "account (prices (gw_now st + int elapsed)) resp p (rd_organization (re_decision e)) cid =
      Inl PriceTableUnavailableError" for cid
    using assms(11-14) by (simp add: account_def)
  have get: "safe_get (sql_env cttl prices ttl bcfg client sha) (rd_organization (re_decision e)) key st =
      (st\<lparr>gw_cache := (gw_cache st)\<lparr>cache_faults := tl (cache_faults (gw_cache st))\<rparr>\<rparr>, Inr None)"
    using assms(5,6) by (simp add: safe_get_def sql_cache_port_def sql_cache_get_def)
  show ?thesis
    using assms(2-4,7-10)
    by (simp add: coordinator_execute_def get execute_and_settle_def provider_execute_def invoke_def
        settle_call_def service_settle_def acc accounting_defect_def observe_call_def)
qed

definition sample_outage :: "instant \<Rightarrow> pricing" where
  "sample_outage t = (if t \<le> 60 then sample_prices t else (\<lambda>org p m. Inl PriceTableUnavailableError))"

theorem settlement_outage_strands_hold_witness:
  "\<exists>st. coordinator_execute (sample_env sample_client sample_outage) sample_selection sample_request
       sample_gateway = (st, Inl PriceTableUnavailableError) \<and>
     sql_held (gw_ledger st) 7 ''a#1'' = Some 2 \<and> length (gw_calls st) = 1"
proof -
  have look: "next_fault (gw_cache sample_gateway) = None"
    "cache_lookup (gw_cache sample_gateway) (gw_now sample_gateway) 7 (replicate 32 CHR ''k'') = None"
    by (simp_all add: sample_gateway_def next_fault_def cache_lookup_def)
  have res: "service_reserve sql_ledger_port (sample_outage (gw_now sample_gateway)) default_reservation_ttl
      7 sample_provider sample_request (gw_now sample_gateway) (gw_ledger sample_gateway) =
      (sample_reserved, Inr (reservation_result RESERVED 7 ''a#1'' sample_small None))"
    by (simp add: sample_outage_def sample_gateway_def sample_service_reserve)
  have held: "sql_held sample_reserved 7 ''a#1'' = Some 2" by code_simp
  obtain st where "coordinator_execute (sample_env sample_client sample_outage) sample_selection sample_request
       sample_gateway = (st, Inl PriceTableUnavailableError)" "gw_ledger st = sample_reserved"
       "length (gw_calls st) = 1"
    using settlement_outage_strands_hold [OF sample_gateway_inv(1), of sample_selection sample_provider
        sample_digest sample_request "replicate 32 CHR ''k''" sample_outage default_reservation_ttl
        sample_reserved "reservation_result RESERVED 7 ''a#1'' sample_small None" sample_client
        sample_response 5 "\<lparr>prompt_tokens = 200, completion_tokens = 300\<rparr>" "100 * second" default_breaker_config]
      look res
    by (auto simp: sample_key permitted_def reservation_result_def sample_client_def sample_response_def
        sample_outage_def sample_gateway_def sample_env_def)
  with held show ?thesis by auto
qed

end
