(* ===== verification/Reflection.thy ===== *)
theory Reflection imports Execution_Props begin

text \<open>
  Bounded retry (\<open>application/reflection/retry_policy.py\<close>, \<open>application/reflection/reflective_executor.py\<close>):
  the policy, the verdict on one attempt and the loop, which runs through the attempt numbers of a
  finite range and stops early on any verdict but RETRY. A pause moves the gateway's clock. The
  backoff is exact in the model; the code computes it through a float of seconds, which agrees as
  long as the product keeps its microseconds.
\<close>

subsection \<open>Policy and verdict\<close>

datatype retry_verdict = SUCCEEDED | RETRY | TERMINAL_FAILURE

record retry_policy =
  max_attempts :: int
  base_backoff :: duration

definition retry_policy_new :: "int \<Rightarrow> duration \<Rightarrow> retry_policy res" where
  "retry_policy_new m b =
     (if m < 1 then Inl ValueError
      else if b < 0 then Inl ValueError
      else Inr \<lparr>max_attempts = m, base_backoff = b\<rparr>)"

definition default_retry_policy :: retry_policy where
  "default_retry_policy = \<lparr>max_attempts = 3, base_backoff = 100000\<rparr>"

definition backoff_before :: "retry_policy \<Rightarrow> nat \<Rightarrow> duration" where
  "backoff_before pol next_attempt = base_backoff pol * 2 ^ (next_attempt - 2)"

definition classify :: "execution_result \<Rightarrow> retry_verdict" where
  "classify r =
     (if ex_outcome r = CACHE_HIT then SUCCEEDED
      else if ex_outcome r = EXECUTED \<and> resp_ok (ex_response r) then SUCCEEDED
      else if ex_outcome r \<noteq> EXECUTED then TERMINAL_FAILURE
      else if transient_provider_error (resp_category (ex_response r)) then RETRY
      else TERMINAL_FAILURE)"

subsection \<open>ReflectiveExecutor\<close>

definition attempt_correlation_id :: "string \<Rightarrow> nat \<Rightarrow> string" where
  "attempt_correlation_id cid attempt = cid @ ''#'' @ str_int (int attempt)"

record attempt_record =
  at_attempt :: nat
  at_correlation :: string
  at_outcome :: execution_outcome
  at_verdict :: retry_verdict
  at_error :: "string option"
  at_category :: "provider_error_category option"

record reflection_result =
  rf_final :: execution_result
  rf_attempts :: "attempt_record list"
  rf_execution :: routing_execution

definition reflection_result_new ::
  "execution_result \<Rightarrow> attempt_record list \<Rightarrow> routing_execution \<Rightarrow> reflection_result res" where
  "reflection_result_new final attempts e =
     (if attempts = [] then Inl ValueError
      else Inr \<lparr>rf_final = final, rf_attempts = attempts, rf_execution = e\<rparr>)"

definition attempt_count :: "reflection_result \<Rightarrow> nat" where
  "attempt_count rr = length (rf_attempts rr)"

definition exhausted :: "reflection_result \<Rightarrow> bool" where
  "exhausted rr \<longleftrightarrow> at_verdict (last (rf_attempts rr)) = RETRY"

definition succeeded :: "reflection_result \<Rightarrow> bool" where
  "succeeded rr \<longleftrightarrow> at_verdict (last (rf_attempts rr)) = SUCCEEDED"

definition attempt_request :: "inference_request \<Rightarrow> nat \<Rightarrow> inference_request" where
  "attempt_request req n = req\<lparr>correlation_id := attempt_correlation_id (correlation_id req) n\<rparr>"

definition attempt_record_of :: "inference_request \<Rightarrow> nat \<Rightarrow> execution_result \<Rightarrow> attempt_record" where
  "attempt_record_of req n r =
     \<lparr>at_attempt = n, at_correlation = correlation_id (attempt_request req n), at_outcome = ex_outcome r,
      at_verdict = classify r, at_error = resp_error (ex_response r),
      at_category = resp_category (ex_response r)\<rparr>"

definition pause_before :: "retry_policy \<Rightarrow> nat \<Rightarrow> ('l, 'c) gateway \<Rightarrow> ('l, 'c) gateway" where
  "pause_before pol n st = (if 1 < n then st\<lparr>gw_now := gw_now st + backoff_before pol n\<rparr> else st)"

fun reflect_loop :: "('l, 'c) gateway_env \<Rightarrow> retry_policy \<Rightarrow> routing_execution \<Rightarrow> inference_request \<Rightarrow>
    nat list \<Rightarrow> execution_result option \<Rightarrow> attempt_record list \<Rightarrow> ('l, 'c) gateway \<Rightarrow>
    ('l, 'c) gateway \<times> reflection_result res" where
  "reflect_loop env pol e req [] result attempts st =
     (st, case result of None \<Rightarrow> Inl AssertionError | Some r \<Rightarrow> reflection_result_new r attempts e)"
| "reflect_loop env pol e req (n # ns) result attempts st =
     (case coordinator_execute env e (attempt_request req n) (pause_before pol n st) of
        (st', Inl x) \<Rightarrow> (st', Inl x)
      | (st', Inr r) \<Rightarrow>
          (let attempts' = attempts @ [attempt_record_of req n r] in
           if classify r \<noteq> RETRY then (st', reflection_result_new r attempts' e)
           else reflect_loop env pol e req ns (Some r) attempts' st'))"

definition reflect :: "('l, 'c) gateway_env \<Rightarrow> retry_policy \<Rightarrow> routing_execution \<Rightarrow> inference_request \<Rightarrow>
    ('l, 'c) gateway \<Rightarrow> ('l, 'c) gateway \<times> reflection_result res" where
  "reflect env pol e req st =
     reflect_loop env pol e req [1..<Suc (nat (max_attempts pol))] None [] st"

subsection \<open>Attempt ids differ\<close>

lemma digits_of_inj: "digits_of m = digits_of n \<Longrightarrow> m = n"
proof (induction m arbitrary: n rule: digits_of.induct)
  case (1 m)
  have c: "char_of (48 + a) = char_of (48 + b) \<Longrightarrow> a = b" if "a < 10" "b < 10" for a b :: nat
    using that by (auto dest!: arg_cong [where f = "of_char :: char \<Rightarrow> nat"])
  have ne: "digits_of k \<noteq> []" for k by (subst digits_of.simps) simp
  show ?case
  proof (cases "m < 10"; cases "n < 10")
    assume "m < 10" "n < 10"
    with 1(2) c show ?thesis by (simp add: digits_of.simps [of m] digits_of.simps [of n])
  next
    assume "m < 10" "\<not> n < 10"
    with 1(2) ne ne [symmetric] show ?thesis by (simp add: digits_of.simps [of m] digits_of.simps [of n])
  next
    assume "\<not> m < 10" "n < 10"
    with 1(2) ne ne [symmetric] show ?thesis by (simp add: digits_of.simps [of m] digits_of.simps [of n])
  next
    assume ge: "\<not> m < 10" "\<not> n < 10"
    with 1(2) have "digits_of (m div 10) = digits_of (n div 10)"
      "char_of (48 + m mod 10) = char_of (48 + n mod 10)"
      by (simp_all add: digits_of.simps [of m] digits_of.simps [of n])
    with 1(1) [OF ge(1)] c [of "m mod 10" "n mod 10"] have "m div 10 = n div 10" "m mod 10 = n mod 10"
      by simp_all
    then show ?thesis by (metis div_mult_mod_eq)
  qed
qed

lemma attempt_ids_differ:
  "attempt_correlation_id cid m = attempt_correlation_id cid n \<longleftrightarrow> m = n"
  by (auto simp: attempt_correlation_id_def str_int_def dest: digits_of_inj)

lemma attempt_request_simps [simp]:
  "correlation_id (attempt_request req n) = attempt_correlation_id (correlation_id req) n"
  "payload (attempt_request req n) = payload req"
  by (simp_all add: attempt_request_def)

lemma attempt_record_simps [simp]:
  "at_attempt (attempt_record_of req n r) = n" "at_verdict (attempt_record_of req n r) = classify r"
  "at_correlation (attempt_record_of req n r) = attempt_correlation_id (correlation_id req) n"
  "at_outcome (attempt_record_of req n r) = ex_outcome r"
  by (simp_all add: attempt_record_of_def)

lemma pause_simps [simp]:
  "gw_ledger (pause_before pol n st) = gw_ledger st" "gw_calls (pause_before pol n st) = gw_calls st"
  "gw_cache (pause_before pol n st) = gw_cache st" "gw_breaker (pause_before pol n st) = gw_breaker st"
  by (simp_all add: pause_before_def)

subsection \<open>The loop\<close>

lemma coordinator_calls:
  assumes "coordinator_execute env e req st = (st', a)"
  shows "length (gw_calls st') \<le> Suc (length (gw_calls st))"
  using assms
proof (cases rule: coordinator_cases)
  case (miss p key st1)
  have g: "gw_calls st1 = gw_calls st" by (rule safe_get_state(2) [OF miss(4)])
  show ?thesis
    using miss(5,1,2)
  proof (cases rule: execute_and_settle_cases)
    case (failed l r st2 resp)
    then show ?thesis using g invoke_state(6) [OF failed(3)] release_hold_state(2) [OF failed(5)] by simp
  next
    case (answered l r st2 resp)
    then show ?thesis using g invoke_state(6) [OF answered(3)] settle_call_frame(1) [OF answered(5)] by simp
  qed (simp_all add: g)
qed (auto dest: safe_get_state(2))

text \<open>What one run of the loop over the attempt numbers \<open>ns\<close> adds to the trace.\<close>

definition loop_trace :: "routing_execution \<Rightarrow> inference_request \<Rightarrow> nat list \<Rightarrow> execution_result option \<Rightarrow>
    attempt_record list \<Rightarrow> reflection_result \<Rightarrow> attempt_record list \<Rightarrow> bool" where
  "loop_trace e req ns result attempts rr new \<longleftrightarrow>
     rf_attempts rr = attempts @ new \<and> rf_execution rr = e \<and>
     length new \<le> length ns \<and> map at_attempt new = take (length new) ns \<and>
     list_all (\<lambda>a. at_correlation a = attempt_correlation_id (correlation_id req) (at_attempt a)) new \<and>
     list_all (\<lambda>a. at_verdict a = RETRY) (butlast new) \<and>
     (if new = [] then ns = [] \<and> result = Some (rf_final rr)
      else at_verdict (last new) = classify (rf_final rr) \<and> at_outcome (last new) = ex_outcome (rf_final rr) \<and>
           (classify (rf_final rr) = RETRY \<longrightarrow> length new = length ns))"

lemma reflect_loop_trace:
  assumes "reflect_loop env pol e req ns result attempts st = (st', Inr rr)"
  shows "\<exists>new. loop_trace e req ns result attempts rr new \<and>
    length (gw_calls st') \<le> length (gw_calls st) + length new"
  using assms
proof (induction ns arbitrary: result attempts st)
  case Nil
  then show ?case
    by (intro exI [of _ "[]"])
      (auto simp: loop_trace_def reflection_result_new_def split: option.splits if_splits)
next
  case (Cons n ns)
  obtain st1 b where x: "coordinator_execute env e (attempt_request req n) (pause_before pol n st) = (st1, b)"
    by (meson surj_pair)
  with Cons.prems obtain r where b: "b = Inr r" by (cases b) auto
  have c: "length (gw_calls st1) \<le> Suc (length (gw_calls st))" using coordinator_calls [OF x] by simp
  show ?case
  proof (cases "classify r = RETRY")
    case False
    with Cons.prems x b have "st' = st1"
      "rr = \<lparr>rf_final = r, rf_attempts = attempts @ [attempt_record_of req n r], rf_execution = e\<rparr>"
      by (simp_all add: reflection_result_new_def)
    with c False show ?thesis
      by (intro exI [of _ "[attempt_record_of req n r]"]) (simp add: loop_trace_def)
  next
    case True
    with Cons.prems x b have
      "reflect_loop env pol e req ns (Some r) (attempts @ [attempt_record_of req n r]) st1 = (st', Inr rr)"
      by simp
    from Cons.IH [OF this] obtain new where t:
      "loop_trace e req ns (Some r) (attempts @ [attempt_record_of req n r]) rr new"
      "length (gw_calls st') \<le> length (gw_calls st1) + length new" by blast
    then have "loop_trace e req (n # ns) result attempts rr (attempt_record_of req n r # new)"
      using True by (cases "new = []") (auto simp: loop_trace_def)
    with t(2) c show ?thesis by (intro exI [of _ "attempt_record_of req n r # new"]) simp
  qed
qed

lemma reflect_loop_calls:
  "reflect_loop env pol e req ns result attempts st = (st', a) \<Longrightarrow>
     length (gw_calls st') \<le> length (gw_calls st) + length ns"
proof (induction ns arbitrary: result attempts st)
  case (Cons n ns)
  obtain st1 b where x: "coordinator_execute env e (attempt_request req n) (pause_before pol n st) = (st1, b)"
    by (meson surj_pair)
  with coordinator_calls [OF x] Cons show ?case
    by (cases b) (fastforce simp: Let_def split: if_splits)+
qed simp

text \<open>C12: retry is bounded, explained and never repeats an identity. Under a policy the constructor
accepts, a reflected execution makes at most the permitted number of provider calls whatever happens;
when it returns, its trace has between one and that many attempts, numbered from 1 and executed under
pairwise different correlation ids derived from the request's, every attempt but the last was a
transient failure, the last one carries the verdict on the returned result, and the loop ended with a
retryable failure only because no attempt was left.\<close>

theorem reflection_bounded:
  assumes "retry_policy_new m b = Inr pol" "reflect env pol e req st = (st', a)"
  shows "length (gw_calls st') \<le> length (gw_calls st) + nat m \<and>
    (case a of Inl x \<Rightarrow> True | Inr rr \<Rightarrow>
       1 \<le> attempt_count rr \<and> int (attempt_count rr) \<le> m \<and>
       length (gw_calls st') \<le> length (gw_calls st) + attempt_count rr \<and>
       map at_attempt (rf_attempts rr) = [1..<Suc (attempt_count rr)] \<and>
       map at_correlation (rf_attempts rr) =
         map (attempt_correlation_id (correlation_id req)) [1..<Suc (attempt_count rr)] \<and>
       distinct (map at_correlation (rf_attempts rr)) \<and>
       list_all (\<lambda>r. at_verdict r = RETRY) (butlast (rf_attempts rr)) \<and>
       at_verdict (last (rf_attempts rr)) = classify (rf_final rr) \<and> rf_execution rr = e \<and>
       (exhausted rr \<longrightarrow> int (attempt_count rr) = m))"
proof -
  from assms(1) have m: "1 \<le> m" "max_attempts pol = m"
    by (auto simp: retry_policy_new_def split: if_splits)
  let ?ns = "[1..<Suc (nat m)]"
  have r: "reflect_loop env pol e req ?ns None [] st = (st', a)"
    using assms(2) m by (simp add: reflect_def)
  show ?thesis
  proof (cases a)
    case (Inl x)
    then show ?thesis using reflect_loop_calls [OF r] by (simp del: upt_Suc)
  next
    case (Inr rr)
    from reflect_loop_trace [OF r [unfolded Inr]] obtain new where
      t: "loop_trace e req ?ns None [] rr new"
        "length (gw_calls st') \<le> length (gw_calls st) + length new" by blast
    then have ne: "new \<noteq> []" using m by (auto simp: loop_trace_def)
    have len: "length new \<le> nat m" and att: "rf_attempts rr = new"
      using t(1) by (simp_all add: loop_trace_def del: upt_Suc)
    have nums: "map at_attempt new = [1..<Suc (length new)]"
    proof -
      have "map at_attempt new = take (length new) ?ns" using t(1) by (simp add: loop_trace_def del: upt_Suc)
      also have "\<dots> = [1..<Suc (length new)]" using len by (simp add: take_upt del: upt_Suc)
      finally show ?thesis .
    qed
    have ids: "map at_correlation new = map (attempt_correlation_id (correlation_id req)) (map at_attempt new)"
      unfolding map_map
      by (rule map_cong [OF refl]) (use t(1) in \<open>simp add: loop_trace_def list_all_iff del: upt_Suc\<close>)
    have "inj (attempt_correlation_id (correlation_id req))"
      by (auto simp: inj_def attempt_ids_differ)
    then have dist: "distinct (map at_correlation new)"
      unfolding ids nums by (simp add: distinct_map inj_on_subset)
    have "1 \<le> length new" using ne by (cases new) auto
    with t len m att nums ids dist ne show ?thesis
      by (auto simp: Inr loop_trace_def attempt_count_def exhausted_def simp del: upt_Suc)
  qed
qed

theorem reflection_bounded_witness:
  "length (gw_calls (fst (reflect (sample_env sample_client sample_prices) default_retry_policy
     sample_selection sample_request sample_gateway))) \<le> 3"
proof -
  have "retry_policy_new 3 100000 = Inr default_retry_policy"
    by (simp add: retry_policy_new_def default_retry_policy_def)
  from reflection_bounded [OF this surjective_pairing, of "sample_env sample_client sample_prices"
      sample_selection sample_request sample_gateway]
  show ?thesis by (simp add: sample_gateway_def)
qed

subsection \<open>Holds of one request's attempts\<close>

lemma sql_held_reconcile:
  "sql_held (fst (sql_reconcile_expired org older now db)) o' c' \<in> {None, sql_held db o' c'}"
  unfolding sql_reconcile_expired_def
  by (rule run_tx_preserves)
    (auto simp: sql_held_def reconcile_tx_find mark_expired_def split: option.splits)

lemma sql_held_reclaim:
  "sql_held (fst (reclaim sql_ledger_port ttl org now db)) o' c' \<in> {None, sql_held db o' c'}"
  unfolding reclaim_sql_fst by (rule sql_held_reconcile)

lemma service_reserve_other:
  assumes "ledger_inv db" "(o', c') \<noteq> (org, correlation_id req)"
  shows "sql_held (fst (service_reserve sql_ledger_port prices ttl org p req now db)) o' c'
           \<in> {None, sql_held db o' c'}"
proof -
  let ?l = "fst (reclaim sql_ledger_port ttl org now db)"
  have "ledger_inv ?l" using assms(1) by (rule sql.wf_reclaim)
  then have "sql_held (fst (sql_reserve org (correlation_id req) est now ?l)) o' c' = sql_held ?l o' c'" for est
    using sql.other_reserve [of ?l o' c' org "correlation_id req" est now] assms(2)
    by (simp add: sql_ledger_port_def)
  then show ?thesis
    using service_reserve_sql_fst [of prices ttl org p req now db] sql_held_reclaim [of ttl org now db o' c']
    by metis
qed

lemma service_settle_other:
  assumes "ledger_inv db" "(o', c') \<noteq> (org, cid)"
  shows "sql_held (fst (service_settle sql_ledger_port prices org cid resp p now db)) o' c' = sql_held db o' c'"
proof -
  have "sql_held (fst (sql_settle org cid d now db)) o' c' = sql_held db o' c'" for d
    using sql.other_settle [OF assms, of d now] by (simp add: sql_ledger_port_def)
  then show ?thesis using service_settle_sql_fst [of prices org cid resp p now db] by metis
qed

lemma service_reserve_refused:
  assumes "ledger_inv db" "service_reserve sql_ledger_port prices ttl org p req now db = (l, a)"
    and "case a of Inl x \<Rightarrow> accounting_defect x | Inr r \<Rightarrow> \<not> permitted r \<and> rs_outcome r \<noteq> UNAVAILABLE"
  shows "sql_held l o' c' \<in> {None, sql_held db o' c'}"
proof -
  let ?l = "fst (reclaim sql_ledger_port ttl org now db)"
  have wf: "ledger_inv ?l" using assms(1) by (rule sql.wf_reclaim)
  have "sql_held l = sql_held ?l"
  proof (cases "\<exists>est. sql_reserve org (correlation_id req) est now ?l = (l, a)")
    case True
    then obtain est where s: "lp_reserve sql_ledger_port org (correlation_id req) est now ?l = (l, a)"
      by (auto simp: sql_ledger_port_def)
    show ?thesis
    proof (cases a)
      case (Inl x)
      then show ?thesis using s assms(3)
        by (auto simp: sql_ledger_port_def accounting_defect_def dest: sql_reserve_errors)
    next
      case (Inr r)
      then show ?thesis using sql.reserve_refused [OF wf s [unfolded Inr]] assms(3)
        by (auto simp: permitted_def)
    qed
  next
    case False
    then have "l = ?l"
      using assms(2,3)
      by (auto simp: service_reserve_def sql_ledger_port_def permitted_def
          split: prod.splits sum.splits if_splits)
    then show ?thesis by simp
  qed
  then show ?thesis using sql_held_reclaim by simp
qed

lemma execution_other_hold:
  assumes "coordinator_execute (sql_env cttl prices ttl bcfg client sha) e req st = (st', a)"
    and "ledger_inv (gw_ledger st)" "(o', c') \<noteq> (rd_organization (re_decision e), correlation_id req)"
  shows "sql_held (gw_ledger st') o' c' \<in> {None, sql_held (gw_ledger st) o' c'}"
  using assms(1)
proof (cases rule: coordinator_cases)
  case (miss p key st1)
  note g = safe_get_state(1,4) [OF miss(4)]
  have rel: "sql_held (fst (lp_release sql_ledger_port (rd_organization (re_decision e)) (correlation_id req) t l)) o' c' = sql_held l o' c'"
    if "ledger_inv l" for t l
    using sql.other_release [OF that assms(3)] .
  have other: "sql_held (fst (service_reserve sql_ledger_port (prices (gw_now st)) ttl (rd_organization (re_decision e)) p req
      (gw_now st) (gw_ledger st))) o' c' \<in> {None, sql_held (gw_ledger st) o' c'}"
    using assms(2,3) by (rule service_reserve_other)
  have inv: "ledger_inv (fst (service_reserve sql_ledger_port (prices (gw_now st)) ttl (rd_organization (re_decision e)) p req
      (gw_now st) (gw_ledger st)))" using assms(2) by (rule sql.service_reserve_wf)
  show ?thesis
    using miss(5,1,2)
  proof (cases rule: execute_and_settle_cases)
    case (failed l r st2 resp)
    have "gw_ledger st2 = l" using invoke_state(1) [OF failed(3)] by simp
    with release_hold_state(1) [OF failed(5)] rel [of l] failed(1) g other inv show ?thesis by simp
  next
    case (answered l r st2 resp)
    have l2: "gw_ledger st2 = l" using invoke_state(1) [OF answered(3)] by simp
    have l: "ledger_inv l" "sql_held l o' c' \<in> {None, sql_held (gw_ledger st) o' c'}"
      using answered(1) g other inv by simp_all
    from answered(5) show ?thesis
    proof (cases rule: settle_call_cases)
      case (settled l3 rec)
      with service_settle_other [OF l(1) assms(3), of "prices (gw_now st2)" resp p "gw_now st2"] l(2) l2
      show ?thesis by simp
    next
      case (defect l3 x)
      have "l3 = fst (service_settle sql_ledger_port (prices (gw_now st2)) (rd_organization (re_decision e))
          (correlation_id req) resp p (gw_now st2) l)" using defect(1) l2 by simp
      then have "ledger_inv l3" "sql_held l3 o' c' = sql_held l o' c'"
        using service_settle_other [OF l(1) assms(3)] sql.service_settle_wf [OF l(1)] by metis+
      with release_hold_state(1) [OF defect(3)] rel [of l3] l(2) show ?thesis by simp
    next
      case (error l3 x)
      with service_settle_other [OF l(1) assms(3), of "prices (gw_now st2)" resp p "gw_now st2"] l(2) l2
      show ?thesis by simp
    qed
  qed (use g other in simp_all)
qed (auto dest: safe_get_state(1))

lemma execution_own_hold:
  assumes "coordinator_execute (sql_env cttl prices ttl bcfg client sha) e req st = (st', Inr r)"
    and "ledger_inv (gw_ledger st)" "ex_outcome r \<noteq> BUDGET_UNAVAILABLE"
    and "sql_held (gw_ledger st) (rd_organization (re_decision e)) (correlation_id req) = None"
  shows "sql_held (gw_ledger st') (rd_organization (re_decision e)) (correlation_id req) = None"
proof (cases "gw_calls st' = gw_calls st")
  case False
  show ?thesis by (rule gw.call_gated [OF assms(1,2) False]) simp
next
  case True
  show ?thesis
    using assms(1)
  proof (cases rule: coordinator_cases)
    case (miss p key st1)
    note g = safe_get_state [OF miss(4)]
    show ?thesis
      using miss(5,1,2)
    proof (cases rule: execute_and_settle_cases)
      case (unreserved l x)
      then show ?thesis
        using service_reserve_refused [of "gw_ledger st" "prices (gw_now st1)" ttl
            "rd_organization (re_decision e)" p req "gw_now st1" l "Inl x" "rd_organization (re_decision e)" "correlation_id req"] g assms(2,4)
        by (auto split: if_splits)
    next
      case (refused l r1)
      then show ?thesis
        using service_reserve_refused [of "gw_ledger st" "prices (gw_now st1)" ttl
            "rd_organization (re_decision e)" p req "gw_now st1" l "Inr r1" "rd_organization (re_decision e)" "correlation_id req"] g assms(2-4)
        by (auto split: if_splits)
    next
      case (failed l r st2 resp)
      then show ?thesis using True g invoke_state(6) [OF failed(3)] release_hold_state(2) [OF failed(5)] by simp
    next
      case (answered l r st2 resp)
      then show ?thesis
        using True g invoke_state(6) [OF answered(3)] settle_call_frame(1) [OF answered(5)] by simp
    qed
  qed (use assms(4) in \<open>auto dest: safe_get_state(1)\<close>)
qed

lemma reflect_loop_holds:
  assumes "reflect_loop (sql_env cttl prices ttl bcfg client sha) pol e req ns result attempts st = (st', Inr rr)"
    and "ledger_inv (gw_ledger st)" "ns \<noteq> [] \<or> result = Some (rf_final rr)"
    and "\<forall>n\<in>S. sql_held (gw_ledger st) (rd_organization (re_decision e)) (attempt_correlation_id (correlation_id req) n) = None"
    and "ex_outcome (rf_final rr) \<noteq> BUDGET_UNAVAILABLE" "set ns \<subseteq> S"
  shows "ledger_inv (gw_ledger st') \<and>
    (\<forall>n\<in>S. sql_held (gw_ledger st') (rd_organization (re_decision e)) (attempt_correlation_id (correlation_id req) n) = None)"
  using assms
proof (induction ns arbitrary: result attempts st)
  case (Cons m ns)
  let ?env = "sql_env cttl prices ttl bcfg client sha" and ?org = "rd_organization (re_decision e)"
  let ?id = "attempt_correlation_id (correlation_id req)"
  obtain st1 b where x: "coordinator_execute ?env e (attempt_request req m) (pause_before pol m st) = (st1, b)"
    by (meson surj_pair)
  with Cons.prems(1) obtain r where b: "b = Inr r" by (cases b) auto
  have w: "ledger_inv (gw_ledger st1)" by (rule gw.wf_execute [OF x]) (use Cons.prems(2) in simp)
  have free: "sql_held (gw_ledger st1) ?org (?id n) = None" if "ex_outcome r \<noteq> BUDGET_UNAVAILABLE" "n \<in> S" for n
  proof (cases "n = m")
    case True
    then show ?thesis
      using execution_own_hold [OF x [unfolded b] _ that(1)] Cons.prems(2,4) that(2) by simp
  next
    case False
    then show ?thesis
      using execution_other_hold [OF x, of ?org "?id n"] Cons.prems(2,4) that(2) by (auto simp: attempt_ids_differ)
  qed
  show ?case
  proof (cases "classify r = RETRY")
    case False
    with Cons.prems(1) x b have "st' = st1" "rf_final rr = r"
      by (auto simp: reflection_result_new_def)
    with free Cons.prems(5) w show ?thesis by simp
  next
    case True
    then have "ex_outcome r \<noteq> BUDGET_UNAVAILABLE" by (auto simp: classify_def split: if_splits)
    note f = free [OF this]
    have l: "reflect_loop ?env pol e req ns (Some r) (attempts @ [attempt_record_of req m r]) st1 = (st', Inr rr)"
      using Cons.prems(1) x b True by simp
    show ?thesis
    proof (cases "ns = []")
      case True
      with l f w show ?thesis by (auto simp: reflection_result_new_def split: if_splits)
    next
      case False
      then show ?thesis using Cons.IH [OF l w _ _ Cons.prems(5)] f Cons.prems(6) by simp
    qed
  qed
qed (auto simp: reflection_result_new_def split: option.splits if_splits)

text \<open>C11: a reflected request leaves no budget behind. When none of the request's attempt ids holds
budget beforehand and the reflected execution returns with any outcome but an unreachable ledger,
none of them holds budget afterwards: however many attempts failed, each hold was released or turned
into booked spend.\<close>

theorem reflection_releases_every_hold:
  assumes "ledger_inv (gw_ledger st)"
    and "list_all (\<lambda>n. sql_held (gw_ledger st) (rd_organization (re_decision e))
           (attempt_correlation_id (correlation_id req) n) = None) [1..<Suc (nat (max_attempts pol))]"
    and "reflect (sql_env cttl prices ttl bcfg client sha) pol e req st = (st', Inr rr)"
    and "ex_outcome (rf_final rr) \<noteq> BUDGET_UNAVAILABLE"
  shows "ledger_inv (gw_ledger st') \<and>
    list_all (\<lambda>a. sql_held (gw_ledger st') (rd_organization (re_decision e)) (at_correlation a) = None)
      (rf_attempts rr)"
proof -
  let ?ns = "[1..<Suc (nat (max_attempts pol))]"
  have l: "reflect_loop (sql_env cttl prices ttl bcfg client sha) pol e req ?ns None [] st = (st', Inr rr)"
    using assms(3) by (simp only: reflect_def)
  from reflect_loop_trace [OF l] obtain new where t: "loop_trace e req ?ns None [] rr new" by blast
  then have ne: "?ns \<noteq> []" by (cases "new = []") (auto simp: loop_trace_def simp del: upt_Suc)
  have att: "rf_attempts rr = new" and nums: "map at_attempt new = take (length new) ?ns"
    and ids: "\<forall>a\<in>set new. at_correlation a = attempt_correlation_id (correlation_id req) (at_attempt a)"
    using t by (simp_all add: loop_trace_def list_all_iff del: upt_Suc)
  have h: "ledger_inv (gw_ledger st') \<and> (\<forall>n\<in>set ?ns. sql_held (gw_ledger st') (rd_organization (re_decision e))
      (attempt_correlation_id (correlation_id req) n) = None)"
    by (rule reflect_loop_holds [OF l assms(1) _ _ assms(4) subset_refl])
      (use ne assms(2) in \<open>simp_all add: list_all_iff del: upt_Suc\<close>)
  have "at_attempt ` set new \<subseteq> set ?ns" using nums set_take_subset by (metis set_map)
  with h att ids show ?thesis by (auto simp: list_all_iff simp del: upt_Suc set_upt)
qed

theorem reflection_releases_every_hold_witness:
  "\<exists>st rr. reflect (sample_env sample_client sample_prices) default_retry_policy sample_selection
      (sample_request\<lparr>correlation_id := ''a''\<rparr>) sample_gateway = (st, Inr rr) \<and>
    list_all (\<lambda>a. sql_held (gw_ledger st) 7 (at_correlation a) = None) (rf_attempts rr)"
proof -
  have a: "attempt_request (sample_request\<lparr>correlation_id := ''a''\<rparr>) 1 = sample_request"
    by (simp add: attempt_request_def sample_request_def attempt_correlation_id_def str_int_def, code_simp)
  have three: "[1..<Suc (nat (max_attempts default_retry_policy))] = [1, 2, 3]" by code_simp
  have "classify \<lparr>ex_outcome = EXECUTED, ex_response = sample_response, ex_cost = Some sample_record\<rparr> = SUCCEEDED"
    by (simp add: classify_def)
  then obtain rr where r: "reflect (sample_env sample_client sample_prices) default_retry_policy sample_selection
      (sample_request\<lparr>correlation_id := ''a''\<rparr>) sample_gateway = (sample_answered, Inr rr)"
    "ex_outcome (rf_final rr) = EXECUTED"
    unfolding reflect_def three
    by (simp add: a [simplified] pause_before_def sample_execution reflection_result_new_def)
  have none: "sql_held (gw_ledger sample_gateway) org cid = None" for org cid
    by (simp add: sample_gateway_def fresh_ledger_def sql_held_def find_reservation_def)
  have "list_all (\<lambda>n. sql_held (gw_ledger sample_gateway) (rd_organization (re_decision sample_selection))
           (attempt_correlation_id (correlation_id (sample_request\<lparr>correlation_id := ''a''\<rparr>)) n) = None)
       [1..<Suc (nat (max_attempts default_retry_policy))]"
    unfolding none by (simp add: list_all_iff)
  from reflection_releases_every_hold [OF sample_gateway_inv(1) this r(1) [unfolded sample_env_def]] r
  show ?thesis by auto
qed

end
