(* ===== verification/Streaming.thy ===== *)
theory Streaming imports Execution_Props begin

text \<open>
  Streamed inference: the events (\<open>application/ports/streaming.py\<close>), the executor that relays them
  (\<open>application/providers/streaming_executor.py\<close>) and the coordinator
  (\<open>application/streaming/streaming_coordinator.py\<close>). A provider stream is a parameter: a function
  from the time, the provider and the request to the list of events with the time each took; the
  stream stops where the list does. The consumer is the number of events it asks for before it closes
  the generator. A generator nobody asked for anything never runs its body, and so never its
  \<open>finally\<close> either. Cancellation while the ledger or the cache is awaited is not modelled.
\<close>

subsection \<open>Events and sessions\<close>

datatype stream_event =
    StreamChunk string
  | StreamCompleted "provider_usage option"
  | StreamFailed string "provider_error_category option"

type_synonym stream_client = "instant \<Rightarrow> provider_descriptor \<Rightarrow> inference_request \<Rightarrow> (stream_event \<times> nat) list"

record live_stream =
  ls_organization :: uuid
  ls_provider :: provider_descriptor
  ls_correlation :: string
  ls_key :: string
  ls_first :: stream_event
  ls_rest :: "(stream_event \<times> nat) list"

datatype stream_source = Replayed string | Live live_stream

record stream_session =
  ss_outcome :: execution_outcome
  ss_events :: "stream_source option"
  ss_error :: "string option"
  ss_category :: "provider_error_category option"

definition opened :: "stream_session \<Rightarrow> bool" where
  "opened s \<longleftrightarrow> ss_events s \<noteq> None"

definition refused_session ::
  "execution_outcome \<Rightarrow> string \<Rightarrow> provider_error_category option \<Rightarrow> stream_session" where
  "refused_session oc err cat = \<lparr>ss_outcome = oc, ss_events = None, ss_error = Some err, ss_category = cat\<rparr>"

definition malformed_stream :: string where
  "malformed_stream = ''provider ended the stream without a terminal event''"

definition no_usage :: string where
  "no_usage = ''provider ended the stream without reporting usage''"

definition unaccountable :: string where
  "unaccountable = ''the completed stream could not be accounted for''"

subsection \<open>Helpers of the coordinator\<close>

definition stream_replayable :: "('l, 'c) gateway_env \<Rightarrow> uuid \<Rightarrow> string \<Rightarrow> ('l, 'c) gateway \<Rightarrow>
    ('l, 'c) gateway \<times> string option res" where
  "stream_replayable env org key st =
     (case safe_get env org key st of
        (st', Inl x) \<Rightarrow> (st', Inl x)
      | (st', Inr None) \<Rightarrow> (st', Inr None)
      | (st', Inr (Some c)) \<Rightarrow> (st', Inr (case ca_content c of JStr s \<Rightarrow> Some s | _ \<Rightarrow> None)))"

definition observe_stream :: "('l, 'c) gateway_env \<Rightarrow> uuid \<Rightarrow> provider_descriptor \<Rightarrow> bool \<Rightarrow>
    provider_error_category option \<Rightarrow> ('l, 'c) gateway \<Rightarrow> ('l, 'c) gateway" where
  "observe_stream env org p ok cat st =
     st\<lparr>gw_breaker := observe (ge_breaker env) org (prov_name p) \<lparr>call_ok = ok, call_category = cat\<rparr>
          (gw_now st) (gw_breaker st)\<rparr>"

definition stream_release :: "('l, 'c) gateway_env \<Rightarrow> uuid \<Rightarrow> string \<Rightarrow> ('l, 'c) gateway \<Rightarrow>
    ('l, 'c) gateway \<times> unit res" where
  "stream_release env org cid st =
     (case service_release (ge_ledger env) org cid (gw_now st) (gw_ledger st) of
        (l, Inr u) \<Rightarrow> (st\<lparr>gw_ledger := l\<rparr>, Inr ())
      | (l, Inl x) \<Rightarrow>
          (st\<lparr>gw_ledger := l\<rparr>,
           if x \<in> {LedgerUnavailableError, UnknownReservationError} then Inr () else Inl x))"

definition stream_response :: "provider_descriptor \<Rightarrow> provider_usage \<Rightarrow> string \<Rightarrow> provider_response" where
  "stream_response p u content =
     \<lparr>resp_ok = True, resp_content = JStr content, resp_error = None, resp_provider = prov_name p,
      resp_usage = Some u, resp_category = None\<rparr>"

text \<open>\<open>_complete\<close>: the terminal event to deliver, if any.\<close>

definition stream_complete :: "('l, 'c) gateway_env \<Rightarrow> uuid \<Rightarrow> provider_descriptor \<Rightarrow> string \<Rightarrow> string \<Rightarrow>
    provider_usage option \<Rightarrow> string \<Rightarrow> ('l, 'c) gateway \<Rightarrow> ('l, 'c) gateway \<times> stream_event option res" where
  "stream_complete env org p cid key usage content st0 =
     (let st = observe_stream env org p True None st0 in
      case usage of
        None \<Rightarrow>
          (case stream_release env org cid st of
             (st', Inl x) \<Rightarrow> (st', Inl x)
           | (st', Inr _) \<Rightarrow> (st', Inr (Some (StreamFailed no_usage None))))
      | Some u \<Rightarrow>
          (case service_settle (ge_ledger env) (ge_pricing env (gw_now st)) org cid (stream_response p u content) p
                  (gw_now st) (gw_ledger st) of
             (l, Inl x) \<Rightarrow>
               if accounting_defect x \<or> x \<in> {UnknownReservationError, LedgerUnavailableError}
               then (case stream_release env org cid (st\<lparr>gw_ledger := l\<rparr>) of
                       (st', Inl y) \<Rightarrow> (st', Inl y)
                     | (st', Inr _) \<Rightarrow> (st', Inr (Some (StreamFailed unaccountable None))))
               else (st\<lparr>gw_ledger := l\<rparr>, Inl x)
           | (l, Inr rec) \<Rightarrow>
               (case safe_put env org key
                       \<lparr>ca_provider = prov_name p, ca_model = prov_model p, ca_content = JStr content\<rparr>
                       (st\<lparr>gw_ledger := l\<rparr>) of
                  (st', Inl x) \<Rightarrow> (st', Inl x)
                | (st', Inr _) \<Rightarrow> (st', Inr None))))"

subsection \<open>open\<close>

text \<open>The first event of a stream, with the gateway after the time it took.\<close>

definition first_event :: "(stream_event \<times> nat) list \<Rightarrow> ('l, 'c) gateway \<Rightarrow> ('l, 'c) gateway \<times> stream_event option" where
  "first_event es st =
     (case es of [] \<Rightarrow> (st, None) | (ev, t) # _ \<Rightarrow> (st\<lparr>gw_now := gw_now st + int t\<rparr>, Some ev))"

definition fail_before_output :: "('l, 'c) gateway_env \<Rightarrow> uuid \<Rightarrow> provider_descriptor \<Rightarrow> string \<Rightarrow> string \<Rightarrow>
    provider_error_category option \<Rightarrow> ('l, 'c) gateway \<Rightarrow> ('l, 'c) gateway \<times> stream_session res" where
  "fail_before_output env org p cid err cat st =
     (case stream_release env org cid (observe_stream env org p False cat st) of
        (st', Inl x) \<Rightarrow> (st', Inl x)
      | (st', Inr _) \<Rightarrow> (st', Inr (refused_session EXECUTED err cat)))"

definition stream_reserved :: "('l, 'c) gateway_env \<Rightarrow> stream_client \<Rightarrow> uuid \<Rightarrow> provider_descriptor \<Rightarrow>
    inference_request \<Rightarrow> string \<Rightarrow> ('l, 'c) gateway \<Rightarrow> ('l, 'c) gateway \<times> stream_session res" where
  "stream_reserved env client org p req key st =
     (case first_event (client (gw_now st) p req) st of
        (st', None) \<Rightarrow> fail_before_output env org p (correlation_id req) malformed_stream None st'
      | (st', Some (StreamFailed err cat)) \<Rightarrow> fail_before_output env org p (correlation_id req) err cat st'
      | (st', Some ev) \<Rightarrow>
          (st', Inr \<lparr>ss_outcome = EXECUTED,
             ss_events = Some (Live \<lparr>ls_organization = org, ls_provider = p, ls_correlation = correlation_id req,
               ls_key = key, ls_first = ev, ls_rest = tl (client (gw_now st) p req)\<rparr>),
             ss_error = None, ss_category = None\<rparr>))"

definition stream_open :: "('l, 'c) gateway_env \<Rightarrow> stream_client \<Rightarrow> routing_execution \<Rightarrow> inference_request \<Rightarrow>
    ('l, 'c) gateway \<Rightarrow> ('l, 'c) gateway \<times> stream_session res" where
  "stream_open env client e req st =
     (case (if routed e then re_provider e else None) of
        None \<Rightarrow>
          (st, Inr (refused_session NOT_ROUTED
             (''not_routed: '' @ routing_outcome_value (rd_outcome (re_decision e))) None))
      | Some p \<Rightarrow>
          (let org = rd_organization (re_decision e) in
           case compute_cache_key (ge_digest env) org (prov_name p) (prov_model p) (payload req) of
             Inl x \<Rightarrow> (st, Inl x)
           | Inr key \<Rightarrow>
               (case stream_replayable env org key st of
                  (st1, Inl x) \<Rightarrow> (st1, Inl x)
                | (st1, Inr (Some s)) \<Rightarrow>
                    (st1, Inr \<lparr>ss_outcome = CACHE_HIT, ss_events = Some (Replayed s), ss_error = None, ss_category = None\<rparr>)
                | (st1, Inr None) \<Rightarrow>
                    (case service_reserve (ge_ledger env) (ge_pricing env (gw_now st1)) (ge_ttl env) org p req
                            (gw_now st1) (gw_ledger st1) of
                       (l, Inl x) \<Rightarrow>
                         (st1\<lparr>gw_ledger := l\<rparr>,
                          if accounting_defect x then Inr (refused_session NOT_ACCOUNTABLE ''not_accountable'' None)
                          else Inl x)
                     | (l, Inr r) \<Rightarrow>
                         (if \<not> permitted r
                          then (st1\<lparr>gw_ledger := l\<rparr>,
                                Inr (refused_session
                                  (if rs_outcome r = UNAVAILABLE then BUDGET_UNAVAILABLE else BUDGET_DENIED)
                                  (''budget_'' @ outcome_value (rs_outcome r)) None))
                          else stream_reserved env client org p req key (st1\<lparr>gw_ledger := l\<rparr>))))))"

subsection \<open>deliver\<close>

text \<open>Leaving the generator before the reservation was finalized runs the release of \<open>finally\<close>; an
  exception of that release replaces the one on its way out.\<close>

definition unwind :: "('l, 'c) gateway_env \<Rightarrow> live_stream \<Rightarrow> unit res \<Rightarrow> ('l, 'c) gateway \<Rightarrow>
    ('l, 'c) gateway \<times> unit res" where
  "unwind env s pending st =
     (case stream_release env (ls_organization s) (ls_correlation s) st of
        (st', Inl y) \<Rightarrow> (st', Inl y)
      | (st', Inr _) \<Rightarrow> (st', pending))"

text \<open>\<open>relay env s buffered ev rest pulls st\<close>: the generator while it works on an ask of the
  consumer with \<open>ev\<close> in hand; \<open>pulls\<close> more asks follow.\<close>

fun relay :: "('l, 'c) gateway_env \<Rightarrow> live_stream \<Rightarrow> string \<Rightarrow> stream_event option \<Rightarrow> (stream_event \<times> nat) list \<Rightarrow>
    nat \<Rightarrow> ('l, 'c) gateway \<Rightarrow> ('l, 'c) gateway \<times> stream_event list \<times> unit res" where
  "relay env s buffered None rest pulls st =
     (case stream_release env (ls_organization s) (ls_correlation s)
             (observe_stream env (ls_organization s) (ls_provider s) False None st) of
        (st', Inl x) \<Rightarrow> (case unwind env s (Inl x) st' of (st2, r) \<Rightarrow> (st2, [], r))
      | (st', Inr _) \<Rightarrow> (st', [StreamFailed malformed_stream None], Inr ()))"
| "relay env s buffered (Some (StreamFailed err cat)) rest pulls st =
     (case stream_release env (ls_organization s) (ls_correlation s)
             (observe_stream env (ls_organization s) (ls_provider s) False cat st) of
        (st', Inl x) \<Rightarrow> (case unwind env s (Inl x) st' of (st2, r) \<Rightarrow> (st2, [], r))
      | (st', Inr _) \<Rightarrow> (st', [StreamFailed err cat], Inr ()))"
| "relay env s buffered (Some (StreamCompleted usage)) rest pulls st =
     (case stream_complete env (ls_organization s) (ls_provider s) (ls_correlation s) (ls_key s) usage buffered st of
        (st', Inl x) \<Rightarrow> (case unwind env s (Inl x) st' of (st2, r) \<Rightarrow> (st2, [], r))
      | (st', Inr None) \<Rightarrow> (st', [], Inr ())
      | (st', Inr (Some ev)) \<Rightarrow> (st', [ev], Inr ()))"
| "relay env s buffered (Some (StreamChunk c)) rest 0 st =
     (case unwind env s (Inr ()) st of (st', r) \<Rightarrow> (st', [StreamChunk c], r))"
| "relay env s buffered (Some (StreamChunk c)) [] (Suc pulls) st =
     (case relay env s (buffered @ c) None [] pulls st of (st', out, r) \<Rightarrow> (st', StreamChunk c # out, r))"
| "relay env s buffered (Some (StreamChunk c)) ((ev, t) # rest) (Suc pulls) st =
     (case relay env s (buffered @ c) (Some ev) rest pulls (st\<lparr>gw_now := gw_now st + int t\<rparr>) of
        (st', out, r) \<Rightarrow> (st', StreamChunk c # out, r))"

definition consume :: "('l, 'c) gateway_env \<Rightarrow> stream_source \<Rightarrow> nat \<Rightarrow> ('l, 'c) gateway \<Rightarrow>
    ('l, 'c) gateway \<times> stream_event list \<times> unit res" where
  "consume env src pulls st =
     (case (src, pulls) of
        (_, 0) \<Rightarrow> (st, [], Inr ())
      | (Replayed c, Suc _) \<Rightarrow> (st, [StreamChunk c], Inr ())
      | (Live s, Suc n) \<Rightarrow> relay env s '''' (Some (ls_first s)) (ls_rest s) n st)"

subsection \<open>A reachable ledger always takes the hold back\<close>

definition ready :: "uuid \<Rightarrow> string \<Rightarrow> ledger_db \<Rightarrow> bool" where
  "ready org cid db \<longleftrightarrow> ledger_inv db \<and> db_faults db = [] \<and> find_reservation org cid db \<noteq> None"

lemma faults_kept [simp]:
  "db_faults (update_budget org f db) = db_faults db"
  "db_faults (update_reservation org cid g db) = db_faults db"
  "db_faults (insert_cost c db) = db_faults db"
  "db_faults (hold existing org cid est now db) = db_faults db"
  by (simp_all add: update_budget_def update_reservation_def insert_cost_def hold_def split: option.split)

lemma release_tx_total:
  assumes "ledger_inv db" "find_reservation org cid db = Some r"
  obtains db' where "release_tx org cid now db = Commit db' ()"
proof (cases "rr_status r = Reserved")
  case False
  then show ?thesis using assms(2) that
    by (cases "rr_status r") (simp_all add: release_tx_def hold_already_returned_def)
next
  case True
  have r: "rr_organization r = org" "r \<in> set (budget_reservation db)"
    using find_reservation_Some [OF assms(2)] by auto
  have "rr_estimated r \<le> held_sum org db"
  proof -
    have "rr_estimated r = sum_where (\<lambda>x. (rr_organization x = org \<and> rr_status x = Reserved) \<and> rr_key x = (org, cid))
        rr_estimated (budget_reservation db)"
      using assms True r unfolding ledger_inv_def ledger_keys_def find_reservation_def
      by (intro sum_where_unique [symmetric]) auto
    also have "\<dots> \<le> held_sum org db" unfolding held_sum_def
      using assms(1) by (intro sum_where_mono) (auto simp: ledger_inv_defs reservation_row_ok_def)
    finally show ?thesis .
  qed
  moreover have "0 \<le> rr_estimated r" using assms(1) r(2) by (auto simp: ledger_inv_defs reservation_row_ok_def)
  ultimately have "budget_row_ok (add_reserved (- rr_estimated r) b)"
    if "b \<in> set (org_budget db)" "bg_organization b = org" for b
    using that assms(1) by (fastforce simp: ledger_inv_defs budget_row_ok_def in_range_def add_reserved_def)
  then have "\<forall>b\<in>set (org_budget (update_budget org (add_reserved (- rr_estimated r)) db)).
      bg_organization b = org \<longrightarrow> budget_row_ok b"
    unfolding update_budget_def by simp (intro ball_update_where; auto)
  then have "budget_checked org (update_budget org (add_reserved (- rr_estimated r)) db)"
    by (auto simp: budget_checked_def list_all_iff)
  then show ?thesis
    using True assms(2)
    by (intro that) (simp add: release_tx_def hold_already_returned_def Let_def add_reserved_def [abs_def])
qed

lemma release_ready:
  assumes "ready org cid db"
  obtains db' where "sql_release org cid now db = (db', Inr ())" "ready org cid db'"
    "sql_held db' org cid = None"
proof -
  from assms obtain r where r: "ledger_inv db" "db_faults db = []" "find_reservation org cid db = Some r"
    by (auto simp: ready_def)
  from release_tx_total [OF r(1,3)] obtain db' where t: "release_tx org cid now db = Commit db' ()" by blast
  have "db_faults db' = []" using t by (cases rule: release_tx_cases) (simp_all add: r(2))
  moreover have "find_reservation org cid db' \<noteq> None"
    using t by (cases rule: release_tx_cases) (simp_all add: find_update_reservation r(3))
  moreover have "ledger_inv db'" using r(1) t by (rule release_tx_inv)
  moreover have "sql_held db' org cid = None" using release_tx_find(2) [OF t] .
  ultimately show ?thesis
    using t r(2) by (intro that) (simp_all add: sql_release_def run_tx_no_fault ready_def)
qed

lemma settle_ready:
  assumes "ready org cid db"
  shows "ready org cid (fst (sql_settle org cid d now db))"
    and "snd (sql_settle org cid d now db) = Inr () \<Longrightarrow>
      sql_held (fst (sql_settle org cid d now db)) org cid = None \<and> sql_booked (fst (sql_settle org cid d now db)) org cid"
proof -
  have f: "db_faults db = []" and inv: "ledger_inv db" using assms by (simp_all add: ready_def)
  have "db_faults db' = [] \<and> find_reservation org cid db' \<noteq> None" if "settle_tx org cid d now db = Commit db' u" for db' u
    using that
    by (cases rule: settle_tx_cases) (use assms in \<open>auto simp: ready_def find_update_reservation\<close>)
  then show "ready org cid (fst (sql_settle org cid d now db))"
    using assms f sql_settle_inv [OF inv, of org cid d now] no_rollback(1) [of org cid d now db]
    by (auto simp: sql_settle_def run_tx_no_fault ready_def split: tx.splits)
  show "sql_held (fst (sql_settle org cid d now db)) org cid = None \<and> sql_booked (fst (sql_settle org cid d now db)) org cid"
    if "snd (sql_settle org cid d now db) = Inr ()"
    using sql.settle_done [OF inv, of org cid d now "fst (sql_settle org cid d now db)"] that
    by (simp add: sql_ledger_port_def prod_eq_iff)
qed

lemma stream_release_ready:
  assumes "ready org cid (gw_ledger st)"
  obtains l where "stream_release (sql_env cttl prices ttl bcfg client sha) org cid st = (st\<lparr>gw_ledger := l\<rparr>, Inr ())"
    "ready org cid l" "sql_held l org cid = None"
proof -
  obtain l where "sql_release org cid (gw_now st) (gw_ledger st) = (l, Inr ())" "ready org cid l"
    "sql_held l org cid = None"
    using assms by (rule release_ready)
  then show ?thesis
    by (intro that) (simp_all add: stream_release_def service_release_def sql_ledger_port_def)
qed

lemma service_settle_ready:
  assumes "ready org cid db" "service_settle sql_ledger_port prices org cid resp p now db = (l, a)"
  shows "ready org cid l" and "a = Inr rec \<Longrightarrow> sql_held l org cid = None \<and> sql_booked l org cid"
proof -
  show "ready org cid l"
    using service_settle_sql_fst [of prices org cid resp p now db] assms settle_ready(1) [OF assms(1)] by auto
  have inv: "ledger_inv db" using assms(1) by (simp add: ready_def)
  show "sql_held l org cid = None \<and> sql_booked l org cid" if "a = Inr rec"
    using sql.service_settle_done [OF inv assms(2) [unfolded that]] .
qed

subsection \<open>What a delivery does\<close>

fun chunk_text :: "stream_event list \<Rightarrow> string" where
  "chunk_text [] = []"
| "chunk_text (StreamChunk c # evs) = c @ chunk_text evs"
| "chunk_text (_ # evs) = chunk_text evs"

definition stream_cached :: "live_stream \<Rightarrow> string \<Rightarrow> cached_response" where
  "stream_cached s content =
     \<lparr>ca_provider = prov_name (ls_provider s), ca_model = prov_model (ls_provider s), ca_content = JStr content\<rparr>"

lemma safe_put_sql:
  "\<exists>c. safe_put (sql_env cttl prices ttl bcfg client sha) org key r st =
     (st\<lparr>gw_cache := fst (sql_cache_put cttl org key r (gw_now st) (gw_cache st))\<rparr>, Inr ())"
  by (auto simp: safe_put_def sql_cache_port_def sql_cache_put_def Let_def split: option.split cache_fault.split)

lemma observe_stream_simps [simp]:
  "gw_ledger (observe_stream env org p ok cat st) = gw_ledger st"
  "gw_cache (observe_stream env org p ok cat st) = gw_cache st"
  "gw_now (observe_stream env org p ok cat st) = gw_now st"
  by (simp_all add: observe_stream_def)

lemma stream_complete_ready:
  assumes "ready org cid (gw_ledger st)"
    and "stream_complete (sql_env cttl prices ttl bcfg client sha) org p cid key usage content st = (st', a)"
  shows "ready org cid (gw_ledger st') \<and> gw_now st' = gw_now st \<and>
    (a = Inr None \<longrightarrow> sql_held (gw_ledger st') org cid = None \<and> sql_booked (gw_ledger st') org cid \<and>
       gw_cache st' = fst (sql_cache_put cttl org key
         \<lparr>ca_provider = prov_name p, ca_model = prov_model p, ca_content = JStr content\<rparr> (gw_now st) (gw_cache st))) \<and>
    (a \<noteq> Inr None \<longrightarrow> gw_cache st' = gw_cache st) \<and>
    (\<forall>ev. a = Inr (Some ev) \<longrightarrow> sql_held (gw_ledger st') org cid = None \<and> (\<exists>err. ev = StreamFailed err None))"
proof (cases usage)
  case None
  obtain l where "stream_release (sql_env cttl prices ttl bcfg client sha) org cid
      (observe_stream (sql_env cttl prices ttl bcfg client sha) org p True None st) =
      ((observe_stream (sql_env cttl prices ttl bcfg client sha) org p True None st)\<lparr>gw_ledger := l\<rparr>, Inr ())"
    "ready org cid l" "sql_held l org cid = None"
    by (rule stream_release_ready [of org cid "observe_stream (sql_env cttl prices ttl bcfg client sha) org p True None st"])
      (use assms(1) in simp)
  with None assms(2) show ?thesis by (auto simp: stream_complete_def Let_def)
next
  case (Some u)
  let ?st = "observe_stream (sql_env cttl prices ttl bcfg client sha) org p True None st"
  obtain l b where s: "service_settle sql_ledger_port (prices (gw_now st)) org cid (stream_response p u content) p
      (gw_now st) (gw_ledger st) = (l, b)" by (meson surj_pair)
  note r = service_settle_ready [OF assms(1) s]
  show ?thesis
  proof (cases b)
    case (Inl x)
    show ?thesis
    proof (cases "accounting_defect x \<or> x \<in> {UnknownReservationError, LedgerUnavailableError}")
      case True
      obtain l' where "stream_release (sql_env cttl prices ttl bcfg client sha) org cid (?st\<lparr>gw_ledger := l\<rparr>) =
          (?st\<lparr>gw_ledger := l\<rparr>\<lparr>gw_ledger := l'\<rparr>, Inr ())" "ready org cid l'" "sql_held l' org cid = None"
        by (rule stream_release_ready [of org cid "?st\<lparr>gw_ledger := l\<rparr>"]) (use r(1) in simp)
      with Some True s Inl assms(2) show ?thesis by (auto simp: stream_complete_def Let_def)
    next
      case False
      with Some s Inl assms(2) r(1) show ?thesis by (auto simp: stream_complete_def Let_def)
    qed
  next
    case (Inr rec)
    with r(2) have "sql_held l org cid = None \<and> sql_booked l org cid" by blast
    moreover obtain c where "safe_put (sql_env cttl prices ttl bcfg client sha) org key
        \<lparr>ca_provider = prov_name p, ca_model = prov_model p, ca_content = JStr content\<rparr> (?st\<lparr>gw_ledger := l\<rparr>) =
        (?st\<lparr>gw_ledger := l\<rparr>\<lparr>gw_cache := fst (sql_cache_put cttl org key
         \<lparr>ca_provider = prov_name p, ca_model = prov_model p, ca_content = JStr content\<rparr> (gw_now st) (gw_cache st))\<rparr>, Inr ())"
      using safe_put_sql [of cttl prices ttl bcfg client sha org key _ "?st\<lparr>gw_ledger := l\<rparr>"] by auto
    ultimately show ?thesis using Some Inr s assms(2) r(1) by (auto simp: stream_complete_def Let_def)
  qed
qed

lemma unwind_ready:
  assumes "ready (ls_organization s) (ls_correlation s) (gw_ledger st)"
    and "unwind (sql_env cttl prices ttl bcfg client sha) s pending st = (st', r)"
  shows "r = pending \<and> ready (ls_organization s) (ls_correlation s) (gw_ledger st') \<and>
    sql_held (gw_ledger st') (ls_organization s) (ls_correlation s) = None \<and> gw_cache st' = gw_cache st"
proof -
  obtain l where "stream_release (sql_env cttl prices ttl bcfg client sha) (ls_organization s) (ls_correlation s) st =
      (st\<lparr>gw_ledger := l\<rparr>, Inr ())" "ready (ls_organization s) (ls_correlation s) l"
    "sql_held l (ls_organization s) (ls_correlation s) = None"
    using assms(1) by (rule stream_release_ready)
  with assms(2) show ?thesis by (auto simp: unwind_def)
qed

definition delivery_ok :: "duration \<Rightarrow> live_stream \<Rightarrow> string \<Rightarrow> (ledger_db, cache_db) gateway \<Rightarrow>
    (ledger_db, cache_db) gateway \<Rightarrow> stream_event list \<Rightarrow> unit res \<Rightarrow> bool" where
  "delivery_ok cttl s buffered st st' out r \<longleftrightarrow>
     ready (ls_organization s) (ls_correlation s) (gw_ledger st') \<and>
     sql_held (gw_ledger st') (ls_organization s) (ls_correlation s) = None \<and>
     (gw_cache st' = gw_cache st \<or>
      r = Inr () \<and> list_all (\<lambda>ev. \<exists>c. ev = StreamChunk c) out \<and>
      sql_booked (gw_ledger st') (ls_organization s) (ls_correlation s) \<and>
      gw_cache st' = fst (sql_cache_put cttl (ls_organization s) (ls_key s)
        (stream_cached s (buffered @ chunk_text out)) (gw_now st') (gw_cache st)))"

lemma relay_ends:
  assumes "ready (ls_organization s) (ls_correlation s) (gw_ledger st)"
  shows "ev = None \<or> (\<exists>err cat. ev = Some (StreamFailed err cat)) \<Longrightarrow>
      relay (sql_env cttl prices ttl bcfg client sha) s buffered ev rest pulls st = (st', out, r) \<Longrightarrow>
      delivery_ok cttl s buffered st st' out r"
    and "relay (sql_env cttl prices ttl bcfg client sha) s buffered (Some (StreamCompleted usage)) rest pulls st =
        (st', out, r) \<Longrightarrow> delivery_ok cttl s buffered st st' out r"
proof -
  let ?env = "sql_env cttl prices ttl bcfg client sha"
  let ?o = "observe_stream ?env (ls_organization s) (ls_provider s) False"
  have rel: "\<exists>l. stream_release ?env (ls_organization s) (ls_correlation s) (?o cat st) =
      ((?o cat st)\<lparr>gw_ledger := l\<rparr>, Inr ()) \<and> ready (ls_organization s) (ls_correlation s) l \<and>
      sql_held l (ls_organization s) (ls_correlation s) = None" for cat
    by (rule stream_release_ready [of "ls_organization s" "ls_correlation s" "?o cat st"])
      (use assms in auto)
  show "delivery_ok cttl s buffered st st' out r"
    if e: "ev = None \<or> (\<exists>err cat. ev = Some (StreamFailed err cat))"
      and x: "relay ?env s buffered ev rest pulls st = (st', out, r)"
    using e
  proof (elim disjE exE)
    assume "ev = None"
    with x rel [of None] show ?thesis by (auto simp: delivery_ok_def)
  next
    fix err cat assume "ev = Some (StreamFailed err cat)"
    with x rel [of cat] show ?thesis by (auto simp: delivery_ok_def)
  qed
  show "delivery_ok cttl s buffered st st' out r"
    if x: "relay ?env s buffered (Some (StreamCompleted usage)) rest pulls st = (st', out, r)"
  proof -
    obtain st1 a where c: "stream_complete ?env (ls_organization s) (ls_provider s) (ls_correlation s) (ls_key s)
        usage buffered st = (st1, a)" by (meson surj_pair)
    note sc = stream_complete_ready [OF assms c]
    show ?thesis
    proof (cases a)
      case (Inl y)
      obtain st2 r2 where u: "unwind ?env s (Inl y) st1 = (st2, r2)" by (meson surj_pair)
      with x c Inl have "st' = st2" "out = []" "r = r2" by auto
      moreover have "ready (ls_organization s) (ls_correlation s) (gw_ledger st1)" "gw_cache st1 = gw_cache st"
        using sc Inl by auto
      ultimately show ?thesis using unwind_ready [OF _ u] by (simp add: delivery_ok_def)
    next
      case (Inr ev)
      then show ?thesis
        using x c sc by (cases ev) (auto simp: delivery_ok_def stream_cached_def)
    qed
  qed
qed

lemma relay_ready:
  "relay env s buffered ev rest pulls st = (st', out, r) \<Longrightarrow> env = sql_env cttl prices ttl bcfg client sha \<Longrightarrow>
     ready (ls_organization s) (ls_correlation s) (gw_ledger st) \<Longrightarrow> delivery_ok cttl s buffered st st' out r"
proof (induction env s buffered ev rest pulls st arbitrary: st' out r rule: relay.induct)
  case (1 env s buffered rest pulls st)
  then show ?case by (intro relay_ends(1) [where ev = None]) auto
next
  case (2 env s buffered err cat rest pulls st)
  then show ?case by (intro relay_ends(1) [where ev = "Some (StreamFailed err cat)"]) auto
next
  case (3 env s buffered usage rest pulls st)
  then show ?case by (intro relay_ends(2)) auto
next
  case (4 env s buffered c rest st)
  obtain st2 r2 where u: "unwind env s (Inr ()) st = (st2, r2)" by (meson surj_pair)
  with 4 have "st' = st2" "r = r2" by auto
  with unwind_ready [OF 4(3)] u 4(2) show ?case by (auto simp: delivery_ok_def)
next
  case (5 env s buffered c pulls st)
  obtain st2 out2 r2 where x: "relay env s (buffered @ c) None [] pulls st = (st2, out2, r2)" by (metis prod_cases3)
  with 5(2) have "st' = st2" "out = StreamChunk c # out2" "r = r2" by auto
  with 5(1) [OF x 5(3,4)] show ?case by (simp add: delivery_ok_def)
next
  case (6 env s buffered c ev t rest pulls st)
  obtain st2 out2 r2 where x: "relay env s (buffered @ c) (Some ev) rest pulls (st\<lparr>gw_now := gw_now st + int t\<rparr>) =
      (st2, out2, r2)" by (metis prod_cases3)
  with 6(2) have "st' = st2" "out = StreamChunk c # out2" "r = r2" by auto
  with 6(1) [OF x 6(3)] 6(4) show ?case by (simp add: delivery_ok_def)
qed

subsection \<open>From opening to the end of the delivery\<close>

lemma reserve_keeps_up: "db_faults db = [] \<Longrightarrow> db_faults (fst (sql_reserve org cid est now db)) = []"
  by (auto simp: sql_reserve_def run_tx_no_fault split: tx.split elim!: reserve_tx_cases)

lemma reconcile_keeps_up: "db_faults db = [] \<Longrightarrow> db_faults (fst (sql_reconcile_expired org older now db)) = []"
  by (auto simp: sql_reconcile_expired_def run_tx_no_fault split: tx.split elim!: reconcile_tx_cases)

lemma service_reserve_ready:
  assumes "ledger_inv db" "db_faults db = []"
    and "service_reserve sql_ledger_port prices ttl org p req now db = (l, Inr r)" "permitted r"
  shows "ready org (correlation_id req) l"
proof -
  have "ledger_inv l" using sql.service_reserve_wf [OF assms(1)] assms(3) by (metis fst_conv)
  moreover have "db_faults l = []"
    using service_reserve_sql_fst [of prices ttl org p req now db] assms(2,3)
    by (auto simp: reclaim_sql_fst reserve_keeps_up reconcile_keeps_up)
  moreover have "find_reservation org (correlation_id req) l \<noteq> None"
    using sql.service_reserve_permitted [OF assms(1,3,4)]
    by (auto simp: sql_held_def sql_booked_def split: option.splits)
  ultimately show ?thesis by (simp add: ready_def)
qed

lemma stream_replayable_state:
  "stream_replayable env org key st = (st', a) \<Longrightarrow> \<exists>b. safe_get env org key st = (st', b)"
  by (auto simp: stream_replayable_def split: prod.splits sum.splits option.splits)

lemma first_event_simps:
  assumes "first_event es st = (st', ev)"
  shows "gw_ledger st' = gw_ledger st" "gw_cache st' = gw_cache st" "gw_calls st' = gw_calls st"
  using assms by (auto simp: first_event_def split: list.splits)

lemma stream_reserved_live:
  assumes "stream_reserved env sc org p req key st = (st', Inr s)" "ss_events s = Some src"
  obtains ls where "src = Live ls" "ls_organization ls = org" "ls_correlation ls = correlation_id req"
    "ls_provider ls = p" "ls_key ls = key" "gw_ledger st' = gw_ledger st" "gw_cache st' = gw_cache st"
proof -
  obtain st1 ev where f: "first_event (sc (gw_now st) p req) st = (st1, ev)" by (meson surj_pair)
  note fe = first_event_simps [OF f]
  have no: "fail_before_output env org p (correlation_id req) err cat st1 \<noteq> (st', Inr s)" for err cat
    using assms(2) by (auto simp: fail_before_output_def refused_session_def split: prod.splits sum.splits)
  show ?thesis
    using assms f fe no that
    by (auto simp: stream_reserved_def split: option.splits stream_event.splits)
qed

lemma stream_open_live:
  assumes "stream_open (sql_env cttl prices ttl bcfg client sha) sc e req st = (st', Inr s)"
    and "ss_events s = Some (Live ls)" "ledger_inv (gw_ledger st)" "db_faults (gw_ledger st) = []"
  shows "ready (ls_organization ls) (ls_correlation ls) (gw_ledger st') \<and>
    ls_organization ls = rd_organization (re_decision e) \<and> ls_correlation ls = correlation_id req \<and>
    routed e \<and> re_provider e = Some (ls_provider ls) \<and>
    compute_cache_key sha (ls_organization ls) (prov_name (ls_provider ls)) (prov_model (ls_provider ls)) (payload req) = Inr (ls_key ls) \<and>
    (sql_held (gw_ledger st') (ls_organization ls) (ls_correlation ls) \<noteq> None \<or>
     sql_booked (gw_ledger st') (ls_organization ls) (ls_correlation ls))"
proof -
  let ?env = "sql_env cttl prices ttl bcfg client sha" and ?org = "rd_organization (re_decision e)"
  from assms(1,2) obtain p where p: "routed e" "re_provider e = Some p"
    by (auto simp: stream_open_def refused_session_def split: option.splits if_splits)
  with assms(1,2) obtain key where key: "compute_cache_key sha ?org (prov_name p) (prov_model p) (payload req) = Inr key"
    by (auto simp: stream_open_def Let_def split: sum.splits)
  obtain st1 a where rp: "stream_replayable ?env ?org key st = (st1, a)" by (meson surj_pair)
  with p key assms(1,2) have a: "a = Inr None"
    by (cases a) (auto simp: stream_open_def Let_def split: option.splits)
  from stream_replayable_state [OF rp] obtain b where "safe_get ?env ?org key st = (st1, b)" by blast
  note g = safe_get_state [OF this]
  obtain l c where res: "service_reserve sql_ledger_port (prices (gw_now st1)) ttl ?org p req (gw_now st1) (gw_ledger st1) = (l, c)"
    by (meson surj_pair)
  with p key rp a assms(1,2) obtain r where r: "c = Inr r" "permitted r"
    "stream_reserved ?env sc ?org p req key (st1\<lparr>gw_ledger := l\<rparr>) = (st', Inr s)"
    by (auto simp: stream_open_def Let_def refused_session_def split: sum.splits if_splits)
  have "ready ?org (correlation_id req) l"
    using service_reserve_ready [of "gw_ledger st1"] g res r(1,2) assms(3,4) by simp
  moreover have "sql_held l ?org (correlation_id req) \<noteq> None \<or> sql_booked l ?org (correlation_id req)"
    using sql.service_reserve_permitted [of "gw_ledger st1"] g res r(1,2) assms(3) by simp
  moreover obtain ls' where ls': "Live ls = Live ls'" "ls_organization ls' = ?org"
    "ls_correlation ls' = correlation_id req" "ls_provider ls' = p" "ls_key ls' = key" "gw_ledger st' = l"
    by (rule stream_reserved_live [OF r(3) assms(2)]) simp
  moreover have "ls = ls'" using ls'(1) by simp
  ultimately show ?thesis using p key by simp
qed


text \<open>A stream nobody starts keeps its hold. When an opened stream is closed before the first event
is asked for, as when the client has gone before the response body is iterated, the generator's body
never runs: the hold taken at opening, if the call was not booked before, is still there, and nothing
is released, settled or observed.\<close>

theorem unstarted_stream_strands_hold:
  assumes "ledger_inv (gw_ledger st)" "db_faults (gw_ledger st) = []"
    and "stream_open (sql_env cttl prices ttl bcfg client sha) sc e req st = (st1, Inr s)"
    and "ss_events s = Some (Live ls)"
    and "consume (sql_env cttl prices ttl bcfg client sha) (Live ls) 0 st1 = (st2, out, r)"
    and "\<not> sql_booked (gw_ledger st2) (rd_organization (re_decision e)) (correlation_id req)"
  shows "sql_held (gw_ledger st2) (rd_organization (re_decision e)) (correlation_id req) \<noteq> None \<and>
    out = [] \<and> gw_breaker st2 = gw_breaker st1"
  using stream_open_live [OF assms(3,4,1,2)] assms(5,6) by (auto simp: consume_def)

definition sample_stream :: stream_client where
  "sample_stream t p req =
     [(StreamChunk ''h'', 1), (StreamChunk ''i'', 2),
      (StreamCompleted (Some \<lparr>prompt_tokens = 200, completion_tokens = 300\<rparr>), 2)]"

definition sample_live :: live_stream where
  "sample_live = \<lparr>ls_organization = 7, ls_provider = sample_provider, ls_correlation = ''a#1'',
     ls_key = replicate 32 CHR ''k'', ls_first = StreamChunk ''h'',
     ls_rest = [(StreamChunk ''i'', 2),
       (StreamCompleted (Some \<lparr>prompt_tokens = 200, completion_tokens = 300\<rparr>), 2)]\<rparr>"

lemma sample_stream_open:
  "stream_open (sample_env sample_client sample_prices) sample_stream sample_selection sample_request sample_gateway =
     (sample_gateway\<lparr>gw_ledger := sample_reserved, gw_now := 61\<rparr>,
      Inr \<lparr>ss_outcome = EXECUTED, ss_events = Some (Live sample_live), ss_error = None, ss_category = None\<rparr>)"
proof -
  have p: "permitted (reservation_result RESERVED 7 ''a#1'' sample_small None)"
    by (simp add: permitted_def reservation_result_def)
  have g: "stream_replayable (sample_env sample_client sample_prices) 7 (replicate 32 CHR ''k'') sample_gateway =
      (sample_gateway, Inr None)"
    by (simp add: stream_replayable_def safe_get_def sample_env_def sql_cache_port_def sql_cache_get_def
        sample_gateway_def next_fault_def cache_lookup_def)
  have r: "service_reserve sql_ledger_port (sample_prices (gw_now sample_gateway)) default_reservation_ttl 7
      sample_provider sample_request (gw_now sample_gateway) (gw_ledger sample_gateway) =
      (sample_reserved, Inr (reservation_result RESERVED 7 ''a#1'' sample_small None))"
    by (simp add: sample_gateway_def sample_service_reserve)
  have n: "gw_now sample_gateway = 60" by (simp add: sample_gateway_def)
  show ?thesis
    using g r p n
    by (simp add: stream_open_def sample_key sample_env_def Let_def stream_reserved_def first_event_def
        sample_stream_def sample_live_def)
qed

lemma sample_gateway_up: "db_faults (gw_ledger sample_gateway) = []"
  by (simp add: sample_gateway_def fresh_ledger_def)


theorem unstarted_stream_strands_hold_witness:
  "sql_held (gw_ledger (fst (consume (sample_env sample_client sample_prices) (Live sample_live) 0
      (sample_gateway\<lparr>gw_ledger := sample_reserved, gw_now := 61\<rparr>)))) 7 ''a#1'' \<noteq> None"
proof -
  have c: "consume (sql_env (100 * second) sample_prices default_reservation_ttl default_breaker_config
      sample_client sample_digest) (Live sample_live) 0 (sample_gateway\<lparr>gw_ledger := sample_reserved, gw_now := 61\<rparr>) =
      (sample_gateway\<lparr>gw_ledger := sample_reserved, gw_now := 61\<rparr>, [], Inr ())"
    by (simp add: consume_def)
  have "\<not> sql_booked sample_reserved 7 ''a#1''" by code_simp
  with unstarted_stream_strands_hold [OF sample_gateway_inv(1) sample_gateway_up
      sample_stream_open [unfolded sample_env_def] _ c] c
  show ?thesis by (simp add: sample_env_def)
qed

end
