(* ===== verification/Evaluation.thy ===== *)
theory Evaluation imports Execution_Props begin

text \<open>
  Evaluation of a completed execution: the port (\<open>application/ports/evaluation.py\<close>), the runner
  (\<open>application/evaluation/runner.py\<close>) and the two evaluators the gateway composes. An evaluator
  returns a verdict or raises; an exception is its text, type name and message together.
\<close>

datatype evaluation_outcome = PASSED | FAILED | ERROR | NOT_APPLICABLE

record evaluation_input =
  ei_organization :: uuid
  ei_correlation :: string
  ei_outcome :: execution_outcome
  ei_response :: provider_response

record evaluation_result =
  ev_evaluator :: string
  ev_outcome :: evaluation_outcome
  ev_detail :: string

definition evaluation_result_new :: "string \<Rightarrow> evaluation_outcome \<Rightarrow> string \<Rightarrow> evaluation_result res" where
  "evaluation_result_new name oc detail =
     (if name = '''' then Inl ValueError
      else if oc \<in> {FAILED, ERROR} \<and> detail = '''' then Inl ValueError
      else Inr \<lparr>ev_evaluator = name, ev_outcome = oc, ev_detail = detail\<rparr>)"

datatype evaluator_reply = Judged evaluation_result | Judge_raised string

record evaluator =
  evaluator_name :: string
  evaluate :: "evaluation_input \<Rightarrow> evaluator_reply"

definition judge :: "string \<Rightarrow> evaluation_outcome \<Rightarrow> string \<Rightarrow> evaluator_reply" where
  "judge name oc detail =
     (case evaluation_result_new name oc detail of Inl e \<Rightarrow> Judge_raised ''ValueError'' | Inr r \<Rightarrow> Judged r)"

subsection \<open>The two evaluators\<close>

definition response_completeness :: "string \<Rightarrow> evaluator" where
  "response_completeness name =
     \<lparr>evaluator_name = name, evaluate = (\<lambda>t.
        if ei_outcome t \<notin> {EXECUTED, CACHE_HIT} \<or> \<not> resp_ok (ei_response t)
        then judge name NOT_APPLICABLE
               (''no successful response was delivered (outcome='' @ execution_outcome_value (ei_outcome t) @ '')'')
        else if resp_content (ei_response t) = JNull
        then judge name FAILED ''response reported ok=True but carried no content''
        else judge name PASSED ''successful response carried content'')\<rparr>"

definition usage_consistency :: "string \<Rightarrow> evaluator" where
  "usage_consistency name =
     \<lparr>evaluator_name = name, evaluate = (\<lambda>t.
        if ei_outcome t = CACHE_HIT
        then (if resp_usage (ei_response t) \<noteq> None
              then judge name FAILED ''cache hit reported provider usage, but no provider was called''
              else judge name PASSED ''cache hit correctly reported no usage'')
        else if ei_outcome t = EXECUTED \<and> resp_ok (ei_response t)
        then (if resp_usage (ei_response t) = None
              then judge name FAILED ''executed success reported no usage, so its cost cannot be settled''
              else judge name PASSED ''executed success reported usage available for settlement'')
        else judge name NOT_APPLICABLE
               (''no billable execution occurred (outcome='' @ execution_outcome_value (ei_outcome t) @ '')''))\<rparr>"

definition gateway_evaluators :: "evaluator list" where
  "gateway_evaluators = [response_completeness ''response_completeness'', usage_consistency ''usage_accounting_consistency'']"

subsection \<open>EvaluationRunner\<close>

record evaluation_report =
  rp_organization :: uuid
  rp_correlation :: string
  rp_results :: "evaluation_result list"

definition evaluation_report_new :: "uuid \<Rightarrow> string \<Rightarrow> evaluation_result list \<Rightarrow> evaluation_report res" where
  "evaluation_report_new org cid results =
     (if results = [] then Inl ValueError
      else Inr \<lparr>rp_organization = org, rp_correlation = cid, rp_results = results\<rparr>)"

definition target_failed :: "evaluation_report \<Rightarrow> bool" where
  "target_failed rep \<longleftrightarrow> filter (\<lambda>r. ev_outcome r = FAILED) (rp_results rep) \<noteq> []"

definition evaluation_degraded :: "evaluation_report \<Rightarrow> bool" where
  "evaluation_degraded rep \<longleftrightarrow> filter (\<lambda>r. ev_outcome r = ERROR) (rp_results rep) \<noteq> []"

definition evaluation_runner_new :: "evaluator list \<Rightarrow> evaluator list res" where
  "evaluation_runner_new evs = (if evs = [] then Inl ValueError else Inr evs)"

definition verdict :: "evaluator \<Rightarrow> evaluation_input \<Rightarrow> evaluation_result res" where
  "verdict ev t =
     (case evaluate ev t of
        Judged r \<Rightarrow> Inr r
      | Judge_raised text \<Rightarrow> evaluation_result_new (evaluator_name ev) ERROR (''evaluator raised '' @ text))"

fun run_evaluators :: "evaluator list \<Rightarrow> evaluation_input \<Rightarrow> evaluation_result list \<Rightarrow> evaluation_report res" where
  "run_evaluators [] t results = evaluation_report_new (ei_organization t) (ei_correlation t) results"
| "run_evaluators (ev # evs) t results =
     (case verdict ev t of
        Inl e \<Rightarrow> Inl e
      | Inr r \<Rightarrow> run_evaluators evs t (results @ [r]))"

definition evaluation_run :: "evaluator list \<Rightarrow> evaluation_input \<Rightarrow> evaluation_report res" where
  "evaluation_run evs t = run_evaluators evs t []"

subsection \<open>What the runner reports\<close>

lemma verdict_total: "evaluator_name ev \<noteq> '''' \<Longrightarrow> \<exists>r. verdict ev t = Inr r"
  by (auto simp: verdict_def evaluation_result_new_def split: evaluator_reply.split)

lemma run_evaluators_results:
  "list_all (\<lambda>ev. evaluator_name ev \<noteq> '''') evs \<Longrightarrow> results \<noteq> [] \<or> evs \<noteq> [] \<Longrightarrow>
     run_evaluators evs t results = Inr \<lparr>rp_organization = ei_organization t, rp_correlation = ei_correlation t,
       rp_results = results @ map (\<lambda>ev. projr (verdict ev t)) evs\<rparr>"
proof (induction evs arbitrary: results)
  case (Cons ev evs)
  obtain r where "verdict ev t = Inr r" using verdict_total [of ev t] Cons.prems(1) by auto
  with Cons.IH [of "results @ [r]"] Cons.prems(1) show ?case by simp
qed (simp add: evaluation_report_new_def)

text \<open>One broken evaluator costs its own verdict only. A runner built with named evaluators reports
one result per evaluator in the declared order for every target; an evaluator that raises is
reported as an error under its own name, every other one's verdict is exactly what it returned, and
the report calls the target failed or the evaluation degraded only for the verdicts that say so.\<close>

theorem evaluation_isolates_faults:
  assumes "evaluation_runner_new evs0 = Inr evs" "list_all (\<lambda>ev. evaluator_name ev \<noteq> '''') evs"
  shows "\<exists>rep. evaluation_run evs t = Inr rep \<and> length (rp_results rep) = length evs \<and>
    list_all2 (\<lambda>ev r. case evaluate ev t of
        Judged r' \<Rightarrow> r = r'
      | Judge_raised text \<Rightarrow> ev_outcome r = ERROR \<and> ev_evaluator r = evaluator_name ev) evs (rp_results rep) \<and>
    (evaluation_degraded rep \<longleftrightarrow> list_ex (\<lambda>r. ev_outcome r = ERROR) (rp_results rep)) \<and>
    (target_failed rep \<longleftrightarrow> list_ex (\<lambda>r. ev_outcome r = FAILED) (rp_results rep))"
proof -
  have "evs \<noteq> []" using assms(1) by (auto simp: evaluation_runner_new_def split: if_splits)
  then have r: "evaluation_run evs t = Inr \<lparr>rp_organization = ei_organization t, rp_correlation = ei_correlation t,
      rp_results = map (\<lambda>ev. projr (verdict ev t)) evs\<rparr>"
    using run_evaluators_results [OF assms(2), of "[]" t] by (simp add: evaluation_run_def)
  have "list_all2 (\<lambda>ev r. case evaluate ev t of
        Judged r' \<Rightarrow> r = r'
      | Judge_raised text \<Rightarrow> ev_outcome r = ERROR \<and> ev_evaluator r = evaluator_name ev) evs
      (map (\<lambda>ev. projr (verdict ev t)) evs)"
    using assms(2)
    by (auto simp: list_all2_conv_all_nth list_all_length verdict_def evaluation_result_new_def
        split: evaluator_reply.split)
  with r show ?thesis
    by (auto simp: evaluation_degraded_def target_failed_def list_ex_iff filter_empty_conv)
qed

theorem evaluation_isolates_faults_witness:
  "\<exists>rep. evaluation_run [\<lparr>evaluator_name = ''broken'', evaluate = (\<lambda>t. Judge_raised ''KeyError: x'')\<rparr>,
        response_completeness ''rc''] t = Inr rep \<and> length (rp_results rep) = 2"
proof -
  have "evaluation_runner_new [\<lparr>evaluator_name = ''broken'', evaluate = (\<lambda>t. Judge_raised ''KeyError: x'')\<rparr>,
        response_completeness ''rc''] = Inr [\<lparr>evaluator_name = ''broken'', evaluate = (\<lambda>t. Judge_raised ''KeyError: x'')\<rparr>,
        response_completeness ''rc'']" by (simp add: evaluation_runner_new_def)
  from evaluation_isolates_faults [OF this, of t] show ?thesis
    by (auto simp: response_completeness_def)
qed

subsection \<open>The gateway's own results\<close>

lemma settled_usage:
  "service_settle port prices org cid resp p now l = (l', Inr rec) \<Longrightarrow> resp_usage resp \<noteq> None"
  by (auto simp: service_settle_def account_def split: sum.splits option.splits prod.splits)

lemma result_shape:
  assumes "coordinator_execute env e req st = (st', Inr r)"
  shows "(ex_outcome r = CACHE_HIT \<longrightarrow> resp_ok (ex_response r) \<and> resp_usage (ex_response r) = None) \<and>
    (ex_outcome r = EXECUTED \<and> resp_ok (ex_response r) \<longrightarrow> resp_usage (ex_response r) \<noteq> None) \<and>
    (ex_outcome r \<notin> {CACHE_HIT, EXECUTED} \<longrightarrow> \<not> resp_ok (ex_response r))"
  using assms
proof (cases rule: coordinator_cases)
  case (miss p key st1)
  show ?thesis
    using miss(5,1,2)
  proof (cases rule: execute_and_settle_cases)
    case (failed l r1 st2 resp)
    then show ?thesis using release_hold_state(6) [OF failed(5)] by simp
  next
    case (answered l r1 st2 resp)
    show ?thesis
      using answered(5)
    proof (cases rule: settle_call_cases)
      case (settled l2 rec)
      then show ?thesis using settled_usage answered(4) by fastforce
    next
      case (defect l2 x)
      then show ?thesis using release_hold_state(6) [OF defect(3)]
        by (simp add: not_accountable_result_def failed_response_def)
    qed simp
  qed (auto simp: not_accountable_result_def failed_response_def split: if_splits)
qed (auto simp: cached_result_def failed_response_def)

text \<open>What the coordinator returns never fails the accounting evaluator. For every environment, the
usage of a returned result is what its outcome requires: a hit carries none, an executed success
carries it, and a result of any other outcome is no success. So the gateway's two evaluators report no
error and never fail on usage, and fail exactly when a delivered success carries no content.\<close>

theorem coordinated_results_pass_accounting:
  assumes "coordinator_execute env e req st = (st', Inr r)"
  shows "\<exists>rep. evaluation_run gateway_evaluators
      \<lparr>ei_organization = org, ei_correlation = cid, ei_outcome = ex_outcome r, ei_response = ex_response r\<rparr> = Inr rep \<and>
    \<not> evaluation_degraded rep \<and>
    (target_failed rep \<longleftrightarrow> resp_ok (ex_response r) \<and> resp_content (ex_response r) = JNull)"
  using result_shape [OF assms]
  by (auto simp: evaluation_run_def gateway_evaluators_def verdict_def response_completeness_def
      usage_consistency_def judge_def evaluation_result_new_def evaluation_report_new_def
      evaluation_degraded_def target_failed_def)

theorem coordinated_results_pass_accounting_witness:
  "\<exists>rep. evaluation_run gateway_evaluators
      \<lparr>ei_organization = 7, ei_correlation = ''a'', ei_outcome = EXECUTED, ei_response = sample_response\<rparr> = Inr rep \<and>
    \<not> target_failed rep"
  using coordinated_results_pass_accounting [OF sample_execution, of 7 "''a''"] by auto

end
