(* ===== verification/Admission.thy ===== *)
theory Admission imports Routing "HOL-Library.AList" begin

text \<open>
  Admission: the pipeline (\<open>application/ports/pipeline.py\<close>, \<open>application/pipeline/runner.py\<close>), its
  three stages (\<open>adapters/pipeline\<close>), the permission resolvers (\<open>adapters/authorization\<close>) and the
  local policy engine (\<open>application/ports/policy.py\<close>, \<open>adapters/policy/local_policy_engine.py\<close>).

  A stage is its name and what one call of \<open>before_request\<close> returns and does to the state it can
  reach (the circuit breaker, in this program). A stage can return a result, return something that
  is not one, or raise. The attributes bag holds JSON values; an annotation is such a value, a routing
  execution, or the text of an exception, which stands for itself.
\<close>

subsection \<open>Stages and their results\<close>

datatype stage_action = CONTINUE | ANNOTATE | BLOCK

datatype annotation = Note json | Execution routing_execution | Error_text exn

type_synonym annotations = "(string \<times> annotation) list"

record stage_context =
  sc_correlation :: string
  sc_organization :: "uuid option"
  sc_principal :: "uuid option"
  sc_attributes :: payload

record stage_result =
  sr_action :: stage_action
  sr_reason :: "string option"
  sr_annotations :: annotations

datatype stage_reply = Returned stage_result | Returned_other string | Raised exn

record 's stage =
  stage_name :: string
  before_request :: "stage_context \<Rightarrow> 's \<Rightarrow> stage_reply \<times> 's"

definition continue_result :: stage_result where
  "continue_result = \<lparr>sr_action = CONTINUE, sr_reason = None, sr_annotations = []\<rparr>"

definition noop_stage :: "string \<Rightarrow> 's stage" where
  "noop_stage name = \<lparr>stage_name = name, before_request = (\<lambda>ctx s. (Returned continue_result, s))\<rparr>"

subsection \<open>RequestPipeline\<close>

record stage_record =
  re_stage :: string
  re_action :: stage_action
  re_reason :: "string option"
  re_annotations :: annotations

record admission_outcome =
  ao_records :: "stage_record list"
  ao_blocked_by :: "string option"
  ao_reason :: "string option"

definition admitted :: "admission_outcome \<Rightarrow> bool" where
  "admitted o1 \<longleftrightarrow> ao_blocked_by o1 = None"

definition stages_run :: "admission_outcome \<Rightarrow> string list" where
  "stages_run o1 = map re_stage (ao_records o1)"

definition admission_outcome_new ::
  "stage_record list \<Rightarrow> string option \<Rightarrow> string option \<Rightarrow> admission_outcome res" where
  "admission_outcome_new records blocked_by reason =
     (if records = [] then Inl ValueError
      else if blocked_by \<noteq> None \<and> (reason = None \<or> reason = Some '''') then Inl ValueError
      else if blocked_by = None \<and> reason \<noteq> None then Inl ValueError
      else Inr \<lparr>ao_records = records, ao_blocked_by = blocked_by, ao_reason = reason\<rparr>)"

definition generic_block_reason :: string where
  "generic_block_reason = ''request was not admitted''"

definition pipeline_new :: "'s stage list \<Rightarrow> 's stage list res" where
  "pipeline_new stages =
     (if stages = [] then Inl ValueError
      else if \<not> distinct (map stage_name stages) then Inl ValueError
      else Inr stages)"

definition blocked_record :: "string \<Rightarrow> annotations \<Rightarrow> stage_record" where
  "blocked_record name notes =
     \<lparr>re_stage = name, re_action = BLOCK, re_reason = Some generic_block_reason, re_annotations = notes\<rparr>"

definition run_stage :: "'s stage \<Rightarrow> stage_context \<Rightarrow> 's \<Rightarrow> stage_record \<times> 's" where
  "run_stage st ctx s =
     (let name = stage_name st in
      case before_request st ctx s of
        (Raised e, s') \<Rightarrow>
          (blocked_record name [(''stage'', Note (JStr name)), (''stage_error'', Note (JBool True)),
                                (''detail'', Error_text e)], s')
      | (Returned_other t, s') \<Rightarrow>
          (blocked_record name [(''stage'', Note (JStr name)), (''malformed_result'', Note (JBool True)),
                                (''detail'', Note (JStr (''stage returned '' @ t)))], s')
      | (Returned r, s') \<Rightarrow>
          if sr_action r = BLOCK \<and> (sr_reason r = None \<or> sr_reason r = Some '''')
          then (blocked_record name ([(''stage'', Note (JStr name)), (''unexplained_block'', Note (JBool True))]
                  @ sr_annotations r), s')
          else (\<lparr>re_stage = name, re_action = sr_action r, re_reason = sr_reason r,
                 re_annotations = sr_annotations r\<rparr>, s'))"

fun admit_from ::
  "'s stage list \<Rightarrow> stage_context \<Rightarrow> stage_record list \<Rightarrow> 's \<Rightarrow> admission_outcome res \<times> 's" where
  "admit_from [] ctx records s = (admission_outcome_new records None None, s)"
| "admit_from (st # sts) ctx records s =
     (let (r, s') = run_stage st ctx s in
      if re_action r = BLOCK
      then (admission_outcome_new (records @ [r]) (Some (re_stage r)) (re_reason r), s')
      else admit_from sts ctx (records @ [r]) s')"

definition admit :: "'s stage list \<Rightarrow> stage_context \<Rightarrow> 's \<Rightarrow> admission_outcome res \<times> 's" where
  "admit stages ctx s = admit_from stages ctx [] s"

subsection \<open>What admission means\<close>

text \<open>The states the stages pass through, one after another, and what each records on its own.\<close>

primrec stage_trail :: "'s stage list \<Rightarrow> stage_context \<Rightarrow> 's \<Rightarrow> (stage_record \<times> 's) list" where
  "stage_trail [] ctx s = []"
| "stage_trail (st # sts) ctx s =
     (let x = run_stage st ctx s in
      x # (if re_action (fst x) = BLOCK then [] else stage_trail sts ctx (snd x)))"

lemma run_stage_record:
  "re_stage (fst (run_stage st ctx s)) = stage_name st \<and>
   (re_action (fst (run_stage st ctx s)) = BLOCK \<longrightarrow>
      re_reason (fst (run_stage st ctx s)) \<noteq> None \<and> re_reason (fst (run_stage st ctx s)) \<noteq> Some '''')"
  by (auto simp: run_stage_def blocked_record_def generic_block_reason_def Let_def
      split: prod.splits stage_reply.splits)

lemma admit_from_trail:
  assumes "records \<noteq> [] \<or> stages \<noteq> []"
  shows "admit_from stages ctx records s =
     (let tr = stage_trail stages ctx s; rs = records @ map fst tr in
      (if tr \<noteq> [] \<and> re_action (fst (last tr)) = BLOCK
       then Inr \<lparr>ao_records = rs, ao_blocked_by = Some (re_stage (fst (last tr))),
                 ao_reason = re_reason (fst (last tr))\<rparr>
       else Inr \<lparr>ao_records = rs, ao_blocked_by = None, ao_reason = None\<rparr>,
       if tr = [] then s else snd (last tr)))"
  using assms
proof (induction stages arbitrary: records s)
  case Nil
  then show ?case by (simp add: admission_outcome_new_def)
next
  case (Cons st sts)
  obtain r s' where x: "run_stage st ctx s = (r, s')" by fastforce
  show ?case
  proof (cases "re_action r = BLOCK")
    case True
    with x run_stage_record [of st ctx s] show ?thesis by (simp add: admission_outcome_new_def)
  next
    case False
    have "admit_from (st # sts) ctx records s = admit_from sts ctx (records @ [r]) s'"
      using x False by simp
    also have "\<dots> = (let tr = stage_trail (st # sts) ctx s; rs = records @ map fst tr in
      (if tr \<noteq> [] \<and> re_action (fst (last tr)) = BLOCK
       then Inr \<lparr>ao_records = rs, ao_blocked_by = Some (re_stage (fst (last tr))),
                 ao_reason = re_reason (fst (last tr))\<rparr>
       else Inr \<lparr>ao_records = rs, ao_blocked_by = None, ao_reason = None\<rparr>,
       if tr = [] then s else snd (last tr)))"
      using x False by (subst Cons.IH) (auto simp: Let_def)
    finally show ?thesis .
  qed
qed

lemma trail_nonempty [simp]: "stage_trail stages ctx s = [] \<longleftrightarrow> stages = []"
  by (cases stages) (simp_all add: Let_def)

lemma trail_stages: "\<exists>n. map (\<lambda>x. re_stage (fst x)) (stage_trail stages ctx s) = take n (map stage_name stages) \<and>
    (\<forall>x\<in>set (butlast (stage_trail stages ctx s)). re_action (fst x) \<noteq> BLOCK)"
proof (induction stages arbitrary: s)
  case (Cons st sts)
  obtain r s' where x: "run_stage st ctx s = (r, s')" by fastforce
  from run_stage_record [of st ctx s] x have r: "re_stage r = stage_name st" by simp
  show ?case
  proof (cases "re_action r = BLOCK")
    case True
    with x r show ?thesis by (intro exI [of _ 1]) (simp add: Let_def)
  next
    case False
    from Cons.IH [of s'] obtain n where
      "map (\<lambda>x. re_stage (fst x)) (stage_trail sts ctx s') = take n (map stage_name sts)"
      "\<forall>x\<in>set (butlast (stage_trail sts ctx s')). re_action (fst x) \<noteq> BLOCK" by blast
    with x r False show ?thesis by (intro exI [of _ "Suc n"]) (auto simp: Let_def)
  qed
qed simp

lemma trail_complete:
  "(\<forall>x\<in>set (stage_trail stages ctx s). re_action (fst x) \<noteq> BLOCK) \<Longrightarrow>
     map (\<lambda>x. re_stage (fst x)) (stage_trail stages ctx s) = map stage_name stages"
proof (induction stages arbitrary: s)
  case (Cons st sts)
  have nb: "re_action (fst (run_stage st ctx s)) \<noteq> BLOCK" using Cons.prems by (simp add: Let_def)
  with Cons.prems have "\<forall>x\<in>set (stage_trail sts ctx (snd (run_stage st ctx s))). re_action (fst x) \<noteq> BLOCK"
    by (simp add: Let_def)
  from Cons.IH [OF this] nb run_stage_record [of st ctx s] show ?case by (simp add: Let_def)
qed simp

text \<open>The pipeline decides by its first block and never fails open. For any non-empty chain of stages,
whatever they return or raise, admission ends with an outcome; its records are those of the stages
that ran, in order, and none but the last of them blocked. The request is admitted exactly when no
stage blocked, and then every stage ran; otherwise the outcome names the stage that blocked and gives
a non-empty reason, and no later stage has run. A stage that raises or returns no result blocks.\<close>

theorem pipeline_first_block_wins:
  fixes stages :: "'s stage list"
  assumes "stages \<noteq> []"
  shows "\<exists>out. admit stages ctx s = (Inr out, snd (last (stage_trail stages ctx s))) \<and>
    ao_records out = map fst (stage_trail stages ctx s) \<and>
    (\<exists>n. stages_run out = take n (map stage_name stages)) \<and>
    (\<forall>r\<in>set (butlast (ao_records out)). re_action r \<noteq> BLOCK) \<and>
    (admitted out \<longleftrightarrow> (\<forall>r\<in>set (ao_records out). re_action r \<noteq> BLOCK)) \<and>
    (admitted out \<longrightarrow> stages_run out = map stage_name stages) \<and>
    (\<not> admitted out \<longrightarrow> ao_blocked_by out = Some (re_stage (last (ao_records out))) \<and>
       (\<exists>reason. ao_reason out = Some reason \<and> reason \<noteq> '''')) \<and>
    (\<forall>(st :: 's stage) e s1 s2. before_request st ctx s1 = (Raised e, s2) \<longrightarrow> re_action (fst (run_stage st ctx s1)) = BLOCK) \<and>
    (\<forall>(st :: 's stage) t s1 s2. before_request st ctx s1 = (Returned_other t, s2) \<longrightarrow>
       re_action (fst (run_stage st ctx s1)) = BLOCK)"
proof -
  let ?tr = "stage_trail stages ctx s"
  have ne: "?tr \<noteq> []" using assms by simp
  obtain n where n: "map (\<lambda>x. re_stage (fst x)) ?tr = take n (map stage_name stages)"
    "\<forall>x\<in>set (butlast ?tr). re_action (fst x) \<noteq> BLOCK" using trail_stages [of stages ctx s] by blast
  have split: "set ?tr = insert (last ?tr) (set (butlast ?tr))"
    using ne by (metis Un_insert_right append_butlast_last_id list.simps(15) set_append sup_bot.right_neutral set_empty)
  have reason: "re_action (fst (last ?tr)) = BLOCK \<longrightarrow> (\<exists>t. re_reason (fst (last ?tr)) = Some t \<and> t \<noteq> '''')"
  proof -
    have "\<forall>x\<in>set ?tr. \<exists>st s'. x = run_stage st ctx s'"
    proof (induction stages arbitrary: s)
      case (Cons st sts)
      show ?case using Cons.IH [of "snd (run_stage st ctx s)"] by (auto simp: Let_def)
    qed simp
    with ne obtain st s' where "last ?tr = run_stage st ctx s'" by (meson last_in_set)
    with run_stage_record [of st ctx s'] show ?thesis by auto
  qed
  have fails: "(\<forall>(st :: 's stage) e s1 s2. before_request st ctx s1 = (Raised e, s2) \<longrightarrow> re_action (fst (run_stage st ctx s1)) = BLOCK) \<and>
    (\<forall>(st :: 's stage) t s1 s2. before_request st ctx s1 = (Returned_other t, s2) \<longrightarrow>
       re_action (fst (run_stage st ctx s1)) = BLOCK)"
    by (auto simp: run_stage_def blocked_record_def Let_def)
  define blk where "blk \<longleftrightarrow> re_action (fst (last ?tr)) = BLOCK"
  define out where "out = (if blk
      then \<lparr>ao_records = map fst ?tr, ao_blocked_by = Some (re_stage (fst (last ?tr))),
            ao_reason = re_reason (fst (last ?tr))\<rparr>
      else \<lparr>ao_records = map fst ?tr, ao_blocked_by = None, ao_reason = None\<rparr>)"
  have eq: "admit stages ctx s = (Inr out, snd (last ?tr))"
    using ne assms unfolding admit_def by (subst admit_from_trail) (simp_all add: Let_def out_def blk_def)
  have recs: "ao_records out = map fst ?tr" by (simp add: out_def)
  have adm: "admitted out \<longleftrightarrow> \<not> blk" by (simp add: out_def admitted_def)
  have all: "(\<forall>x\<in>set ?tr. re_action (fst x) \<noteq> BLOCK) \<longleftrightarrow> \<not> blk" using split n(2) by (simp add: blk_def)
  show ?thesis
  proof (rule exI [of _ out], intro conjI eq recs fails [THEN conjunct1] fails [THEN conjunct2])
    show "\<exists>n. stages_run out = take n (map stage_name stages)"
      using n(1) by (intro exI [of _ n]) (simp add: stages_run_def recs comp_def)
    show "\<forall>r\<in>set (butlast (ao_records out)). re_action r \<noteq> BLOCK"
      using n(2) by (simp add: recs flip: map_butlast)
    show "admitted out \<longleftrightarrow> (\<forall>r\<in>set (ao_records out). re_action r \<noteq> BLOCK)"
      using all by (simp add: adm recs)
    show "admitted out \<longrightarrow> stages_run out = map stage_name stages"
      using all trail_complete [of stages ctx s] by (simp add: adm stages_run_def recs comp_def)
    show "\<not> admitted out \<longrightarrow> ao_blocked_by out = Some (re_stage (last (ao_records out))) \<and>
       (\<exists>reason. ao_reason out = Some reason \<and> reason \<noteq> '''')"
      unfolding adm using reason ne by (auto simp: out_def blk_def last_map)
  qed
qed

theorem pipeline_first_block_wins_witness:
  "\<exists>out. admit [noop_stage ''a'', \<lparr>stage_name = ''b'', before_request = (\<lambda>ctx s. (Raised KeyError, s))\<rparr>]
      \<lparr>sc_correlation = ''c'', sc_organization = None, sc_principal = None, sc_attributes = []\<rparr> (5 :: int) =
    (Inr out, 5) \<and> \<not> admitted out"
  using pipeline_first_block_wins [of "[noop_stage ''a'', \<lparr>stage_name = ''b'', before_request = (\<lambda>ctx s. (Raised KeyError, s))\<rparr>]"
      "\<lparr>sc_correlation = ''c'', sc_organization = None, sc_principal = None, sc_attributes = []\<rparr>" "5 :: int"]
  by (auto simp: run_stage_def noop_stage_def continue_result_def blocked_record_def Let_def)

subsection \<open>Permission requirements and resolvers\<close>

definition required_permissions_key :: string where
  "required_permissions_key = ''required_permissions''"

definition resource_key :: string where
  "resource_key = ''resource''"

definition as_attributes :: "string list \<Rightarrow> string option \<Rightarrow> payload" where
  "as_attributes permissions resource =
     (required_permissions_key, JList (map JStr permissions)) #
     (case resource of None \<Rightarrow> [] | Some r \<Rightarrow> [(resource_key, JStr r)])"

text \<open>\<open>PermissionResolver.resolve\<close>: a principal, an organization, the granted permissions.\<close>

type_synonym resolver = "uuid \<Rightarrow> uuid \<Rightarrow> string set"

definition null_resolver :: resolver where
  "null_resolver who org = {}"

definition in_memory_resolver ::
  "(string \<rightharpoonup> string list) \<Rightarrow> (uuid \<times> uuid \<rightharpoonup> string list) \<Rightarrow> resolver" where
  "in_memory_resolver role_permissions assignments who org =
     foldl (\<lambda>granted role. granted \<union> (case role_permissions role of None \<Rightarrow> {} | Some ps \<Rightarrow> set ps)) {}
       (case assignments (org, who) of None \<Rightarrow> [] | Some roles \<Rightarrow> roles)"

datatype membership_status = Active | Invited | Disabled

record membership_row =
  me_organization :: uuid
  me_user :: "uuid option"
  me_service_account :: "uuid option"
  me_role :: uuid
  me_status :: membership_status

record role_row =
  ro_id :: uuid
  ro_organization :: "uuid option"

record permission_row =
  pe_id :: uuid
  pe_key :: string

record key_scope_row =
  ks_organization :: uuid
  ks_api_key :: uuid
  ks_scope :: string

record rbac_db =
  rb_up :: bool
  rb_memberships :: "membership_row list"
  rb_roles :: "role_row list"
  rb_role_permissions :: "(uuid \<times> uuid) list"
  rb_permissions :: "permission_row list"
  rb_key_scopes :: "key_scope_row list"

definition role_granted :: "rbac_db \<Rightarrow> uuid \<Rightarrow> uuid \<Rightarrow> string set" where
  "role_granted db who org =
     pe_key ` set (filter (\<lambda>p.
         list_ex (\<lambda>m. me_organization m = org \<and> me_status m = Active \<and>
           (me_user m = Some who \<or> me_service_account m = Some who) \<and>
           list_ex (\<lambda>r. ro_id r = me_role m \<and> (ro_organization r = None \<or> ro_organization r = Some org))
             (rb_roles db) \<and>
           list_ex (\<lambda>(role, perm). role = me_role m \<and> perm = pe_id p) (rb_role_permissions db))
         (rb_memberships db)) (rb_permissions db))"

definition key_granted :: "rbac_db \<Rightarrow> uuid \<Rightarrow> uuid \<Rightarrow> string set" where
  "key_granted db who org =
     ks_scope ` set (filter (\<lambda>s. ks_api_key s = who \<and> ks_organization s = org) (rb_key_scopes db))"

definition sql_resolver :: "rbac_db \<Rightarrow> resolver" where
  "sql_resolver db who org =
     (if rb_up db then role_granted db who org \<union> key_granted db who org else {})"

subsection \<open>AuthorizationStage\<close>

definition required_permissions :: "payload \<Rightarrow> string set option" where
  "required_permissions attributes =
     (case map_of attributes required_permissions_key of
        None \<Rightarrow> None
      | Some JNull \<Rightarrow> None
      | Some (JStr s) \<Rightarrow> Some {s}
      | Some (JList xs) \<Rightarrow> Some (py_str ` set xs)
      | Some v \<Rightarrow> Some {py_str v})"

definition resource_of :: "payload \<Rightarrow> json" where
  "resource_of attributes = (case map_of attributes resource_key of None \<Rightarrow> JNull | Some v \<Rightarrow> v)"

definition deny :: "string \<Rightarrow> annotations \<Rightarrow> stage_result" where
  "deny reason notes = \<lparr>sr_action = BLOCK, sr_reason = Some reason, sr_annotations = notes\<rparr>"

definition authorize :: "resolver \<Rightarrow> stage_context \<Rightarrow> stage_result" where
  "authorize resolve ctx =
     (let notes = [(''stage'', Note (JStr ''authorization'')), (''resource'', Note (resource_of (sc_attributes ctx)))] in
      case required_permissions (sc_attributes ctx) of
        None \<Rightarrow> deny ''request declares no permission requirement'' (notes @ [(''undeclared'', Note (JBool True))])
      | Some required \<Rightarrow>
          (case (sc_organization ctx, sc_principal ctx) of
             (Some org, Some who) \<Rightarrow>
               (let missing = required - resolve who org in
                if missing \<noteq> {}
                then deny ''principal lacks the required permissions''
                       (notes @ [(''missing_permissions'', Note (JList (map JStr (sorted_list_of_set missing))))])
                else \<lparr>sr_action = CONTINUE, sr_reason = None,
                      sr_annotations = [(''stage'', Note (JStr ''authorization'')), (''authorized'', Note (JBool True)),
                                        (''resource'', Note (resource_of (sc_attributes ctx)))]\<rparr>)
           | _ \<Rightarrow> deny ''unauthenticated request'' (notes @ [(''unauthenticated'', Note (JBool True))])))"

definition authorization_stage :: "resolver \<Rightarrow> 's stage" where
  "authorization_stage resolve =
     \<lparr>stage_name = ''authorization'', before_request = (\<lambda>ctx s. (Returned (authorize resolve ctx), s))\<rparr>"

subsection \<open>Policy\<close>

record policy_query =
  pq_organization :: uuid
  pq_correlation :: string
  pq_payload :: payload

record policy_verdict =
  pv_allowed :: bool
  pv_reason :: string
  pv_rule :: string
  pv_detail :: payload

definition policy_verdict_new :: "bool \<Rightarrow> string \<Rightarrow> string \<Rightarrow> payload \<Rightarrow> policy_verdict res" where
  "policy_verdict_new allow reason rule detail =
     (if \<not> allow \<and> reason = '''' then Inl ValueError
      else Inr \<lparr>pv_allowed = allow, pv_reason = reason, pv_rule = rule, pv_detail = detail\<rparr>)"

text \<open>What an engine's \<open>evaluate\<close> may do; \<open>Other_verdict\<close> is a value that is no verdict, by its type.\<close>

datatype verdict_reply = Verdict policy_verdict | Other_verdict string | Engine_raised exn

type_synonym policy_engine = "policy_query \<Rightarrow> verdict_reply"

definition max_request_bytes :: nat where
  "max_request_bytes = 128 * 1024"

definition local_engine_new :: "int \<Rightarrow> nat res" where
  "local_engine_new limit = (if limit < 1 then Inl ValueError else Inr (nat limit))"

definition blocked_reason :: string where
  "blocked_reason = ''request rejected by policy''"

definition local_policy_engine :: "nat \<Rightarrow> policy_engine" where
  "local_policy_engine limit q =
     (let size = length (dumps (JObj (pq_payload q))) in
      if limit < size
      then Verdict \<lparr>pv_allowed = False, pv_reason = blocked_reason, pv_rule = ''max_request_bytes'',
             pv_detail = [(''organization_id'', JInt (int (pq_organization q))),
                          (''request_bytes'', JInt (int size)), (''limit_bytes'', JInt (int limit))]\<rparr>
      else Verdict \<lparr>pv_allowed = True, pv_reason = '''', pv_rule = ''max_request_bytes'',
             pv_detail = [(''request_bytes'', JInt (int size)), (''limit_bytes'', JInt (int limit))]\<rparr>)"

definition falsy :: "json \<Rightarrow> bool" where
  "falsy v = (case v of JNull \<Rightarrow> True | JBool b \<Rightarrow> \<not> b | JInt i \<Rightarrow> i = 0 | JFloat s \<Rightarrow> s \<in> {''0.0'', ''-0.0''}
     | JStr s \<Rightarrow> s = '''' | JList xs \<Rightarrow> xs = [] | JObj fs \<Rightarrow> fs = [])"

definition request_payload :: "payload \<Rightarrow> json" where
  "request_payload attributes =
     (case map_of attributes ''request'' of None \<Rightarrow> JObj [] | Some v \<Rightarrow> if falsy v then JObj [] else v)"

definition apply_policy :: "policy_engine \<Rightarrow> string \<Rightarrow> stage_context \<Rightarrow> stage_result" where
  "apply_policy engine name ctx =
     (let stop = (\<lambda>reason notes. deny reason ((''stage'', Note (JStr name)) # notes)) in
      case sc_organization ctx of
        None \<Rightarrow> stop blocked_reason [(''untenanted'', Note (JBool True))]
      | Some org \<Rightarrow>
          (case request_payload (sc_attributes ctx) of
             JObj fs \<Rightarrow>
               (case engine \<lparr>pq_organization = org, pq_correlation = sc_correlation ctx, pq_payload = fs\<rparr> of
                  Engine_raised e \<Rightarrow>
                    if e = PolicyEngineUnavailableError
                    then stop blocked_reason [(''policy_unavailable'', Note (JBool True)), (''detail'', Error_text e)]
                    else stop blocked_reason [(''policy_error'', Note (JBool True)), (''detail'', Error_text e)]
                | Other_verdict t \<Rightarrow>
                    stop blocked_reason [(''malformed_verdict'', Note (JBool True)),
                      (''detail'', Note (JStr (''engine returned '' @ t)))]
                | Verdict v \<Rightarrow>
                    if \<not> pv_allowed v
                    then stop (pv_reason v) ([(''policy_denied'', Note (JBool True)), (''rule'', Note (JStr (pv_rule v)))]
                           @ map (\<lambda>(k, d). (k, Note d)) (pv_detail v))
                    else \<lparr>sr_action = CONTINUE, sr_reason = None,
                          sr_annotations = [(''stage'', Note (JStr name)), (''policy_allowed'', Note (JBool True)),
                                            (''rule'', Note (JStr (pv_rule v)))]\<rparr>)
           | _ \<Rightarrow> stop blocked_reason [(''malformed_payload'', Note (JBool True))]))"

definition policy_stage :: "policy_engine \<Rightarrow> 's stage" where
  "policy_stage engine =
     \<lparr>stage_name = ''policy'', before_request = (\<lambda>ctx s. (Returned (apply_policy engine ''policy'' ctx), s))\<rparr>"

subsection \<open>AgentRoutingStage and the gateway's chain\<close>

definition routing_execution_key :: string where
  "routing_execution_key = ''routing_execution''"

text \<open>\<open>dict(value)\<close>: an object, or a sequence of pairs, a pair being a list of two values or a string of
two characters. Keys that are no strings, which a JSON object cannot have, count as an error.\<close>

fun dict_item :: "json \<Rightarrow> (string \<times> json) option" where
  "dict_item (JList [JStr k, v]) = Some (k, v)"
| "dict_item (JStr [a, b]) = Some ([a], JStr [b])"
| "dict_item _ = None"

fun dict_items :: "json list \<Rightarrow> payload \<Rightarrow> payload option" where
  "dict_items [] d = Some d"
| "dict_items (x # xs) d =
     (case dict_item x of None \<Rightarrow> None | Some (k, v) \<Rightarrow> dict_items xs (AList.update k v d))"

definition dict_of :: "json \<Rightarrow> payload option" where
  "dict_of v =
     (case v of JObj fs \<Rightarrow> Some fs
      | JList xs \<Rightarrow> dict_items xs []
      | JStr s \<Rightarrow> if s = '''' then Some [] else None
      | _ \<Rightarrow> None)"

definition routing_stage :: "provider_catalog \<Rightarrow> agent list \<Rightarrow> instant \<Rightarrow> breaker stage" where
  "routing_stage catalog agents now =
     \<lparr>stage_name = ''agent_routing'', before_request = (\<lambda>ctx b.
        case sc_organization ctx of
          None \<Rightarrow> (Returned continue_result, b)
        | Some org \<Rightarrow>
            (case dict_of (case map_of (sc_attributes ctx) ''request'' of None \<Rightarrow> JObj [] | Some v \<Rightarrow> v) of
               None \<Rightarrow> (Raised TypeError, b)
             | Some fs \<Rightarrow>
                 (case route catalog agents now org (sc_correlation ctx) fs b of
                    (Inl e, b') \<Rightarrow> (Raised e, b')
                  | (Inr ex, b') \<Rightarrow>
                      (Returned \<lparr>sr_action = ANNOTATE, sr_reason = None,
                                 sr_annotations = [(routing_execution_key, Execution ex)]\<rparr>, b'))))\<rparr>"

definition gateway_stages ::
  "resolver \<Rightarrow> policy_engine \<Rightarrow> provider_catalog \<Rightarrow> agent list \<Rightarrow> instant \<Rightarrow> breaker stage list" where
  "gateway_stages resolve engine catalog agents now =
     [authorization_stage resolve, policy_stage engine, routing_stage catalog agents now]"

subsection \<open>What the stages admit\<close>

lemma authorize_continue:
  "sr_action (authorize resolve ctx) = CONTINUE \<longleftrightarrow>
     (\<exists>org who req. sc_organization ctx = Some org \<and> sc_principal ctx = Some who \<and>
        required_permissions (sc_attributes ctx) = Some req \<and> req \<subseteq> resolve who org)"
  "sr_action (authorize resolve ctx) \<noteq> CONTINUE \<Longrightarrow> sr_action (authorize resolve ctx) = BLOCK"
  by (auto simp: authorize_def deny_def Let_def split: option.split)

lemma authorize_reason:
  "sr_action (authorize resolve ctx) = BLOCK \<Longrightarrow>
     sr_reason (authorize resolve ctx) \<in>
       Some ` {''request declares no permission requirement'', ''unauthenticated request'',
               ''principal lacks the required permissions''}"
  by (auto simp: authorize_def deny_def Let_def split: option.splits if_splits)

text \<open>A request passes authorization exactly when it declares what it requires, carries a tenant and
a principal, and the resolver grants that principal every declared permission in that tenant; every
other request is blocked, with one of three fixed reasons that name no permission.\<close>

theorem authorization_exact:
  "(sr_action (authorize resolve ctx) = CONTINUE \<longleftrightarrow>
     (\<exists>org who req. sc_organization ctx = Some org \<and> sc_principal ctx = Some who \<and>
        required_permissions (sc_attributes ctx) = Some req \<and> req \<subseteq> resolve who org)) \<and>
   (sr_action (authorize resolve ctx) = CONTINUE \<or>
      (sr_action (authorize resolve ctx) = BLOCK \<and>
       sr_reason (authorize resolve ctx) \<in>
         Some ` {''request declares no permission requirement'', ''unauthenticated request'',
                 ''principal lacks the required permissions''}))"
  using authorize_continue [of resolve ctx] authorize_reason [of resolve ctx] by blast

text \<open>A permission comes only from the tenant's own grants. The database resolver gives a principal
the same permissions in a tenant when every membership that is not active there, every key scope of
another tenant and every role that belongs to another tenant are deleted, and nothing at all when the
database cannot be read, so that authorization then blocks every request that requires something.\<close>

theorem sql_resolver_tenant_scoped:
  "sql_resolver (db\<lparr>rb_memberships := filter (\<lambda>m. me_organization m = org \<and> me_status m = Active) (rb_memberships db),
                   rb_key_scopes := filter (\<lambda>s. ks_organization s = org) (rb_key_scopes db),
                   rb_roles := filter (\<lambda>r. ro_organization r = None \<or> ro_organization r = Some org) (rb_roles db)\<rparr>)
     who org = sql_resolver db who org \<and>
   sql_resolver (db\<lparr>rb_up := False\<rparr>) who org = {}"
  unfolding sql_resolver_def role_granted_def key_granted_def
  by (auto simp: list_ex_iff image_iff)

lemma policy_continue:
  assumes "sc_organization ctx = Some org" "map_of (sc_attributes ctx) ''request'' = Some (JObj p)"
  shows "sr_action (apply_policy (local_policy_engine limit) name ctx) = CONTINUE \<longleftrightarrow>
           length (dumps (JObj p)) \<le> limit"
    and "sr_action (apply_policy (local_policy_engine limit) name ctx) \<in> {CONTINUE, BLOCK}"
    and "sr_action (apply_policy (local_policy_engine limit) name ctx) = BLOCK \<Longrightarrow>
           sr_reason (apply_policy (local_policy_engine limit) name ctx) = Some blocked_reason"
proof -
  have "request_payload (sc_attributes ctx) = JObj p"
    using assms(2) by (cases p) (simp_all add: request_payload_def falsy_def)
  then show "sr_action (apply_policy (local_policy_engine limit) name ctx) = CONTINUE \<longleftrightarrow>
           length (dumps (JObj p)) \<le> limit"
    and "sr_action (apply_policy (local_policy_engine limit) name ctx) \<in> {CONTINUE, BLOCK}"
    and "sr_action (apply_policy (local_policy_engine limit) name ctx) = BLOCK \<Longrightarrow>
           sr_reason (apply_policy (local_policy_engine limit) name ctx) = Some blocked_reason"
    using assms(1) by (cases "limit < length (dumps (JObj p))";
      simp add: apply_policy_def local_policy_engine_def deny_def blocked_reason_def)+
qed

text \<open>An engine that cannot decide never admits. Whatever the engine, a request without a tenant or
with a payload that is no object is blocked, and so is every request for which the engine raises or
returns something that is no verdict; the caller then sees the same generic reason.\<close>

theorem policy_fails_closed:
  assumes "sr_action (apply_policy engine name ctx) = CONTINUE"
  shows "\<exists>org p v. sc_organization ctx = Some org \<and> request_payload (sc_attributes ctx) = JObj p \<and>
    engine \<lparr>pq_organization = org, pq_correlation = sc_correlation ctx, pq_payload = p\<rparr> = Verdict v \<and>
    pv_allowed v"
  using assms
  by (auto simp: apply_policy_def deny_def Let_def split: option.splits json.splits verdict_reply.splits if_splits)

definition sample_context :: stage_context where
  "sample_context = \<lparr>sc_correlation = ''a'', sc_organization = Some 7, sc_principal = Some 9,
     sc_attributes = as_attributes [''inference:invoke''] None @ [(''request'', JObj [(''prompt'', JStr ''hello'')])]\<rparr>"

theorem policy_fails_closed_witness:
  "\<exists>org p v. sc_organization sample_context = Some org \<and>
     local_policy_engine 100 \<lparr>pq_organization = org, pq_correlation = ''a'', pq_payload = p\<rparr> = Verdict v \<and> pv_allowed v"
proof -
  have "sr_action (apply_policy (local_policy_engine 100) ''policy'' sample_context) = CONTINUE" by code_simp
  from policy_fails_closed [OF this] show ?thesis by (auto simp: sample_context_def)
qed

lemma run_returned:
  "before_request st ctx s = (Returned r, s') \<Longrightarrow> sr_action r \<noteq> BLOCK \<or> (\<exists>t. sr_reason r = Some t \<and> t \<noteq> '''') \<Longrightarrow>
     run_stage st ctx s = (\<lparr>re_stage = stage_name st, re_action = sr_action r, re_reason = sr_reason r,
                            re_annotations = sr_annotations r\<rparr>, s')"
  by (auto simp: run_stage_def Let_def)

lemma gateway_chain:
  assumes "cdb_up db" "map_of (sc_attributes ctx) ''request'' = Some (JObj p)"
    and res_def: "res = admit (gateway_stages resolve (local_policy_engine limit) (sql_provider_catalog db)
                                (gateway_agents cfg) now) ctx b"
  shows "\<exists>out. fst res = Inr out \<and>
    (admitted out \<longleftrightarrow> sr_action (authorize resolve ctx) = CONTINUE \<and> length (dumps (JObj p)) \<le> limit) \<and>
    (\<not> admitted out \<longrightarrow> snd res = b) \<and>
    (admitted out \<longrightarrow>
       (\<exists>org e. sc_organization ctx = Some org \<and>
          fst (route (sql_provider_catalog db) (gateway_agents cfg) now org (sc_correlation ctx) p b) = Inr e \<and>
          map_of (re_annotations (last (ao_records out))) routing_execution_key = Some (Execution e) \<and>
          map (\<lambda>r. map_of (re_annotations r) routing_execution_key) (ao_records out) = [None, None, Some (Execution e)] \<and>
          length (ao_records out) = 3))"
proof -
  let ?a = "authorize resolve ctx"
  let ?stages = "gateway_stages resolve (local_policy_engine limit) (sql_provider_catalog db) (gateway_agents cfg) now"
  have a1: "run_stage (authorization_stage resolve) ctx b =
      (\<lparr>re_stage = ''authorization'', re_action = sr_action ?a, re_reason = sr_reason ?a,
        re_annotations = sr_annotations ?a\<rparr>, b)"
    using authorize_reason [of resolve ctx]
    by (subst run_returned [where r = ?a and s' = b]) (auto simp: authorization_stage_def)
  show ?thesis
  proof (cases "sr_action ?a = CONTINUE")
    case False
    with authorize_continue(2) have blk: "sr_action ?a = BLOCK" by blast
    with authorize_reason [of resolve ctx] have "\<exists>t. sr_reason ?a = Some t \<and> t \<noteq> ''''" by auto
    with blk False show ?thesis
      by (auto simp: res_def admit_def gateway_stages_def a1 admission_outcome_new_def admitted_def)
  next
    case True
    then obtain org where org: "sc_organization ctx = Some org" unfolding authorize_continue(1) by blast
    let ?p = "apply_policy (local_policy_engine limit) ''policy'' ctx"
    note pol = policy_continue [OF org assms(2), of limit "''policy''"]
    have p1: "run_stage (policy_stage (local_policy_engine limit)) ctx b =
        (\<lparr>re_stage = ''policy'', re_action = sr_action ?p, re_reason = sr_reason ?p,
          re_annotations = sr_annotations ?p\<rparr>, b)"
      using pol(2,3)
      by (subst run_returned [where r = ?p and s' = b]) (auto simp: policy_stage_def blocked_reason_def)
    show ?thesis
    proof (cases "length (dumps (JObj p)) \<le> limit")
      case False
      with pol have "sr_action ?p = BLOCK" "sr_reason ?p = Some blocked_reason" by auto
      with True False show ?thesis
        by (simp add: res_def admit_def gateway_stages_def a1 p1 admission_outcome_new_def admitted_def
            blocked_reason_def)
    next
      case ok: True
      with pol have cont: "sr_action ?p = CONTINUE" by simp
      obtain ds where c: "cat_candidates (sql_provider_catalog db) org = Inr ds"
        using assms(1) by (simp add: sql_provider_catalog_def sql_descriptors_def)
      obtain e where e: "fst (route (sql_provider_catalog db) (gateway_agents cfg) now org (sc_correlation ctx) p b) = Inr e"
        using gateway_route [OF sqlcat.stable_catalog_axioms c] by blast
      then obtain b' where r: "route (sql_provider_catalog db) (gateway_agents cfg) now org (sc_correlation ctx) p b = (Inr e, b')"
        by (metis prod.collapse)
      have r1: "run_stage (routing_stage (sql_provider_catalog db) (gateway_agents cfg) now) ctx b =
          (\<lparr>re_stage = ''agent_routing'', re_action = ANNOTATE, re_reason = None,
            re_annotations = [(routing_execution_key, Execution e)]\<rparr>, b')"
        using org assms(2) r
        by (subst run_returned [where r = "\<lparr>sr_action = ANNOTATE, sr_reason = None,
                sr_annotations = [(routing_execution_key, Execution e)]\<rparr>" and s' = b'])
          (simp_all add: routing_stage_def dict_of_def)
      have "map_of (sr_annotations ?a) routing_execution_key = None"
        using True by (auto simp: authorize_def deny_def Let_def routing_execution_key_def split: option.splits if_splits)
      moreover have "map_of (sr_annotations ?p) routing_execution_key = None"
        using cont by (auto simp: apply_policy_def deny_def Let_def routing_execution_key_def
            split: option.splits json.splits verdict_reply.splits if_splits)
      ultimately show ?thesis
        using True ok cont org e
        by (simp add: res_def admit_def gateway_stages_def a1 p1 r1 admission_outcome_new_def admitted_def)
    qed
  qed
qed



end
