(* ===== verification/Serving.thy ===== *)
theory Serving imports Reflection Streaming Evaluation Admission begin

text \<open>
  The served request (\<open>application/serving/inference_service.py\<close>): admission, then the reflected
  execution and its evaluation, or the opened stream. The circuit breaker is the state the stages
  share with the execution, so admission runs on the breaker of the gateway's state.
\<close>

record served_inference =
  sv_admission :: admission_outcome
  sv_reflection :: "reflection_result option"
  sv_evaluation :: "evaluation_report option"

definition served_inference_new ::
  "admission_outcome \<Rightarrow> reflection_result option \<Rightarrow> evaluation_report option \<Rightarrow> served_inference res" where
  "served_inference_new adm rfl ev =
     (if admitted adm \<and> rfl = None then Inl ValueError
      else if \<not> admitted adm \<and> rfl \<noteq> None then Inl ValueError
      else Inr \<lparr>sv_admission = adm, sv_reflection = rfl, sv_evaluation = ev\<rparr>)"

record served_stream =
  st_admission :: admission_outcome
  st_session :: "stream_session option"

definition served_stream_new :: "admission_outcome \<Rightarrow> stream_session option \<Rightarrow> served_stream res" where
  "served_stream_new adm session =
     (if admitted adm \<and> session = None then Inl ValueError
      else if \<not> admitted adm \<and> session \<noteq> None then Inl ValueError
      else Inr \<lparr>st_admission = adm, st_session = session\<rparr>)"

fun transported :: "stage_record list \<Rightarrow> routing_execution option" where
  "transported [] = None"
| "transported (r # rs) =
     (case map_of (re_annotations r) routing_execution_key of
        Some (Execution e) \<Rightarrow> Some e
      | _ \<Rightarrow> transported rs)"

definition routing_execution_of :: "admission_outcome \<Rightarrow> routing_execution res" where
  "routing_execution_of adm =
     (case transported (ao_records adm) of None \<Rightarrow> Inl RoutingTransportError | Some e \<Rightarrow> Inr e)"

definition serve :: "('l, 'c) gateway_env \<Rightarrow> breaker stage list \<Rightarrow> retry_policy \<Rightarrow> evaluator list \<Rightarrow>
    stage_context \<Rightarrow> inference_request \<Rightarrow> ('l, 'c) gateway \<Rightarrow> ('l, 'c) gateway \<times> served_inference res" where
  "serve env stages pol evaluators ctx req st =
     (case admit stages ctx (gw_breaker st) of
        (Inl x, b) \<Rightarrow> (st\<lparr>gw_breaker := b\<rparr>, Inl x)
      | (Inr adm, b) \<Rightarrow>
          (let st1 = st\<lparr>gw_breaker := b\<rparr> in
           if \<not> admitted adm then (st1, served_inference_new adm None None)
           else (case routing_execution_of adm of
               Inl x \<Rightarrow> (st1, Inl x)
             | Inr e \<Rightarrow>
                 (case reflect env pol e req st1 of
                    (st2, Inl x) \<Rightarrow> (st2, Inl x)
                  | (st2, Inr rr) \<Rightarrow>
                      (case evaluation_run evaluators
                              \<lparr>ei_organization = rd_organization (re_decision e),
                               ei_correlation = correlation_id req,
                               ei_outcome = ex_outcome (rf_final rr), ei_response = ex_response (rf_final rr)\<rparr> of
                         Inl x \<Rightarrow> (st2, Inl x)
                       | Inr rep \<Rightarrow> (st2, served_inference_new adm (Some rr) (Some rep)))))))"

definition serve_stream :: "('l, 'c) gateway_env \<Rightarrow> stream_client \<Rightarrow> breaker stage list \<Rightarrow>
    stage_context \<Rightarrow> inference_request \<Rightarrow> ('l, 'c) gateway \<Rightarrow> ('l, 'c) gateway \<times> served_stream res" where
  "serve_stream env client stages ctx req st =
     (case admit stages ctx (gw_breaker st) of
        (Inl x, b) \<Rightarrow> (st\<lparr>gw_breaker := b\<rparr>, Inl x)
      | (Inr adm, b) \<Rightarrow>
          (let st1 = st\<lparr>gw_breaker := b\<rparr> in
           if \<not> admitted adm then (st1, served_stream_new adm None)
           else (case routing_execution_of adm of
               Inl x \<Rightarrow> (st1, Inl x)
             | Inr e \<Rightarrow>
                 (case stream_open env client e req st1 of
                    (st2, Inl x) \<Rightarrow> (st2, Inl x)
                  | (st2, Inr s) \<Rightarrow> (st2, served_stream_new adm (Some s))))))"

definition sql_stages ::
  "resolver \<Rightarrow> nat \<Rightarrow> catalog_db \<Rightarrow> breaker_config \<Rightarrow> instant \<Rightarrow> breaker stage list" where
  "sql_stages resolve limit db cfg now =
     gateway_stages resolve (local_policy_engine limit) (sql_provider_catalog db) (gateway_agents cfg) now"

subsection \<open>Refused requests\<close>

text \<open>A refused request does nothing. Whatever the stages, when admission blocks a request the
ledger, the cache, the clock and the calls made are exactly as they were, nothing was executed or
evaluated, and what is returned says so; the streamed path refuses the same requests with the same
admission and opens no stream.\<close>

theorem refused_request_does_nothing:
  assumes "admit stages ctx (gw_breaker st) = (Inr adm, b)" "\<not> admitted adm"
  shows "serve env stages pol evaluators ctx req st =
      (st\<lparr>gw_breaker := b\<rparr>, Inr \<lparr>sv_admission = adm, sv_reflection = None, sv_evaluation = None\<rparr>) \<and>
    serve_stream env client stages ctx req st =
      (st\<lparr>gw_breaker := b\<rparr>, Inr \<lparr>st_admission = adm, st_session = None\<rparr>)"
  using assms by (simp add: serve_def serve_stream_def served_inference_new_def served_stream_new_def Let_def)

theorem refused_request_does_nothing_witness:
  "\<exists>adm b. serve (sample_env sample_client sample_prices) [authorization_stage null_resolver] default_retry_policy
      gateway_evaluators sample_context sample_request sample_gateway =
    (sample_gateway\<lparr>gw_breaker := b\<rparr>, Inr \<lparr>sv_admission = adm, sv_reflection = None, sv_evaluation = None\<rparr>)"
proof -
  let ?r = "authorize null_resolver sample_context"
  have "sr_action ?r = BLOCK" "sr_reason ?r = Some ''principal lacks the required permissions''" by code_simp+
  then obtain adm where "admit [authorization_stage null_resolver] sample_context (gw_breaker sample_gateway) =
      (Inr adm, gw_breaker sample_gateway)" "\<not> admitted adm"
    by (simp add: admit_def authorization_stage_def run_stage_def admission_outcome_new_def admitted_def)
  from refused_request_does_nothing [OF this] show ?thesis by blast
qed

subsection \<open>The composed gateway\<close>

definition calls_routed :: "routing_execution \<Rightarrow> provider_call list \<Rightarrow> bool" where
  "calls_routed e cs \<longleftrightarrow> list_all (\<lambda>c. routed e \<and> re_provider e = Some (pc_provider c)) cs"

lemma coordinator_routed:
  assumes "coordinator_execute env e req st = (st', a)"
  shows "\<exists>new. gw_calls st' = gw_calls st @ new \<and> calls_routed e new \<and> length new \<le> 1"
  using assms
proof (cases rule: coordinator_cases)
  case (miss p key st1)
  have g: "gw_calls st1 = gw_calls st" by (rule safe_get_state(2) [OF miss(4)])
  show ?thesis
    using miss(5,1,2)
  proof (cases rule: execute_and_settle_cases)
    case (failed l r st2 resp)
    then show ?thesis using g miss(1,2) invoke_state(6) [OF failed(3)] release_hold_state(2) [OF failed(5)]
      by (simp add: calls_routed_def)
  next
    case (answered l r st2 resp)
    then show ?thesis using g miss(1,2) invoke_state(6) [OF answered(3)] settle_call_frame(1) [OF answered(5)]
      by (simp add: calls_routed_def)
  qed (simp_all add: g calls_routed_def)
qed (auto dest: safe_get_state(2) simp: calls_routed_def)

lemma reflect_loop_routed:
  "reflect_loop (sql_env cttl prices ttl bcfg client sha) pol e req ns result attempts st = (st', a) \<Longrightarrow>
     ledger_inv (gw_ledger st) \<Longrightarrow>
     ledger_inv (gw_ledger st') \<and>
     (\<exists>new. gw_calls st' = gw_calls st @ new \<and> calls_routed e new \<and> length new \<le> length ns)"
proof (induction ns arbitrary: result attempts st)
  case (Cons n ns)
  let ?env = "sql_env cttl prices ttl bcfg client sha"
  obtain st1 b where x: "coordinator_execute ?env e (attempt_request req n) (pause_before pol n st) = (st1, b)"
    by (meson surj_pair)
  have w: "ledger_inv (gw_ledger st1)" by (rule gw.wf_execute [OF x]) (use Cons.prems(2) in simp)
  obtain c where c: "gw_calls st1 = gw_calls st @ c" "calls_routed e c" "length c \<le> 1"
    using coordinator_routed [OF x] by auto
  consider "st' = st1" | r atts where "reflect_loop ?env pol e req ns (Some r) atts st1 = (st', a)"
    using Cons.prems(1) x by (cases b) (auto simp: Let_def split: if_splits)
  then show ?case
  proof cases
    case 1
    with w c show ?thesis by auto
  next
    case 2
    from Cons.IH [OF 2 w] obtain new where "ledger_inv (gw_ledger st')" "gw_calls st' = gw_calls st1 @ new"
      "calls_routed e new" "length new \<le> length ns" by blast
    with c show ?thesis by (intro conjI exI [of _ "c @ new"]) (auto simp: calls_routed_def)
  qed
qed (auto simp: calls_routed_def)

lemma reflect_routed:
  assumes "reflect (sql_env cttl prices ttl bcfg client sha) pol e req st = (st', a)" "ledger_inv (gw_ledger st)"
  shows "ledger_inv (gw_ledger st') \<and> (\<exists>new. gw_calls st' = gw_calls st @ new \<and> calls_routed e new \<and>
    length new \<le> nat (max_attempts pol))"
  using reflect_loop_routed [OF assms(1) [unfolded reflect_def] assms(2)] by (simp del: upt_Suc)

lemma serves_safely:
  assumes "cdb_up db" "map_of (sc_attributes ctx) ''request'' = Some (JObj p)"
    and "ledger_inv (gw_ledger st)" "retry_policy_new m bk = Inr pol"
    and "serve (sql_env cttl prices ttl bcfg client sha) (sql_stages resolve limit db cfg (gw_now st)) pol
           gateway_evaluators ctx req st = (st', a)"
  shows "ledger_inv (gw_ledger st') \<and>
    (\<exists>new. gw_calls st' = gw_calls st @ new \<and> length new \<le> nat m \<and>
      (new \<noteq> [] \<longrightarrow> sr_action (authorize resolve ctx) = CONTINUE \<and> length (dumps (JObj p)) \<le> limit \<and>
        (\<exists>org e. sc_organization ctx = Some org \<and>
           fst (route (sql_provider_catalog db) (gateway_agents cfg) (gw_now st) org (sc_correlation ctx) p
             (gw_breaker st)) = Inr e \<and> calls_routed e new)))"
proof -
  let ?env = "sql_env cttl prices ttl bcfg client sha"
  let ?stages = "sql_stages resolve limit db cfg (gw_now st)"
  have pol: "max_attempts pol = m" using assms(4) by (auto simp: retry_policy_new_def split: if_splits)
  obtain adm b where ad: "admit ?stages ctx (gw_breaker st) = (Inr adm, b)"
    and iff: "admitted adm \<longleftrightarrow> sr_action (authorize resolve ctx) = CONTINUE \<and> length (dumps (JObj p)) \<le> limit"
    and tr: "admitted adm \<Longrightarrow> \<exists>org e. sc_organization ctx = Some org \<and>
          fst (route (sql_provider_catalog db) (gateway_agents cfg) (gw_now st) org (sc_correlation ctx) p (gw_breaker st)) = Inr e \<and>
          map (\<lambda>r. map_of (re_annotations r) routing_execution_key) (ao_records adm) = [None, None, Some (Execution e)]"
    using gateway_chain [OF assms(1,2) refl, of resolve limit cfg "gw_now st" "gw_breaker st"]
    unfolding sql_stages_def by (metis prod.collapse)
  show ?thesis
  proof (cases "admitted adm")
    case False
    with ad assms(3,5) show ?thesis by (auto simp: serve_def Let_def)
  next
    case True
    from tr [OF True] obtain org e where e: "sc_organization ctx = Some org"
      "fst (route (sql_provider_catalog db) (gateway_agents cfg) (gw_now st) org (sc_correlation ctx) p (gw_breaker st)) = Inr e"
      and recs: "map (\<lambda>r. map_of (re_annotations r) routing_execution_key) (ao_records adm) = [None, None, Some (Execution e)]"
      by (elim exE conjE)
    have "routing_execution_of adm = Inr e"
      using recs by (auto simp: routing_execution_of_def map_eq_Cons_conv split: option.split)
    moreover obtain st2 rr where r: "reflect ?env pol e req (st\<lparr>gw_breaker := b\<rparr>) = (st2, rr)" by (meson surj_pair)
    ultimately have "st' = st2"
      using assms(5) ad True by (auto simp: serve_def Let_def split: sum.splits)
    with reflect_routed [OF r] assms(3) pol iff True e show ?thesis by auto
  qed
qed

text \<open>The gateway calls only the provider it routed an admitted request to. For a request with an
object payload, whatever the ledger, the cache, the prices and the providers do, serving it keeps the
ledger's invariant and adds at most the permitted number of provider calls; a call is made only when
the principal is authorized and the payload is within the limit, and every call goes to the provider
that routing this very request over the tenant's catalogue and circuits selected.\<close>

theorem gateway_serves_safely:
  assumes "cdb_up db" "map_of (sc_attributes ctx) ''request'' = Some (JObj p)"
    and "ledger_inv (gw_ledger st)" "retry_policy_new m bk = Inr pol"
    and "serve (sql_env cttl prices ttl bcfg client sha) (sql_stages resolve limit db cfg (gw_now st)) pol
           gateway_evaluators ctx req st = (st', a)"
  shows "ledger_inv (gw_ledger st') \<and>
    (\<exists>new. gw_calls st' = gw_calls st @ new \<and> length new \<le> nat m \<and>
      (new \<noteq> [] \<longrightarrow> sr_action (authorize resolve ctx) = CONTINUE \<and> length (dumps (JObj p)) \<le> limit \<and>
        (\<exists>org e. sc_organization ctx = Some org \<and>
           fst (route (sql_provider_catalog db) (gateway_agents cfg) (gw_now st) org (sc_correlation ctx) p
             (gw_breaker st)) = Inr e \<and> calls_routed e new)))"
  using assms by (rule serves_safely)

theorem gateway_serves_safely_witness:
  "ledger_inv (gw_ledger (fst (serve (sample_env sample_client sample_prices)
     (sql_stages (\<lambda>w or. {''inference:invoke''}) 100 sample_catalog default_breaker_config (gw_now sample_gateway))
     default_retry_policy gateway_evaluators sample_context sample_request sample_gateway)))"
proof -
  have c: "cdb_up sample_catalog" by (simp add: sample_catalog_def)
  have p: "map_of (sc_attributes sample_context) ''request'' = Some (JObj [(''prompt'', JStr ''hello'')])"
    by (simp add: sample_context_def as_attributes_def required_permissions_key_def)
  have r: "retry_policy_new 3 100000 = Inr default_retry_policy"
    by (simp add: retry_policy_new_def default_retry_policy_def)
  from gateway_serves_safely [OF c p sample_gateway_inv(1) r surjective_pairing] show ?thesis
    unfolding sample_env_def by blast
qed

end
