(* ===== verification/Inference_Api.thy ===== *)
theory Inference_Api imports Health Serving begin

text \<open>
  \<open>POST /v1/inference\<close> (\<open>delivery/http/api/inference.py\<close>): the accepted body, the translation of what the
  service returns into the documented error model, and the framing of a stream as server-sent events;
  then the whole gateway, the middleware around the routes around the service. Reading the bytes of a
  body as JSON and coercing a value to a Boolean are the framework's and are arguments.
\<close>

subsection \<open>The body\<close>

record inference_body =
  ib_prompt :: string
  ib_model :: "string option"
  ib_stream :: bool

definition model_field :: "payload \<Rightarrow> string option option" where
  "model_field fs =
     (case map_of fs ''model'' of None \<Rightarrow> Some None | Some JNull \<Rightarrow> Some None | Some (JStr m) \<Rightarrow> Some (Some m)
      | _ \<Rightarrow> None)"

definition stream_field :: "(json \<Rightarrow> bool option) \<Rightarrow> payload \<Rightarrow> bool option" where
  "stream_field coerce fs = (case map_of fs ''stream'' of None \<Rightarrow> Some False | Some v \<Rightarrow> coerce v)"

definition inference_body_of :: "(json \<Rightarrow> bool option) \<Rightarrow> json \<Rightarrow> inference_body option" where
  "inference_body_of coerce v =
     (case v of
        JObj fs \<Rightarrow>
          if fst ` set fs \<subseteq> {''prompt'', ''model'', ''stream''} then
            (case (map_of fs ''prompt'', model_field fs, stream_field coerce fs) of
               (Some (JStr prompt), Some m, Some b) \<Rightarrow>
                 if prompt = [] then None else Some \<lparr>ib_prompt = prompt, ib_model = m, ib_stream = b\<rparr>
             | _ \<Rightarrow> None)
          else None
      | _ \<Rightarrow> None)"

definition inference_payload :: "inference_body \<Rightarrow> payload" where
  "inference_payload b =
     (''prompt'', JStr (ib_prompt b)) # (case ib_model b of None \<Rightarrow> [] | Some m \<Rightarrow> [(''model'', JStr m)])"

subsection \<open>The error model\<close>

definition error_body :: "string \<Rightarrow> string \<Rightarrow> string \<Rightarrow> string \<Rightarrow> bool \<Rightarrow> json" where
  "error_body typ code msg rid retryable =
     JObj [(''error'', JObj [(''type'', JStr typ), (''code'', JStr code), (''message'', JStr msg),
       (''request_id'', JStr rid), (''retryable'', JBool retryable)])]"

definition error_reply :: "nat \<Rightarrow> string \<Rightarrow> string \<Rightarrow> string \<Rightarrow> string \<Rightarrow> bool \<Rightarrow> 'b reply" where
  "error_reply status typ code msg rid retryable = json_response status (error_body typ code msg rid retryable) []"

definition translate_refusal :: "admission_outcome \<Rightarrow> string \<Rightarrow> 'b reply" where
  "translate_refusal adm rid =
     error_reply 403 ''permission_error'' ''permission_denied''
       (case ao_reason adm of None \<Rightarrow> ''request was not admitted''
        | Some r \<Rightarrow> if r = [] then ''request was not admitted'' else r) rid False"

definition provider_failed_text :: string where
  "provider_failed_text = ''The upstream provider failed to complete this request.''"

definition execution_errors :: "execution_outcome \<Rightarrow> (nat \<times> string \<times> string \<times> string \<times> bool) option" where
  "execution_errors oc =
     (case oc of
        BUDGET_DENIED \<Rightarrow> Some (402, ''budget_error'', ''budget_exceeded'',
          ''The organization's budget for this request is exhausted.'', False)
      | BUDGET_UNAVAILABLE \<Rightarrow> Some (503, ''availability_error'', ''budget_unavailable'',
          ''Budget could not be verified, so the request was not executed.'', True)
      | NOT_ROUTED \<Rightarrow> Some (503, ''availability_error'', ''no_eligible_provider'',
          ''No eligible provider is available for this request.'', True)
      | NOT_ACCOUNTABLE \<Rightarrow> Some (503, ''availability_error'', ''accounting_unavailable'',
          ''This request could not be accounted for and was not served.'', False)
      | _ \<Rightarrow> None)"

definition provider_failed :: "string \<Rightarrow> 'b reply" where
  "provider_failed rid = error_reply 502 ''provider_error'' ''provider_failed'' provider_failed_text rid True"

subsection \<open>Server-sent events\<close>

text \<open>\<open>json.dumps\<close> with its default separators.\<close>

fun dumps_plain :: "json \<Rightarrow> string" and dumps_plain_list :: "json list \<Rightarrow> string list"
  and dumps_plain_fields :: "(string \<times> json) list \<Rightarrow> string list" where
  "dumps_plain JNull = ''null''"
| "dumps_plain (JBool b) = (if b then ''true'' else ''false'')"
| "dumps_plain (JInt i) = str_int i"
| "dumps_plain (JFloat s) = s"
| "dumps_plain (JStr s) = dumps_str s"
| "dumps_plain (JList xs) = ''['' @ join '', '' (dumps_plain_list xs) @ '']''"
| "dumps_plain (JObj fs) = ''{'' @ join '', '' (dumps_plain_fields fs) @ ''}''"
| "dumps_plain_list [] = []"
| "dumps_plain_list (x # xs) = dumps_plain x # dumps_plain_list xs"
| "dumps_plain_fields [] = []"
| "dumps_plain_fields ((k, v) # fs) = (dumps_str k @ '': '' @ dumps_plain v) # dumps_plain_fields fs"

definition newline :: char where
  "newline = char_of (10 :: nat)"

definition sse :: "string \<Rightarrow> string option \<Rightarrow> string" where
  "sse content event =
     (case event of None \<Rightarrow> [] | Some e \<Rightarrow> ''event: '' @ e @ [newline]) @ ''data: '' @ content @ [newline, newline]"

definition done_sentinel :: string where
  "done_sentinel = ''[DONE]''"

definition chunk_frame :: "string \<Rightarrow> string" where
  "chunk_frame c = sse (dumps_plain (JObj [(''delta'', JStr c)])) None"

definition error_frame :: "string \<Rightarrow> string" where
  "error_frame rid =
     sse (dumps_plain (error_body ''provider_error'' ''provider_failed'' provider_failed_text rid True)) (Some ''error'')"

text \<open>Every chunk is a frame, any other event ends the stream with the error frame, and only a stream that
  ended by itself without one gets the sentinel.\<close>

fun sse_frames :: "string \<Rightarrow> stream_event list \<Rightarrow> unit res \<Rightarrow> string list" where
  "sse_frames rid [] (Inr _) = [sse done_sentinel None]"
| "sse_frames rid [] (Inl _) = []"
| "sse_frames rid (StreamChunk c # es) r = chunk_frame c # sse_frames rid es r"
| "sse_frames rid (StreamFailed err cat # es) r = [error_frame rid]"
| "sse_frames rid (StreamCompleted u # es) r = [error_frame rid]"

text \<open>A client that takes \<open>pulls\<close> frames and goes away: the generator is closed behind the last one.\<close>

definition deliver_frames :: "('l, 'c) gateway_env \<Rightarrow> stream_source \<Rightarrow> string \<Rightarrow> nat \<Rightarrow> ('l, 'c) gateway \<Rightarrow>
    ('l, 'c) gateway \<times> string list" where
  "deliver_frames env src rid pulls st =
     (case consume env src pulls st of (st', es, r) \<Rightarrow> (st', take pulls (sse_frames rid es r)))"

subsection \<open>The route\<close>

record 's service =
  sv_serve :: "stage_context \<Rightarrow> inference_request \<Rightarrow> 's \<Rightarrow> 's \<times> served_inference res"
  sv_serve_stream :: "stage_context \<Rightarrow> inference_request \<Rightarrow> 's \<Rightarrow> 's \<times> served_stream res"

type_synonym stream_body = "stream_source \<times> string"

definition inference_permission :: string where
  "inference_permission = ''inference:invoke''"

definition inference_path :: string where
  "inference_path = ''/v1/inference''"

definition sse_headers :: "(string \<times> string) list" where
  "sse_headers = [(''cache-control'', ''no-cache''), (''connection'', ''keep-alive''), (''x-accel-buffering'', ''no'')]"

definition stream_reply :: "'s service \<Rightarrow> stage_context \<Rightarrow> inference_request \<Rightarrow> string \<Rightarrow> 's \<Rightarrow> 's \<times> stream_body reply" where
  "stream_reply svc ctx req rid s =
     (case sv_serve_stream svc ctx req s of
        (s', Inl x) \<Rightarrow> (s', Failed x)
      | (s', Inr served) \<Rightarrow>
          if \<not> admitted (st_admission served) then (s', translate_refusal (st_admission served) rid)
          else (case st_session served of
              None \<Rightarrow> (s', Failed AssertionError)
            | Some session \<Rightarrow>
                (case execution_errors (ss_outcome session) of
                   Some (status, typ, code, msg, retryable) \<Rightarrow> (s', error_reply status typ code msg rid retryable)
                 | None \<Rightarrow>
                     (case ss_events session of
                        None \<Rightarrow> (s', provider_failed rid)
                      | Some src \<Rightarrow>
                          (s', Responded \<lparr>rs_status = 200,
                             rs_headers = (''content-type'', ''text/event-stream; charset=utf-8'') # sse_headers @
                               [(''x-request-id'', rid),
                                (''x-cache'', if ss_outcome session = CACHE_HIT then ''hit'' else ''miss'')],
                             rs_body = Stream_Body (src, rid)\<rparr>)))))"

definition answer_body :: "provider_response \<Rightarrow> bool \<Rightarrow> nat \<Rightarrow> string \<Rightarrow> json" where
  "answer_body resp cached attempts rid =
     JObj [(''content'', resp_content resp), (''provider'', JStr (resp_provider resp)), (''cached'', JBool cached),
       (''attempts'', JInt (int attempts)), (''request_id'', JStr rid)]"

definition unary_reply :: "'s service \<Rightarrow> stage_context \<Rightarrow> inference_request \<Rightarrow> string \<Rightarrow> 's \<Rightarrow> 's \<times> stream_body reply" where
  "unary_reply svc ctx req rid s =
     (case sv_serve svc ctx req s of
        (s', Inl x) \<Rightarrow> (s', Failed x)
      | (s', Inr served) \<Rightarrow>
          if \<not> admitted (sv_admission served) then (s', translate_refusal (sv_admission served) rid)
          else (case sv_reflection served of
              None \<Rightarrow> (s', Failed AssertionError)
            | Some rr \<Rightarrow>
                (case execution_errors (ex_outcome (rf_final rr)) of
                   Some (status, typ, code, msg, retryable) \<Rightarrow> (s', error_reply status typ code msg rid retryable)
                 | None \<Rightarrow>
                     if \<not> resp_ok (ex_response (rf_final rr)) then (s', provider_failed rid)
                     else (s', json_response 200 (answer_body (ex_response (rf_final rr))
                            (ex_outcome (rf_final rr) = CACHE_HIT) (length (rf_attempts rr)) rid) []))))"

definition inference_context :: "auth_context \<Rightarrow> string \<Rightarrow> inference_body \<Rightarrow> stage_context" where
  "inference_context c rid b =
     \<lparr>sc_correlation = rid, sc_organization = Some (ac_organization c), sc_principal = Some (ac_principal c),
      sc_attributes = as_attributes [inference_permission] (Some (''POST '' @ inference_path)) @
        [(''request'', JObj (inference_payload b))]\<rparr>"

definition infer :: "'s service \<Rightarrow> http_request \<Rightarrow> inference_body \<Rightarrow> 's \<Rightarrow> 's \<times> stream_body reply" where
  "infer svc req b s =
     (let rid = request_id_of req in
      case hr_auth req of
        None \<Rightarrow> (s, error_reply 401 ''authentication_error'' ''authentication_required''
                  ''This endpoint requires an authenticated principal.'' rid False)
      | Some c \<Rightarrow>
          (let ctx = inference_context c rid b;
               ir = \<lparr>correlation_id = rid, payload = inference_payload b\<rparr>
           in if ib_stream b then stream_reply svc ctx ir rid s else unary_reply svc ctx ir rid s))"

text \<open>
  The framework hands a route the JSON value of the body it read, or answers by itself; a body that does
  not fit the declared one is its 422, before the route runs. It also answers every other path.
\<close>

record framework =
  fw_json :: "http_request \<Rightarrow> json option"
  fw_bool :: "json \<Rightarrow> bool option"
  fw_rejects :: "http_request \<Rightarrow> stream_body reply"
  fw_other :: "http_request \<Rightarrow> stream_body reply"

definition unprocessable :: "'b reply" where
  "unprocessable = Responded \<lparr>rs_status = 422, rs_headers = [], rs_body = Framework_Body\<rparr>"

definition inference_route :: "framework \<Rightarrow> 's service \<Rightarrow> http_request \<Rightarrow> 's \<Rightarrow> 's \<times> stream_body reply" where
  "inference_route fw svc req s =
     (case fw_json fw req of
        None \<Rightarrow> (s, fw_rejects fw req)
      | Some v \<Rightarrow>
          (case inference_body_of (fw_bool fw) v of
             None \<Rightarrow> (s, unprocessable)
           | Some b \<Rightarrow> infer svc req b s))"

definition gateway_routes ::
  "framework \<Rightarrow> 's service \<Rightarrow> ('s \<Rightarrow> health_report) \<Rightarrow> (string \<Rightarrow> (nat \<times> nat) option) \<Rightarrow> key_provider \<Rightarrow>
     (stream_body, 's) http_app" where
  "gateway_routes fw svc report numbers kp req s =
     (if hr_method req = ''POST'' \<and> hr_path req = inference_path then inference_route fw svc req s
      else if hr_method req = ''GET'' then
        (case ops_route report (hr_path req) s of
           Some r \<Rightarrow> (s, r)
         | None \<Rightarrow> (case jwks_route numbers kp (hr_path req) of Some r \<Rightarrow> (s, r) | None \<Rightarrow> (s, fw_other fw req)))
      else (s, fw_other fw req))"

subsection \<open>A client reads back exactly what was streamed\<close>

text \<open>The reader a client runs: lines, the dispatch of an event at an empty line, and JSON strings.\<close>

definition quote :: char where
  "quote = char_of (34 :: nat)"

definition backslash :: char where
  "backslash = char_of (92 :: nat)"

definition unescape :: "char \<Rightarrow> char option" where
  "unescape d =
     (if d = quote \<or> d = backslash then Some d
      else if d = CHR ''b'' then Some (char_of (8 :: nat)) else if d = CHR ''t'' then Some (char_of (9 :: nat))
      else if d = CHR ''n'' then Some (char_of (10 :: nat)) else if d = CHR ''f'' then Some (char_of (12 :: nat))
      else if d = CHR ''r'' then Some (char_of (13 :: nat)) else None)"

definition push :: "char \<Rightarrow> (string \<times> string) option \<Rightarrow> (string \<times> string) option" where
  "push c r = map_option (apfst ((#) c)) r"

fun undump :: "string \<Rightarrow> (string \<times> string) option" where
  "undump [] = None"
| "undump (c # cs) =
     (if c = quote then Some ([], cs)
      else if c \<noteq> backslash then push c (undump cs)
      else case cs of
          [] \<Rightarrow> None
        | d # ds \<Rightarrow>
            if d = CHR ''u'' then
              (case ds of
                 a # b # x # y # rest \<Rightarrow>
                   (case (digit_value 16 x, digit_value 16 y) of
                      (Some i, Some j) \<Rightarrow> push (char_of (16 * i + j)) (undump rest)
                    | _ \<Rightarrow> None)
               | _ \<Rightarrow> None)
            else (case unescape d of None \<Rightarrow> None | Some e \<Rightarrow> push e (undump ds)))"

definition carriage :: char where
  "carriage = char_of (13 :: nat)"

fun lines_from :: "string \<Rightarrow> string \<Rightarrow> string list" where
  "lines_from w [] = (if w = [] then [] else [w])"
| "lines_from w (c # cs) =
     (if c = newline \<or> c = carriage then w # lines_from [] cs else lines_from (w @ [c]) cs)"

fun sse_dispatch :: "string option \<Rightarrow> string option \<Rightarrow> string list \<Rightarrow> (string option \<times> string) list" where
  "sse_dispatch e d [] = []"
| "sse_dispatch e d (l # ls) =
     (if l = [] then (case d of None \<Rightarrow> sse_dispatch None None ls | Some t \<Rightarrow> (e, t) # sse_dispatch None None ls)
      else if take 7 l = ''event: '' then sse_dispatch (Some (drop 7 l)) d ls
      else if take 6 l = ''data: '' then
        sse_dispatch e (Some (case d of None \<Rightarrow> drop 6 l | Some t \<Rightarrow> t @ newline # drop 6 l)) ls
      else sse_dispatch e d ls)"

definition sse_read :: "string \<Rightarrow> (string option \<times> string) list" where
  "sse_read text = sse_dispatch None None (lines_from [] text)"

datatype stream_item = Delta string | Stream_Error | Stream_Done

definition delta_opening :: string where
  "delta_opening = ''{'' @ dumps_str ''delta'' @ '': '' @ [quote]"

definition read_item :: "string option \<times> string \<Rightarrow> stream_item option" where
  "read_item ev =
     (if fst ev = Some ''error'' then Some Stream_Error
      else if snd ev = done_sentinel then Some Stream_Done
      else if take (length delta_opening) (snd ev) = delta_opening then
        (case undump (drop (length delta_opening) (snd ev)) of
           Some (s, rest) \<Rightarrow> if rest = ''}'' then Some (Delta s) else None
         | None \<Rightarrow> None)
      else None)"

fun stream_items :: "stream_event list \<Rightarrow> unit res \<Rightarrow> stream_item list" where
  "stream_items [] (Inr _) = [Stream_Done]"
| "stream_items [] (Inl _) = []"
| "stream_items (StreamChunk c # es) r = Delta c # stream_items es r"
| "stream_items (_ # es) r = [Stream_Error]"

lemma char_is: "c = char_of (n :: nat) \<longleftrightarrow> of_char c = n" if "n < 256"
  using that by (metis char_of_char of_char_of mod_less)

lemma special_is:
  "c = quote \<longleftrightarrow> of_char c = (34 :: nat)" "c = backslash \<longleftrightarrow> of_char c = (92 :: nat)"
  "c = newline \<longleftrightarrow> of_char c = (10 :: nat)" "c = carriage \<longleftrightarrow> of_char c = (13 :: nat)"
  by (simp_all add: quote_def backslash_def newline_def carriage_def char_is)

lemma special_codes [simp]:
  "of_char quote = (34 :: nat)" "of_char backslash = (92 :: nat)" "of_char newline = (10 :: nat)" "of_char carriage = (13 :: nat)"
  by (simp_all add: quote_def backslash_def newline_def carriage_def)

lemma undump_plain: "c \<noteq> quote \<Longrightarrow> c \<noteq> backslash \<Longrightarrow> undump (c # cs) = push c (undump cs)"
  by simp

lemma undump_escape: "d \<noteq> CHR ''u'' \<Longrightarrow> unescape d = Some e \<Longrightarrow> undump (backslash # d # ds) = push e (undump ds)"
proof -
  assume "d \<noteq> CHR ''u''" "unescape d = Some e"
  moreover have "backslash \<noteq> quote" by (simp add: backslash_def quote_def)
  ultimately show ?thesis by simp
qed

lemma undump_hex:
  "i < 16 \<Longrightarrow> j < 16 \<Longrightarrow> undump (backslash # CHR ''u'' # CHR ''0'' # CHR ''0'' # hex_digit i # hex_digit j # t) =
     push (char_of (16 * i + j)) (undump t)"
proof -
  assume "i < 16" "j < 16"
  moreover have "backslash \<noteq> quote" by (simp add: backslash_def quote_def)
  ultimately show ?thesis by (simp add: hex_digit_value)
qed

lemma undump_char: "undump (dumps_char c @ t) = push c (undump t)"
proof -
  define n :: nat where "n = of_char c"
  have n: "n < 256" by (simp add: n_def)
  have c: "c = char_of n" by (simp add: n_def)
  have esc: "undump (dumps_char c @ t) = push c (undump t)"
    if "dumps_char c = [backslash, d]" "d \<noteq> CHR ''u''" "unescape d = Some c" for d
    using undump_escape [OF that(2,3), of t] by (simp only: that(1) append_Cons append_Nil)
  have d: "unescape quote = Some quote" "unescape backslash = Some backslash"
    "unescape (CHR ''b'') = Some (char_of (8 :: nat))" "unescape (CHR ''t'') = Some (char_of (9 :: nat))"
    "unescape (CHR ''n'') = Some (char_of (10 :: nat))" "unescape (CHR ''f'') = Some (char_of (12 :: nat))"
    "unescape (CHR ''r'') = Some (char_of (13 :: nat))" "quote \<noteq> CHR ''u''" "backslash \<noteq> CHR ''u''"
    by (simp_all add: unescape_def special_is) (simp_all add: of_char_eq_iff [symmetric, where ?'a = nat] del: of_char_eq_iff)
  consider "n = 34" | "n = 92" | "n = 8" | "n = 9" | "n = 10" | "n = 12" | "n = 13"
    | "n < 32 \<or> 128 \<le> n" "n \<notin> {8, 9, 10, 12, 13, 34, 92}" | "32 \<le> n" "n < 128" "n \<notin> {34, 92}"
    by (cases "n \<in> {8, 9, 10, 12, 13, 34, 92}"; cases "n < 32 \<or> 128 \<le> n") auto
  then show ?thesis
  proof cases
    case 8
    have "n div 16 < 16" "n mod 16 < 16" using n by (simp_all add: less_mult_imp_div_less)
    from undump_hex [OF this, of t]
    have "undump (backslash # CHR ''u'' # CHR ''0'' # CHR ''0'' # hex_digit (n div 16) # hex_digit (n mod 16) # t) =
        push c (undump t)" by (simp only: mult_div_mod_eq c [symmetric])
    moreover have "dumps_char c = [backslash, CHR ''u'', CHR ''0'', CHR ''0'', hex_digit (n div 16), hex_digit (n mod 16)]"
      using 8 unfolding dumps_char_def n_def [symmetric] Let_def backslash_def by (simp split del: if_split)
    ultimately show ?thesis by (simp only: append_Cons append_Nil)
  next
    case 9
    then have "c \<noteq> quote" "c \<noteq> backslash" by (simp_all add: quote_def backslash_def char_is n_def)
    moreover have "dumps_char c = [c]" using 9 unfolding dumps_char_def n_def [symmetric] Let_def by simp
    ultimately show ?thesis by (simp only: append_Cons append_Nil undump_plain simp_thms)
  next
    case 1
    then have "c = quote" by (simp add: c quote_def backslash_def)
    moreover have "dumps_char c = [backslash, quote]"
      using 1 unfolding dumps_char_def n_def [symmetric] Let_def backslash_def by (simp add: c quote_def)
    ultimately show ?thesis using d by (intro esc [of "quote"]) simp_all
  next
    case 2
    then have "c = backslash" by (simp add: c quote_def backslash_def)
    moreover have "dumps_char c = [backslash, backslash]"
      using 2 unfolding dumps_char_def n_def [symmetric] Let_def backslash_def by (simp add: c quote_def)
    ultimately show ?thesis using d by (intro esc [of "backslash"]) simp_all
  next
    case 3
    then have "c = char_of (8 :: nat)" by (simp add: c quote_def backslash_def)
    moreover have "dumps_char c = [backslash, CHR ''b'']"
      using 3 unfolding dumps_char_def n_def [symmetric] Let_def backslash_def by (simp add: c quote_def)
    ultimately show ?thesis using d by (intro esc [of "CHR ''b''"]) simp_all
  next
    case 4
    then have "c = char_of (9 :: nat)" by (simp add: c quote_def backslash_def)
    moreover have "dumps_char c = [backslash, CHR ''t'']"
      using 4 unfolding dumps_char_def n_def [symmetric] Let_def backslash_def by (simp add: c quote_def)
    ultimately show ?thesis using d by (intro esc [of "CHR ''t''"]) simp_all
  next
    case 5
    then have "c = char_of (10 :: nat)" by (simp add: c quote_def backslash_def)
    moreover have "dumps_char c = [backslash, CHR ''n'']"
      using 5 unfolding dumps_char_def n_def [symmetric] Let_def backslash_def by (simp add: c quote_def)
    ultimately show ?thesis using d by (intro esc [of "CHR ''n''"]) simp_all
  next
    case 6
    then have "c = char_of (12 :: nat)" by (simp add: c quote_def backslash_def)
    moreover have "dumps_char c = [backslash, CHR ''f'']"
      using 6 unfolding dumps_char_def n_def [symmetric] Let_def backslash_def by (simp add: c quote_def)
    ultimately show ?thesis using d by (intro esc [of "CHR ''f''"]) simp_all
  next
    case 7
    then have "c = char_of (13 :: nat)" by (simp add: c quote_def backslash_def)
    moreover have "dumps_char c = [backslash, CHR ''r'']"
      using 7 unfolding dumps_char_def n_def [symmetric] Let_def backslash_def by (simp add: c quote_def)
    ultimately show ?thesis using d by (intro esc [of "CHR ''r''"]) simp_all
  qed
qed

lemma undump_str: "undump (concat (map dumps_char s) @ quote # t) = Some (s, t)"
  by (induction s) (simp_all add: undump_char push_def del: undump.simps(2), simp)

definition one_line :: "string \<Rightarrow> bool" where
  "one_line s \<longleftrightarrow> newline \<notin> set s \<and> carriage \<notin> set s"

lemma newline_is: "newline = c \<longleftrightarrow> of_char c = (10 :: nat)" "carriage = c \<longleftrightarrow> of_char c = (13 :: nat)"
  using char_is [of 10 c] char_is [of 13 c] by (auto simp: newline_def carriage_def)

lemma one_line_append [simp]: "one_line (a @ b) \<longleftrightarrow> one_line a \<and> one_line b"
  by (auto simp: one_line_def)

lemma one_line_Cons [simp]: "one_line (c # s) \<longleftrightarrow> (of_char c :: nat) \<notin> {10, 13} \<and> one_line s"
  by (auto simp: one_line_def newline_is)

lemma one_line_Nil [simp]: "one_line []"
  by (simp add: one_line_def)

lemma one_line_char: "one_line (dumps_char c)"
proof -
  have hex: "d < 16 \<Longrightarrow> hex_digit d \<noteq> newline \<and> hex_digit d \<noteq> carriage" for d
  proof -
    assume "d < 16"
    from digit_value_char [OF this] have "\<not> is_space (hex_digit d)" by blast
    moreover have "is_space newline" "is_space carriage" by (simp_all add: is_space_def)
    ultimately show ?thesis by metis
  qed
  have n: "(of_char c :: nat) div 16 < 16" by (intro less_mult_imp_div_less) simp
  have fixed: "backslash \<noteq> newline" "backslash \<noteq> carriage" "CHR ''b'' \<noteq> newline" "CHR ''b'' \<noteq> carriage"
    "CHR ''t'' \<noteq> newline" "CHR ''t'' \<noteq> carriage" "CHR ''n'' \<noteq> newline" "CHR ''n'' \<noteq> carriage"
    "CHR ''f'' \<noteq> newline" "CHR ''f'' \<noteq> carriage" "CHR ''r'' \<noteq> newline" "CHR ''r'' \<noteq> carriage"
    "CHR ''u'' \<noteq> newline" "CHR ''u'' \<noteq> carriage" "CHR ''0'' \<noteq> newline" "CHR ''0'' \<noteq> carriage"
    by (simp_all add: special_is)
  have c: "(of_char c :: nat) \<noteq> 10 \<Longrightarrow> c \<noteq> newline" "(of_char c :: nat) \<noteq> 13 \<Longrightarrow> c \<noteq> carriage"
    by (auto simp: newline_def carriage_def)
  show ?thesis
    using hex [OF n] hex [of "of_char c mod 16"] fixed c
    unfolding one_line_def dumps_char_def backslash_def [symmetric] Let_def
    by (simp split: if_split) fastforce
qed

lemma one_line_dumps_str: "one_line (dumps_str s)"
proof -
  have "one_line [quote]" by (simp add: quote_def)
  moreover have "one_line (concat (map dumps_char s))"
    by (induction s) (simp_all add: one_line_char)
  ultimately show ?thesis using one_line_append [of "[quote]"] by (simp add: dumps_str_def quote_def)
qed

lemma lines_from_line: "one_line v \<Longrightarrow> lines_from w (v @ newline # t) = (w @ v) # lines_from [] t"
  by (induction v arbitrary: w) (auto simp: one_line_def)

lemma sse_read_frame:
  assumes "one_line content" "case event of None \<Rightarrow> True | Some e \<Rightarrow> one_line e"
  shows "sse_read (sse content event @ t) = (event, content) # sse_read t"
proof -
  have "one_line (''data: '' @ content)" using assms(1) by simp
  from lines_from_line [OF this, of "[]"]
  have d: "lines_from [] ((''data: '' @ content) @ newline # newline # t) = (''data: '' @ content) # [] # lines_from [] t"
    by (simp only: append_Nil) simp
  show ?thesis
  proof (cases event)
    case None
    have "sse content None @ t = (''data: '' @ content) @ newline # newline # t" by (simp add: sse_def)
    then show ?thesis unfolding None sse_read_def by (simp only: d) simp
  next
    case (Some e)
    have eq: "sse content (Some e) @ t = (''event: '' @ e) @ newline # (''data: '' @ content) @ newline # newline # t"
      by (simp add: sse_def)
    have "one_line (''event: '' @ e)" using assms(2) Some by simp
    from lines_from_line [OF this, of "[]"] show ?thesis
      unfolding Some sse_read_def eq by (simp only: append_Nil d) simp
  qed
qed

lemma sse_read_Nil [simp]: "sse_read [] = []"
  by (simp add: sse_read_def)

definition item_frame :: "string \<Rightarrow> stream_item \<Rightarrow> string" where
  "item_frame rid i = (case i of Delta c \<Rightarrow> chunk_frame c | Stream_Error \<Rightarrow> error_frame rid | Stream_Done \<Rightarrow> sse done_sentinel None)"

lemma sse_frames_items: "sse_frames rid es r = map (item_frame rid) (stream_items es r)"
  by (induction rid es r rule: sse_frames.induct) (simp_all add: item_frame_def)

lemma quote_line: "one_line ''{'' " "one_line ''}''" "one_line '': ''" "one_line '', ''"
  by simp_all

lemma read_frame:
  "\<exists>ev. sse_read (item_frame rid i @ t) = ev # sse_read t \<and> read_item ev = Some i"
proof (cases i)
  case (Delta c)
  let ?content = "dumps_plain (JObj [(''delta'', JStr c)])"
  have "one_line ?content" by (simp add: one_line_dumps_str)
  then have "sse_read (item_frame rid i @ t) = (None, ?content) # sse_read t"
    using sse_read_frame [of ?content None t] Delta by (simp add: item_frame_def chunk_frame_def)
  moreover have split: "?content = delta_opening @ concat (map dumps_char c) @ quote # ''}''"
    by (simp add: delta_opening_def dumps_str_def quote_def)
  moreover have "take (length delta_opening) ?content = delta_opening"
    "drop (length delta_opening) ?content = concat (map dumps_char c) @ quote # ''}''"
    unfolding split by simp_all
  moreover have "?content \<noteq> done_sentinel" by (simp add: done_sentinel_def)
  ultimately have "sse_read (item_frame rid i @ t) = (None, ?content) # sse_read t"
    "read_item (None, ?content) = Some (Delta c)"
    unfolding read_item_def fst_conv snd_conv by (simp_all only: undump_str option.case prod.case if_True if_False option.distinct simp_thms)
  with Delta show ?thesis by blast
next
  case Stream_Error
  let ?content = "dumps_plain (error_body ''provider_error'' ''provider_failed'' provider_failed_text rid True)"
  have true: "one_line ''true''" by simp
  have "one_line ?content" by (simp add: error_body_def one_line_dumps_str)
  moreover have "one_line ''error''" by simp
  ultimately have "sse_read (item_frame rid i @ t) = (Some ''error'', ?content) # sse_read t"
    using sse_read_frame [of ?content "Some ''error''" t] Stream_Error by (simp add: item_frame_def error_frame_def)
  then show ?thesis using Stream_Error by (simp add: read_item_def)
next
  case Stream_Done
  have "one_line done_sentinel" by (simp add: done_sentinel_def)
  then have "sse_read (item_frame rid i @ t) = (None, done_sentinel) # sse_read t"
    using sse_read_frame [of done_sentinel None t] Stream_Done by (simp add: item_frame_def)
  then show ?thesis using Stream_Done by (simp add: read_item_def)
qed

lemma read_frames: "map read_item (sse_read (concat (map (item_frame rid) is))) = map Some is"
proof (induction "is")
  case (Cons i js)
  obtain ev where "sse_read (item_frame rid i @ concat (map (item_frame rid) js)) =
      ev # sse_read (concat (map (item_frame rid) js))" "read_item ev = Some i"
    using read_frame by metis
  with Cons show ?case by simp
qed simp

text \<open>C14: What a client reads is what the gateway streamed: for every sequence of events, whatever text the
  chunks hold, line ends, quotes and forged frames included, and however many frames the client takes, a
  reader of server-sent events gets exactly one item per frame, the chunks' texts in order and unchanged,
  then the end marker when the stream ended by itself, or the one error item, which is the same whatever
  the provider said, when it failed.
\<close>

theorem streamed_text_recovered:
  "map read_item (sse_read (concat (take n (sse_frames rid es r)))) = map Some (take n (stream_items es r))"
  by (simp only: sse_frames_items take_map read_frames)

subsection \<open>What a failed request may say\<close>

text \<open>The documented errors: status, type, code, message and whether a retry may help.\<close>

definition documented_errors :: "(nat \<times> string \<times> string \<times> string \<times> bool) list" where
  "documented_errors =
     [(401, ''authentication_error'', ''authentication_required'', ''This endpoint requires an authenticated principal.'', False),
      (402, ''budget_error'', ''budget_exceeded'', ''The organization's budget for this request is exhausted.'', False),
      (502, ''provider_error'', ''provider_failed'', ''The upstream provider failed to complete this request.'', True),
      (503, ''availability_error'', ''budget_unavailable'', ''Budget could not be verified, so the request was not executed.'', True),
      (503, ''availability_error'', ''no_eligible_provider'', ''No eligible provider is available for this request.'', True),
      (503, ''availability_error'', ''accounting_unavailable'', ''This request could not be accounted for and was not served.'', False)]"

definition documented_reply :: "string \<Rightarrow> 'b reply \<Rightarrow> bool" where
  "documented_reply rid rep \<longleftrightarrow>
     (\<exists>(status, typ, code, msg, retryable)\<in>set documented_errors. rep = error_reply status typ code msg rid retryable)"

lemma documentedI:
  "(status, typ, code, msg, retryable) \<in> set documented_errors \<Longrightarrow>
     documented_reply rid (error_reply status typ code msg rid retryable)"
  unfolding documented_reply_def by blast

lemma execution_error_documented:
  "execution_errors oc = Some (status, typ, code, msg, retryable) \<Longrightarrow>
     documented_reply rid (error_reply status typ code msg rid retryable)"
  by (rule documentedI) (cases oc; simp add: execution_errors_def documented_errors_def)

lemma provider_failed_documented: "documented_reply rid (provider_failed rid)"
  unfolding provider_failed_def by (rule documentedI) (simp add: documented_errors_def provider_failed_text_def)

lemma unary_reply_cases:
  assumes "unary_reply svc ctx ir rid s = (s', rep)"
  obtains (raised) x where "sv_serve svc ctx ir s = (s', Inl x)" "rep = Failed x"
  | (odd) served where "sv_serve svc ctx ir s = (s', Inr served)" "admitted (sv_admission served)"
      "sv_reflection served = None" "rep = Failed AssertionError"
  | (refused) served where "sv_serve svc ctx ir s = (s', Inr served)" "\<not> admitted (sv_admission served)"
      "rep = translate_refusal (sv_admission served) rid"
  | (failed) served where "sv_serve svc ctx ir s = (s', Inr served)" "admitted (sv_admission served)" "documented_reply rid rep"
  | (answered) served rr where "sv_serve svc ctx ir s = (s', Inr served)" "admitted (sv_admission served)"
      "sv_reflection served = Some rr" "ex_outcome (rf_final rr) \<in> {EXECUTED, CACHE_HIT}" "resp_ok (ex_response (rf_final rr))"
      "rep = json_response 200 (answer_body (ex_response (rf_final rr)) (ex_outcome (rf_final rr) = CACHE_HIT)
         (length (rf_attempts rr)) rid) []"
proof (cases "sv_serve svc ctx ir s")
  case (Pair s1 a)
  show ?thesis
  proof (cases a)
    case (Inl x)
    with Pair assms raised show ?thesis by (simp add: unary_reply_def)
  next
    case (Inr served)
    show ?thesis
    proof (cases "sv_reflection served")
      case None
      with Pair Inr assms refused odd show ?thesis by (cases "admitted (sv_admission served)") (auto simp: unary_reply_def)
    next
      case (Some rr)
      consider "\<not> admitted (sv_admission served)"
        | e where "admitted (sv_admission served)" "execution_errors (ex_outcome (rf_final rr)) = Some e"
        | "admitted (sv_admission served)" "execution_errors (ex_outcome (rf_final rr)) = None" "\<not> resp_ok (ex_response (rf_final rr))"
        | "admitted (sv_admission served)" "execution_errors (ex_outcome (rf_final rr)) = None" "resp_ok (ex_response (rf_final rr))"
        by (cases "execution_errors (ex_outcome (rf_final rr))") blast+
      then show ?thesis
      proof cases
        case 1
        with Pair Inr assms refused show ?thesis by (auto simp: unary_reply_def)
      next
        case (2 e)
        obtain st k code msg b where e: "e = (st, k, code, msg, b)" by (cases e)
        with Pair Inr Some assms failed execution_error_documented [OF 2(2) [unfolded e], of rid] 2 show ?thesis by (auto simp: unary_reply_def)
      next
        case 3
        with Pair Inr Some assms failed provider_failed_documented [of rid] show ?thesis by (auto simp: unary_reply_def)
      next
        case 4
        then have "ex_outcome (rf_final rr) \<in> {EXECUTED, CACHE_HIT}"
          by (cases "ex_outcome (rf_final rr)") (simp_all add: execution_errors_def)
        with 4 Pair Inr Some assms answered show ?thesis by (auto simp: unary_reply_def)
      qed
    qed
  qed
qed

lemma stream_reply_cases:
  assumes "stream_reply svc ctx ir rid s = (s', rep)"
  obtains (raised) x where "sv_serve_stream svc ctx ir s = (s', Inl x)" "rep = Failed x"
  | (odd) served where "sv_serve_stream svc ctx ir s = (s', Inr served)" "admitted (st_admission served)"
      "st_session served = None" "rep = Failed AssertionError"
  | (refused) served where "sv_serve_stream svc ctx ir s = (s', Inr served)" "\<not> admitted (st_admission served)"
      "rep = translate_refusal (st_admission served) rid"
  | (failed) served where "sv_serve_stream svc ctx ir s = (s', Inr served)" "admitted (st_admission served)" "documented_reply rid rep"
  | (streaming) served session src where "sv_serve_stream svc ctx ir s = (s', Inr served)" "admitted (st_admission served)"
      "st_session served = Some session" "ss_events session = Some src" "ss_outcome session \<in> {EXECUTED, CACHE_HIT}"
      "\<exists>hs. rep = Responded \<lparr>rs_status = 200, rs_headers = hs, rs_body = Stream_Body (src, rid)\<rparr>"
proof (cases "sv_serve_stream svc ctx ir s")
  case (Pair s1 a)
  show ?thesis
  proof (cases a)
    case (Inl x)
    with Pair assms raised show ?thesis by (simp add: stream_reply_def)
  next
    case (Inr served)
    show ?thesis
    proof (cases "st_session served")
      case None
      with Pair Inr assms refused odd show ?thesis by (cases "admitted (st_admission served)") (auto simp: stream_reply_def)
    next
      case (Some session)
      consider "\<not> admitted (st_admission served)"
        | e where "admitted (st_admission served)" "execution_errors (ss_outcome session) = Some e"
        | "admitted (st_admission served)" "execution_errors (ss_outcome session) = None" "ss_events session = None"
        | src where "admitted (st_admission served)" "execution_errors (ss_outcome session) = None" "ss_events session = Some src"
        by (cases "execution_errors (ss_outcome session)"; cases "ss_events session") blast+
      then show ?thesis
      proof cases
        case 1
        with Pair Inr assms refused show ?thesis by (auto simp: stream_reply_def)
      next
        case (2 e)
        obtain st k code msg b where e: "e = (st, k, code, msg, b)" by (cases e)
        with Pair Inr Some assms failed execution_error_documented [OF 2(2) [unfolded e], of rid] 2 show ?thesis by (auto simp: stream_reply_def)
      next
        case 3
        with Pair Inr Some assms failed provider_failed_documented [of rid] show ?thesis by (auto simp: stream_reply_def)
      next
        case (4 src)
        then have "ss_outcome session \<in> {EXECUTED, CACHE_HIT}"
          by (cases "ss_outcome session") (simp_all add: execution_errors_def)
        with 4 Pair Inr Some assms streaming show ?thesis by (auto simp: stream_reply_def)
      qed
    qed
  qed
qed



subsection \<open>The whole gateway\<close>

record ('l, 'c, 'r, 'a) world =
  wd_gateway :: "('l, 'c) gateway"
  wd_limiter :: 'r
  wd_audit :: 'a

definition on_gateway :: "(('l, 'c) gateway \<Rightarrow> ('l, 'c) gateway \<times> 'x) \<Rightarrow> ('l, 'c, 'r, 'a) world \<Rightarrow> ('l, 'c, 'r, 'a) world \<times> 'x" where
  "on_gateway f w = (case f (wd_gateway w) of (g, x) \<Rightarrow> (w\<lparr>wd_gateway := g\<rparr>, x))"

definition world_limiter :: "(uuid \<Rightarrow> 'r \<Rightarrow> 'r \<times> rate_limit_decision res) \<Rightarrow> ('l, 'c, 'r, 'a) world rate_layer" where
  "world_limiter acquire org w = (case acquire org (wd_limiter w) of (r, d) \<Rightarrow> (w\<lparr>wd_limiter := r\<rparr>, d))"

definition world_auth :: "(string \<Rightarrow> auth_principal res) \<Rightarrow> (auth_event \<Rightarrow> 'a \<Rightarrow> 'a \<times> unit res) \<Rightarrow> ('l, 'c, 'r, 'a) world auth_layer" where
  "world_auth verify audit =
     \<lparr>al_authenticate = verify, al_audit = (\<lambda>e w. case audit e (wd_audit w) of (a, r) \<Rightarrow> (w\<lparr>wd_audit := a\<rparr>, r))\<rparr>"

definition gateway_service ::
  "('l, 'c) gateway_env \<Rightarrow> stream_client \<Rightarrow> (instant \<Rightarrow> breaker stage list) \<Rightarrow> retry_policy \<Rightarrow> ('l, 'c, 'r, 'a) world service" where
  "gateway_service env client stages pol =
     \<lparr>sv_serve = (\<lambda>ctx ir. on_gateway (\<lambda>st. serve env (stages (gw_now st)) pol gateway_evaluators ctx ir st)),
      sv_serve_stream = (\<lambda>ctx ir. on_gateway (\<lambda>st. serve_stream env client (stages (gw_now st)) ctx ir st))\<rparr>"

definition gateway_http ::
  "int \<Rightarrow> (string \<Rightarrow> auth_principal res) \<Rightarrow> (auth_event \<Rightarrow> 'a \<Rightarrow> 'a \<times> unit res) \<Rightarrow> (uuid \<Rightarrow> 'r \<Rightarrow> 'r \<times> rate_limit_decision res) \<Rightarrow>
     framework \<Rightarrow> ('l, 'c, 'r, 'a) world service \<Rightarrow> (('l, 'c, 'r, 'a) world \<Rightarrow> health_report) \<Rightarrow> (string \<Rightarrow> (nat \<times> nat) option) \<Rightarrow>
     key_provider \<Rightarrow> string \<Rightarrow> (stream_body, ('l, 'c, 'r, 'a) world) http_app" where
  "gateway_http cap verify audit acquire fw svc report numbers kp fresh =
     http_app \<lparr>hc_limiter = Some (world_limiter acquire), hc_auth = Some (world_auth verify audit), hc_max_bytes = Some cap\<rparr>
       fresh (gateway_routes fw svc report numbers kp)"

lemma size_limit_elim:
  assumes "size_limit cap app req s = (s', rep)" "1 \<le> cap"
  obtains (kept) "s' = s" | (passed) "fits cap req" "app req s = (s', rep)"
  using assms size_limit_cases [OF assms(2), of req app s] by (cases "fits cap req"; cases "oversized cap req") auto

lemma authentication_elim:
  assumes "authentication a app req s = (s', rep)"
  obtains (anonymous) "header req ''authorization'' = None" "app req s = (s', rep)"
  | (stopped) "s' = s"
  | (audited) e r where "al_audit a e s = (s', r)"
  | (passed) h p e s1 m where "header req ''authorization'' = Some h" "take 7 h = bearer" "al_authenticate a (presented h) = Inr p"
      "al_audit a e s = (s1, Inr ())" "app (req\<lparr>hr_auth := Some (context_of p m)\<rparr>) s1 = (s', rep)"
proof (cases "header req ''authorization''")
  case None
  with assms anonymous show ?thesis by (simp add: authentication_def)
next
  case (Some h)
  have un: "thesis" if "unauthorized a req d msg ov s = (s', rep)" for d msg ov
    using that audited by (auto simp: unauthorized_def Let_def split: prod.splits sum.splits)
  show ?thesis
  proof (cases "take 7 h = bearer")
    case False
    with assms Some show ?thesis by (auto simp: authentication_def intro: un)
  next
    case True
    show ?thesis
    proof (cases "al_authenticate a (presented h)")
      case (Inl x)
      with assms Some True stopped show ?thesis
        by (auto simp: authentication_def presented_def Let_def split: if_splits intro: un)
    next
      case (Inr p)
      obtain s1 r where "al_audit a (authenticated_event (context_of p (method_for_principal p (method_for (presented h))))) s = (s1, r)"
        by fastforce
      with assms Some True Inr audited passed show ?thesis
        by (cases r) (auto simp: authentication_def presented_def Let_def)
    qed
  qed
qed

lemma rate_limit_elim:
  assumes "rate_limit l app req s = (s', rep)"
  obtains (anonymous) "hr_auth req = None" "app req s = (s', rep)"
  | (refused) c d where "hr_auth req = Some c" "l (ac_organization c) s = (s', d)"
  | (passed) c d s1 rep1 where "hr_auth req = Some c" "l (ac_organization c) s = (s1, Inr d)" "rl_allowed d" "app req s1 = (s', rep1)"
proof (cases "hr_auth req")
  case None
  with assms anonymous show ?thesis by (simp add: rate_limit_def)
next
  case (Some c)
  obtain s1 r where l: "l (ac_organization c) s = (s1, r)" by fastforce
  show ?thesis
  proof (cases r)
    case (Inl x)
    with assms Some l refused show ?thesis by (auto simp: rate_limit_def split: if_splits)
  next
    case (Inr d)
    obtain s2 rep1 where "app req s1 = (s2, rep1)" by fastforce
    with assms Some l Inr refused passed show ?thesis
      by (cases "rl_allowed d") (auto simp: rate_limit_def split: option.splits)
  qed
qed

lemma infer_elim:
  assumes "infer svc req b s = (s', rep)"
  obtains (anonymous) "s' = s" "hr_auth req = None"
  | (unary) c a where "hr_auth req = Some c" "\<not> ib_stream b"
      "sv_serve svc (inference_context c (request_id_of req) b)
         \<lparr>correlation_id = request_id_of req, payload = inference_payload b\<rparr> s = (s', a)"
  | (streamed) c a where "hr_auth req = Some c" "ib_stream b"
      "sv_serve_stream svc (inference_context c (request_id_of req) b)
         \<lparr>correlation_id = request_id_of req, payload = inference_payload b\<rparr> s = (s', a)"
proof (cases "hr_auth req")
  case None
  with assms anonymous show ?thesis by (simp add: infer_def Let_def)
next
  case (Some c)
  show ?thesis
  proof (cases "ib_stream b")
    case True
    with Some assms have "stream_reply svc (inference_context c (request_id_of req) b)
        \<lparr>correlation_id = request_id_of req, payload = inference_payload b\<rparr> (request_id_of req) s = (s', rep)"
      by (simp add: infer_def Let_def)
    then show ?thesis by (cases rule: stream_reply_cases) (use Some True streamed in blast)+
  next
    case False
    with Some assms have "unary_reply svc (inference_context c (request_id_of req) b)
        \<lparr>correlation_id = request_id_of req, payload = inference_payload b\<rparr> (request_id_of req) s = (s', rep)"
      by (simp add: infer_def Let_def)
    then show ?thesis by (cases rule: unary_reply_cases) (use Some False unary in blast)+
  qed
qed

lemma gateway_routes_elim:
  assumes "gateway_routes fw svc report numbers kp req s = (s', rep)"
  obtains (kept) "s' = s"
  | (inference) v b where "hr_method req = ''POST''" "hr_path req = inference_path" "fw_json fw req = Some v"
      "inference_body_of (fw_bool fw) v = Some b" "infer svc req b s = (s', rep)"
  using assms by (auto simp: gateway_routes_def inference_route_def split: if_splits option.splits)

lemma on_gateway_elim:
  assumes "on_gateway f w = (w', x)"
  shows "f (wd_gateway w) = (wd_gateway w', x)"
  using assms by (auto simp: on_gateway_def split: prod.splits)

text \<open>What a request must have shown for the gateway behind the edge to move.\<close>

definition entitled ::
  "int \<Rightarrow> (string \<Rightarrow> auth_principal res) \<Rightarrow> (uuid \<Rightarrow> 'r \<Rightarrow> 'r \<times> rate_limit_decision res) \<Rightarrow> framework \<Rightarrow> string \<Rightarrow>
     http_request \<Rightarrow> 'r \<Rightarrow> auth_principal \<Rightarrow> inference_body \<Rightarrow> bool" where
  "entitled cap verify acquire fw fresh req rest p b \<longleftrightarrow>
     (\<exists>h d rest'. fits cap req \<and> header req ''authorization'' = Some h \<and> take 7 h = bearer \<and>
        verify (presented h) = Inr p \<and> acquire (auth_principal.pr_organization p) rest = (rest', Inr d) \<and> rl_allowed d) \<and>
     hr_method req = ''POST'' \<and> hr_path req = inference_path \<and>
     (\<exists>v m. fw_json fw ((identified fresh req)\<lparr>hr_auth := Some (context_of p m)\<rparr>) = Some v \<and>
        inference_body_of (fw_bool fw) v = Some b)"

lemma gateway_http_elim:
  assumes "gateway_http cap verify audit acquire fw (gateway_service env client stages pol) report numbers kp fresh req w = (w', rep)"
    and "1 \<le> cap" "hr_auth req = None"
  obtains (idle) "wd_gateway w' = wd_gateway w"
  | (served) p b m where "entitled cap verify acquire fw fresh req (wd_limiter w) p b"
      "(if ib_stream b
        then (\<exists>x. serve_stream env client (stages (gw_now (wd_gateway w))) (inference_context (context_of p m) (context_id fresh req) b)
                \<lparr>correlation_id = context_id fresh req, payload = inference_payload b\<rparr> (wd_gateway w) = (wd_gateway w', x))
        else (\<exists>x. serve env (stages (gw_now (wd_gateway w))) pol gateway_evaluators
                (inference_context (context_of p m) (context_id fresh req) b)
                \<lparr>correlation_id = context_id fresh req, payload = inference_payload b\<rparr> (wd_gateway w) = (wd_gateway w', x)))"
proof -
  let ?svc = "gateway_service env client stages pol" and ?req = "identified fresh req"
  let ?routes = "gateway_routes fw ?svc report numbers kp"
  let ?auth = "world_auth verify audit" and ?rest = "world_limiter acquire"
  have acts: "wd_gateway (fst (al_audit ?auth e u)) = wd_gateway u" "wd_limiter (fst (al_audit ?auth e u)) = wd_limiter u"
    "wd_gateway (fst (?rest c u)) = wd_gateway u"
    for e u c
    by (auto simp: world_auth_def world_limiter_def split: prod.split)
  obtain rep1 where "size_limit cap (authentication ?auth (rate_limit ?rest ?routes)) ?req w = (w', rep1)"
    using assms(1) by (auto simp: gateway_http_def http_app_def request_context_eq identified_def split: prod.splits)
  then show ?thesis
    using assms(2)
  proof (cases rule: size_limit_elim)
    case kept
    with idle show ?thesis by simp
  next
    case passed
    have fit: "fits cap req" using passed(1) by (simp add: fits_def identified_def cong: option.case_cong)
    have still: "wd_gateway v' = wd_gateway v"
      if "rate_limit ?rest ?routes r v = (v', rp)" "hr_auth r = None" for r v v' rp
      using that(1)
    proof (cases rule: rate_limit_elim)
      case anonymous
      from anonymous(2) show ?thesis
        by (cases rule: gateway_routes_elim) (auto elim: infer_elim simp: that(2))
    qed (simp_all add: that(2))
    from passed(2) show ?thesis
    proof (cases rule: authentication_elim)
      case anonymous
      have "hr_auth ?req = None" using assms(3) by (simp add: identified_def)
      from still [OF anonymous(2) this] idle show ?thesis by simp
    next
      case stopped
      with idle show ?thesis by simp
    next
      case (audited e r)
      with acts(1) [of e w] idle show ?thesis by simp
    next
      case (passed h p e s1 m)
      have s1: "wd_gateway s1 = wd_gateway w" "wd_limiter s1 = wd_limiter w" using acts(1,2) [of e w] passed(4) by simp_all
      let ?r = "?req\<lparr>hr_auth := Some (context_of p m)\<rparr>"
      from passed(5) show ?thesis
      proof (cases rule: rate_limit_elim)
        case anonymous
        then show ?thesis by simp
      next
        case (refused c d)
        with acts(3) [of "ac_organization c" s1] s1 idle show ?thesis by simp
      next
        case (passed c d s2 rep2)
        have s2: "wd_gateway s2 = wd_gateway w" using acts(3) [of "ac_organization c" s1] passed(2) s1 by simp
        have org: "ac_organization c = auth_principal.pr_organization p" using passed(1) by (auto simp: context_of_def)
        obtain rest where rest: "acquire (auth_principal.pr_organization p) (wd_limiter w) = (rest, Inr d)"
          using passed(2) s1 org by (auto simp: world_limiter_def split: prod.splits)
        from passed(4) show ?thesis
        proof (cases rule: gateway_routes_elim)
          case kept
          with s2 idle show ?thesis by simp
        next
          case (inference v b)
          have ent: "entitled cap verify acquire fw fresh req (wd_limiter w) p b"
            unfolding entitled_def
          proof (intro conjI exI)
            show "fits cap req" by (rule fit)
            show "header req ''authorization'' = Some h" using \<open>header ?req ''authorization'' = Some h\<close> by simp
            show "take 7 h = bearer" by fact
            show "verify (presented h) = Inr p"
              using \<open>al_authenticate ?auth (presented h) = Inr p\<close> by (simp add: world_auth_def)
            show "acquire (auth_principal.pr_organization p) (wd_limiter w) = (rest, Inr d)" by (rule rest)
            show "rl_allowed d" by fact
            show "hr_method req = ''POST''" "hr_path req = inference_path" using inference(1,2) by (simp_all add: identified_def)
            show "fw_json fw ?r = Some v" "inference_body_of (fw_bool fw) v = Some b" by fact+
          qed
          have rid: "request_id_of ?r = context_id fresh req" by (simp add: request_id_of_def identified_def)
          from inference(5) show ?thesis
          proof (cases rule: infer_elim)
            case anonymous
            then show ?thesis by simp
          next
            case (unary c2 a)
            with served [OF ent, of m] rid s2 show ?thesis by (auto simp: gateway_service_def dest!: on_gateway_elim)
          next
            case (streamed c2 a)
            with served [OF ent, of m] rid s2 show ?thesis by (auto simp: gateway_service_def dest!: on_gateway_elim)
          qed
        qed
      qed
    qed
  qed
qed

subsection \<open>An opened stream\<close>

lemma stream_release_inv:
  assumes "stream_release (sql_env cttl prices ttl bcfg client sha) org cid st = (st', a)" "ledger_inv (gw_ledger st)"
  shows "ledger_inv (gw_ledger st') \<and> gw_calls st' = gw_calls st"
  using assms sql.wf_release [of "gw_ledger st" org cid "gw_now st"]
  by (auto simp: stream_release_def service_release_def split: prod.splits sum.splits)

lemma observe_stream_kept [simp]:
  "gw_ledger (observe_stream env org p ok cat st) = gw_ledger st"
  "gw_calls (observe_stream env org p ok cat st) = gw_calls st"
  by (simp_all add: observe_stream_def)

lemma fail_before_output_inv:
  assumes "fail_before_output (sql_env cttl prices ttl bcfg client sha) org p cid err cat st = (st', a)" "ledger_inv (gw_ledger st)"
  shows "ledger_inv (gw_ledger st') \<and> gw_calls st' = gw_calls st"
proof -
  let ?env = "sql_env cttl prices ttl bcfg client sha"
  obtain st1 b where r: "stream_release ?env org cid (observe_stream ?env org p False cat st) = (st1, b)" by fastforce
  with assms(1) have "st' = st1" by (cases b) (auto simp: fail_before_output_def)
  with stream_release_inv [OF r] assms(2) show ?thesis by simp
qed

lemma stream_reserved_inv:
  assumes "stream_reserved (sql_env cttl prices ttl bcfg client sha) sc org p req key st = (st', a)" "ledger_inv (gw_ledger st)"
  shows "ledger_inv (gw_ledger st') \<and> gw_calls st' = gw_calls st"
proof -
  obtain st1 ev where f: "first_event (sc (gw_now st) p req) st = (st1, ev)" by fastforce
  have k: "gw_ledger st1 = gw_ledger st" "gw_calls st1 = gw_calls st"
    using f by (auto simp: first_event_def split: list.splits)
  show ?thesis
  proof (cases "\<exists>err cat. fail_before_output (sql_env cttl prices ttl bcfg client sha) org p (correlation_id req) err cat st1 = (st', a)")
    case True
    then show ?thesis using k assms(2) fail_before_output_inv by metis
  next
    case False
    with assms(1) f k assms(2) show ?thesis
      by (cases ev) (auto simp: stream_reserved_def split: stream_event.splits)
  qed
qed

lemma stream_open_inv:
  assumes "stream_open (sql_env cttl prices ttl bcfg client sha) sc e req st = (st', a)" "ledger_inv (gw_ledger st)"
  shows "ledger_inv (gw_ledger st') \<and> gw_calls st' = gw_calls st"
proof -
  let ?env = "sql_env cttl prices ttl bcfg client sha" and ?org = "rd_organization (re_decision e)"
  show ?thesis
  proof (cases "routed e \<and> re_provider e \<noteq> None")
    case False
    with assms show ?thesis by (auto simp: stream_open_def split: if_splits option.splits)
  next
    case True
    then obtain p where p: "routed e" "re_provider e = Some p" by blast
    show ?thesis
    proof (cases "compute_cache_key sha ?org (prov_name p) (prov_model p) (payload req)")
      case (Inl x)
      with p assms show ?thesis by (simp add: stream_open_def Let_def)
    next
      case (Inr key)
      obtain st1 r where rp: "stream_replayable ?env ?org key st = (st1, r)" by fastforce
      from stream_replayable_state [OF rp] obtain c where "safe_get ?env ?org key st = (st1, c)" by blast
      note g = safe_get_state [OF this]
      obtain l q where res: "service_reserve sql_ledger_port (prices (gw_now st1)) ttl ?org p req (gw_now st1) (gw_ledger st1) = (l, q)"
        by fastforce
      have l: "ledger_inv l" using sql.service_reserve_wf [of "gw_ledger st1"] res g assms(2) by (metis fst_conv)
      show ?thesis
      proof (cases "r = Inr None \<and> (\<exists>t. q = Inr t \<and> permitted t)")
        case False
        with p Inr rp res assms g l show ?thesis
          by (cases r; cases q) (auto simp: stream_open_def Let_def split: option.splits if_splits)
      next
        case True
        with p Inr rp res assms(1) have "stream_reserved ?env sc ?org p req key (st1\<lparr>gw_ledger := l\<rparr>) = (st', a)"
          by (auto simp: stream_open_def Let_def)
        from stream_reserved_inv [OF this] l g show ?thesis by simp
      qed
    qed
  qed
qed

lemma serve_stream_inv:
  assumes "serve_stream (sql_env cttl prices ttl bcfg client sha) sc stages ctx req st = (st', a)" "ledger_inv (gw_ledger st)"
  shows "ledger_inv (gw_ledger st') \<and> gw_calls st' = gw_calls st"
proof -
  let ?env = "sql_env cttl prices ttl bcfg client sha"
  obtain ad b where ad: "admit stages ctx (gw_breaker st) = (ad, b)" by fastforce
  show ?thesis
  proof (cases "\<exists>adm e. ad = Inr adm \<and> admitted adm \<and> routing_execution_of adm = Inr e")
    case False
    with assms ad show ?thesis by (cases ad) (auto simp: serve_stream_def Let_def split: sum.splits if_splits)
  next
    case True
    then obtain adm e where e: "ad = Inr adm" "admitted adm" "routing_execution_of adm = Inr e" by blast
    obtain st2 s where o: "stream_open ?env sc e req (st\<lparr>gw_breaker := b\<rparr>) = (st2, s)" by fastforce
    with assms(1) ad e have "st' = st2" by (cases s) (auto simp: serve_stream_def Let_def)
    with stream_open_inv [OF o] assms(2) show ?thesis by simp
  qed
qed

subsection \<open>The gateway, end to end\<close>

text \<open>The provider calls a request may cause: none, unless it was entitled, not a stream, within the
  payload limit and authorized by the policy, and then only to the provider routing selected.\<close>

definition calls_justified ::
  "(auth_principal \<Rightarrow> inference_body \<Rightarrow> bool) \<Rightarrow> resolver \<Rightarrow> nat \<Rightarrow> catalog_db \<Rightarrow> breaker_config \<Rightarrow> instant \<Rightarrow> string \<Rightarrow> breaker \<Rightarrow>
     provider_call list \<Rightarrow> bool" where
  "calls_justified granted resolve limit db cfg now rid br new \<longleftrightarrow>
     new = [] \<or>
     (\<exists>p m b e. granted p b \<and> \<not> ib_stream b \<and> length (dumps (JObj (inference_payload b))) \<le> limit \<and>
        sr_action (authorize resolve (inference_context (context_of p m) rid b)) = CONTINUE \<and>
        fst (route (sql_provider_catalog db) (gateway_agents cfg) now (auth_principal.pr_organization p) rid
          (inference_payload b) br) = Inr e \<and> calls_routed e new)"

lemma inference_context_simps:
  "map_of (sc_attributes (inference_context c rid b)) ''request'' = Some (JObj (inference_payload b))"
  "sc_organization (inference_context (context_of p m) rid b) = Some (auth_principal.pr_organization p)"
  "sc_correlation (inference_context c rid b) = rid"
  by (simp_all add: inference_context_def as_attributes_def required_permissions_key_def resource_key_def context_of_def)

lemma gateway_http_safe:
  assumes "cdb_up db" "ledger_inv (gw_ledger (wd_gateway w))" "retry_policy_new m bk = Inr pol" "1 \<le> cap" "hr_auth req = None"
    and "gateway_http cap verify audit acquire fw
           (gateway_service (sql_env cttl prices ttl bcfg client sha) sc (\<lambda>now. sql_stages resolve limit db cfg now) pol)
           report numbers kp fresh req w = (w', rep)"
  shows "ledger_inv (gw_ledger (wd_gateway w')) \<and>
    (\<exists>new. gw_calls (wd_gateway w') = gw_calls (wd_gateway w) @ new \<and> length new \<le> nat m \<and>
       calls_justified (entitled cap verify acquire fw fresh req (wd_limiter w)) resolve limit db cfg
         (gw_now (wd_gateway w)) (context_id fresh req) (gw_breaker (wd_gateway w)) new)"
  using assms(6,4,5)
proof (cases rule: gateway_http_elim)
  case idle
  with assms(2) show ?thesis by (simp add: calls_justified_def)
next
  case (served p b k)
  let ?ctx = "inference_context (context_of p k) (context_id fresh req) b"
    and ?ir = "\<lparr>correlation_id = context_id fresh req, payload = inference_payload b\<rparr>"
  show ?thesis
  proof (cases "ib_stream b")
    case True
    with served(2) obtain x where "serve_stream (sql_env cttl prices ttl bcfg client sha) sc
        (sql_stages resolve limit db cfg (gw_now (wd_gateway w))) ?ctx ?ir (wd_gateway w) = (wd_gateway w', x)" by auto
    from serve_stream_inv [OF this assms(2)] show ?thesis by (simp add: calls_justified_def)
  next
    case False
    with served(2) obtain x where "serve (sql_env cttl prices ttl bcfg client sha)
        (sql_stages resolve limit db cfg (gw_now (wd_gateway w))) pol gateway_evaluators ?ctx ?ir (wd_gateway w) = (wd_gateway w', x)"
      by auto
    from serves_safely [OF assms(1) inference_context_simps(1) assms(2,3) this]
    obtain new where "ledger_inv (gw_ledger (wd_gateway w'))" "gw_calls (wd_gateway w') = gw_calls (wd_gateway w) @ new"
      "length new \<le> nat m"
      "new \<noteq> [] \<longrightarrow> sr_action (authorize resolve ?ctx) = CONTINUE \<and> length (dumps (JObj (inference_payload b))) \<le> limit \<and>
        (\<exists>e. fst (route (sql_provider_catalog db) (gateway_agents cfg) (gw_now (wd_gateway w))
           (auth_principal.pr_organization p) (context_id fresh req) (inference_payload b) (gw_breaker (wd_gateway w))) = Inr e \<and>
           calls_routed e new)"
      by (auto simp: inference_context_simps)
    with served(1) False show ?thesis unfolding calls_justified_def by blast
  qed
qed

text \<open>C1: A provider is called only for an entitled, authorized request, and only the provider routing chose.
Over the whole edge and the gateway behind it, for every request, every verifier, limiter, audit sink and
provider: handling one request keeps the ledger's invariant and makes at most the permitted number of
(non-streaming) provider calls; calls happen only for a request that fits the body cap, presented a bearer
credential the verifier accepted as \<open>p\<close>, was granted by \<open>p\<close>'s tenant's limiter, posted a body the endpoint's
schema accepts, passed the policy on the permission of the endpoint and the prompt limit, and every one of
them goes to the provider that routing over \<open>p\<close>'s own tenant selected. A streamed request makes none of
these calls: it opens the provider's stream instead, and that keeps the ledger's invariant too.\<close>

theorem providers_called_for_entitled:
  assumes "cdb_up db" "ledger_inv (gw_ledger (wd_gateway w))" "retry_policy_new m bk = Inr pol" "1 \<le> cap" "hr_auth req = None"
    and "gateway_http cap verify audit acquire fw
           (gateway_service (sql_env cttl prices ttl bcfg client sha) sc (\<lambda>now. sql_stages resolve limit db cfg now) pol)
           report numbers kp fresh req w = (w', rep)"
  shows "ledger_inv (gw_ledger (wd_gateway w')) \<and>
    (\<exists>new. gw_calls (wd_gateway w') = gw_calls (wd_gateway w) @ new \<and> length new \<le> nat m \<and>
       calls_justified (entitled cap verify acquire fw fresh req (wd_limiter w)) resolve limit db cfg
         (gw_now (wd_gateway w)) (context_id fresh req) (gw_breaker (wd_gateway w)) new)"
  using assms by (rule gateway_http_safe)

definition sample_world :: "(ledger_db, cache_db, rate_limit_decision res list, auth_event list) world" where
  "sample_world = \<lparr>wd_gateway = sample_gateway, wd_limiter = [Inr sample_allow], wd_audit = []\<rparr>"

definition sample_framework :: framework where
  "sample_framework = \<lparr>fw_json = (\<lambda>r. Some (JObj [(''prompt'', JStr ''hello'')])), fw_bool = (\<lambda>v. None),
     fw_rejects = (\<lambda>r. unprocessable), fw_other = (\<lambda>r. unprocessable)\<rparr>"

definition sample_verify :: "string \<Rightarrow> auth_principal res" where
  "sample_verify t = (if t = ''t'' then Inr \<lparr>pr_type = USER, pr_subject = 9, pr_organization = 7, pr_scopes = []\<rparr>
     else Inl TokenInvalidError)"

definition sample_gateway_http ::
  "http_request \<Rightarrow> (ledger_db, cache_db, rate_limit_decision res list, auth_event list) world \<Rightarrow>
     (ledger_db, cache_db, rate_limit_decision res list, auth_event list) world \<times> stream_body reply" where
  "sample_gateway_http =
     gateway_http 5 sample_verify (\<lambda>e l. (l @ [e], Inr ())) (\<lambda>org ds. (tl ds, hd ds)) sample_framework
       (gateway_service (sample_env sample_client sample_prices) sample_stream
          (\<lambda>now. sql_stages (\<lambda>w or. {inference_permission}) 100 sample_catalog default_breaker_config now)
          default_retry_policy)
       (\<lambda>w. \<lparr>hp_status = Health_Ok, hp_version = [], hp_checked = [], hp_components = []\<rparr>) (\<lambda>k. None) sample_keys ''req_1''"

definition sample_arrival :: http_request where
  "sample_arrival = sample_post [(''content-length'', ''2''), (''authorization'', ''Bearer t'')] []"

theorem providers_called_for_entitled_witness:
  "\<exists>new. gw_calls (wd_gateway (fst (sample_gateway_http sample_arrival sample_world))) = new \<and> length new \<le> 3 \<and>
     calls_justified (entitled 5 sample_verify (\<lambda>org ds. (tl ds, hd ds)) sample_framework ''req_1'' sample_arrival [Inr sample_allow])
       (\<lambda>w or. {inference_permission}) 100 sample_catalog default_breaker_config 60 ''req_1'' Map.empty new"
proof -
  have c: "cdb_up sample_catalog" by (simp add: sample_catalog_def)
  have r: "retry_policy_new 3 100000 = Inr default_retry_policy"
    by (simp add: retry_policy_new_def default_retry_policy_def)
  have w: "ledger_inv (gw_ledger (wd_gateway sample_world))" using sample_gateway_inv(1) by (simp add: sample_world_def)
  have a: "hr_auth sample_arrival = None" by (simp add: sample_arrival_def sample_post_def)
  have i: "context_id ''req_1'' sample_arrival = ''req_1''"
    by (simp add: context_id_def sample_arrival_def sample_post_def header_def)
  have g: "gw_calls (wd_gateway sample_world) = []" "gw_now (wd_gateway sample_world) = 60"
    "gw_breaker (wd_gateway sample_world) = Map.empty" "wd_limiter sample_world = [Inr sample_allow]"
    by (simp_all add: sample_world_def sample_gateway_def)
  obtain w' rep where e: "sample_gateway_http sample_arrival sample_world = (w', rep)" by fastforce
  have "(1 :: int) \<le> 5" by simp
  from providers_called_for_entitled [OF c w r this a e [unfolded sample_gateway_http_def sample_env_def]]
  show ?thesis using e by (simp add: i g)
qed

end
