(* ===== verification/Providers.thy ===== *)
theory Providers imports Streaming Encodings begin

text \<open>
  The provider adapters (\<open>adapters/providers\<close>): the OpenAI-compatible HTTP client, unary and streamed,
  the client of a deployment without connections, the synthesizing one and the scripted one. The HTTP
  library and the JSON parser are arguments: a call of the library ends in a time-out, another of its
  errors, an exception that is not its own, or a response. Durations are part of what it returns.
\<close>

subsection \<open>Requests\<close>

record provider_connection =
  pn_url :: string
  pn_key :: string
  pn_timeout :: rat

type_synonym connections = "(string \<times> provider_connection) list"

definition chat_path :: string where
  "chat_path = ''/chat/completions''"

definition chat_body :: "provider_descriptor \<Rightarrow> inference_request \<Rightarrow> payload" where
  "chat_body p req =
     [(''model'', JStr (prov_model p)),
      (''messages'', JList [JObj [(''role'', JStr ''user''),
         (''content'', case map_of (payload req) ''prompt'' of None \<Rightarrow> JStr [] | Some v \<Rightarrow> v)]])]"

definition stream_chat_body :: "provider_descriptor \<Rightarrow> inference_request \<Rightarrow> payload" where
  "stream_chat_body p req =
     chat_body p req @ [(''stream'', JBool True), (''stream_options'', JObj [(''include_usage'', JBool True)])]"

record http_call =
  hl_connection :: provider_connection
  hl_path :: string
  hl_body :: payload
  hl_authorization :: string

definition provider_call_of :: "provider_connection \<Rightarrow> payload \<Rightarrow> http_call" where
  "provider_call_of c body = \<lparr>hl_connection = c, hl_path = chat_path, hl_body = body, hl_authorization = ''Bearer '' @ pn_key c\<rparr>"

subsection \<open>Responses\<close>

definition status_categories :: "(nat \<times> provider_error_category) list" where
  "status_categories =
     [(400, INVALID_REQUEST), (401, AUTHENTICATION), (403, AUTHENTICATION), (404, INVALID_REQUEST), (408, TIMEOUT),
      (422, INVALID_REQUEST), (429, RATE_LIMITED)]"

definition category_for_status :: "nat \<Rightarrow> provider_error_category" where
  "category_for_status n =
     (case map_of status_categories n of Some c \<Rightarrow> c | None \<Rightarrow> if 500 \<le> n then SERVER_ERROR else INVALID_REQUEST)"

text \<open>A Python \<open>bool\<close> is an \<open>int\<close>.\<close>

definition token_count :: "json option \<Rightarrow> int option" where
  "token_count v = (case v of Some (JInt i) \<Rightarrow> Some i | Some (JBool b) \<Rightarrow> Some (if b then 1 else 0) | _ \<Rightarrow> None)"

definition usage_from :: "payload \<Rightarrow> provider_usage option" where
  "usage_from body =
     (case map_of body ''usage'' of
        Some (JObj raw) \<Rightarrow>
          (case (token_count (map_of raw ''prompt_tokens''), token_count (map_of raw ''completion_tokens'')) of
             (Some p, Some c) \<Rightarrow> Some \<lparr>prompt_tokens = p, completion_tokens = c\<rparr>
           | _ \<Rightarrow> None)
      | _ \<Rightarrow> None)"

definition first_choice :: "payload \<Rightarrow> payload option" where
  "first_choice body =
     (case map_of body ''choices'' of Some (JList (JObj first # rest)) \<Rightarrow> Some first | _ \<Rightarrow> None)"

definition content_from :: "payload \<Rightarrow> json" where
  "content_from body =
     (case first_choice body of
        None \<Rightarrow> JObj body
      | Some first \<Rightarrow>
          (case map_of first ''message'' of
             Some (JObj message) \<Rightarrow> (case map_of message ''content'' of Some v \<Rightarrow> v | None \<Rightarrow> JObj body)
           | _ \<Rightarrow> JObj body))"

definition failed_call :: "provider_descriptor \<Rightarrow> provider_error_category \<Rightarrow> string \<Rightarrow> provider_response" where
  "failed_call p cat msg =
     \<lparr>resp_ok = False, resp_content = JNull, resp_error = Some msg, resp_provider = prov_name p, resp_usage = None,
      resp_category = Some cat\<rparr>"

definition no_connection :: string where
  "no_connection = ''provider has no connection configured''"

definition timed_out :: string where
  "timed_out = ''provider call timed out''"

definition transport_error :: string where
  "transport_error = ''provider transport error''"

definition malformed_body :: string where
  "malformed_body = ''provider returned a malformed body''"

definition status_error :: "nat \<Rightarrow> string" where
  "status_error n = ''provider returned HTTP '' @ str_int (int n)"

text \<open>A unary reply carries the parsed body, \<open>None\<close> when it is no JSON.\<close>

datatype http_reply = Http_Timeout | Http_Error | Http_Raised exn | Http_Replied nat "json option"

definition openai_invoke ::
  "(http_call \<Rightarrow> http_reply) \<Rightarrow> connections \<Rightarrow> provider_descriptor \<Rightarrow> inference_request \<Rightarrow> provider_response res" where
  "openai_invoke post conns p req =
     (case map_of conns (prov_name p) of
        None \<Rightarrow> Inr (failed_call p AUTHENTICATION no_connection)
      | Some c \<Rightarrow>
          (case post (provider_call_of c (chat_body p req)) of
             Http_Timeout \<Rightarrow> Inr (failed_call p TIMEOUT timed_out)
           | Http_Error \<Rightarrow> Inr (failed_call p SERVER_ERROR transport_error)
           | Http_Raised x \<Rightarrow> Inl x
           | Http_Replied status body \<Rightarrow>
               if 400 \<le> status then Inr (failed_call p (category_for_status status) (status_error status))
               else (case body of
                   Some (JObj fs) \<Rightarrow>
                     Inr \<lparr>resp_ok = True, resp_content = content_from fs, resp_error = None, resp_provider = prov_name p,
                          resp_usage = usage_from fs, resp_category = None\<rparr>
                 | _ \<Rightarrow> Inr (failed_call p SERVER_ERROR malformed_body))))"

subsection \<open>Streams\<close>

definition data_prefix :: string where
  "data_prefix = ''data:''"

definition payload_of :: "string \<Rightarrow> string option" where
  "payload_of line =
     (let s = strip_by is_space line in
      if take 5 s \<noteq> data_prefix then None else Some (strip_by is_space (drop 5 s)))"

definition stream_sentinel :: string where
  "stream_sentinel = ''[DONE]''"

definition malformed_event :: string where
  "malformed_event = ''provider returned a malformed stream event''"

definition decode_event :: "(string \<Rightarrow> json option) \<Rightarrow> string \<Rightarrow> payload option" where
  "decode_event loads s = (case loads s of Some (JObj fs) \<Rightarrow> Some fs | _ \<Rightarrow> None)"

definition delta_from :: "payload \<Rightarrow> string" where
  "delta_from ev =
     (case first_choice ev of
        None \<Rightarrow> []
      | Some first \<Rightarrow>
          (case map_of first ''delta'' of
             Some (JObj delta) \<Rightarrow> (case map_of delta ''content'' of Some (JStr s) \<Rightarrow> s | _ \<Rightarrow> [])
           | _ \<Rightarrow> []))"

text \<open>The lines of an open body, each with the time it took to come, and how the body ends. \<open>t\<close> is the
  time since the last event that was passed on.\<close>

datatype body_end = Body_End | Body_Timeout nat | Body_Error nat

fun line_events ::
  "(string \<Rightarrow> json option) \<Rightarrow> provider_usage option \<Rightarrow> nat \<Rightarrow> (string \<times> nat) list \<Rightarrow> body_end \<Rightarrow> (stream_event \<times> nat) list" where
  "line_events loads usage t [] fin =
     (case fin of
        Body_End \<Rightarrow> []
      | Body_Timeout d \<Rightarrow> [(StreamFailed timed_out (Some TIMEOUT), t + d)]
      | Body_Error d \<Rightarrow> [(StreamFailed transport_error (Some SERVER_ERROR), t + d)])"
| "line_events loads usage t ((line, d) # rest) fin =
     (case payload_of line of
        None \<Rightarrow> line_events loads usage (t + d) rest fin
      | Some s \<Rightarrow>
          if s = stream_sentinel then [(StreamCompleted usage, t + d)]
          else (case decode_event loads s of
              None \<Rightarrow> [(StreamFailed malformed_event (Some SERVER_ERROR), t + d)]
            | Some ev \<Rightarrow>
                (let usage' = (case usage_from ev of None \<Rightarrow> usage | Some u \<Rightarrow> Some u) in
                 if delta_from ev = [] then line_events loads usage' (t + d) rest fin
                 else (StreamChunk (delta_from ev), t + d) # line_events loads usage' 0 rest fin)))"

datatype stream_opening = Open_Timeout nat | Open_Error nat | Opened nat nat "(string \<times> nat) list" body_end

definition openai_stream ::
  "(string \<Rightarrow> json option) \<Rightarrow> (instant \<Rightarrow> http_call \<Rightarrow> stream_opening) \<Rightarrow> connections \<Rightarrow> stream_client" where
  "openai_stream loads open_body conns now p req =
     (case map_of conns (prov_name p) of
        None \<Rightarrow> [(StreamFailed no_connection (Some AUTHENTICATION), 0)]
      | Some c \<Rightarrow>
          (case open_body now (provider_call_of c (stream_chat_body p req)) of
             Open_Timeout d \<Rightarrow> [(StreamFailed timed_out (Some TIMEOUT), d)]
           | Open_Error d \<Rightarrow> [(StreamFailed transport_error (Some SERVER_ERROR), d)]
           | Opened status d lines fin \<Rightarrow>
               if 400 \<le> status then [(StreamFailed (status_error status) (Some (category_for_status status)), d)]
               else line_events loads None d lines fin))"

subsection \<open>The other clients\<close>

definition unconfigured_error :: string where
  "unconfigured_error = ''no provider connection is configured for this deployment''"

definition unconfigured_invoke :: "provider_descriptor \<Rightarrow> inference_request \<Rightarrow> provider_response" where
  "unconfigured_invoke p req = failed_call p AUTHENTICATION unconfigured_error"

definition unconfigured_stream :: stream_client where
  "unconfigured_stream now p req = [(StreamFailed unconfigured_error (Some AUTHENTICATION), 0)]"

definition synthesized_usage :: "inference_request \<Rightarrow> provider_usage" where
  "synthesized_usage req =
     (let prompt = max 1 (int (length (py_repr (JObj (payload req)))) div 4)
      in \<lparr>prompt_tokens = prompt, completion_tokens = max 1 (prompt div 2)\<rparr>)"

definition in_memory_invoke :: "provider_descriptor \<Rightarrow> inference_request \<Rightarrow> provider_response" where
  "in_memory_invoke p req =
     \<lparr>resp_ok = True,
      resp_content = JObj [(''provider'', JStr (prov_name p)), (''model'', JStr (prov_model p)), (''echo'', JObj (payload req))],
      resp_error = None, resp_provider = prov_name p, resp_usage = Some (synthesized_usage req), resp_category = None\<rparr>"

function pieces :: "nat \<Rightarrow> string \<Rightarrow> string list" where
  "pieces n s = (if s = [] \<or> n = 0 then [] else take n s # pieces n (drop n s))"
  by pat_completeness auto
termination by (relation "measure (\<lambda>(n, s). length s)") auto

declare pieces.simps [simp del]

definition in_memory_text :: "provider_descriptor \<Rightarrow> inference_request \<Rightarrow> string" where
  "in_memory_text p req = prov_name p @ ''/'' @ prov_model p @ '': '' @ py_repr (JObj (payload req))"

definition in_memory_stream :: stream_client where
  "in_memory_stream now p req =
     (let text = in_memory_text p req; n = max 1 ((length text + 2) div 3)
      in map (\<lambda>c. (StreamChunk c, 0)) (pieces n text) @ [(StreamCompleted (Some (synthesized_usage req)), 0)])"

record fake_client =
  fc_responses :: "(string \<times> provider_response) list"
  fc_sequence :: "provider_response list"
  fc_unreachable :: bool
  fc_calls :: "(provider_descriptor \<times> inference_request) list"

definition unscripted :: "provider_descriptor \<Rightarrow> string \<Rightarrow> provider_response" where
  "unscripted p msg = \<lparr>resp_ok = False, resp_content = JNull, resp_error = Some msg, resp_provider = prov_name p,
     resp_usage = None, resp_category = None\<rparr>"

definition fake_invoke :: "provider_descriptor \<Rightarrow> inference_request \<Rightarrow> fake_client \<Rightarrow> fake_client \<times> provider_response" where
  "fake_invoke p req f =
     (let f' = f\<lparr>fc_calls := fc_calls f @ [(p, req)]\<rparr> in
      (f', if fc_unreachable f then unscripted p ''simulated provider unreachable''
           else if fc_sequence f \<noteq> [] then fc_sequence f ! (min (length (fc_calls f')) (length (fc_sequence f)) - 1)
           else case map_of (fc_responses f) (prov_name p) of
             None \<Rightarrow> unscripted p (''no scripted response for '' @ repr_str (prov_name p))
           | Some r \<Rightarrow> r))"

subsection \<open>Failures are classified and say nothing of the provider's text\<close>

definition adapter_errors :: "string set" where
  "adapter_errors = {no_connection, timed_out, transport_error, malformed_body} \<union> range status_error"

definition answered :: "http_reply \<Rightarrow> bool" where
  "answered r \<longleftrightarrow> (case r of Http_Replied status (Some (JObj fs)) \<Rightarrow> status < 400 | _ \<Rightarrow> False)"

lemma openai_failure:
  assumes "map_of conns (prov_name p) = Some c" "\<not> answered (post (provider_call_of c (chat_body p req)))"
    and "\<And>x. post (provider_call_of c (chat_body p req)) \<noteq> Http_Raised x"
  obtains cat msg where "openai_invoke post conns p req = Inr (failed_call p cat msg)" "msg \<in> adapter_errors"
    "transient_provider_error (Some cat) \<longleftrightarrow>
       (case post (provider_call_of c (chat_body p req)) of
          Http_Replied n body \<Rightarrow> n < 400 \<or> n = 408 \<or> n = 429 \<or> 500 \<le> n | _ \<Rightarrow> True)"
proof (cases "post (provider_call_of c (chat_body p req))")
  case (Http_Replied n body)
  show ?thesis
  proof (cases "400 \<le> n")
    case True
    then have "transient_provider_error (Some (category_for_status n)) \<longleftrightarrow> n = 408 \<or> n = 429 \<or> 500 \<le> n"
      by (auto simp: category_for_status_def status_categories_def transient_provider_error_def)
    with assms(1) Http_Replied True that [of "category_for_status n" "status_error n"] show ?thesis
      by (auto simp: openai_invoke_def adapter_errors_def)
  next
    case False
    with assms(1,2) Http_Replied that [of SERVER_ERROR malformed_body] show ?thesis
      by (auto simp: openai_invoke_def adapter_errors_def answered_def transient_provider_error_def split: option.splits json.splits)
  qed
qed (use assms that [of TIMEOUT timed_out] that [of SERVER_ERROR transport_error] in
    \<open>auto simp: openai_invoke_def adapter_errors_def transient_provider_error_def\<close>)

text \<open>C15: A provider call always comes back as a classified response, and a failed one carries nothing the
provider wrote. Unless the HTTP library raises something that is not one of its errors, the adapter
returns; the answer is ok exactly for a configured provider and a JSON object under a status below 400; any
failure bears one of the adapter's own texts, no content and no usage, and a category that makes it
retryable exactly for a lost or timed-out call, a malformed body, or a status of 408, 429 or 500 and above.\<close>

theorem provider_failures_classified:
  assumes "\<And>call x. post call \<noteq> Http_Raised x"
  shows "\<exists>r. openai_invoke post conns p req = Inr r \<and> resp_provider r = prov_name p \<and>
    (resp_ok r \<longleftrightarrow> (\<exists>c. map_of conns (prov_name p) = Some c \<and> answered (post (provider_call_of c (chat_body p req))))) \<and>
    (\<not> resp_ok r \<longrightarrow> resp_content r = JNull \<and> resp_usage r = None \<and> (\<exists>m\<in>adapter_errors. resp_error r = Some m) \<and>
      (transient_provider_error (resp_category r) \<longleftrightarrow>
       (\<exists>c. map_of conns (prov_name p) = Some c \<and>
         (case post (provider_call_of c (chat_body p req)) of
            Http_Replied n body \<Rightarrow> n < 400 \<or> n = 408 \<or> n = 429 \<or> 500 \<le> n | _ \<Rightarrow> True))))"
proof (cases "map_of conns (prov_name p)")
  case None
  then show ?thesis
    by (simp add: openai_invoke_def failed_call_def adapter_errors_def transient_provider_error_def)
next
  case (Some c)
  show ?thesis
  proof (cases "answered (post (provider_call_of c (chat_body p req)))")
    case True
    with Some show ?thesis
      by (auto simp: answered_def openai_invoke_def split: http_reply.splits option.splits json.splits)
  next
    case False
    from Some False assms obtain cat msg where "openai_invoke post conns p req = Inr (failed_call p cat msg)" "msg \<in> adapter_errors"
      "transient_provider_error (Some cat) \<longleftrightarrow>
         (case post (provider_call_of c (chat_body p req)) of Http_Replied n body \<Rightarrow> n < 400 \<or> n = 408 \<or> n = 429 \<or> 500 \<le> n | _ \<Rightarrow> True)"
      by (rule openai_failure)
    with Some False show ?thesis by (simp add: failed_call_def)
  qed
qed

subsection \<open>A streamed answer\<close>

definition reported_usage :: "(string \<Rightarrow> json option) \<Rightarrow> provider_usage option \<Rightarrow> (string \<times> nat) list \<Rightarrow> provider_usage option" where
  "reported_usage loads usage lines =
     fold (\<lambda>(line, d) u. case payload_of line of None \<Rightarrow> u
       | Some s \<Rightarrow> (case decode_event loads s of None \<Rightarrow> u | Some ev \<Rightarrow> (case usage_from ev of None \<Rightarrow> u | Some v \<Rightarrow> Some v)))
       lines usage"

definition chunks_only :: "(stream_event \<times> nat) list \<Rightarrow> bool" where
  "chunks_only es \<longleftrightarrow> (\<forall>(e, d)\<in>set es. \<exists>c. e = StreamChunk c \<and> c \<noteq> [])"

lemma chunks_only_simps [simp]:
  "chunks_only []" "chunks_only (e # es) \<longleftrightarrow> (\<exists>c d. e = (StreamChunk c, d) \<and> c \<noteq> []) \<and> chunks_only es"
  by (auto simp: chunks_only_def)

definition proper_ending ::
  "(string \<Rightarrow> json option) \<Rightarrow> provider_usage option \<Rightarrow> (string \<times> nat) list \<Rightarrow> (stream_event \<times> nat) list \<Rightarrow> bool" where
  "proper_ending loads usage lines tail \<longleftrightarrow>
     tail = [] \<or> (\<exists>err cat d. tail = [(StreamFailed err (Some cat), d)]) \<or>
     (\<exists>u d pre line e post. tail = [(StreamCompleted u, d)] \<and> lines = pre @ (line, e) # post \<and>
        payload_of line = Some stream_sentinel \<and> u = reported_usage loads usage pre)"

lemma proper_ending_Cons:
  assumes "proper_ending loads u rest tail" "\<And>pre. reported_usage loads usage (l # pre) = reported_usage loads u pre"
  shows "proper_ending loads usage (l # rest) tail"
  using assms(1) unfolding proper_ending_def
proof (elim disjE exE conjE)
  fix v d pre line e post
  assume a: "tail = [(StreamCompleted v, d)]" "rest = pre @ (line, e) # post" "payload_of line = Some stream_sentinel"
    "v = reported_usage loads u pre"
  then have "l # rest = (l # pre) @ (line, e) # post \<and> v = reported_usage loads usage (l # pre)" using assms(2) by simp
  with a(1,3) show "tail = [] \<or> (\<exists>err cat d. tail = [(StreamFailed err (Some cat), d)]) \<or>
     (\<exists>u d pre line e post. tail = [(StreamCompleted u, d)] \<and> l # rest = pre @ (line, e) # post \<and>
        payload_of line = Some stream_sentinel \<and> u = reported_usage loads usage pre)" by blast
qed auto

lemma line_events_shape:
  "\<exists>chunks tail. line_events loads usage t lines fin = chunks @ tail \<and> chunks_only chunks \<and> proper_ending loads usage lines tail"
proof (induction loads usage t lines fin rule: line_events.induct)
  case (1 loads usage t fin)
  have "proper_ending loads usage [] (line_events loads usage t [] fin)" by (cases fin) (simp_all add: proper_ending_def)
  then show ?case by (metis append_Nil chunks_only_simps(1))
next
  case (2 loads usage t line d rest fin)
  have more: "\<exists>chunks tail. line_events loads usage t ((line, d) # rest) fin = chunks @ tail \<and> chunks_only chunks \<and>
      proper_ending loads usage ((line, d) # rest) tail"
    if ih: "\<exists>chunks tail. line_events loads u t' rest fin = chunks @ tail \<and> chunks_only chunks \<and> proper_ending loads u rest tail"
      and eq: "line_events loads usage t ((line, d) # rest) fin = first @ line_events loads u t' rest fin" "chunks_only first"
      and step: "\<And>pre. reported_usage loads usage ((line, d) # pre) = reported_usage loads u pre" for u t' first
  proof -
    from ih obtain chunks tail where c: "line_events loads u t' rest fin = chunks @ tail" "chunks_only chunks"
      "proper_ending loads u rest tail" by blast
    have "chunks_only (first @ chunks)" using eq(2) c(2) by (auto simp: chunks_only_def)
    moreover have "proper_ending loads usage ((line, d) # rest) tail" by (rule proper_ending_Cons [OF c(3) step])
    ultimately show ?thesis unfolding eq(1) c(1) by (metis append_assoc)
  qed
  show ?case
  proof (cases "payload_of line")
    case None
    then show ?thesis by (intro more [of usage "t + d" "[]"] 2(1)) (simp_all add: reported_usage_def)
  next
    case (Some s)
    show ?thesis
    proof (cases "s = stream_sentinel")
      case True
      have "line_events loads usage t ((line, d) # rest) fin = [(StreamCompleted usage, t + d)]" using Some True by simp
      moreover have "proper_ending loads usage ((line, d) # rest) [(StreamCompleted usage, t + d)]"
        unfolding proper_ending_def
      proof (intro disjI2 exI conjI)
        show "[(StreamCompleted usage, t + d)] = [(StreamCompleted usage, t + d)]" by simp
        show "(line, d) # rest = [] @ (line, d) # rest" by simp
        show "payload_of line = Some stream_sentinel" using Some True by simp
        show "usage = reported_usage loads usage []" by (simp add: reported_usage_def)
      qed
      ultimately show ?thesis by (metis append_Nil chunks_only_simps(1))
    next
      case ns: False
      show ?thesis
      proof (cases "decode_event loads s")
        case None
        with Some ns have "proper_ending loads usage ((line, d) # rest) (line_events loads usage t ((line, d) # rest) fin)"
          by (simp add: proper_ending_def)
        then show ?thesis by (metis append_Nil chunks_only_simps(1))
      next
        case ev: (Some ev)
        let ?u = "case usage_from ev of None \<Rightarrow> usage | Some u \<Rightarrow> Some u"
        have st: "reported_usage loads usage ((line, d) # pre) = reported_usage loads ?u pre" for pre
          using Some ev by (simp add: reported_usage_def)
        show ?thesis
        proof (cases "delta_from ev = []")
          case True
          with Some ns ev show ?thesis by (intro more [of ?u "t + d" "[]"] 2(2) st) simp_all
        next
          case False
          with Some ns ev show ?thesis
            by (intro more [of ?u 0 "[(StreamChunk (delta_from ev), t + d)]"] 2(3) st) simp_all
        qed
      qed
    qed
  qed
qed

text \<open>A stream that broke off is never taken for a finished one. Whatever the provider sends, the events
are non-empty pieces of text, then at most one ending: a failure, or a completion, and a completion only
where the provider's own end marker stood, with the last usage it reported before it - so a body cut off
anywhere before the marker yields no completion.\<close>

theorem truncated_stream_unfinished:
  "\<exists>chunks tail. line_events loads usage t lines fin = chunks @ tail \<and> chunks_only chunks \<and> proper_ending loads usage lines tail"
  by (rule line_events_shape)

text \<open>The lines a server writes: each event's JSON text behind the prefix, an empty line after it.\<close>

definition event_line :: "(payload \<Rightarrow> string) \<Rightarrow> payload \<Rightarrow> (string \<times> nat) list" where
  "event_line enc ev = [(''data: '' @ enc ev, 0), ([], 0)]"

lemma strip_by_ends: "s \<noteq> [] \<Longrightarrow> \<not> p (hd s) \<Longrightarrow> \<not> p (last s) \<Longrightarrow> strip_by p s = s"
proof -
  assume a: "s \<noteq> []" "\<not> p (hd s)" "\<not> p (last s)"
  then have "dropWhile p s = s" by (cases s) auto
  moreover have "dropWhile p (rev s) = rev s" using a by (cases "rev s") (auto simp: hd_rev [symmetric])
  ultimately show ?thesis by (simp add: strip_by_def)
qed

definition tidy :: "string \<Rightarrow> bool" where
  "tidy s \<longleftrightarrow> s \<noteq> [] \<and> \<not> is_space (hd s) \<and> \<not> is_space (last s)"

lemma payload_of_line: "tidy s \<Longrightarrow> payload_of (''data: '' @ s) = Some s"
proof -
  assume t: "tidy s"
  then have s: "strip_by is_space s = s" by (simp add: tidy_def strip_by_ends)
  have "tidy (''data: '' @ s)" using t by (simp add: tidy_def is_space_def)
  then have "strip_by is_space (''data: '' @ s) = ''data: '' @ s" unfolding tidy_def by (intro strip_by_ends) blast+
  moreover have "strip_by is_space (CHR '' '' # s) = s" using s by (simp add: strip_by_def is_space_def)
  ultimately show ?thesis by (simp add: payload_of_def data_prefix_def)
qed

lemma payload_of_blank: "payload_of [] = None"
  by (simp add: payload_of_def strip_by_def data_prefix_def)

lemma line_events_event:
  assumes "tidy (enc ev)" "enc ev \<noteq> stream_sentinel" "loads (enc ev) = Some (JObj ev)"
  shows "line_events loads usage t (event_line enc ev @ ls) fin =
    (let usage' = (case usage_from ev of None \<Rightarrow> usage | Some u \<Rightarrow> Some u) in
     if delta_from ev = [] then line_events loads usage' t ls fin
     else (StreamChunk (delta_from ev), t) # line_events loads usage' 0 ls fin)"
proof -
  have "payload_of (''data: '' @ enc ev) = Some (enc ev)" "decode_event loads (enc ev) = Some ev"
    using payload_of_line [OF assms(1)] assms(3) by (simp_all add: decode_event_def)
  with assms(2) show ?thesis by (simp add: event_line_def payload_of_blank Let_def)
qed

lemma stream_decoded:
  assumes "\<forall>ev\<in>set evs. tidy (enc ev) \<and> enc ev \<noteq> stream_sentinel \<and> loads (enc ev) = Some (JObj ev)"
  shows "map fst (line_events loads usage t (concat (map (event_line enc) evs) @ (''data: [DONE]'', 0) # rest) fin) =
    map StreamChunk (filter (\<lambda>s. s \<noteq> []) (map delta_from evs)) @
      [StreamCompleted (fold (\<lambda>ev u. case usage_from ev of None \<Rightarrow> u | Some v \<Rightarrow> Some v) evs usage)]"
  using assms
proof (induction evs arbitrary: usage t)
  case Nil
  have "payload_of ''data: [DONE]'' = Some stream_sentinel"
    using payload_of_line [of stream_sentinel] by (simp add: stream_sentinel_def tidy_def is_space_def)
  then show ?case by simp
next
  case (Cons ev evs)
  then have e: "tidy (enc ev)" "enc ev \<noteq> stream_sentinel" "loads (enc ev) = Some (JObj ev)" by simp_all
  let ?rest = "concat (map (event_line enc) evs) @ (''data: [DONE]'', 0) # rest"
  have IH: "map fst (line_events loads u t' ?rest fin) = map StreamChunk (filter (\<lambda>s. s \<noteq> []) (map delta_from evs)) @
      [StreamCompleted (fold (\<lambda>ev u. case usage_from ev of None \<Rightarrow> u | Some v \<Rightarrow> Some v) evs u)]" for u t'
    using Cons.IH Cons.prems by simp
  show ?case
    using line_events_event [of enc ev loads usage t ?rest fin, OF e]
    by (simp add: IH Let_def del: line_events.simps)
qed


text \<open>The theorems at inputs.\<close>

definition sample_conns :: connections where
  "sample_conns = [(''acme'', \<lparr>pn_url = ''https://acme'', pn_key = ''k'', pn_timeout = 30\<rparr>)]"

theorem provider_failures_classified_witness:
  "\<exists>r. openai_invoke (\<lambda>c. Http_Replied 503 (Some (JStr ''secret''))) sample_conns sample_provider sample_request = Inr r \<and> \<not> resp_ok r \<and>
     transient_provider_error (resp_category r)"
proof -
  have n: "Http_Replied 503 (Some (JStr ''secret'')) \<noteq> Http_Raised x" for x by simp
  have c: "\<exists>c. map_of sample_conns (prov_name sample_provider) = Some c" by (simp add: sample_conns_def sample_provider_def)
  from provider_failures_classified [of "\<lambda>c. Http_Replied 503 (Some (JStr ''secret''))" sample_conns sample_provider sample_request, OF n]
  show ?thesis using c by (auto simp: answered_def)
qed

definition sample_delta :: "string \<Rightarrow> payload" where
  "sample_delta s = [(''choices'', JList [JObj [(''delta'', JObj [(''content'', JStr s)])]])]"


subsection \<open>The synthesizing client\<close>

lemma concat_pieces: "0 < n \<Longrightarrow> concat (pieces n s) = s"
  by (induction n s rule: pieces.induct) (subst pieces.simps; simp)

lemma pieces_nonempty: "[] \<notin> set (pieces n s)"
  by (induction n s rule: pieces.induct) (subst pieces.simps; simp)

lemma length_pieces: "0 < n \<Longrightarrow> length s \<le> k * n \<Longrightarrow> length (pieces n s) \<le> k"
proof (induction k arbitrary: s)
  case 0
  then show ?case by (simp add: pieces.simps)
next
  case (Suc k)
  show ?case
  proof (cases "s = []")
    case False
    have "length (drop n s) \<le> k * n" using Suc.prems by simp
    with Suc.IH [of "drop n s"] Suc.prems False show ?thesis by (subst pieces.simps) simp
  qed (simp add: pieces.simps)
qed

text \<open>The synthesizing client bills a streamed and a unary call alike. Its stream is at most three
non-empty pieces that make up the one text and a completion with exactly the usage its unary answer carries,
so that the settlement of the one and of the other do the same to any ledger, whatever the prices are.\<close>

theorem synthesized_stream_bills_alike:
  "\<exists>cs. in_memory_stream now p req = map (\<lambda>c. (StreamChunk c, 0)) cs @ [(StreamCompleted (resp_usage (in_memory_invoke p req)), 0)] \<and>
     concat cs = in_memory_text p req \<and> length cs \<le> 3 \<and> [] \<notin> set cs \<and>
     (\<forall>u content. resp_usage (in_memory_invoke p req) = Some u \<longrightarrow>
        service_settle port prices org cid (stream_response p u content) p later l =
        service_settle port prices org cid (in_memory_invoke p req) p later l)"
proof (intro exI conjI allI impI)
  let ?t = "in_memory_text p req"
  let ?n = "max 1 ((length ?t + 2) div 3)" 
  show "in_memory_stream now p req = map (\<lambda>c. (StreamChunk c, 0)) (pieces ?n ?t) @ [(StreamCompleted (resp_usage (in_memory_invoke p req)), 0)]"
    by (simp add: in_memory_stream_def in_memory_invoke_def Let_def)
  show "concat (pieces ?n ?t) = ?t" by (rule concat_pieces) simp
  show "length (pieces ?n ?t) \<le> 3" by (rule length_pieces) simp_all
  show "[] \<notin> set (pieces ?n ?t)" by (rule pieces_nonempty)
  show "service_settle port prices org cid (stream_response p u content) p later l =
        service_settle port prices org cid (in_memory_invoke p req) p later l"
    if "resp_usage (in_memory_invoke p req) = Some u" for u content
    using that by (simp add: service_settle_def account_def in_memory_invoke_def stream_response_def)
qed

end
