(* ===== verification/Startup.thy ===== *)
theory Startup imports Providers Credentials Rate_Limit Http begin

text \<open>
  What a process is started with: the validated settings (\<open>config/settings.py\<close>), the secrets they refer to
  (\<open>adapters/secrets/env_resolver.py\<close>), and the choices the composition root makes from them
  (\<open>config/container.py\<close>): the signing keys, the state key, the provider connections and the client, the
  limiter. Reading the environment into settings is the settings library's; the derivation of a public key
  and fresh random keys are arguments.
\<close>

subsection \<open>Secrets\<close>

text \<open>\<open>str.upper\<close>; the two Latin-1 letters whose capital lies outside Latin-1 are left alone.\<close>

definition upper_char :: "char \<Rightarrow> string" where
  "upper_char c =
     (let n = of_char c :: nat in
      if 97 \<le> n \<and> n \<le> 122 \<or> 224 \<le> n \<and> n \<le> 254 \<and> n \<noteq> 247 then [char_of (n - 32)]
      else if n = 223 then ''SS'' else [c])"

definition env_char :: "char \<Rightarrow> string" where
  "env_char c = (if c = CHR ''/'' then ''__'' else if c \<in> {CHR ''-'', CHR ''.''} then ''_'' else upper_char c)"

definition secret_prefix :: string where
  "secret_prefix = ''GATEWAY_SECRET_''"

definition reference_to_env_var :: "string \<Rightarrow> string" where
  "reference_to_env_var ref = secret_prefix @ concat (map env_char (strip_by is_space ref))"

type_synonym secrets = "string \<Rightarrow> string option"

definition env_try_resolve :: "(string \<times> string) list \<Rightarrow> secrets" where
  "env_try_resolve env ref =
     (case map_of env (reference_to_env_var ref) of None \<Rightarrow> None | Some v \<Rightarrow> if v = [] then None else Some v)"

definition memory_try_resolve :: "(string \<times> string) list \<Rightarrow> secrets" where
  "memory_try_resolve table ref = map_of table ref"

definition secret_resolve :: "secrets \<Rightarrow> string \<Rightarrow> string res" where
  "secret_resolve secrets ref = (case secrets ref of None \<Rightarrow> Inl SecretNotFoundError | Some v \<Rightarrow> Inr v)"

subsection \<open>Settings\<close>

datatype environment = Development | Staging | Production

record oidc_settings =
  os_issuer :: string
  os_client :: string
  os_secret_ref :: string
  os_authorization :: string
  os_token :: string
  os_jwks :: string
  os_redirect :: string
  os_jwks_ttl :: int

definition oidc_configured :: "oidc_settings \<Rightarrow> bool" where
  "oidc_configured o' \<longleftrightarrow> os_issuer o' \<noteq> [] \<and> os_client o' \<noteq> [] \<and> os_token o' \<noteq> [] \<and> os_jwks o' \<noteq> []"

record auth_settings =
  at_issuer :: string
  at_audience :: string
  at_access_ttl :: int
  at_session_ttl :: int
  at_state_ttl :: int
  at_leeway :: int
  at_state_ref :: string
  at_key_ref :: string
  at_kid :: string
  at_previous :: "string list"
  at_insecure :: bool
  at_oidc :: oidc_settings

record connection_settings =
  cs_url :: string
  cs_key_ref :: string
  cs_timeout :: rat

record ingress_settings =
  ig_rate :: rat
  ig_burst :: int
  ig_max_bytes :: int

record redis_settings =
  rx_url :: string
  rx_prefix :: string
  rx_timeout :: rat

record settings =
  sg_environment :: environment
  sg_log_json :: bool
  sg_auth :: auth_settings
  sg_providers :: "(string \<times> connection_settings) list"
  sg_fake :: bool
  sg_reservation_ttl :: int
  sg_ingress :: ingress_settings
  sg_redis :: redis_settings

text \<open>The constraints of the fields.\<close>

definition fields_ok :: "settings \<Rightarrow> bool" where
  "fields_ok s \<longleftrightarrow>
     (let a = sg_auth s; i = sg_ingress s in
      0 < os_jwks_ttl (at_oidc a) \<and> 0 < at_access_ttl a \<and> 0 < at_session_ttl a \<and> 0 < at_state_ttl a \<and> 0 \<le> at_leeway a \<and>
      list_all (\<lambda>(k, c). 0 < cs_timeout c) (sg_providers s) \<and> 0 < sg_reservation_ttl s \<and>
      0 < ig_rate i \<and> 1 \<le> ig_burst i \<and> 1 \<le> ig_max_bytes i \<and> 0 < rx_timeout (sg_redis s))"

definition production_invariants :: "settings \<Rightarrow> unit res" where
  "production_invariants s =
     (if sg_environment s = Production \<and> \<not> sg_log_json s then Inl ValueError
      else if sg_environment s = Production then
        (if at_state_ref (sg_auth s) = [] then Inl ValueError
         else if at_key_ref (sg_auth s) = [] then Inl ValueError
         else if at_insecure (sg_auth s) then Inl ValueError
         else if sg_fake s then Inl ValueError else Inr ())
      else Inr ())"

definition settings_new :: "settings \<Rightarrow> settings res" where
  "settings_new s =
     (if \<not> fields_ok s then Inl ValueError else case production_invariants s of Inl x \<Rightarrow> Inl x | Inr _ \<Rightarrow> Inr s)"

definition redis_configured :: "redis_settings \<Rightarrow> bool" where
  "redis_configured r \<longleftrightarrow> rx_url r \<noteq> []"

text \<open>\<open>str.partition\<close> at a text of several characters.\<close>

fun split_at_text :: "string \<Rightarrow> string \<Rightarrow> string \<times> string \<times> string" where
  "split_at_text sep [] = ([], [], [])"
| "split_at_text sep (c # s) =
     (if take (length sep) (c # s) = sep then ([], sep, drop (length sep) (c # s))
      else case split_at_text sep s of (a, m, b) \<Rightarrow> (c # a, m, b))"

definition safe_url :: "redis_settings \<Rightarrow> string" where
  "safe_url r =
     (if rx_url r = [] then []
      else case split_at_text ''://'' (rx_url r) of (scheme, _, rest) \<Rightarrow>
        if CHR ''@'' \<notin> set rest then rx_url r
        else case rpartition_at (CHR ''@'') rest of (credentials, _, host) \<Rightarrow>
          case partition_at (CHR '':'') credentials of (user, _, password) \<Rightarrow>
            if password \<noteq> [] then scheme @ ''://'' @ user @ '':***@'' @ host else scheme @ ''://'' @ user @ ''@'' @ host)"

subsection \<open>The composition root\<close>

definition previous_key :: "secrets \<Rightarrow> (string \<Rightarrow> string) \<Rightarrow> string \<Rightarrow> (string \<times> string) res" where
  "previous_key secrets derive entry =
     (case partition_at (CHR ''='') entry of (kid, _, ref) \<Rightarrow>
        case (if ref = [] then None else secrets ref) of
          None \<Rightarrow> Inl SecretNotFoundError
        | Some pem \<Rightarrow> Inr (kid, derive pem))"

fun previous_keys :: "secrets \<Rightarrow> (string \<Rightarrow> string) \<Rightarrow> string list \<Rightarrow> (string \<times> string) list res" where
  "previous_keys secrets derive [] = Inr []"
| "previous_keys secrets derive (e # es) =
     (case previous_key secrets derive e of
        Inl x \<Rightarrow> Inl x
      | Inr k \<Rightarrow> (case previous_keys secrets derive es of Inl x \<Rightarrow> Inl x | Inr ks \<Rightarrow> Inr (k # ks)))"

definition build_key_provider :: "(string \<Rightarrow> string) \<Rightarrow> string \<Rightarrow> auth_settings \<Rightarrow> secrets \<Rightarrow> key_provider res" where
  "build_key_provider derive fresh_pem a secrets =
     (case secrets (at_key_ref a) of
        None \<Rightarrow>
          if \<not> at_insecure a then Inl SecretNotFoundError
          else Inr (provider_from_pem derive (at_kid a) fresh_pem [])
      | Some pem \<Rightarrow>
          (case previous_keys secrets derive (at_previous a) of
             Inl x \<Rightarrow> Inl x
           | Inr ks \<Rightarrow> Inr (provider_from_pem derive (at_kid a) pem ks)))"

definition provider_connection_of :: "secrets \<Rightarrow> connection_settings \<Rightarrow> provider_connection res" where
  "provider_connection_of secrets c =
     (if cs_url c = [] then Inl SecretNotFoundError
      else case (if cs_key_ref c = [] then None else secrets (cs_key_ref c)) of
        None \<Rightarrow> Inl SecretNotFoundError
      | Some k \<Rightarrow> Inr \<lparr>pn_url = cs_url c, pn_key = k, pn_timeout = cs_timeout c\<rparr>)"

fun build_provider_connections :: "(string \<times> connection_settings) list \<Rightarrow> secrets \<Rightarrow> (string \<times> provider_connection) list res" where
  "build_provider_connections [] secrets = Inr []"
| "build_provider_connections ((name, c) # rest) secrets =
     (case provider_connection_of secrets c of
        Inl x \<Rightarrow> Inl x
      | Inr k \<Rightarrow> (case build_provider_connections rest secrets of Inl x \<Rightarrow> Inl x | Inr ks \<Rightarrow> Inr ((name, k) # ks)))"

definition resolve_state_key :: "string \<Rightarrow> auth_settings \<Rightarrow> secrets \<Rightarrow> string res" where
  "resolve_state_key token a secrets =
     (case secrets (at_state_ref a) of
        Some k \<Rightarrow> Inr k
      | None \<Rightarrow> if \<not> at_insecure a then Inl SecretNotFoundError else Inr token)"

datatype client_choice = Http_Client "(string \<times> provider_connection) list" | Synthesizing_Client | Refusing_Client

definition choose_client :: "settings \<Rightarrow> (string \<times> provider_connection) list \<Rightarrow> client_choice" where
  "choose_client s conns =
     (if conns \<noteq> [] then Http_Client conns else if sg_fake s then Synthesizing_Client else Refusing_Client)"

datatype limiter_choice = Local_Limiter rate_limit_policy | Degraded_Limiter rate_limit_policy string

definition choose_limiter :: "settings \<Rightarrow> limiter_choice res" where
  "choose_limiter s =
     (case rate_limit_policy_new (ig_rate (sg_ingress s)) (ig_burst (sg_ingress s)) of
        Inl x \<Rightarrow> Inl x
      | Inr p \<Rightarrow> Inr (if redis_configured (sg_redis s) then Degraded_Limiter p (rx_prefix (sg_redis s)) else Local_Limiter p))"

record runtime =
  rn_keys :: key_provider
  rn_state_key :: string
  rn_client :: client_choice
  rn_ttl :: duration
  rn_limiter :: limiter_choice

text \<open>\<open>Container.build\<close> up to the parts that are wired without a choice, in its order.\<close>

definition build_runtime :: "(string \<Rightarrow> string) \<Rightarrow> string \<Rightarrow> string \<Rightarrow> settings \<Rightarrow> secrets \<Rightarrow> runtime res" where
  "build_runtime derive fresh_pem fresh_token s secrets =
     (case build_key_provider derive fresh_pem (sg_auth s) secrets of
        Inl x \<Rightarrow> Inl x
      | Inr keys \<Rightarrow>
     case resolve_state_key fresh_token (sg_auth s) secrets of
        Inl x \<Rightarrow> Inl x
      | Inr k \<Rightarrow>
     if k = [] then Inl ValueError
     else case build_provider_connections (sg_providers s) secrets of
        Inl x \<Rightarrow> Inl x
      | Inr conns \<Rightarrow>
     case reconciler_new (sg_reservation_ttl s * second) of
        Inl x \<Rightarrow> Inl x
      | Inr ttl \<Rightarrow>
     case choose_limiter s of
        Inl x \<Rightarrow> Inl x
      | Inr l \<Rightarrow> Inr \<lparr>rn_keys = keys, rn_state_key = k, rn_client = choose_client s conns, rn_ttl = ttl, rn_limiter = l\<rparr>)"

subsection \<open>A production process runs on managed secrets\<close>

definition resolved_entry :: "secrets \<Rightarrow> string \<Rightarrow> bool" where
  "resolved_entry secrets e \<longleftrightarrow> (case partition_at (CHR ''='') e of (kid, sep, ref) \<Rightarrow> ref \<noteq> [] \<and> secrets ref \<noteq> None)"

definition resolved_connection :: "secrets \<Rightarrow> connection_settings \<Rightarrow> bool" where
  "resolved_connection secrets c \<longleftrightarrow> cs_url c \<noteq> [] \<and> cs_key_ref c \<noteq> [] \<and> secrets (cs_key_ref c) \<noteq> None"

lemma previous_keys_iff:
  "(\<exists>ks. previous_keys secrets derive es = Inr ks) \<longleftrightarrow> list_all (resolved_entry secrets) es"
  by (induction es) (auto simp: previous_key_def resolved_entry_def split: sum.split option.splits prod.splits if_splits)

lemma previous_keys_error: "previous_keys secrets derive es = Inl x \<Longrightarrow> x = SecretNotFoundError"
  by (induction es) (auto simp: previous_key_def split: sum.splits option.splits prod.splits)

lemma previous_keys_managed:
  "previous_keys secrets derive es = Inr ks \<Longrightarrow> \<forall>(kid, public)\<in>set ks. \<exists>ref pem. secrets ref = Some pem \<and> public = derive pem"
  by (induction es arbitrary: ks) (fastforce simp: previous_key_def split: sum.splits option.splits prod.splits if_splits)+

lemma provider_connection_of_iff: "(\<exists>k. provider_connection_of secrets c = Inr k) \<longleftrightarrow> resolved_connection secrets c"
  by (auto simp: provider_connection_of_def resolved_connection_def split: option.splits)

lemma connections_iff:
  "(\<exists>ks. build_provider_connections cs secrets = Inr ks) \<longleftrightarrow> list_all (\<lambda>(n, c). resolved_connection secrets c) cs"
proof (induction cs)
  case (Cons p cs)
  obtain n c where p: "p = (n, c)" by fastforce
  show ?case using provider_connection_of_iff [of secrets c] Cons.IH unfolding p
    by (cases "provider_connection_of secrets c"; cases "build_provider_connections cs secrets") auto
qed simp

lemma connections_error: "build_provider_connections cs secrets = Inl x \<Longrightarrow> x = SecretNotFoundError"
  by (induction cs) (auto simp: provider_connection_of_def split: sum.splits option.splits if_splits)

lemma connections_managed:
  "build_provider_connections cs secrets = Inr ks \<Longrightarrow>
     list_all2 (\<lambda>(n, c) (m, k). n = m \<and> pn_url k = cs_url c \<and> pn_url k \<noteq> [] \<and> secrets (cs_key_ref c) = Some (pn_key k) \<and>
       pn_timeout k = cs_timeout c) cs ks"
proof (induction cs arbitrary: ks)
  case (Cons p cs)
  obtain n c where p: "p = (n, c)" by fastforce
  from Cons.prems p obtain k ks' where k: "provider_connection_of secrets c = Inr k" "build_provider_connections cs secrets = Inr ks'"
    "ks = (n, k) # ks'" by (auto split: sum.splits)
  moreover have "pn_url k = cs_url c \<and> pn_url k \<noteq> [] \<and> secrets (cs_key_ref c) = Some (pn_key k) \<and> pn_timeout k = cs_timeout c"
    using k(1) by (auto simp: provider_connection_of_def split: if_splits option.splits)
  ultimately show ?case using Cons.IH p by auto
qed simp

lemma production_settings:
  assumes "settings_new s = Inr s'" "sg_environment s = Production"
  shows "s' = s" "fields_ok s" "\<not> at_insecure (sg_auth s)" "\<not> sg_fake s" "sg_log_json s"
  using assms by (auto simp: settings_new_def production_invariants_def split: if_splits sum.splits)

lemma limiter_built:
  assumes "fields_ok s" obtains l where "choose_limiter s = Inr l"
  using assms by (auto simp: fields_ok_def choose_limiter_def rate_limit_policy_new_def Let_def)

lemma reconciler_built: "fields_ok s \<Longrightarrow> reconciler_new (sg_reservation_ttl s * second) = Inr (sg_reservation_ttl s * second)"
  by (simp add: fields_ok_def reconciler_new_def Let_def)

lemma production_runtime:
  assumes "settings_new s = Inr s'" "sg_environment s = Production"
  shows "(\<exists>rt. build_runtime derive pem token s secrets = Inr rt) \<longleftrightarrow>
     secrets (at_key_ref (sg_auth s)) \<noteq> None \<and> list_all (resolved_entry secrets) (at_previous (sg_auth s)) \<and>
     secrets (at_state_ref (sg_auth s)) \<notin> {None, Some []} \<and>
     list_all (\<lambda>(n, c). resolved_connection secrets c) (sg_providers s)"
proof -
  note v = production_settings [OF assms]
  obtain l where l: "choose_limiter s = Inr l" using limiter_built [OF v(2)] .
  show ?thesis
    using previous_keys_iff [of secrets derive "at_previous (sg_auth s)"] connections_iff [of "sg_providers s" secrets] v(3)
    by (auto simp: build_runtime_def build_key_provider_def resolve_state_key_def l reconciler_built [OF v(2)] split: option.splits sum.splits)
qed

lemma build_runtime_parts:
  assumes "build_runtime derive pem token s secrets = Inr rt"
  obtains conns where "build_key_provider derive pem (sg_auth s) secrets = Inr (rn_keys rt)"
    "resolve_state_key token (sg_auth s) secrets = Inr (rn_state_key rt)" "rn_state_key rt \<noteq> []"
    "build_provider_connections (sg_providers s) secrets = Inr conns" "rn_client rt = choose_client s conns"
  using assms by (auto simp: build_runtime_def split: sum.splits if_splits)

text \<open>Where the keys and the client of a process come from.\<close>

definition managed :: "(string \<Rightarrow> string) \<Rightarrow> settings \<Rightarrow> secrets \<Rightarrow> runtime \<Rightarrow> bool" where
  "managed derive s secrets rt \<longleftrightarrow>
     secrets (at_key_ref (sg_auth s)) = Some (sk_private (kp_current (rn_keys rt))) \<and>
     sk_public (kp_current (rn_keys rt)) = derive (sk_private (kp_current (rn_keys rt))) \<and>
     (\<forall>k\<in>set (kp_previous (rn_keys rt)). \<exists>ref pem. secrets ref = Some pem \<and> vk_public k = derive pem) \<and>
     secrets (at_state_ref (sg_auth s)) = Some (rn_state_key rt) \<and> rn_state_key rt \<noteq> [] \<and>
     (case rn_client rt of
        Http_Client conns \<Rightarrow>
          list_all2 (\<lambda>(n, c) (m, k). n = m \<and> pn_url k = cs_url c \<and> pn_url k \<noteq> [] \<and> secrets (cs_key_ref c) = Some (pn_key k) \<and>
            pn_timeout k = cs_timeout c) (sg_providers s) conns
      | Synthesizing_Client \<Rightarrow> False
      | Refusing_Client \<Rightarrow> sg_providers s = [])"

lemma production_managed:
  assumes "settings_new s = Inr s'" "sg_environment s = Production" "build_runtime derive pem token s secrets = Inr rt"
  shows "managed derive s secrets rt"
proof -
  note v = production_settings [OF assms(1,2)]
  obtain conns where b: "build_key_provider derive pem (sg_auth s) secrets = Inr (rn_keys rt)"
    "resolve_state_key token (sg_auth s) secrets = Inr (rn_state_key rt)" "rn_state_key rt \<noteq> []"
    "build_provider_connections (sg_providers s) secrets = Inr conns" "rn_client rt = choose_client s conns"
    using build_runtime_parts [OF assms(3)] .
  from b(1) v(3) obtain key ks where k: "secrets (at_key_ref (sg_auth s)) = Some key"
    "previous_keys secrets derive (at_previous (sg_auth s)) = Inr ks" "rn_keys rt = provider_from_pem derive (at_kid (sg_auth s)) key ks"
    by (auto simp: build_key_provider_def split: option.splits sum.splits)
  have st: "secrets (at_state_ref (sg_auth s)) = Some (rn_state_key rt)"
    using b(2) v(3) by (auto simp: resolve_state_key_def split: option.splits)
  have prev: "\<forall>q\<in>set (kp_previous (rn_keys rt)). \<exists>ref pem. secrets ref = Some pem \<and> vk_public q = derive pem"
    using previous_keys_managed [OF k(2)] k(3) by (fastforce simp: provider_from_pem_def)
  have cl: "case rn_client rt of
        Http_Client conns \<Rightarrow>
          list_all2 (\<lambda>(n, c) (m, k). n = m \<and> pn_url k = cs_url c \<and> pn_url k \<noteq> [] \<and> secrets (cs_key_ref c) = Some (pn_key k) \<and>
            pn_timeout k = cs_timeout c) (sg_providers s) conns
      | Synthesizing_Client \<Rightarrow> False
      | Refusing_Client \<Rightarrow> sg_providers s = []"
    using connections_managed [OF b(4)] b(5) v(4) by (auto simp: choose_client_def split: if_splits)
  show ?thesis unfolding managed_def
    using k(1,3) st prev cl b(3) by (simp add: provider_from_pem_def signing_key_of_def)
qed

lemma production_failure:
  assumes "settings_new s = Inr s'" "sg_environment s = Production" "build_runtime derive pem token s secrets = Inl x"
  shows "x = SecretNotFoundError \<or> x = ValueError \<and> secrets (at_state_ref (sg_auth s)) = Some []"
proof -
  note v = production_settings [OF assms(1,2)]
  obtain l where l: "choose_limiter s = Inr l" using limiter_built [OF v(2)] .
  show ?thesis
    using assms(3) v(3) previous_keys_error [of secrets derive "at_previous (sg_auth s)"] connections_error [of "sg_providers s" secrets]
    by (auto simp: build_runtime_def build_key_provider_def resolve_state_key_def l reconciler_built [OF v(2)]
        split: option.splits sum.splits if_splits)
qed


definition sample_settings :: settings where
  "sample_settings =
     \<lparr>sg_environment = Production, sg_log_json = True,
      sg_auth = \<lparr>at_issuer = ''gateway'', at_audience = ''api'', at_access_ttl = 900, at_session_ttl = 604800, at_state_ttl = 300,
        at_leeway = 60, at_state_ref = ''state'', at_key_ref = ''jwt'', at_kid = ''k1'', at_previous = [''k0=old''],
        at_insecure = False,
        at_oidc = \<lparr>os_issuer = [], os_client = [], os_secret_ref = [], os_authorization = [], os_token = [], os_jwks = [],
          os_redirect = [], os_jwks_ttl = 600\<rparr>\<rparr>,
      sg_providers = [(''acme'', \<lparr>cs_url = ''https://acme'', cs_key_ref = ''acme'', cs_timeout = 30\<rparr>)], sg_fake = False,
      sg_reservation_ttl = 900, sg_ingress = \<lparr>ig_rate = 10, ig_burst = 20, ig_max_bytes = 1048576\<rparr>,
      sg_redis = \<lparr>rx_url = [], rx_prefix = ''gateway'', rx_timeout = 1 / 4\<rparr>\<rparr>"


text \<open>Two references can name one secret. The documentation calls the mapping of references to
environment variables reversible, but a path of two parts and a name with two hyphens, or names that differ
in a hyphen, a dot or the case, read the same variable, whatever the environment holds.\<close>

theorem secret_references_collide:
  "env_try_resolve env ''gateway/jwt'' = env_try_resolve env ''gateway--jwt'' \<and>
   env_try_resolve env ''state-key'' = env_try_resolve env ''State.Key''"
proof -
  have "reference_to_env_var ''gateway/jwt'' = reference_to_env_var ''gateway--jwt''"
    "reference_to_env_var ''state-key'' = reference_to_env_var ''State.Key''" by code_simp+
  then show ?thesis by (simp add: env_try_resolve_def)
qed

subsection \<open>The address that is logged\<close>

lemma split_at_scheme:
  "CHR '':'' \<notin> set scheme \<Longrightarrow> split_at_text ''://'' (scheme @ ''://'' @ rest) = (scheme, ''://'', rest)"
  by (induction scheme) auto

text \<open>The password in a store's address does not reach the log. Whatever it contains, an address with a
user and a password is logged with three asterisks in its place, so two that differ in the password only are
logged alike.\<close>

theorem redis_password_masked:
  assumes "CHR '':'' \<notin> set scheme" "CHR '':'' \<notin> set user" "CHR ''@'' \<notin> set host" "pw \<noteq> []"
  shows "safe_url (r\<lparr>rx_url := scheme @ ''://'' @ user @ '':'' @ pw @ ''@'' @ host\<rparr>) = scheme @ ''://'' @ user @ '':***@'' @ host"
proof -
  have "rpartition_at (CHR ''@'') ((user @ '':'' @ pw) @ CHR ''@'' # host) = (user @ '':'' @ pw, ''@'', host)"
    using assms(3) by (rule rpartition_at_app)
  moreover have "partition_at (CHR '':'') (user @ CHR '':'' # pw) = (user, '':'', pw)"
    using assms(2) by (rule partition_at_app)
  ultimately show ?thesis
    using assms(4) split_at_scheme [OF assms(1), of "user @ '':'' @ pw @ ''@'' @ host"] by (simp add: safe_url_def)
qed

theorem redis_password_masked_witness:
  "safe_url \<lparr>rx_url = ''redis://u:p@h'', rx_prefix = ''gateway'', rx_timeout = 1\<rparr> = ''redis://u:***@h''"
  using redis_password_masked [of "''redis''" "''u''" "''h''" "''p''" "\<lparr>rx_url = [], rx_prefix = ''gateway'', rx_timeout = 1\<rparr>"]
  by simp

text \<open>A password given as a query parameter is logged as it is, although the address is said to be safe
to log with any password masked: the client library reads it from there too.\<close>

theorem redis_query_password_logged:
  assumes "CHR '':'' \<notin> set scheme" "CHR ''@'' \<notin> set host" "CHR ''@'' \<notin> set pw"
  shows "safe_url (r\<lparr>rx_url := scheme @ ''://'' @ host @ ''?password='' @ pw\<rparr>) = scheme @ ''://'' @ host @ ''?password='' @ pw"
  using assms split_at_scheme [OF assms(1), of "host @ ''?password='' @ pw"] by (simp add: safe_url_def)

theorem redis_query_password_logged_witness:
  "safe_url \<lparr>rx_url = ''redis://h?password=p'', rx_prefix = ''gateway'', rx_timeout = 1\<rparr> = ''redis://h?password=p''"
  using redis_query_password_logged [of "''redis''" "''h''" "''p''" "\<lparr>rx_url = [], rx_prefix = ''gateway'', rx_timeout = 1\<rparr>"]
  by simp

end
