(* ===== verification/Tools.thy ===== *)
theory Tools imports Admission begin

text \<open>
  Tools and MCP (\<open>application/tools\<close>, \<open>application/ports/tools.py\<close>, \<open>application/ports/mcp.py\<close>,
  \<open>adapters/tools\<close>, \<open>adapters/mcp\<close>): the registry and its manifest, the catalog filtered by permissions,
  the gateway to an MCP server, and the provisioner that publishes what a server offers and invokes it
  back. Capabilities and permissions are JSON values, as a server or a manifest writes them.
\<close>

subsection \<open>Tools and the registry\<close>

record tool_descriptor =
  td_name :: string
  td_version :: string
  td_description :: string
  td_capabilities :: "json list"
  td_permissions :: "json list"
  td_schema :: payload

definition qualified_name :: "tool_descriptor \<Rightarrow> string" where
  "qualified_name d = td_name d @ ''@'' @ td_version d"

text \<open>A Python dictionary: a new value of a key keeps the key's place.\<close>

type_synonym registry_table = "(string \<times> tool_descriptor) list"

fun dict_put :: "string \<Rightarrow> 'v \<Rightarrow> (string \<times> 'v) list \<Rightarrow> (string \<times> 'v) list" where
  "dict_put k v [] = [(k, v)]"
| "dict_put k v ((k', v') # xs) = (if k' = k then (k, v) # xs else (k', v') # dict_put k v xs)"

definition tool_register :: "tool_descriptor \<Rightarrow> registry_table \<Rightarrow> registry_table" where
  "tool_register d tools = dict_put (qualified_name d) d tools"

fun latest :: "tool_descriptor \<Rightarrow> tool_descriptor list \<Rightarrow> tool_descriptor" where
  "latest best [] = best"
| "latest best (d # ds) = latest (if td_version best < td_version d then d else best) ds"

definition tool_get :: "string \<Rightarrow> string option \<Rightarrow> registry_table \<Rightarrow> tool_descriptor option" where
  "tool_get name version tools =
     (case version of
        Some v \<Rightarrow> map_of tools (name @ ''@'' @ v)
      | None \<Rightarrow>
          (case filter (\<lambda>d. td_name d = name) (map snd tools) of [] \<Rightarrow> None | d # ds \<Rightarrow> Some (latest d ds)))"

text \<open>A set of JSON values exists only when each can be hashed.\<close>

definition hashable :: "json \<Rightarrow> bool" where
  "hashable j \<longleftrightarrow> (case j of JList xs \<Rightarrow> False | JObj fs \<Rightarrow> False | _ \<Rightarrow> True)"

definition json_set :: "json list \<Rightarrow> json set res" where
  "json_set xs = (if list_all hashable xs then Inr (set xs) else Inl TypeError)"

fun tool_discover :: "string list \<Rightarrow> tool_descriptor list \<Rightarrow> tool_descriptor list res" where
  "tool_discover wanted [] = Inr []"
| "tool_discover wanted (d # ds) =
     (case json_set (td_capabilities d) of
        Inl x \<Rightarrow> Inl x
      | Inr caps \<Rightarrow>
          (case tool_discover wanted ds of
             Inl x \<Rightarrow> Inl x
           | Inr found \<Rightarrow> Inr (if JStr ` set wanted \<subseteq> caps then d # found else found)))"

definition registry_discover :: "string list \<Rightarrow> registry_table \<Rightarrow> tool_descriptor list res" where
  "registry_discover wanted tools = tool_discover wanted (map snd tools)"

definition tool_permitted :: "tool_descriptor \<Rightarrow> string set \<Rightarrow> bool res" where
  "tool_permitted d granted =
     (case json_set (td_permissions d) of Inl x \<Rightarrow> Inl x | Inr ps \<Rightarrow> Inr (ps \<subseteq> JStr ` granted))"

subsection \<open>The manifest\<close>

text \<open>\<open>tuple(v)\<close> of a JSON value.\<close>

definition json_tuple :: "json \<Rightarrow> json list res" where
  "json_tuple v =
     (case v of JList xs \<Rightarrow> Inr xs | JStr s \<Rightarrow> Inr (map (\<lambda>c. JStr [c]) s) | JObj fs \<Rightarrow> Inr (map (\<lambda>(k, w). JStr k) fs)
      | _ \<Rightarrow> Inl TypeError)"

definition entry_tuple :: "payload \<Rightarrow> string \<Rightarrow> json list res" where
  "entry_tuple entry k = (case map_of entry k of None \<Rightarrow> Inr [] | Some v \<Rightarrow> json_tuple v)"

text \<open>\<open>dict(v)\<close>; which of the two exceptions a malformed list of pairs raises is not told apart, and pairs
  with keys other than texts count as malformed.\<close>

definition entry_schema :: "payload \<Rightarrow> string \<Rightarrow> payload res" where
  "entry_schema entry k =
     (case map_of entry k of None \<Rightarrow> Inr []
      | Some v \<Rightarrow> (case dict_of v of Some fs \<Rightarrow> Inr fs | None \<Rightarrow> Inl (case v of JList xs \<Rightarrow> ValueError | JStr s \<Rightarrow> ValueError | _ \<Rightarrow> TypeError)))"

definition entry_text :: "payload \<Rightarrow> string \<Rightarrow> string" where
  "entry_text entry k = (case map_of entry k of None \<Rightarrow> [] | Some v \<Rightarrow> py_str v)"

definition descriptor_from_entry :: "payload \<Rightarrow> tool_descriptor res" where
  "descriptor_from_entry entry =
     (case (map_of entry ''name'', map_of entry ''version'') of
        (Some name, Some version) \<Rightarrow>
          (case entry_tuple entry ''capabilities'' of
             Inl x \<Rightarrow> Inl x
           | Inr caps \<Rightarrow>
          case entry_tuple entry ''required_permissions'' of
             Inl x \<Rightarrow> Inl x
           | Inr perms \<Rightarrow>
          case entry_schema entry ''schema'' of
             Inl x \<Rightarrow> Inl x
           | Inr schema \<Rightarrow>
               Inr \<lparr>td_name = py_str name, td_version = py_str version, td_description = entry_text entry ''description'',
                    td_capabilities = caps, td_permissions = perms, td_schema = schema\<rparr>)
      | _ \<Rightarrow> Inl ManifestError)"

fun load_entries :: "json list \<Rightarrow> registry_table \<Rightarrow> registry_table res" where
  "load_entries [] tools = Inr tools"
| "load_entries (JObj entry # es) tools =
     (case descriptor_from_entry entry of Inl x \<Rightarrow> Inl x | Inr d \<Rightarrow> load_entries es (tool_register d tools))"
| "load_entries (v # es) tools = Inl ManifestError"

definition load_manifest :: "payload \<Rightarrow> registry_table res" where
  "load_manifest manifest =
     (case map_of manifest ''tools'' of
        None \<Rightarrow> Inr []
      | Some (JList es) \<Rightarrow> load_entries es []
      | Some v \<Rightarrow> Inl ManifestError)"

subsection \<open>The catalog\<close>

fun permitted_tools :: "string set \<Rightarrow> tool_descriptor list \<Rightarrow> tool_descriptor list res" where
  "permitted_tools granted [] = Inr []"
| "permitted_tools granted (d # ds) =
     (case tool_permitted d granted of
        Inl x \<Rightarrow> Inl x
      | Inr ok \<Rightarrow> (case permitted_tools granted ds of Inl x \<Rightarrow> Inl x | Inr found \<Rightarrow> Inr (if ok then d # found else found)))"

definition available_for :: "string set \<Rightarrow> string list \<Rightarrow> registry_table \<Rightarrow> tool_descriptor list res" where
  "available_for granted capabilities tools =
     (case registry_discover capabilities tools of Inl x \<Rightarrow> Inl x | Inr ds \<Rightarrow> permitted_tools granted ds)"

definition can_use :: "string \<Rightarrow> string set \<Rightarrow> string option \<Rightarrow> registry_table \<Rightarrow> bool res" where
  "can_use name granted version tools =
     (case tool_get name version tools of None \<Rightarrow> Inr False | Some d \<Rightarrow> tool_permitted d granted)"

subsection \<open>MCP\<close>

record mcp_invocation =
  mi_tool :: string
  mi_arguments :: payload
  mi_correlation :: string

record mcp_result =
  mr_ok :: bool
  mr_content :: json
  mr_error :: "string option"

definition mcp_failed :: "string \<Rightarrow> mcp_result" where
  "mcp_failed e = \<lparr>mr_ok = False, mr_content = JNull, mr_error = Some e\<rparr>"

record mcp_health =
  mh_healthy :: bool
  mh_server :: string
  mh_detail :: "string option"

record 's mcp_gateway =
  mg_discover :: "'s \<Rightarrow> 's \<times> tool_descriptor list res"
  mg_execute :: "mcp_invocation \<Rightarrow> 's \<Rightarrow> 's \<times> mcp_result res"

definition null_gateway :: "'s mcp_gateway" where
  "null_gateway =
     \<lparr>mg_discover = (\<lambda>s. (s, Inr [])),
      mg_execute = (\<lambda>i s. (s, Inr (mcp_failed (''no MCP server configured for tool '' @ repr_str (mi_tool i)))))\<rparr>"

definition null_health :: mcp_health where
  "null_health = \<lparr>mh_healthy = False, mh_server = ''null'', mh_detail = Some ''no MCP gateway configured''\<rparr>"

text \<open>A server: what it lists and what its handlers do, or a time-out, or a transport error with a text.\<close>

datatype 'v served = Served 'v | Server_Timeout | Server_Error string | Server_Raised exn

record 's mcp_server =
  ms_name :: string
  ms_version :: string
  ms_list :: "'s \<Rightarrow> 's \<times> payload list served"
  ms_call :: "string \<Rightarrow> payload \<Rightarrow> 's \<Rightarrow> 's \<times> json served"

definition operator_permissions :: "(string \<times> string list) list \<Rightarrow> string \<Rightarrow> json list" where
  "operator_permissions permissions name = (case map_of permissions name of None \<Rightarrow> [] | Some ps \<Rightarrow> map JStr ps)"

definition to_descriptor :: "string \<Rightarrow> string \<Rightarrow> (string \<times> string list) list \<Rightarrow> payload \<Rightarrow> tool_descriptor option res" where
  "to_descriptor server version permissions entry =
     (case map_of entry ''name'' of
        Some (JStr name) \<Rightarrow>
          if name = [] then Inr None
          else (case entry_tuple entry ''capabilities'' of
             Inl x \<Rightarrow> Inl x
           | Inr declared \<Rightarrow>
          case entry_schema entry ''inputSchema'' of
             Inl x \<Rightarrow> Inl x
           | Inr schema \<Rightarrow>
               Inr (Some \<lparr>td_name = name, td_version = version, td_description = entry_text entry ''description'',
                 td_capabilities = JStr (''mcp:'' @ server) # declared,
                 td_permissions = operator_permissions permissions name, td_schema = schema\<rparr>))
      | _ \<Rightarrow> Inr None)"

fun to_descriptors :: "string \<Rightarrow> string \<Rightarrow> (string \<times> string list) list \<Rightarrow> payload list \<Rightarrow> tool_descriptor list res" where
  "to_descriptors server version permissions [] = Inr []"
| "to_descriptors server version permissions (e # es) =
     (case to_descriptor server version permissions e of
        Inl x \<Rightarrow> Inl x
      | Inr a \<Rightarrow>
          (case to_descriptors server version permissions es of
             Inl x \<Rightarrow> Inl x
           | Inr ds \<Rightarrow> Inr (case a of None \<Rightarrow> ds | Some d \<Rightarrow> d # ds)))"

definition server_gateway :: "'s mcp_server \<Rightarrow> (string \<times> string list) list \<Rightarrow> 's mcp_gateway" where
  "server_gateway srv permissions =
     \<lparr>mg_discover = (\<lambda>s. case ms_list srv s of
        (s', Served es) \<Rightarrow> (s', to_descriptors (ms_name srv) (ms_version srv) permissions es)
      | (s', Server_Raised x) \<Rightarrow> (s', Inl x)
      | (s', _) \<Rightarrow> (s', Inr [])),
      mg_execute = (\<lambda>i s. case ms_call srv (mi_tool i) (mi_arguments i) s of
        (s', Served v) \<Rightarrow> (s', Inr \<lparr>mr_ok = True, mr_content = v, mr_error = None\<rparr>)
      | (s', Server_Timeout) \<Rightarrow> (s', Inr (mcp_failed ''mcp invocation timed out''))
      | (s', Server_Error e) \<Rightarrow> (s', Inr (mcp_failed e))
      | (s', Server_Raised x) \<Rightarrow> (s', Inl x))\<rparr>"

subsection \<open>The provisioner\<close>

definition tools_sync :: "'s mcp_gateway \<Rightarrow> registry_table \<times> 's \<Rightarrow> (registry_table \<times> 's) \<times> tool_descriptor list res" where
  "tools_sync gw st =
     (case mg_discover gw (snd st) of
        (s, Inl x) \<Rightarrow> ((fst st, s), Inl x)
      | (s, Inr ds) \<Rightarrow> ((fold tool_register ds (fst st), s), Inr ds))"

definition tools_invoke ::
  "'s mcp_gateway \<Rightarrow> string \<Rightarrow> payload \<Rightarrow> string set \<Rightarrow> string option \<Rightarrow> string \<Rightarrow> registry_table \<times> 's \<Rightarrow>
     (registry_table \<times> 's) \<times> mcp_result res" where
  "tools_invoke gw name arguments granted version cid st =
     (case tool_get name version (fst st) of
        None \<Rightarrow> (st, Inr (mcp_failed (''unknown tool: '' @ name)))
      | Some d \<Rightarrow>
          (case tool_permitted d granted of
             Inl x \<Rightarrow> (st, Inl x)
           | Inr False \<Rightarrow> (st, Inr (mcp_failed (''permission denied: '' @ qualified_name d)))
           | Inr True \<Rightarrow>
               (case mg_execute gw \<lparr>mi_tool = td_name d, mi_arguments = arguments, mi_correlation = cid\<rparr> (snd st) of
                  (s, r) \<Rightarrow> ((fst st, s), r))))"

subsection \<open>What a registry answers\<close>

lemma map_of_dict_put: "map_of (dict_put k v xs) = (map_of xs)(k \<mapsto> v)"
  by (induction xs) (auto simp: fun_eq_iff)

text \<open>The tools are filed under their own qualified names.\<close>

definition registry_ok :: "registry_table \<Rightarrow> bool" where
  "registry_ok tools \<longleftrightarrow> distinct (map fst tools) \<and> (\<forall>(k, d)\<in>set tools. k = qualified_name d)"

lemma dict_put_keys: "set (map fst (dict_put k v xs)) = insert k (set (map fst xs))"
proof (induction xs)
  case (Cons x xs)
  show ?case
  proof (cases "fst x = k")
    case True
    then show ?thesis by (cases x) simp
  next
    case False
    then have "dict_put k v (x # xs) = x # dict_put k v xs" by (cases x) simp
    with Cons show ?thesis by (simp add: insert_commute)
  qed
qed simp

lemma dict_put_distinct: "distinct (map fst xs) \<Longrightarrow> distinct (map fst (dict_put k v xs))"
proof (induction xs)
  case (Cons x xs)
  obtain k' v' where x: "x = (k', v')" by fastforce
  from Cons x dict_put_keys [of k v xs] show ?case by auto
qed simp

lemma dict_put_entries: "set (dict_put k v xs) \<subseteq> insert (k, v) (set xs)"
proof (induction xs)
  case (Cons x xs)
  then show ?case by (cases x) (auto split: if_split_asm)
qed simp

lemma register_ok: "registry_ok tools \<Longrightarrow> registry_ok (tool_register d tools)"
  unfolding registry_ok_def tool_register_def
  using dict_put_distinct [of tools "qualified_name d" d] dict_put_entries [of "qualified_name d" d tools] by blast

lemma registers_ok: "registry_ok tools \<Longrightarrow> registry_ok (fold tool_register ds tools)"
  by (induction ds arbitrary: tools) (auto simp: register_ok)

lemma latest_in: "latest b ds \<in> insert b (set ds)"
  by (induction b ds rule: latest.induct) auto

lemma latest_max: "\<forall>d\<in>insert b (set ds). td_version d \<le> td_version (latest b ds)"
  by (induction b ds rule: latest.induct) (auto simp: not_less dest: less_imp_le order_trans split: if_splits)

lemma tool_get_None:
  "tool_get name None tools = Some d \<Longrightarrow> (\<exists>k. (k, d) \<in> set tools) \<and> td_name d = name \<and>
     (\<forall>(k, e)\<in>set tools. td_name e = name \<longrightarrow> td_version e \<le> td_version d)"
proof -
  assume g: "tool_get name None tools = Some d"
  then obtain e es where f: "filter (\<lambda>d. td_name d = name) (map snd tools) = e # es" "d = latest e es"
    by (auto simp: tool_get_def split: list.splits)
  from latest_in [of e es] f have "d \<in> set (filter (\<lambda>d. td_name d = name) (map snd tools))" by simp
  moreover have "\<forall>x\<in>set (filter (\<lambda>d. td_name d = name) (map snd tools)). td_version x \<le> td_version d"
    unfolding f(1) f(2) using latest_max [of e es] by simp
  ultimately show ?thesis by fastforce
qed

lemma tool_get_found:
  assumes "registry_ok tools" "tool_get name version tools = Some d"
  shows "(qualified_name d, d) \<in> set tools \<and> (case version of None \<Rightarrow> td_name d = name | Some v \<Rightarrow> qualified_name d = name @ ''@'' @ v)"
proof (cases version)
  case None
  then show ?thesis using assms tool_get_None [of name tools d] by (auto simp: registry_ok_def)
next
  case (Some v)
  then have "(name @ ''@'' @ v, d) \<in> set tools" using assms(2) by (auto simp: tool_get_def dest: map_of_SomeD)
  with Some assms(1) show ?thesis by (fastforce simp: registry_ok_def)
qed

lemma tools_invoke_cases:
  assumes "tools_invoke gw name arguments granted version cid (tools, s) = ((tools', s'), r)"
  shows "tools' = tools \<and>
    (s' = s \<and> (\<forall>a. r = Inr a \<longrightarrow> \<not> mr_ok a) \<or>
     (\<exists>d. tool_get name version tools = Some d \<and> tool_permitted d granted = Inr True \<and>
        mg_execute gw \<lparr>mi_tool = td_name d, mi_arguments = arguments, mi_correlation = cid\<rparr> s = (s', r)))"
  using assms by (auto simp: tools_invoke_def mcp_failed_def split: option.splits sum.splits bool.splits prod.splits)

lemma permitted_true: "tool_permitted d granted = Inr True \<longleftrightarrow> list_all hashable (td_permissions d) \<and> set (td_permissions d) \<subseteq> JStr ` granted"
  by (auto simp: tool_permitted_def json_set_def split: sum.splits)

text \<open>C26: A tool runs only for a caller who holds every permission its registered descriptor demands.
Whatever gateway is behind it, an invocation changes no registration, and it reaches the gateway only through
a descriptor that is registered under the asked name (and, when one is asked for, version) all of whose
permissions the caller was granted; otherwise nothing happens and no success is reported.\<close>

theorem tool_runs_permitted:
  assumes "registry_ok tools" "tools_invoke gw name arguments granted version cid (tools, s) = ((tools', s'), r)"
  shows "tools' = tools \<and>
    (s' = s \<and> (\<forall>a. r = Inr a \<longrightarrow> \<not> mr_ok a) \<or>
     (\<exists>d. (qualified_name d, d) \<in> set tools \<and> set (td_permissions d) \<subseteq> JStr ` granted \<and>
        (case version of None \<Rightarrow> td_name d = name | Some v \<Rightarrow> qualified_name d = name @ ''@'' @ v) \<and>
        mg_execute gw \<lparr>mi_tool = td_name d, mi_arguments = arguments, mi_correlation = cid\<rparr> s = (s', r)))"
  using tools_invoke_cases [OF assms(2)] tool_get_found [OF assms(1)] permitted_true by blast

lemma to_descriptors_permissions:
  "to_descriptors server version permissions es = Inr ds \<Longrightarrow>
     \<forall>d\<in>set ds. td_permissions d = operator_permissions permissions (td_name d) \<and>
       td_version d = version"
  by (induction es arbitrary: ds)
    (auto simp: to_descriptor_def split: sum.splits option.splits json.splits if_splits)

lemma registers_entries: "(k, d) \<in> set (fold tool_register ds tools) \<Longrightarrow> d \<in> set ds \<or> (k, d) \<in> set tools"
proof (induction ds arbitrary: tools)
  case (Cons e ds)
  from Cons.IH [of "tool_register e tools"] Cons.prems dict_put_entries [of "qualified_name e" e tools] show ?case
    by (auto simp: tool_register_def)
qed simp

text \<open>A server cannot lower its own bar. After any number of synchronizations with a server, whatever it
lists each time, every registered tool demands exactly the permissions the operator configured for its
name; nothing the server says about a tool has a part in it.\<close>

fun syncs :: "'s mcp_gateway \<Rightarrow> nat \<Rightarrow> registry_table \<times> 's \<Rightarrow> registry_table \<times> 's" where
  "syncs gw 0 st = st"
| "syncs gw (Suc n) st = syncs gw n (fst (tools_sync gw st))"

lemma sync_permissions:
  assumes "\<forall>(k, d)\<in>set tools. td_permissions d = operator_permissions permissions (td_name d)"
    and "tools_sync (server_gateway srv permissions) (tools, s) = ((tools', s'), r)"
  shows "\<forall>(k, d)\<in>set tools'. td_permissions d = operator_permissions permissions (td_name d)"
proof (cases r)
  case (Inl x)
  with assms show ?thesis by (auto simp: tools_sync_def split: prod.splits sum.splits)
next
  case (Inr ds)
  with assms(2) have t: "tools' = fold tool_register ds tools" "mg_discover (server_gateway srv permissions) s = (s', Inr ds)"
    by (auto simp: tools_sync_def split: prod.splits sum.splits)
  then have "\<forall>d\<in>set ds. td_permissions d = operator_permissions permissions (td_name d)"
    using to_descriptors_permissions [of "ms_name srv" "ms_version srv" permissions]
    by (auto simp: server_gateway_def split: prod.splits served.splits)
  with assms(1) show ?thesis unfolding t(1) by (blast dest: registers_entries)
qed

lemma syncs_permissions:
  assumes "\<forall>(k, d)\<in>set (fst st). td_permissions d = operator_permissions permissions (td_name d)"
  shows "\<forall>(k, d)\<in>set (fst (syncs (server_gateway srv permissions) n st)).
    td_permissions d = operator_permissions permissions (td_name d)"
  using assms
proof (induction n arbitrary: st)
  case (Suc n)
  obtain tools' s' r where "tools_sync (server_gateway srv permissions) (fst st, snd st) = ((tools', s'), r)" by (metis prod.collapse)
  from sync_permissions [OF Suc.prems this] Suc.IH [of "(tools', s')"] show ?case
    using \<open>tools_sync _ _ = _\<close> by simp
qed simp

theorem server_sets_no_permission:
  "\<forall>(k, d)\<in>set (fst (syncs (server_gateway srv permissions) n ([], s))).
    td_permissions d = operator_permissions permissions (td_name d)"
  by (rule syncs_permissions) simp

subsection \<open>Where the seams show\<close>

text \<open>The permissions of a tool are those of the version a caller names, but what runs is the tool. When an
old version of a tool is registered with weaker demands than the current one - which neither a new
registration nor a synchronization takes away - a caller who lacks what the current one demands is denied
without a version and served with the old one, by the very same invocation of the gateway.\<close>

theorem old_version_lowers_bar:
  assumes "tool_get name None tools = Some new" "tool_get name (Some v) tools = Some old" "td_name old = name"
    and "tool_permitted new granted = Inr False" "tool_permitted old granted = Inr True"
  shows "tools_invoke gw name arguments granted None cid (tools, s) =
      ((tools, s), Inr (mcp_failed (''permission denied: '' @ qualified_name new))) \<and>
    tools_invoke gw name arguments granted (Some v) cid (tools, s) =
      (case mg_execute gw \<lparr>mi_tool = name, mi_arguments = arguments, mi_correlation = cid\<rparr> s of (s', r) \<Rightarrow> ((tools, s'), r))"
  using assms by (simp add: tools_invoke_def)

definition sample_tool :: "string \<Rightarrow> json list \<Rightarrow> tool_descriptor" where
  "sample_tool v perms = \<lparr>td_name = ''pay'', td_version = v, td_description = [], td_capabilities = [], td_permissions = perms,
     td_schema = []\<rparr>"

definition sample_registry :: registry_table where
  "sample_registry = tool_register (sample_tool ''2'' [JStr ''pay:use'']) (tool_register (sample_tool ''1'' []) [])"

definition sample_server :: "nat mcp_server" where
  "sample_server = \<lparr>ms_name = ''bank'', ms_version = ''2'', ms_list = (\<lambda>s. (s, Served [[(''name'', JStr ''pay'')]])),
     ms_call = (\<lambda>tool args s. (Suc s, Served (JStr tool)))\<rparr>"

theorem old_version_lowers_bar_witness:
  "snd (tools_invoke (server_gateway sample_server []) ''pay'' [] {} (Some ''1'') ''c'' (sample_registry, 0)) =
     Inr \<lparr>mr_ok = True, mr_content = JStr ''pay'', mr_error = None\<rparr>"
proof -
  have "tool_get ''pay'' None sample_registry = Some (sample_tool ''2'' [JStr ''pay:use''])"
    "tool_get ''pay'' (Some ''1'') sample_registry = Some (sample_tool ''1'' [])"
    by code_simp+
  moreover have "td_name (sample_tool ''1'' []) = ''pay''" by (simp add: sample_tool_def)
  moreover have "tool_permitted (sample_tool ''2'' [JStr ''pay:use'']) {} = Inr False"
    "tool_permitted (sample_tool ''1'' []) {} = Inr True"
    by (simp_all add: tool_permitted_def sample_tool_def json_set_def hashable_def)
  ultimately show ?thesis
    using old_version_lowers_bar [of "''pay''" sample_registry _ "''1''" _ "{}" "server_gateway sample_server []" "[]" "''c''" 0]
    by (simp add: server_gateway_def sample_server_def)
qed

theorem tool_runs_permitted_witness:
  "\<exists>d. (qualified_name d, d) \<in> set sample_registry \<and> set (td_permissions d) \<subseteq> JStr ` {''pay:use''}"
proof -
  have ok: "registry_ok sample_registry"
    unfolding sample_registry_def by (intro register_ok) (simp add: registry_ok_def)
  let ?r = "tools_invoke (server_gateway sample_server []) ''pay'' [] {''pay:use''} None ''c'' (sample_registry, 0)"
  have "fst ?r = (sample_registry, 1)"
  proof -
    have "tool_get ''pay'' None sample_registry = Some (sample_tool ''2'' [JStr ''pay:use''])" by code_simp
    then show ?thesis
      by (simp add: tools_invoke_def tool_permitted_def sample_tool_def json_set_def hashable_def server_gateway_def sample_server_def)
  qed
  then obtain r where "?r = ((sample_registry, 1), r)" by (metis prod.collapse)
  from tool_runs_permitted [OF ok this] show ?thesis by auto
qed

text \<open>One odd entry hides a whole server. The gateway means to skip a malformed entry, and does so when its
name is missing; an entry whose capabilities are a number or null makes the discovery raise, so that none of
the other tools of that server is registered.\<close>

theorem malformed_entry_fails_discovery:
  assumes "ms_list srv s = (s', Served (pre @ entry # post))" "map_of entry ''name'' = Some (JStr name)" "name \<noteq> []"
    and "map_of entry ''capabilities'' \<in> {Some JNull, Some (JInt n)}"
  shows "\<exists>x. tools_sync (server_gateway srv permissions) (tools, s) = ((tools, s'), Inl x)"
proof -
  have "\<exists>x. to_descriptor (ms_name srv) (ms_version srv) permissions entry = Inl x"
    using assms(2-4) by (auto simp: to_descriptor_def entry_tuple_def json_tuple_def)
  then have "\<exists>x. to_descriptors (ms_name srv) (ms_version srv) permissions (pre @ entry # post) = Inl x"
    by (induction pre) (auto split: sum.split)
  with assms(1) show ?thesis by (auto simp: tools_sync_def server_gateway_def)
qed

theorem malformed_entry_fails_discovery_witness:
  "\<exists>x. tools_sync (server_gateway (sample_server\<lparr>ms_list := (\<lambda>s. (s, Served [[(''name'', JStr ''pay'')],
      [(''name'', JStr ''odd''), (''capabilities'', JNull)]]))\<rparr>) []) ([], 0) = (([], 0), Inl x)"
  using malformed_entry_fails_discovery [of "sample_server\<lparr>ms_list := (\<lambda>s. (s, Served [[(''name'', JStr ''pay'')],
      [(''name'', JStr ''odd''), (''capabilities'', JNull)]]))\<rparr>" 0 0 "[[(''name'', JStr ''pay'')]]"
      "[(''name'', JStr ''odd''), (''capabilities'', JNull)]" "[]" "''odd''" 0 "[]" "[]"]
  by simp

text \<open>The newest version is the greatest text. Of versions nine and ten of a tool, an unversioned look-up
returns nine.\<close>

theorem newest_is_lexicographic:
  "td_version (the (tool_get ''pay'' None (tool_register (sample_tool ''10.0.0'' []) (tool_register (sample_tool ''9.0.0'' []) [])))) = ''9.0.0''"
  by code_simp

end
