(* ===== verification/Migrations.thy ===== *)
theory Migrations imports Encodings begin

text \<open>
  The migration scripts (\<open>migrations/sql_script.py\<close>): \<open>split_sql_statements\<close> cuts a script at its top-level
  semicolons with a scanner that knows comments, quoted text and dollar quotes, and \<open>execute_sql_script\<close>
  sends the statements to the database in order. \<open>first_semicolon\<close> is the specification: where the first
  top-level semicolon of a text stands. The database is the argument \<open>exec\<close>.
\<close>

subsection \<open>The scanner\<close>

datatype sql_mode = Default | Line_Comment | Block_Comment | Dollar_Quote string | Single_Quote

definition word_char :: "char \<Rightarrow> bool" where
  "word_char c \<longleftrightarrow> (let n = of_char c :: nat in
     (65 \<le> n \<and> n \<le> 90) \<or> (97 \<le> n \<and> n \<le> 122) \<or> (48 \<le> n \<and> n \<le> 57) \<or> n = 95)"

definition starts :: "string \<Rightarrow> string \<Rightarrow> bool" where
  "starts t s \<longleftrightarrow> take (length t) s = t"

text \<open>\<open>_DOLLAR_TAG\<close>: \<open>$name$\<close> with a name that does not start with a digit, or \<open>$$\<close>.\<close>

definition dollar_tag :: "string \<Rightarrow> string option" where
  "dollar_tag s =
     (case s of
        [] \<Rightarrow> None
      | c # r \<Rightarrow>
          (let name = takeWhile word_char r in
           if c = CHR ''$'' \<and> starts ''$'' (drop (length name) r) \<and>
              (name = [] \<or> of_char (hd name) \<notin> {48 :: nat .. 57})
           then Some (CHR ''$'' # name @ ''$'') else None))"

text \<open>One turn of the scanning loop on a text that is not empty: the next mode, what is appended to the
  buffer, and the text that is left. The top-level semicolon is \<open>split_from\<close>'s.\<close>

definition scan :: "sql_mode \<Rightarrow> string \<Rightarrow> sql_mode \<times> string \<times> string" where
  "scan m s =
     (let c = hd s; pair = take 2 s in
      case m of
        Line_Comment \<Rightarrow> (if c = CHR 0x0A then Default else Line_Comment, [c], tl s)
      | Block_Comment \<Rightarrow>
          (if pair = ''*/'' then (Default, pair, drop 2 s) else (Block_Comment, [c], tl s))
      | Dollar_Quote t \<Rightarrow>
          (if starts t s then (Default, t, drop (length t) s) else (Dollar_Quote t, [c], tl s))
      | Single_Quote \<Rightarrow>
          (if c = CHR 0x27
           then if pair = [CHR 0x27, CHR 0x27] then (Single_Quote, pair, drop 2 s)
                else (Default, [c], tl s)
           else (Single_Quote, [c], tl s))
      | Default \<Rightarrow>
          (if pair = ''--'' then (Line_Comment, pair, drop 2 s)
           else if pair = ''/*'' then (Block_Comment, pair, drop 2 s)
           else if c = CHR 0x27 then (Single_Quote, [c], tl s)
           else case dollar_tag s of
                  Some t \<Rightarrow> (Dollar_Quote t, t, drop (length t) s)
                | None \<Rightarrow> (Default, [c], tl s)))"

text \<open>A closing tag that is empty would consume nothing; it only leaves the mode.\<close>

definition scan_size :: "sql_mode \<Rightarrow> string \<Rightarrow> nat" where
  "scan_size m s = 2 * length s + (if m = Dollar_Quote [] then 1 else 0)"

definition tag_name :: "string \<Rightarrow> bool" where
  "tag_name name \<longleftrightarrow> list_all word_char name \<and> (name = [] \<or> of_char (hd name) \<notin> {48 :: nat .. 57})"

lemma dollar_not_word [simp]: "\<not> word_char (CHR ''$'')"
  by (simp add: word_char_def)

lemma starts_drop: "starts t s \<Longrightarrow> t @ drop (length t) s = s"
  unfolding starts_def by (metis append_take_drop_id)

lemma starts_append: "starts t s \<longleftrightarrow> (\<exists>r. s = t @ r)"
  unfolding starts_def by (metis append_eq_conv_conj)

lemma take_word: "list_all word_char name \<Longrightarrow> takeWhile word_char (name @ CHR ''$'' # r) = name"
  by (induction name) auto

lemma dollar_tag_Some:
  "dollar_tag s = Some t \<longleftrightarrow>
     (\<exists>name r. s = CHR ''$'' # name @ CHR ''$'' # r \<and> t = CHR ''$'' # name @ ''$'' \<and> tag_name name)"
proof
  assume d: "dollar_tag s = Some t"
  then obtain c r where s: "s = c # r" by (cases s) (auto simp: dollar_tag_def)
  let ?n = "takeWhile word_char r"
  from d s have c: "c = CHR ''$''" and q: "starts ''$'' (drop (length ?n) r)" and t: "t = CHR ''$'' # ?n @ ''$''"
    and h: "?n = [] \<or> of_char (hd ?n) \<notin> {48 :: nat .. 57}"
    by (auto simp: dollar_tag_def Let_def split: if_splits)
  from q obtain r' where "drop (length ?n) r = CHR ''$'' # r'" by (auto simp: starts_append)
  then have "r = ?n @ CHR ''$'' # r'" by (metis takeWhile_eq_take append_take_drop_id)
  moreover have "tag_name ?n" using h by (auto simp: tag_name_def list_all_iff dest: set_takeWhileD)
  ultimately show "\<exists>name r. s = CHR ''$'' # name @ CHR ''$'' # r \<and> t = CHR ''$'' # name @ ''$'' \<and> tag_name name"
    using s c t by blast
next
  assume "\<exists>name r. s = CHR ''$'' # name @ CHR ''$'' # r \<and> t = CHR ''$'' # name @ ''$'' \<and> tag_name name"
  then show "dollar_tag s = Some t"
    by (auto simp: dollar_tag_def tag_name_def take_word starts_def Let_def)
qed

lemma dollar_tag_starts: "dollar_tag s = Some t \<Longrightarrow> starts t s \<and> t \<noteq> []"
  by (auto simp: dollar_tag_Some starts_append)

lemma pair_drop: "take 2 s = [a, b] \<Longrightarrow> a # b # drop 2 s = s"
  by (cases s; cases "tl s") auto

lemma hd_tl: "s \<noteq> [] \<Longrightarrow> hd s = c \<Longrightarrow> c # tl s = s"
  by (cases s) auto

lemma scan_concat: "s \<noteq> [] \<Longrightarrow> scan m s = (m', e, r) \<Longrightarrow> e @ r = s"
  by (cases m)
     (auto simp: scan_def Let_def pair_drop starts_drop hd_tl dest!: dollar_tag_starts
       split: if_splits option.splits)

lemma scan_emits:
  "s \<noteq> [] \<Longrightarrow> scan m s = (m', e, r) \<Longrightarrow> m' \<noteq> Dollar_Quote [] \<and> (e = [] \<longrightarrow> m = Dollar_Quote [])"
  by (cases m)
     (auto simp: scan_def Let_def starts_def dest!: dollar_tag_starts split: if_splits option.splits)

lemma scan_size:
  assumes "s \<noteq> []" "scan m s = (m', e, r)" shows "scan_size m' r < scan_size m s"
  using scan_emits [OF assms] arg_cong [OF scan_concat [OF assms], of length]
  by (cases e) (auto simp: scan_size_def)

function split_from :: "sql_mode \<Rightarrow> string \<Rightarrow> string list \<Rightarrow> string \<Rightarrow> string list" where
  "split_from m buffer statements s =
     (if s = [] then
        (let tail = strip_by is_space buffer in statements @ (if tail = [] then [] else [tail]))
      else if m = Default \<and> hd s = CHR '';'' then
        (let statement = strip_by is_space buffer in
         split_from Default [] (statements @ (if statement = [] then [] else [statement])) (tl s))
      else
        (let (m', e, r) = scan m s in split_from m' (buffer @ e) statements r))"
  by pat_completeness auto
termination
proof (relation "measure (\<lambda>(m, b, out, s). scan_size m s)", goal_cases)
  case 1 show ?case by simp
next
  case (2 m b out s x) then show ?case by (cases s) (auto simp: scan_size_def)
next
  case (3 m b out s x m' y e r) then show ?case by (auto intro!: scan_size [where e = e])
qed

declare split_from.simps [simp del]

text \<open>\<open>_is_comment_only\<close>: the block comments are cut out from the left, up to the nearest end, and every line that
  is left is empty or a line comment.\<close>

function after_close :: "string \<Rightarrow> string option" where
  "after_close s =
     (if s = [] then None else if starts ''*/'' s then Some (drop 2 s) else after_close (tl s))"
  by pat_completeness auto
termination by (relation "measure length") auto

lemma after_close_shorter: "after_close s = Some r \<Longrightarrow> length r < length s"
  by (induction s rule: after_close.induct) (subst (asm) (2) after_close.simps; auto split: if_splits)

declare after_close.simps [simp del]

function drop_block_comments :: "string \<Rightarrow> string" where
  "drop_block_comments s =
     (if s = [] then []
      else case (if starts ''/*'' s then after_close (drop 2 s) else None) of
             Some r \<Rightarrow> drop_block_comments r
           | None \<Rightarrow> hd s # drop_block_comments (tl s))"
  by pat_completeness auto
termination
  by (relation "measure length") (auto dest!: after_close_shorter split: if_splits)

declare drop_block_comments.simps [simp del]

definition line_boundary :: "char \<Rightarrow> bool" where
  "line_boundary c \<longleftrightarrow> (let n = of_char c :: nat in (10 \<le> n \<and> n \<le> 13) \<or> (28 \<le> n \<and> n \<le> 30) \<or> n = 133)"

function split_lines :: "string \<Rightarrow> string \<Rightarrow> string list" where
  "split_lines line [] = (if line = [] then [] else [line])"
| "split_lines line (c # cs) =
     (if c = CHR 0x0D \<and> starts [CHR 0x0A] cs then line # split_lines [] (tl cs)
      else if line_boundary c then line # split_lines [] cs
      else split_lines (line @ [c]) cs)"
  by pat_completeness auto
termination by (relation "measure (\<lambda>(l, s). length s)") auto

definition comment_only :: "string \<Rightarrow> bool" where
  "comment_only statement \<longleftrightarrow>
     (let lines = map (strip_by is_space) (split_lines [] (drop_block_comments statement)) in
      \<forall>line\<in>set lines. line = [] \<or> starts ''--'' line)"

definition split_sql_statements :: "string \<Rightarrow> string list" where
  "split_sql_statements script =
     filter (\<lambda>s. \<not> comment_only s) (split_from Default [] [] script)"

text \<open>\<open>execute_sql_script\<close>: the statements one after another; a statement the database refuses raises, and the ones
  behind it are not sent. \<open>exec\<close> is the \<open>execute\<close> of the operations object.\<close>

fun execute_all :: "(string \<Rightarrow> 'db \<Rightarrow> 'e + 'db) \<Rightarrow> string list \<Rightarrow> 'db \<Rightarrow> 'e + 'db" where
  "execute_all exec [] db = Inr db"
| "execute_all exec (s # ss) db =
     (case exec s db of Inl e \<Rightarrow> Inl e | Inr db' \<Rightarrow> execute_all exec ss db')"

definition execute_sql_script :: "(string \<Rightarrow> 'db \<Rightarrow> 'e + 'db) \<Rightarrow> string \<Rightarrow> 'db \<Rightarrow> 'e + 'db" where
  "execute_sql_script exec script = execute_all exec (split_sql_statements script)"

subsection \<open>Top-level semicolons\<close>

function first_semicolon :: "sql_mode \<Rightarrow> string \<Rightarrow> nat option" where
  "first_semicolon m s =
     (if s = [] then None
      else if m = Default \<and> hd s = CHR '';'' then Some 0
      else (let (m', e, r) = scan m s in map_option ((+) (length e)) (first_semicolon m' r)))"
  by pat_completeness auto
termination by (relation "measure (\<lambda>(m, s). scan_size m s)") (auto intro: scan_size [OF _ sym])

declare first_semicolon.simps [simp del]

lemma first_semicolon_Nil [simp]: "first_semicolon m [] = None"
  by (simp add: first_semicolon.simps)

lemma first_semicolon_step:
  "s \<noteq> [] \<Longrightarrow> \<not> (m = Default \<and> hd s = CHR '';'') \<Longrightarrow> scan m s = (m', e, r) \<Longrightarrow>
     first_semicolon m s = map_option ((+) (length e)) (first_semicolon m' r)"
  by (subst first_semicolon.simps) auto

lemma starts_prefix: "length t \<le> length p \<Longrightarrow> starts t (p @ q) \<longleftrightarrow> starts t p"
  by (simp add: starts_def)

lemma starts_length: "starts t s \<Longrightarrow> length t \<le> length s"
  unfolding starts_def by (metis length_take min.cobounded1 min.commute)

lemma short_dollar_quote: "length p < length t \<Longrightarrow> first_semicolon (Dollar_Quote t) p = None"
proof (induction p)
  case (Cons c p)
  then have "\<not> starts t (c # p)" using starts_length [of t "c # p"] by auto
  then have "scan (Dollar_Quote t) (c # p) = (Dollar_Quote t, [c], p)" by (simp add: scan_def)
  with Cons show ?case by (simp add: first_semicolon_step)
qed simp

lemma plain_words: "list_all word_char p \<Longrightarrow> first_semicolon Default p = None"
proof (induction p)
  case (Cons c p)
  then have c: "word_char c" by simp
  then have "c \<notin> {CHR ''-'', CHR ''/'', CHR 0x27, CHR ''$'', CHR '';''}" by (auto simp: word_char_def)
  then have "scan Default (c # p) = (Default, [c], p)" "c \<noteq> CHR '';''"
    by (auto simp: scan_def Let_def dollar_tag_def)
  with Cons show ?case by (simp add: first_semicolon_step)
qed simp

lemma open_tag: "list_all word_char p \<Longrightarrow> first_semicolon Default (CHR ''$'' # p) = None"
proof -
  assume p: "list_all word_char p"
  then have "dollar_tag (CHR ''$'' # p) = None"
    by (auto simp: dollar_tag_Some simp del: not_None_eq simp flip: not_Some_eq)
  then have "scan Default (CHR ''$'' # p) = (Default, ''$'', p)" by (simp add: scan_def Let_def)
  with p show ?thesis by (simp add: first_semicolon_step plain_words)
qed

lemma take_prefix: "n \<le> length p \<Longrightarrow> take n (p @ q) = take n p"
  by simp

lemma single_char: "length p < 2 \<Longrightarrow> p \<noteq> [] \<Longrightarrow> p = [hd p]"
  by (cases p; cases "tl p") auto

lemma no_dollar_tag: "length p < 2 \<Longrightarrow> dollar_tag p = None"
  by (cases "dollar_tag p") (auto simp: dollar_tag_Some)

lemma dollar_tag_app: "dollar_tag p = Some t \<Longrightarrow> dollar_tag (p @ q) = Some t"
  by (auto simp: dollar_tag_Some)

lemma lone_char:
  assumes "c \<noteq> CHR '';''" shows "first_semicolon Default [c] = None"
proof -
  have "scan Default [c] = (if c = CHR 0x27 then Single_Quote else Default, [c], [])"
    by (simp add: scan_def Let_def no_dollar_tag)
  with assms show ?thesis by (simp add: first_semicolon_step)
qed

text \<open>What the scanner does on a prefix of a text: the same turn, when the token lies in the prefix, and otherwise
  the prefix ends within the token and holds no top-level semicolon.\<close>

definition cut_turn :: "sql_mode \<Rightarrow> string \<Rightarrow> string \<Rightarrow> bool" where
  "cut_turn m p q \<longleftrightarrow>
     (let (m', e, r) = scan m (p @ q) in
      (\<exists>p'. p = e @ p' \<and> r = p' @ q \<and> scan m p = (m', e, p')) \<or>
      (length p < length e \<and> first_semicolon m p = None))"

lemma cut_pair:
  assumes "p \<noteq> []" and "scan m (p @ q) = (m', take 2 (p @ q), drop 2 (p @ q))"
    and "2 \<le> length p \<Longrightarrow> scan m p = (m', take 2 p, drop 2 p)"
    and "length p = 1 \<Longrightarrow> 2 \<le> length (p @ q) \<and> first_semicolon m p = None"
  shows "cut_turn m p q"
proof (cases "2 \<le> length p")
  case True
  then show ?thesis using assms(2,3) unfolding cut_turn_def by (auto intro!: exI [of _ "drop 2 p"])
next
  case False
  then have "length p = 1" using assms(1) by (cases p; cases "tl p") auto
  then show ?thesis using assms(2,4) unfolding cut_turn_def by auto
qed

lemma cut_char:
  assumes "p \<noteq> []" and "snd (scan m (p @ q)) = ([hd p], tl p @ q)"
    and "scan m p = (fst (scan m (p @ q)), [hd p], tl p)"
  shows "cut_turn m p q"
  using assms unfolding cut_turn_def by (auto simp: case_prod_beta intro!: exI [of _ "tl p"])

lemma cut_line_comment: "p \<noteq> [] \<Longrightarrow> cut_turn Line_Comment p q"
  by (rule cut_char) (auto simp: scan_def Let_def)

lemma pair_of_prefix: "p \<noteq> [] \<Longrightarrow> take 2 (p @ q) \<noteq> [a, b] \<Longrightarrow> take 2 p \<noteq> [a, b]"
  by (cases p; cases "tl p") auto

lemma cut_block_comment:
  assumes "p \<noteq> []" shows "cut_turn Block_Comment p q"
proof (cases "take 2 (p @ q) = ''*/''")
  case True
  show ?thesis
  proof (rule cut_pair [OF assms])
    assume "length p = 1"
    then have "p = ''*''" using True by (cases p) auto
    then show "2 \<le> length (p @ q) \<and> first_semicolon Block_Comment p = None"
      using arg_cong [OF True, of length] by (simp add: first_semicolon_step scan_def)
  qed (use True in \<open>auto simp: scan_def Let_def\<close>)
next
  case False
  with pair_of_prefix [OF assms False] assms show ?thesis
    by (intro cut_char) (auto simp: scan_def Let_def)
qed

lemma cut_single_quote:
  assumes "p \<noteq> []" shows "cut_turn Single_Quote p q"
proof (cases "take 2 (p @ q) = [CHR 0x27, CHR 0x27]")
  case True
  then have h: "hd (p @ q) = CHR 0x27" by (cases "p @ q") auto
  show ?thesis
  proof (rule cut_pair [OF assms])
    assume "length p = 1"
    then have "p = [CHR 0x27]" using True by (cases p) auto
    then show "2 \<le> length (p @ q) \<and> first_semicolon Single_Quote p = None"
      using arg_cong [OF True, of length] by (simp add: first_semicolon_step scan_def)
  qed (use True h assms in \<open>auto simp: scan_def Let_def\<close>)
next
  case False
  with pair_of_prefix [OF assms False] assms show ?thesis
    by (intro cut_char) (auto simp: scan_def Let_def)
qed

lemma cut_dollar_quote:
  assumes "p \<noteq> []" shows "cut_turn (Dollar_Quote t) p q"
proof (cases "starts t (p @ q)")
  case True
  show ?thesis
  proof (cases "length t \<le> length p")
    case len: True
    then have s: "starts t p" using True by (simp add: starts_prefix)
    then show ?thesis unfolding cut_turn_def using True len starts_drop [OF s]
      by (auto simp: scan_def intro!: exI [of _ "drop (length t) p"])
  next
    case False
    then show ?thesis unfolding cut_turn_def using True short_dollar_quote [of p t] by (simp add: scan_def)
  qed
next
  case False
  then have "\<not> starts t p" by (auto simp: starts_append)
  with False assms show ?thesis by (intro cut_char) (auto simp: scan_def)
qed

lemma cut_tag:
  assumes "dollar_tag (p @ q) = Some t"
    and "take 2 (p @ q) \<noteq> ''--''" "take 2 (p @ q) \<noteq> ''/*''" "take 2 p \<noteq> ''--''" "take 2 p \<noteq> ''/*''"
    and "hd p \<noteq> CHR 0x27" "p \<noteq> []" "hd p \<noteq> CHR '';''"
  shows "cut_turn Default p q"
proof -
  obtain name r where s: "p @ q = CHR ''$'' # name @ CHR ''$'' # r" and t: "t = CHR ''$'' # name @ ''$''"
    and n: "tag_name name" using assms(1) by (auto simp: dollar_tag_Some)
  have long: "scan Default (p @ q) = (Dollar_Quote t, t, drop (length t) (p @ q))"
    using assms by (simp add: scan_def Let_def)
  show ?thesis
  proof (cases "length t \<le> length p")
    case True
    have "starts t (p @ q)" using dollar_tag_starts [OF assms(1)] by simp
    with True have "starts t p" by (simp add: starts_prefix)
    then obtain p' where p: "p = t @ p'" by (auto simp: starts_append)
    then have "dollar_tag p = Some t" using n t by (auto simp: dollar_tag_Some)
    then show ?thesis unfolding cut_turn_def long using assms p by (simp add: scan_def Let_def)
  next
    case False
    have "p = take (length p) (CHR ''$'' # name @ CHR ''$'' # r)" by (metis s append_eq_conv_conj)
    also have "\<dots> = CHR ''$'' # take (length p - 1) name"
      using False t assms(7) by (cases p) auto
    finally have "p = CHR ''$'' # take (length p - 1) name" .
    moreover have "list_all word_char (take (length p - 1) name)"
      using n by (auto simp: tag_name_def list_all_iff dest: in_set_takeD)
    ultimately have "first_semicolon Default p = None" using open_tag by metis
    then show ?thesis unfolding cut_turn_def long using False by simp
  qed
qed

lemma cut_default:
  assumes "p \<noteq> []" "hd p \<noteq> CHR '';''" shows "cut_turn Default p q"
proof -
  have lone: "first_semicolon Default p = None" if "length p = 1"
    using that assms(2) by (cases p) (auto simp: lone_char)
  consider (line) "take 2 (p @ q) = ''--''" | (block) "take 2 (p @ q) = ''/*''"
    | (other) "take 2 (p @ q) \<noteq> ''--''" "take 2 (p @ q) \<noteq> ''/*''" by blast
  then show ?thesis
  proof cases
    case line
    with lone arg_cong [OF line, of length] show ?thesis by (intro cut_pair assms) (auto simp: scan_def Let_def)
  next
    case block
    with lone arg_cong [OF block, of length] show ?thesis by (intro cut_pair assms) (auto simp: scan_def Let_def)
  next
    case other
    note short = pair_of_prefix [OF assms(1) other(1)] pair_of_prefix [OF assms(1) other(2)]
    show ?thesis
    proof (cases "hd p = CHR 0x27")
      case True
      with other short assms show ?thesis by (intro cut_char) (auto simp: scan_def Let_def)
    next
      case plain: False
      show ?thesis
      proof (cases "dollar_tag (p @ q)")
        case None
        then have "dollar_tag p = None"
          using dollar_tag_app [of p _ q] by (cases "dollar_tag p") auto
        with None other short plain assms show ?thesis by (intro cut_char) (auto simp: scan_def Let_def)
      next
        case (Some t)
        then show ?thesis using other short plain assms by (rule cut_tag)
      qed
    qed
  qed
qed


lemma cut_turn: "p \<noteq> [] \<Longrightarrow> \<not> (m = Default \<and> hd p = CHR '';'') \<Longrightarrow> cut_turn m p q"
  by (cases m) (auto intro: cut_default cut_line_comment cut_block_comment cut_single_quote cut_dollar_quote)

text \<open>The semicolons of a prefix are the semicolons of the text that lie in it.\<close>

lemma first_semicolon_prefix:
  "first_semicolon m p =
     (case first_semicolon m (p @ q) of None \<Rightarrow> None | Some k \<Rightarrow> if k < length p then Some k else None)"
proof (induction "scan_size m p" arbitrary: m p rule: less_induct)
  case less
  show ?case
  proof (cases "p = [] \<or> (m = Default \<and> hd p = CHR '';'')")
    case True
    then show ?thesis by (cases p) (auto simp: first_semicolon.simps [of Default] split: option.splits)
  next
    case False
    obtain m' e r where sc: "scan m (p @ q) = (m', e, r)" by (cases "scan m (p @ q)")
    have step: "first_semicolon m (p @ q) = map_option ((+) (length e)) (first_semicolon m' r)"
      using False sc by (intro first_semicolon_step) auto
    consider (turn) p' where "p = e @ p'" "r = p' @ q" "scan m p = (m', e, p')"
      | (cut) "length p < length e" "first_semicolon m p = None"
      using cut_turn [of p m q] False sc by (auto simp: cut_turn_def)
    then show ?thesis
    proof cases
      case turn
      have "first_semicolon m' p' = (case first_semicolon m' (p' @ q) of None \<Rightarrow> None
          | Some k \<Rightarrow> if k < length p' then Some k else None)"
        using False turn by (intro less) (auto intro: scan_size)
      moreover have "first_semicolon m p = map_option ((+) (length e)) (first_semicolon m' p')"
        using False turn by (intro first_semicolon_step) auto
      moreover have "first_semicolon m (p @ q) = map_option ((+) (length e)) (first_semicolon m' (p' @ q))"
        using step turn by simp
      moreover have "length p = length e + length p'" using turn by simp
      ultimately show ?thesis by (cases "first_semicolon m' (p' @ q)") simp_all
    next
      case cut
      then show ?thesis by (auto simp: step split: option.splits)
    qed
  qed
qed

lemma single_prefix: "first_semicolon m (p @ q) = None \<Longrightarrow> first_semicolon m p = None"
  using first_semicolon_prefix [of m p q] by simp

lemma single_before: "first_semicolon m s = Some k \<Longrightarrow> first_semicolon m (take k s) = None"
  using first_semicolon_prefix [of m "take k s" "drop k s"] by simp

lemma blank_turn: "is_space c \<Longrightarrow> first_semicolon Default (c # s) = map_option Suc (first_semicolon Default s)"
proof -
  assume "is_space c"
  then have c: "c \<notin> {CHR ''-'', CHR ''/'', CHR 0x27, CHR ''$'', CHR '';''}" by (auto simp: is_space_def)
  then have "dollar_tag (c # s) = None" by (simp add: dollar_tag_def Let_def)
  with c have "scan Default (c # s) = (Default, [c], s)" by (auto simp: scan_def Let_def)
  with c show ?thesis by (simp add: first_semicolon_step) (cases "first_semicolon Default s"; simp)
qed

lemma single_lstrip: "first_semicolon Default s = None \<Longrightarrow> first_semicolon Default (dropWhile is_space s) = None"
  by (induction s) (auto simp: blank_turn)

lemma rstrip_prefix: "\<exists>w. s = rev (dropWhile p (rev s)) @ w"
  by (rule exI [of _ "rev (takeWhile p (rev s))"]) (metis rev_append rev_rev_ident takeWhile_dropWhile_id)

lemma single_strip: "first_semicolon Default s = None \<Longrightarrow> first_semicolon Default (strip_by is_space s) = None"
  unfolding strip_by_def using single_lstrip rstrip_prefix single_prefix by metis

subsection \<open>The statements of a script\<close>

lemma first_semicolon_less:
  assumes "first_semicolon m s = Some k" shows "k < length s"
proof -
  have "Some k = (if k < length s then Some k else None)"
    using first_semicolon_prefix [of m s "[]"] by (simp only: append_Nil2 assms option.case)
  then show ?thesis by (simp split: if_splits)
qed

lemma first_semicolon_char: "first_semicolon m s = Some k \<Longrightarrow> s ! k = CHR '';''"
proof (induction m s arbitrary: k rule: first_semicolon.induct)
  case (1 m s)
  show ?case
  proof (cases "s = [] \<or> (m = Default \<and> hd s = CHR '';'')")
    case True
    with 1(2) show ?thesis by (cases s) (auto simp: first_semicolon.simps [of Default] first_semicolon.simps [of m])
  next
    case False
    obtain m' e r where sc: "scan m s = (m', e, r)" by (cases "scan m s")
    with False 1(2) obtain j where j: "first_semicolon m' r = Some j" "k = length e + j"
      by (auto simp: first_semicolon_step)
    have "r ! j = CHR '';''" using 1(1) [OF _ _ sc [symmetric] refl refl j(1)] False by auto
    with j scan_concat [OF _ sc] False show ?thesis by (metis nth_append_length_plus)
  qed
qed

function fragments :: "string \<Rightarrow> string list" where
  "fragments s =
     (case first_semicolon Default s of None \<Rightarrow> [s] | Some k \<Rightarrow> take k s # fragments (drop (Suc k) s))"
  by pat_completeness auto
termination by (relation "measure length") (auto dest: first_semicolon_less)

declare fragments.simps [simp del]

definition kept :: "string \<Rightarrow> string list" where
  "kept f = (let t = strip_by is_space f in if t = [] then [] else [t])"

lemma fragments_single: "f \<in> set (fragments s) \<Longrightarrow> first_semicolon Default f = None"
proof (induction s rule: fragments.induct)
  case (1 s)
  then show ?case
    by (cases "first_semicolon Default s") (auto simp: fragments.simps [of s] dest: single_before)
qed

lemma join_Cons: "fs \<noteq> [] \<Longrightarrow> join sep (f # fs) = f @ sep @ join sep fs"
  by (cases fs) auto

lemma fragments_join: "join '';'' (fragments s) = s"
proof (induction s rule: fragments.induct)
  case (1 s)
  show ?case
  proof (cases "first_semicolon Default s")
    case (Some k)
    then have "s = take k s @ s ! k # drop (Suc k) s" by (intro id_take_nth_drop first_semicolon_less)
    moreover have "fragments (drop (Suc k) s) \<noteq> []"
      by (subst fragments.simps) (simp split: option.split)
    ultimately show ?thesis using 1 [OF Some] Some first_semicolon_char [OF Some]
      by (simp add: fragments.simps [of s] join_Cons)
  qed (simp add: fragments.simps [of s])
qed

lemma split_from_next:
  "split_from m b out s =
     (case first_semicolon m s of
        None \<Rightarrow> out @ kept (b @ s)
      | Some k \<Rightarrow> split_from Default [] (out @ kept (b @ take k s)) (drop (Suc k) s))"
proof (induction "scan_size m s" arbitrary: m b s rule: less_induct)
  case less
  show ?case
  proof (cases "s = [] \<or> (m = Default \<and> hd s = CHR '';'')")
    case True
    then show ?thesis
      by (cases s) (auto simp: split_from.simps [of _ b] first_semicolon.simps [of Default] kept_def Let_def)
  next
    case False
    obtain m' e r where sc: "scan m s = (m', e, r)" by (cases "scan m s")
    with False have "split_from m b out s = split_from m' (b @ e) out r"
      by (subst split_from.simps) auto
    also have "\<dots> = (case first_semicolon m' r of None \<Rightarrow> out @ kept ((b @ e) @ r)
        | Some k \<Rightarrow> split_from Default [] (out @ kept ((b @ e) @ take k r)) (drop (Suc k) r))"
      using False sc by (intro less) (auto intro: scan_size)
    finally show ?thesis using False sc scan_concat [OF _ sc]
      by (auto simp: first_semicolon_step split: option.split)
  qed
qed

lemma split_from_fragments: "split_from Default [] out s = out @ concat (map kept (fragments s))"
proof (induction s arbitrary: out rule: fragments.induct)
  case (1 s)
  show ?case
    by (subst split_from_next) (auto simp: fragments.simps [of s] 1 split: option.split)
qed

lemma concat_kept:
  "concat (map kept fs) = filter (\<lambda>t. t \<noteq> []) (map (strip_by is_space) fs)"
  by (induction fs) (auto simp: kept_def Let_def)

lemma strip_by_idem: "strip_by p (strip_by p s) = strip_by p s"
proof -
  have l: "dropWhile p (dropWhile p t) = dropWhile p t" for t by (induction t) auto
  let ?u = "rev (dropWhile p s)"
  obtain w where w: "dropWhile p s = strip_by p s @ w"
    unfolding strip_by_def using rstrip_prefix [of "dropWhile p s" p] by blast
  have "dropWhile p (strip_by p s) = strip_by p s"
  proof (cases "strip_by p s")
    case (Cons c cs)
    with w have "hd (dropWhile p s) = c" "dropWhile p s \<noteq> []" by auto
    then have "\<not> p c" using hd_dropWhile [of p s] by auto
    then show ?thesis by (simp add: Cons)
  qed simp
  then show ?thesis by (simp add: strip_by_def l)
qed

lemma split_sql_statements_eq:
  "split_sql_statements s =
     filter (\<lambda>t. t \<noteq> [] \<and> \<not> comment_only t) (map (strip_by is_space) (fragments s))"
  by (simp add: split_sql_statements_def split_from_fragments concat_kept conj_commute)

lemma statement_again: "t \<in> set (split_sql_statements s) \<Longrightarrow> split_sql_statements t = [t]"
proof -
  assume "t \<in> set (split_sql_statements s)"
  then obtain f where f: "f \<in> set (fragments s)" and t: "t = strip_by is_space f" "t \<noteq> []" "\<not> comment_only t"
    by (auto simp: split_sql_statements_eq)
  have "first_semicolon Default t = None" unfolding t(1) by (intro single_strip fragments_single [OF f])
  then have "fragments t = [t]" by (simp add: fragments.simps)
  moreover have "strip_by is_space t = t" by (simp add: t(1) strip_by_idem)
  ultimately show ?thesis using t(2,3) by (simp add: split_sql_statements_eq)
qed

lemma execute_all_cong:
  "(\<And>s db. s \<in> set ss \<Longrightarrow> exec s db = exec' s db) \<Longrightarrow> execute_all exec ss db = execute_all exec' ss db"
  by (induction ss arbitrary: db) (auto split: sum.split)


definition sample_script :: string where
  "sample_script = ''-- one; two'' @ [CHR 0x0A] @ ''DO $x$ a; b $x$ ;/* ; */;INSERT ('' @ [CHR 0x27] @ '';'' @ [CHR 0x27] @ '');''"


text \<open>A block comment opener inside a line comment is taken for a comment by the check for comment-only fragments,
  though not by the scanner: the statement below the line is dropped, and no error tells of it.\<close>

lemma line_comment_swallows_statement:
  "split_sql_statements (''-- rows /*'' @ [CHR 0x0A] @ ''DELETE FROM t /* all */;'') = []"
  by code_simp

text \<open>A double-quoted identifier is not quoted text to the scanner: a semicolon in it cuts the statement.\<close>

lemma quoted_identifier_cut:
  "split_sql_statements ''SELECT \"a;b\"'' = [''SELECT \"a'', ''b\"'']"
  by code_simp

end
