(* ===== verification/Observability.thy ===== *)
theory Observability imports Serving begin

text \<open>
  What the gateway reports of itself (\<open>observability\<close>): the metrics recorded on the request path and the log's
  redaction. The metrics library is the argument \<open>c\<close> of the recording functions: \<open>labels(...).inc()\<close> and
  \<open>labels(...).observe(...)\<close> on a registry, either of which may raise. A time series is the metric's name
  with its label values, in the order of its label names.
\<close>

subsection \<open>The label vocabularies\<close>

definition unknown_label :: string where "unknown_label = ''unknown''"

definition stage_actions :: "string list" where
  "stage_actions = [''continue'', ''annotate'', ''block'']"

definition execution_outcomes :: "string list" where
  "execution_outcomes =
     [''cache_hit'', ''executed'', ''not_routed'', ''budget_denied'', ''budget_unavailable'', ''not_accountable'']"

definition served_outcomes :: "string list" where
  "served_outcomes = execution_outcomes @ [''not_admitted'']"

definition cache_results :: "string list" where
  "cache_results = [''hit'', ''miss'']"

definition provider_outcomes :: "string list" where
  "provider_outcomes =
     [''ok'', ''timeout'', ''rate_limited'', ''server_error'', ''invalid_request'', ''authentication'', ''unclassified'']"

definition retry_verdicts :: "string list" where
  "retry_verdicts = [''succeeded'', ''retry'', ''terminal_failure'']"

definition routing_outcomes :: "string list" where
  "routing_outcomes = [''selected'', ''no_candidate'', ''blocked_by_policy'', ''budget_exceeded'', ''all_unhealthy'']"

definition evaluation_outcomes :: "string list" where
  "evaluation_outcomes = [''passed'', ''failed'', ''error'', ''not_applicable'']"

definition reservation_outcomes :: "string list" where
  "reservation_outcomes = [''reserved'', ''exceeded'', ''unavailable'']"

definition circuit_transitions :: "string list" where
  "circuit_transitions = [''opened'', ''closed'', ''half_opened'']"

definition ingress_controls :: "string list" where
  "ingress_controls = [''rate_limit'', ''body_size'']"

definition ingress_outcomes :: "string list" where
  "ingress_outcomes = [''allowed'', ''denied'', ''unavailable'']"

definition bounded_label :: "string \<Rightarrow> string list \<Rightarrow> string" where
  "bounded_label v allowed = (if v \<in> set allowed then v else unknown_label)"

subsection \<open>Recording\<close>

type_synonym series = "string \<times> string list"

record 'r metrics_client =
  mc_inc :: "string \<Rightarrow> string list \<Rightarrow> 'r \<Rightarrow> 'r \<times> unit res"
  mc_observe :: "string \<Rightarrow> string list \<Rightarrow> duration \<Rightarrow> 'r \<Rightarrow> 'r \<times> unit res"

text \<open>\<open>_record\<close>: whatever a metric's mutation raises stays here.\<close>

definition record_metric :: "('r \<Rightarrow> 'r \<times> unit res) \<Rightarrow> 'r \<Rightarrow> 'r" where
  "record_metric action r = (case action r of (r', Inl _) \<Rightarrow> r' | (r', Inr _) \<Rightarrow> r')"

definition record_admission_decision :: "'r metrics_client \<Rightarrow> string \<Rightarrow> string \<Rightarrow> 'r \<Rightarrow> 'r" where
  "record_admission_decision c stage action =
     record_metric (mc_inc c ''gateway_admission_stage_decisions_total'' [stage, bounded_label action stage_actions])"

definition record_served_request :: "'r metrics_client \<Rightarrow> string \<Rightarrow> duration \<Rightarrow> 'r \<Rightarrow> 'r" where
  "record_served_request c oc seconds r =
     (let bounded = bounded_label oc served_outcomes;
          r = record_metric (mc_inc c ''gateway_served_requests_total'' [bounded]) r in
      record_metric (mc_observe c ''gateway_served_request_duration_seconds'' [bounded] seconds) r)"

definition record_inference_attempt :: "'r metrics_client \<Rightarrow> string \<Rightarrow> 'r \<Rightarrow> 'r" where
  "record_inference_attempt c oc =
     record_metric (mc_inc c ''gateway_inference_attempts_total'' [bounded_label oc execution_outcomes])"

definition record_cache_lookup :: "'r metrics_client \<Rightarrow> bool \<Rightarrow> 'r \<Rightarrow> 'r" where
  "record_cache_lookup c hit =
     record_metric (mc_inc c ''gateway_cache_lookups_total'' [if hit then ''hit'' else ''miss''])"

definition record_provider_call :: "'r metrics_client \<Rightarrow> string \<Rightarrow> string \<Rightarrow> duration \<Rightarrow> 'r \<Rightarrow> 'r" where
  "record_provider_call c provider oc seconds r =
     (let bounded = bounded_label oc provider_outcomes;
          r = record_metric (mc_inc c ''gateway_provider_calls_total'' [provider, bounded]) r in
      record_metric (mc_observe c ''gateway_provider_call_duration_seconds'' [provider] seconds) r)"

definition record_reflection_attempt :: "'r metrics_client \<Rightarrow> string \<Rightarrow> 'r \<Rightarrow> 'r" where
  "record_reflection_attempt c v =
     record_metric (mc_inc c ''gateway_reflection_attempts_total'' [bounded_label v retry_verdicts])"

definition record_routing_decision :: "'r metrics_client \<Rightarrow> string \<Rightarrow> 'r \<Rightarrow> 'r" where
  "record_routing_decision c oc =
     record_metric (mc_inc c ''gateway_routing_decisions_total'' [bounded_label oc routing_outcomes])"

definition record_evaluation :: "'r metrics_client \<Rightarrow> string \<Rightarrow> string \<Rightarrow> 'r \<Rightarrow> 'r" where
  "record_evaluation c evaluator oc =
     record_metric (mc_inc c ''gateway_evaluations_total'' [evaluator, bounded_label oc evaluation_outcomes])"

definition record_budget_reservation :: "'r metrics_client \<Rightarrow> string \<Rightarrow> 'r \<Rightarrow> 'r" where
  "record_budget_reservation c oc =
     record_metric (mc_inc c ''gateway_budget_reservations_total'' [bounded_label oc reservation_outcomes])"

definition record_ingress_decision :: "'r metrics_client \<Rightarrow> string \<Rightarrow> string \<Rightarrow> 'r \<Rightarrow> 'r" where
  "record_ingress_decision c control oc =
     record_metric (mc_inc c ''gateway_ingress_decisions_total''
       [bounded_label control ingress_controls, bounded_label oc ingress_outcomes])"

definition record_circuit_transition :: "'r metrics_client \<Rightarrow> string \<Rightarrow> string \<Rightarrow> 'r \<Rightarrow> 'r" where
  "record_circuit_transition c provider transition =
     record_metric (mc_inc c ''gateway_provider_circuit_transitions_total''
       [provider, bounded_label transition circuit_transitions])"

text \<open>The calls of the request path, with whatever texts reach them.\<close>

datatype metric_event =
    Admission_Decision string string
  | Served_Request string duration
  | Inference_Attempt string
  | Cache_Lookup bool
  | Provider_Call string string duration
  | Reflection_Attempt string
  | Routing_Decided string
  | Evaluated string string
  | Budget_Reservation string
  | Ingress_Decision string string
  | Circuit_Transition string string

fun record_event :: "'r metrics_client \<Rightarrow> metric_event \<Rightarrow> 'r \<Rightarrow> 'r" where
  "record_event c (Admission_Decision stage action) r = record_admission_decision c stage action r"
| "record_event c (Served_Request oc d) r = record_served_request c oc d r"
| "record_event c (Inference_Attempt oc) r = record_inference_attempt c oc r"
| "record_event c (Cache_Lookup hit) r = record_cache_lookup c hit r"
| "record_event c (Provider_Call p oc d) r = record_provider_call c p oc d r"
| "record_event c (Reflection_Attempt v) r = record_reflection_attempt c v r"
| "record_event c (Routing_Decided oc) r = record_routing_decision c oc r"
| "record_event c (Evaluated e oc) r = record_evaluation c e oc r"
| "record_event c (Budget_Reservation oc) r = record_budget_reservation c oc r"
| "record_event c (Ingress_Decision control oc) r = record_ingress_decision c control oc r"
| "record_event c (Circuit_Transition p t) r = record_circuit_transition c p t r"

text \<open>The labels the deployment bounds: the stage, evaluator and provider names it is wired with.\<close>

fun configured :: "string set \<Rightarrow> string set \<Rightarrow> string set \<Rightarrow> metric_event \<Rightarrow> bool" where
  "configured stages evaluators providers (Admission_Decision s _) = (s \<in> stages)"
| "configured stages evaluators providers (Evaluated e _) = (e \<in> evaluators)"
| "configured stages evaluators providers (Provider_Call p _ _) = (p \<in> providers)"
| "configured stages evaluators providers (Circuit_Transition p _) = (p \<in> providers)"
| "configured stages evaluators providers _ = True"

text \<open>The documented behaviour of the metrics library that matters here: a mutation creates no series but its own.
  \<open>series\<close> reads the series a registry holds.\<close>

definition own_series_only :: "'r metrics_client \<Rightarrow> ('r \<Rightarrow> series set) \<Rightarrow> bool" where
  "own_series_only c series \<longleftrightarrow>
     (\<forall>name labels r. series (fst (mc_inc c name labels r)) \<subseteq> insert (name, labels) (series r)) \<and>
     (\<forall>name labels d r. series (fst (mc_observe c name labels d r)) \<subseteq> insert (name, labels) (series r))"

definition with_unknown :: "string list \<Rightarrow> string set" where
  "with_unknown vs = insert unknown_label (set vs)"

definition one_label :: "string \<Rightarrow> string set \<Rightarrow> series set" where
  "one_label name A = (\<lambda>a. (name, [a])) ` A"

definition two_labels :: "string \<Rightarrow> string set \<Rightarrow> string set \<Rightarrow> series set" where
  "two_labels name A B = (\<lambda>(a, b). (name, [a, b])) ` (A \<times> B)"

definition metric_series :: "string set \<Rightarrow> string set \<Rightarrow> string set \<Rightarrow> series set" where
  "metric_series stages evaluators providers =
     two_labels ''gateway_admission_stage_decisions_total'' stages (with_unknown stage_actions) \<union>
     (two_labels ''gateway_evaluations_total'' evaluators (with_unknown evaluation_outcomes) \<union>
     (two_labels ''gateway_provider_calls_total'' providers (with_unknown provider_outcomes) \<union>
     (two_labels ''gateway_provider_circuit_transitions_total'' providers (with_unknown circuit_transitions) \<union>
     (one_label ''gateway_provider_call_duration_seconds'' providers \<union>
     (one_label ''gateway_served_requests_total'' (with_unknown served_outcomes) \<union>
     (one_label ''gateway_served_request_duration_seconds'' (with_unknown served_outcomes) \<union>
     (one_label ''gateway_inference_attempts_total'' (with_unknown execution_outcomes) \<union>
     (one_label ''gateway_cache_lookups_total'' (set cache_results) \<union>
     (one_label ''gateway_reflection_attempts_total'' (with_unknown retry_verdicts) \<union>
     (one_label ''gateway_routing_decisions_total'' (with_unknown routing_outcomes) \<union>
     (one_label ''gateway_budget_reservations_total'' (with_unknown reservation_outcomes) \<union>
      two_labels ''gateway_ingress_decisions_total'' (with_unknown ingress_controls)
        (with_unknown ingress_outcomes))))))))))))"

lemma one_labelI: "a \<in> A \<Longrightarrow> (name, [a]) \<in> one_label name A"
  by (auto simp: one_label_def)

lemma two_labelsI: "a \<in> A \<Longrightarrow> b \<in> B \<Longrightarrow> (name, [a, b]) \<in> two_labels name A B"
  by (auto simp: two_labels_def)

lemma bounded_label: "bounded_label v allowed \<in> with_unknown allowed"
  by (simp add: bounded_label_def with_unknown_def)

lemma record_metric_fst [simp]: "record_metric action r = fst (action r)"
  by (auto simp: record_metric_def split: prod.split sum.split)

named_theorems recording
declare record_admission_decision_def [recording] record_served_request_def [recording]
  record_inference_attempt_def [recording] record_cache_lookup_def [recording]
  record_provider_call_def [recording] record_reflection_attempt_def [recording]
  record_routing_decision_def [recording] record_evaluation_def [recording]
  record_budget_reservation_def [recording] record_ingress_decision_def [recording]
  record_circuit_transition_def [recording]

lemma own_series:
  assumes "own_series_only c series"
  shows "(name, labels) \<in> A \<Longrightarrow> series r \<subseteq> A \<Longrightarrow> series (fst (mc_inc c name labels r)) \<subseteq> A"
    and "(name, labels) \<in> A \<Longrightarrow> series r \<subseteq> A \<Longrightarrow> series (fst (mc_observe c name labels d r)) \<subseteq> A"
  using assms unfolding own_series_only_def by blast+

lemma record_event_series:
  assumes "own_series_only c series" "configured S E P ev" "series r \<subseteq> B \<union> metric_series S E P"
  shows "series (record_event c ev r) \<subseteq> B \<union> metric_series S E P"
proof -
  note own = own_series [OF assms(1) _ assms(3)] own_series(2) [OF assms(1) _ own_series(1) [OF assms(1) _ assms(3)]]
  have hit: "(if h then ''hit'' else ''miss'') \<in> set cache_results" for h by (simp add: cache_results_def)
  note labels = bounded_label one_labelI two_labelsI hit
  show ?thesis
  proof (cases ev)
    case (Admission_Decision s a)
    with assms(2) show ?thesis
      by (simp add: recording, intro own) (unfold metric_series_def, blast intro: labels)
  next
    case (Served_Request oc d)
    show ?thesis unfolding Served_Request
      by (simp add: recording Let_def, intro own) (unfold metric_series_def, (blast intro: labels)+)
  next
    case (Inference_Attempt oc)
    show ?thesis unfolding Inference_Attempt
      by (simp add: recording, intro own) (unfold metric_series_def, blast intro: labels)
  next
    case (Cache_Lookup h)
    show ?thesis unfolding Cache_Lookup record_event.simps record_cache_lookup_def record_metric_fst
      by (intro own) (unfold metric_series_def, blast intro: labels)
  next
    case (Provider_Call p oc d)
    with assms(2) show ?thesis
      by (simp add: recording Let_def, intro own) (unfold metric_series_def, (blast intro: labels)+)
  next
    case (Reflection_Attempt v)
    show ?thesis unfolding Reflection_Attempt
      by (simp add: recording, intro own) (unfold metric_series_def, blast intro: labels)
  next
    case (Routing_Decided oc)
    show ?thesis unfolding Routing_Decided
      by (simp add: recording, intro own) (unfold metric_series_def, blast intro: labels)
  next
    case (Evaluated e oc)
    with assms(2) show ?thesis
      by (simp add: recording, intro own) (unfold metric_series_def, blast intro: labels)
  next
    case (Budget_Reservation oc)
    show ?thesis unfolding Budget_Reservation
      by (simp add: recording, intro own) (unfold metric_series_def, blast intro: labels)
  next
    case (Ingress_Decision k oc)
    show ?thesis unfolding Ingress_Decision
      by (simp add: recording, intro own) (unfold metric_series_def, blast intro: labels)
  next
    case (Circuit_Transition p t)
    with assms(2) show ?thesis
      by (simp add: recording, intro own) (unfold metric_series_def, blast intro: labels)
  qed
qed

lemma record_events_series:
  assumes "own_series_only c series" "\<forall>ev\<in>set evs. configured S E P ev" "series r \<subseteq> B \<union> metric_series S E P"
  shows "series (fold (record_event c) evs r) \<subseteq> B \<union> metric_series S E P"
  using assms(2,3)
  by (induction evs arbitrary: r) (auto dest: record_event_series [OF assms(1)])

lemma finite_series [simp, intro]:
  "finite A \<Longrightarrow> finite (one_label n A)" "finite A \<Longrightarrow> finite B \<Longrightarrow> finite (two_labels n A B)" "finite (with_unknown vs)"
  by (simp_all add: one_label_def two_labels_def with_unknown_def)

lemma card_one_label: "finite A \<Longrightarrow> card A \<le> k \<Longrightarrow> card (one_label n A) \<le> k"
  unfolding one_label_def by (meson card_image_le le_trans)

lemma card_two_labels:
  assumes "finite A" "finite B" "card A * card B \<le> k" shows "card (two_labels n A B) \<le> k"
proof -
  have "card (two_labels n A B) \<le> card (A \<times> B)"
    unfolding two_labels_def using assms by (intro card_image_le) simp
  with assms show ?thesis by (simp add: card_cartesian_product)
qed

lemma card_Un_bound: "card A \<le> m \<Longrightarrow> card B \<le> n \<Longrightarrow> card (A \<union> B) \<le> m + n"
  by (meson add_mono card_Un_le le_trans)

lemma card_with_unknown: "card (with_unknown vs) \<le> Suc (length vs)"
  unfolding with_unknown_def by (metis Suc_le_mono card_insert_le_m1 card_length card_insert_if finite_set le_SucI le_trans)

lemma card_metric_series:
  assumes "finite S" "finite E" "finite P"
  shows "card (metric_series S E P) \<le> 4 * card S + 5 * card E + 13 * card P + 51"
proof -
  note c = card_with_unknown
  have "card (metric_series S E P) \<le> card S * 4 + (card E * 5 + (card P * 8 + (card P * 4 + (card P +
      (8 + (8 + (7 + (2 + (4 + (6 + (4 + 3 * 4)))))))))))"
    unfolding metric_series_def
    by (intro card_Un_bound card_one_label card_two_labels mult_le_mono)
       (use assms c [of stage_actions] c [of evaluation_outcomes] c [of provider_outcomes] c [of circuit_transitions]
          c [of served_outcomes] c [of execution_outcomes] c [of retry_verdicts] c [of routing_outcomes]
          c [of reservation_outcomes] c [of ingress_controls] c [of ingress_outcomes] card_length [of cache_results] in
        \<open>simp_all add: stage_actions_def evaluation_outcomes_def provider_outcomes_def circuit_transitions_def
          served_outcomes_def execution_outcomes_def retry_verdicts_def routing_outcomes_def reservation_outcomes_def
          ingress_controls_def ingress_outcomes_def cache_results_def\<close>)
  then show ?thesis by simp
qed


definition sample_metrics :: "series list metrics_client" where
  "sample_metrics =
     \<lparr>mc_inc = \<lambda>name labels r. (List.insert (name, labels) r, Inr ()),
      mc_observe = \<lambda>name labels d r. (r, Inl ValueError)\<rparr>"


subsection \<open>What the request path records\<close>

text \<open>The values of the closed enumerations whose model carries no text of its own.\<close>

definition stage_action_value :: "stage_action \<Rightarrow> string" where
  "stage_action_value a = (case a of CONTINUE \<Rightarrow> ''continue'' | ANNOTATE \<Rightarrow> ''annotate'' | BLOCK \<Rightarrow> ''block'')"

definition retry_verdict_value :: "retry_verdict \<Rightarrow> string" where
  "retry_verdict_value v =
     (case v of SUCCEEDED \<Rightarrow> ''succeeded'' | RETRY \<Rightarrow> ''retry'' | TERMINAL_FAILURE \<Rightarrow> ''terminal_failure'')"

definition evaluation_outcome_value :: "evaluation_outcome \<Rightarrow> string" where
  "evaluation_outcome_value oc =
     (case oc of PASSED \<Rightarrow> ''passed'' | FAILED \<Rightarrow> ''failed'' | ERROR \<Rightarrow> ''error'' | NOT_APPLICABLE \<Rightarrow> ''not_applicable'')"

definition error_category_value :: "provider_error_category \<Rightarrow> string" where
  "error_category_value c =
     (case c of TIMEOUT \<Rightarrow> ''timeout'' | RATE_LIMITED \<Rightarrow> ''rate_limited'' | SERVER_ERROR \<Rightarrow> ''server_error''
      | INVALID_REQUEST \<Rightarrow> ''invalid_request'' | AUTHENTICATION \<Rightarrow> ''authentication'')"

definition failure_label :: "provider_error_category option \<Rightarrow> string" where
  "failure_label c = (case c of Some k \<Rightarrow> error_category_value k | None \<Rightarrow> ''unclassified'')"

definition call_label :: "provider_response \<Rightarrow> string" where
  "call_label resp = (if resp_ok resp then ''ok'' else failure_label (resp_category resp))"

text \<open>The label of a streamed call is the last terminal event that passed; a stream cut before one is unclassified.\<close>

definition stream_label :: "stream_event list \<Rightarrow> string" where
  "stream_label es =
     fold (\<lambda>e oc. case e of StreamChunk _ \<Rightarrow> oc | StreamCompleted _ \<Rightarrow> ''ok'' | StreamFailed _ c \<Rightarrow> failure_label c)
       es ''unclassified''"

lemma failure_label: "failure_label c \<in> set provider_outcomes"
  by (auto simp: failure_label_def error_category_value_def provider_outcomes_def
      split: option.split provider_error_category.split)

lemma stream_label: "stream_label es \<in> set provider_outcomes"
proof -
  have "l \<in> set provider_outcomes \<Longrightarrow>
      fold (\<lambda>e oc. case e of StreamChunk _ \<Rightarrow> oc | StreamCompleted _ \<Rightarrow> ''ok'' | StreamFailed _ c \<Rightarrow> failure_label c)
        es l \<in> set provider_outcomes" for l
  proof (induction es arbitrary: l)
    case (Cons e es)
    then show ?case by (cases e) (auto simp: failure_label, simp add: provider_outcomes_def)
  qed simp
  then show ?thesis by (simp add: stream_label_def provider_outcomes_def)
qed

text \<open>Every outcome the gateway itself reports is in its vocabulary: none is recorded as unknown.\<close>

lemma outcomes_keep_their_labels:
  "bounded_label (stage_action_value a) stage_actions = stage_action_value a"
  "bounded_label (execution_outcome_value oc) execution_outcomes = execution_outcome_value oc"
  "bounded_label (execution_outcome_value oc) served_outcomes = execution_outcome_value oc"
  "bounded_label (call_label resp) provider_outcomes = call_label resp"
  "bounded_label (stream_label es) provider_outcomes = stream_label es"
  "bounded_label (retry_verdict_value v) retry_verdicts = retry_verdict_value v"
  "bounded_label (routing_outcome_value ro) routing_outcomes = routing_outcome_value ro"
  "bounded_label (evaluation_outcome_value eo) evaluation_outcomes = evaluation_outcome_value eo"
  "bounded_label (outcome_value bo) reservation_outcomes = outcome_value bo"
  by (simp_all add: bounded_label_def stage_action_value_def stage_actions_def execution_outcome_value_def
      execution_outcomes_def served_outcomes_def call_label_def failure_label stream_label retry_verdict_value_def
      retry_verdicts_def routing_outcome_value_def routing_outcomes_def evaluation_outcome_value_def
      evaluation_outcomes_def outcome_value_def reservation_outcomes_def
      split: stage_action.split execution_outcome.split retry_verdict.split routing_outcome.split
        evaluation_outcome.split reservation_outcome.split)
     (simp add: provider_outcomes_def)

subsection \<open>The log\<close>

definition lower_text :: "string \<Rightarrow> string" where
  "lower_text s =
     map (\<lambda>c. let n = of_char c :: nat in
              if (65 \<le> n \<and> n \<le> 90) \<or> (192 \<le> n \<and> n \<le> 222 \<and> n \<noteq> 215) then char_of (n + 32) else c) s"

definition sensitive_keys :: "string list" where
  "sensitive_keys =
     [''authorization'', ''api_key'', ''apikey'', ''token'', ''access_token'', ''refresh_token'', ''secret'',
      ''password'', ''key_hash'', ''cookie'', ''set-cookie'']"

definition redact_sensitive :: "payload \<Rightarrow> payload" where
  "redact_sensitive event =
     map (\<lambda>(k, v). (k, if lower_text k \<in> set sensitive_keys then JStr ''[redacted]'' else v)) event"

definition log_levels :: "(string \<times> nat) list" where
  "log_levels = [(''debug'', 10), (''info'', 20), (''warning'', 30), (''error'', 40), (''critical'', 50)]"

definition min_level :: "string \<Rightarrow> nat" where
  "min_level level = (case map_of log_levels (lower_text level) of Some n \<Rightarrow> n | None \<Rightarrow> 20)"

text \<open>The fields of an event keep their names and order; a sensitive field's value never decides what is written,
  and the other values are untouched.\<close>

lemma redaction_hides:
  "map fst e = map fst e' \<Longrightarrow> (\<forall>(a, b)\<in>set (zip e e'). lower_text (fst a) \<notin> set sensitive_keys \<longrightarrow> a = b) \<Longrightarrow>
     redact_sensitive e = redact_sensitive e'"
proof (induction e arbitrary: e')
  case (Cons a e)
  then obtain b t where e': "e' = b # t" by (cases e') auto
  with Cons show ?case by (cases a; cases b) (auto simp: redact_sensitive_def)
qed (simp add: redact_sensitive_def)

lemma redaction_again: "redact_sensitive (redact_sensitive e) = redact_sensitive e"
  by (auto simp: redact_sensitive_def)

text \<open>Only the names of the top level count, and only when they are one of the list.\<close>

lemma secret_under_other_key_logged:
  "redact_sensitive [(''client_secret'', JStr s), (''headers'', JObj [(''Authorization'', JStr t)])] =
     [(''client_secret'', JStr s), (''headers'', JObj [(''Authorization'', JStr t)])]"
proof -
  have "lower_text ''client_secret'' \<notin> set sensitive_keys" "lower_text ''headers'' \<notin> set sensitive_keys"
    by code_simp+
  then show ?thesis by (simp add: redact_sensitive_def)
qed

end
