(* ===== verification/Unit_Of_Work.thy ===== *)
theory Unit_Of_Work imports Cache begin

text \<open>
  The unit of work (\<open>adapters/persistence/uow.py\<close>, \<open>adapters/persistence/rls.py\<close>): a database session opened for one
  tenant, the statement that binds the tenant to its transaction, and what leaving the block does on every
  path. The database toolkit's session is the argument \<open>ops\<close>; every call but opening may raise. A session
  is the number the factory gave it.
\<close>

type_synonym statement = "string \<times> (string \<times> string) list"

record 's session_ops =
  so_open :: "'s \<Rightarrow> nat \<times> 's"
  so_execute :: "nat \<Rightarrow> statement \<Rightarrow> 's \<Rightarrow> 's \<times> unit res"
  so_commit :: "nat \<Rightarrow> 's \<Rightarrow> 's \<times> unit res"
  so_rollback :: "nat \<Rightarrow> 's \<Rightarrow> 's \<times> unit res"
  so_close :: "nat \<Rightarrow> 's \<Rightarrow> 's \<times> unit res"

record unit_of_work =
  uw_tenant :: "uuid option"
  uw_rls :: bool
  uw_session :: "nat option"

definition new_unit :: "bool \<Rightarrow> uuid option \<Rightarrow> unit_of_work" where
  "new_unit rls tenant = \<lparr>uw_tenant = tenant, uw_rls = rls, uw_session = None\<rparr>"

definition tenant_scope_statement :: "uuid \<Rightarrow> statement" where
  "tenant_scope_statement tenant =
     (''SELECT set_config(:name, :org, true)'', [(''name'', ''app.current_org''), (''org'', uuid_text tenant)])"

definition bind_tenant :: "'s session_ops \<Rightarrow> nat \<Rightarrow> uuid \<Rightarrow> 's \<Rightarrow> 's \<times> unit res" where
  "bind_tenant ops session tenant = so_execute ops session (tenant_scope_statement tenant)"

definition session_of :: "unit_of_work \<Rightarrow> nat res" where
  "session_of u = (case uw_session u of None \<Rightarrow> Inl (RuntimeError) | Some n \<Rightarrow> Inr n)"

definition uow_enter :: "'s session_ops \<Rightarrow> unit_of_work \<Rightarrow> 's \<Rightarrow> (unit_of_work \<times> 's) \<times> unit res" where
  "uow_enter ops u s =
     (let (session, s1) = so_open ops s; u1 = u\<lparr>uw_session := Some session\<rparr> in
      case (if uw_rls u then uw_tenant u else None) of
        Some tenant \<Rightarrow> (case bind_tenant ops session tenant s1 of (s2, r) \<Rightarrow> ((u1, s2), r))
      | None \<Rightarrow> ((u1, s1), Inr ()))"

text \<open>Leaving: a rollback when the block raised, and the close in any case. An exception of the close replaces the
  rollback's, and keeps the session in the unit.\<close>

definition uow_exit :: "'s session_ops \<Rightarrow> unit_of_work \<Rightarrow> bool \<Rightarrow> 's \<Rightarrow> (unit_of_work \<times> 's) \<times> unit res" where
  "uow_exit ops u raised s =
     (case session_of u of
        Inl x \<Rightarrow> ((u, s), Inl x)
      | Inr session \<Rightarrow>
          (case (if raised then so_rollback ops session s else (s, Inr ())) of
             (s1, rolled) \<Rightarrow>
               (case so_close ops session s1 of
                  (s2, Inl x) \<Rightarrow> ((u, s2), Inl x)
                | (s2, Inr _) \<Rightarrow> ((u\<lparr>uw_session := None\<rparr>, s2), rolled))))"

definition uow_commit :: "'s session_ops \<Rightarrow> unit_of_work \<Rightarrow> 's \<Rightarrow> 's \<times> unit res" where
  "uow_commit ops u s = (case session_of u of Inl x \<Rightarrow> (s, Inl x) | Inr session \<Rightarrow> so_commit ops session s)"

definition uow_rollback :: "'s session_ops \<Rightarrow> unit_of_work \<Rightarrow> 's \<Rightarrow> 's \<times> unit res" where
  "uow_rollback ops u s = (case session_of u of Inl x \<Rightarrow> (s, Inl x) | Inr session \<Rightarrow> so_rollback ops session s)"

text \<open>\<open>async with uow:\<close> - the block is not run when entering raises, and nor is the exit; an exception of the exit
  replaces the block's.\<close>

definition with_unit ::
    "'s session_ops \<Rightarrow> unit_of_work \<Rightarrow> (unit_of_work \<Rightarrow> 's \<Rightarrow> 's \<times> 'a res) \<Rightarrow> 's \<Rightarrow> (unit_of_work \<times> 's) \<times> 'a res" where
  "with_unit ops u body s =
     (case uow_enter ops u s of
        ((u1, s1), Inl x) \<Rightarrow> ((u1, s1), Inl x)
      | ((u1, s1), Inr _) \<Rightarrow>
          (case body u1 s1 of
             (s2, r) \<Rightarrow>
               (case uow_exit ops u1 (isl r) s2 of
                  ((u3, s3), Inl x) \<Rightarrow> ((u3, s3), Inl x)
                | ((u3, s3), Inr _) \<Rightarrow> ((u3, s3), r))))"

text \<open>What the toolkit documents of a session: \<open>held\<close> counts the sessions that are open - the factory opens
  one, closing ends it - and only a commit changes what other transactions read.\<close>

definition session_laws :: "'s session_ops \<Rightarrow> ('s \<Rightarrow> nat) \<Rightarrow> ('s \<Rightarrow> 'd) \<Rightarrow> bool" where
  "session_laws ops held published \<longleftrightarrow>
     (\<forall>s. held (snd (so_open ops s)) = Suc (held s) \<and> published (snd (so_open ops s)) = published s) \<and>
     (\<forall>n q s. held (fst (so_execute ops n q s)) = held s \<and> published (fst (so_execute ops n q s)) = published s) \<and>
     (\<forall>n s. held (fst (so_commit ops n s)) = held s) \<and>
     (\<forall>n s. held (fst (so_rollback ops n s)) = held s \<and> published (fst (so_rollback ops n s)) = published s) \<and>
     (\<forall>n s. held (fst (so_close ops n s)) = held s - 1 \<and> published (fst (so_close ops n s)) = published s)"

lemma enter_effects:
  assumes "session_laws ops held published" "uow_enter ops u s = ((u1, s1), r)"
  shows "held s1 = Suc (held s)" "published s1 = published s" "\<exists>n. uw_session u1 = Some n"
    and "uw_rls u = False \<or> uw_tenant u = None \<Longrightarrow> r = Inr ()"
proof -
  obtain n s0 where o: "so_open ops s = (n, s0)" by (cases "so_open ops s")
  have e: "held t = held s0 \<and> published t = published s0" if "so_execute ops n q s0 = (t, x)" for q t x
    using assms(1) that unfolding session_laws_def by (metis fst_conv)
  have o': "held s0 = Suc (held s)" "published s0 = published s"
    using assms(1) o unfolding session_laws_def by (metis snd_conv)+
  show "held s1 = Suc (held s)" "published s1 = published s" "\<exists>n. uw_session u1 = Some n"
    "uw_rls u = False \<or> uw_tenant u = None \<Longrightarrow> r = Inr ()"
    using assms(2) o' by (auto simp: uow_enter_def o bind_tenant_def Let_def dest: e
        split: option.splits prod.splits if_splits)
qed

lemma exit_effects:
  assumes "session_laws ops held published" "uow_exit ops u raised s = ((u1, s1), r)" "uw_session u = Some n"
  shows "held s1 = held s - 1" "published s1 = published s"
proof -
  have c: "held (fst (so_close ops n t)) = held t - 1" "published (fst (so_close ops n t)) = published t"
    "held (fst (so_rollback ops n t)) = held t" "published (fst (so_rollback ops n t)) = published t" for t
    using assms(1) unfolding session_laws_def by blast+
  show "held s1 = held s - 1" "published s1 = published s"
    using assms(2) c by (auto simp: uow_exit_def session_of_def assms(3) split: prod.splits sum.splits if_splits)
      (metis fst_conv)+
qed


text \<open>The tenant is bound for the transaction, not for the unit: what a toolkit documents of a transaction-local
  setting is that a commit ends it. After the first commit the unit goes on with no tenant bound.\<close>

definition transaction_setting :: "'s session_ops \<Rightarrow> (nat \<Rightarrow> 's \<Rightarrow> string option) \<Rightarrow> bool" where
  "transaction_setting ops bound \<longleftrightarrow>
     (\<forall>n t s. snd (so_execute ops n (tenant_scope_statement t) s) = Inr () \<longrightarrow>
        bound n (fst (so_execute ops n (tenant_scope_statement t) s)) = Some (uuid_text t)) \<and>
     (\<forall>n s. snd (so_commit ops n s) = Inr () \<longrightarrow> bound n (fst (so_commit ops n s)) = None) \<and>
     (\<forall>n s. snd (so_rollback ops n s) = Inr () \<longrightarrow> bound n (fst (so_rollback ops n s)) = None)"

theorem tenant_bound_until_commit:
  assumes "transaction_setting ops bound" "uow_enter ops (new_unit True (Some tenant)) s = ((u1, s1), Inr ())"
    and "uow_commit ops u1 s2 = (s3, Inr ())"
  shows "\<exists>n. uw_session u1 = Some n \<and> bound n s1 = Some (uuid_text tenant) \<and> bound n s3 = None"
proof -
  obtain n s0 where o: "so_open ops s = (n, s0)" by (cases "so_open ops s")
  have u1: "uw_session u1 = Some n" and b: "so_execute ops n (tenant_scope_statement tenant) s0 = (s1, Inr ())"
    using assms(2) by (auto simp: uow_enter_def o bind_tenant_def new_unit_def Let_def split: prod.splits)
  moreover have "so_commit ops n s2 = (s3, Inr ())" using assms(3) u1 by (simp add: uow_commit_def session_of_def)
  ultimately show ?thesis using assms(1) unfolding transaction_setting_def by (metis fst_conv snd_conv)
qed

text \<open>A session toolkit: the open sessions with their transaction's tenant, the next number and the committed rows.
  A statement on the database \<open>down\<close> raises.\<close>

record toolkit =
  tk_open :: "(nat \<times> string option) list"
  tk_next :: nat
  tk_down :: bool
  tk_rows :: nat

definition sample_ops :: "toolkit session_ops" where
  "sample_ops =
     \<lparr>so_open = \<lambda>s. (tk_next s, s\<lparr>tk_open := (tk_next s, None) # tk_open s, tk_next := Suc (tk_next s)\<rparr>),
      so_execute = \<lambda>n q s.
        if tk_down s then (s, Inl (OtherException ''DBAPIError''))
        else (s\<lparr>tk_open := map (\<lambda>(m, b). if m = n then (m, map_of (snd q) ''org'') else (m, b)) (tk_open s)\<rparr>, Inr ()),
      so_commit = \<lambda>n s. (s\<lparr>tk_open := map (\<lambda>(m, b). if m = n then (m, None) else (m, b)) (tk_open s),
         tk_rows := Suc (tk_rows s)\<rparr>, Inr ()),
      so_rollback = \<lambda>n s. (s\<lparr>tk_open := map (\<lambda>(m, b). if m = n then (m, None) else (m, b)) (tk_open s)\<rparr>, Inr ()),
      so_close = \<lambda>n s. (s\<lparr>tk_open := tl (tk_open s)\<rparr>, Inr ())\<rparr>"

lemma sample_laws: "session_laws sample_ops (\<lambda>s. length (tk_open s)) tk_rows"
  by (simp add: session_laws_def sample_ops_def)

definition sample_toolkit :: "bool \<Rightarrow> toolkit" where
  "sample_toolkit down = \<lparr>tk_open = [], tk_next = 0, tk_down = down, tk_rows = 5\<rparr>"


definition sample_setting :: "(nat \<Rightarrow> string option) session_ops" where
  "sample_setting =
     \<lparr>so_open = \<lambda>s. (0, s(0 := None)), so_execute = \<lambda>n q s. (s(n := map_of (snd q) ''org''), Inr ()),
      so_commit = \<lambda>n s. (s(n := None), Inr ()), so_rollback = \<lambda>n s. (s(n := None), Inr ()),
      so_close = \<lambda>n s. (s, Inr ())\<rparr>"

theorem tenant_bound_until_commit_witness:
  "\<exists>n. uw_session (fst (fst (uow_enter sample_setting (new_unit True (Some 7)) Map.empty))) = Some n \<and>
     snd (fst (uow_enter sample_setting (new_unit True (Some 7)) Map.empty)) n = Some (uuid_text 7) \<and>
     fst (so_commit sample_setting 0 (\<lambda>m. Some ''open'')) n = None"
proof -
  have laws: "transaction_setting sample_setting (\<lambda>n s. s n)"
    by (simp add: transaction_setting_def sample_setting_def tenant_scope_statement_def)
  have enter: "uow_enter sample_setting (new_unit True (Some 7)) Map.empty =
      ((\<lparr>uw_tenant = Some 7, uw_rls = True, uw_session = Some 0\<rparr>, [0 \<mapsto> uuid_text 7]), Inr ())"
    by (simp add: uow_enter_def sample_setting_def new_unit_def bind_tenant_def tenant_scope_statement_def)
  have commit: "uow_commit sample_setting \<lparr>uw_tenant = Some 7, uw_rls = True, uw_session = Some 0\<rparr> (\<lambda>m. Some ''open'') =
      (fst (so_commit sample_setting 0 (\<lambda>m. Some ''open'')), Inr ())"
    by (simp add: uow_commit_def session_of_def sample_setting_def)
  show ?thesis using tenant_bound_until_commit [OF laws enter commit] by (simp add: enter)
qed

end
