(* ===== verification/Spec2Isabelle.thy ===== *)
theory Spec2Isabelle
  imports Memory_Ledger Deduplication Audit_Log Oidc Inference_Api Startup Tools Migrations Observability Unit_Of_Work
begin

text \<open>
  A verification library of the enterprise LLM gateway. The program is the Python package
  \<open>src/backend/src/gateway\<close>; paths below are relative to it. This theory imports every other one.

  \<^bold>\<open>The program.\<close>

  A request of a tenant passes the HTTP middleware (request id, body cap, authentication, rate limit) and reaches
  \<open>POST /v1/inference\<close>. The inference service admits it: the pipeline runs the authorization, policy and
  routing stages, and routing asks five agents over the provider catalogue and the circuit breaker. An
  admitted request is executed: the response cache is consulted, the budget ledger holds the estimated cost,
  the provider is called, and the hold is settled at the actual cost or released. Retries re-enter the
  execution under derived correlation ids; a streamed request holds first and settles or releases when the
  stream ends. Beside the request path stand the credentials (API keys, service accounts, access and refresh
  tokens, federated login), the audit log, the tools, the configuration that wires all of it, what the
  process reports of itself, and the splitter its migrations run through.

  \<^bold>\<open>How the code is modelled.\<close>

  A dataclass is a record, a \<open>StrEnum\<close> a datatype with its \<open>value\<close> as a function. A method is a function from
  its arguments and the state it can reach to the new state and its result; a raise is the left side of
  \<open>exn + 'a\<close>, and every \<open>except\<close> clause that turns one into another outcome is a branch. Concurrent steps are
  relations: the coalescing of requests, and the ledger's histories as sequences of transactions. Identifiers
  are natural numbers, instants and durations whole microseconds, Python's integers unbounded, \<open>Decimal\<close> the
  28-digit decimal arithmetic of the default context, \<open>float\<close> binary64 with its rounding. Strings are lists of
  8-bit characters, so text beyond Latin-1 is outside the model. A database table is a list of rows with the
  constraints of its migration; a transaction is one function; row-level security is a filter by the bound
  tenant. Where a connection can be lost, the moment - before or after the commit - is part of the state or
  an argument.

  \<^bold>\<open>The theories, in the order of the layers.\<close>

  \<^item> \<open>Prelude\<close>, \<open>Json_Value\<close>, \<open>Floating\<close>, \<open>Encodings\<close>: exceptions, rows and sums; JSON values and their two
    renderings; binary64; the text conversions of the standard library, with their inverse laws.
  \<^item> \<open>Money\<close>, \<open>Pricing\<close>: \<open>application/ports/money.py\<close>, the values of a provider call, the cost accountant and the
    estimator (\<open>application/accounting\<close>), and the two price sources (\<open>adapters/pricing\<close>).
  \<^item> \<open>Ledger_Port\<close>, \<open>Sql_Ledger\<close>, \<open>Sql_Ledger_Inv\<close>, \<open>Sql_Ledger_Props\<close>, \<open>Sql_Ledger_History\<close>, \<open>Memory_Ledger\<close>: the
    ledger port and its locale \<open>budget_ledger\<close>; \<open>adapters/ledger/sql_budget_ledger.py\<close> operation by operation;
    its accounting invariant; the interpretation of the port; the properties of every history of calls
    under every connection fault (accounts balance, a settled reservation is billed once, the budget is
    never overspent, tenants do not meet); the in-memory ledger, its own interpretation, and its
    simulation of the SQL one.
  \<^item> \<open>Reservation\<close>: the reservation service and the reconciler of \<open>application/accounting\<close>, over any ledger.
  \<^item> \<open>Circuit\<close>, \<open>Routing\<close>: the circuit breaker (with the equivalence to a count of consecutive failures); the
    decision record, agents, catalogues and routing engine; the locale \<open>stable_catalog\<close>.
  \<^item> \<open>Cache\<close>: the key, the port as the locale \<open>response_cache\<close> and both stores.
  \<^item> \<open>Execution\<close>, \<open>Execution_Props\<close>, \<open>Deduplication\<close>, \<open>Reflection\<close>, \<open>Streaming\<close>, \<open>Evaluation\<close>: the coordinator, the
    locale \<open>inference_execution\<close> with its instance on PostgreSQL, the coalescing of equal requests, the
    bounded retry, the streamed execution and the evaluators. Their lemmas show that a provider is called only
    behind a hold, that no terminal path keeps one, and name the faults that strand one.
  \<^item> \<open>Admission\<close>, \<open>Serving\<close>, \<open>Inference_Api\<close>: pipeline, stages, authorization and policy; the inference service;
    the endpoint with its error model and the framing of streams, and the composition of the whole edge.
  \<^item> \<open>Auth_Domain\<close>, \<open>Credentials\<close>, \<open>Sessions\<close>, \<open>Oidc\<close>, \<open>Audit_Log\<close>: the domain values; API keys, service accounts and
    access tokens with rotating keys; refresh tokens and their families; federated login; the
    hash-chained audit log with a verifier specified beside it.
  \<^item> \<open>Rate_Limit\<close>, \<open>Http\<close>, \<open>Health\<close>: the token buckets, the fallback between them and the locales \<open>rate_limiter\<close> and
    \<open>fallback\<close>; the middleware and its order; the health registry and the operational routes.
  \<^item> \<open>Providers\<close>, \<open>Tools\<close>, \<open>Startup\<close>: the provider clients, unary and streamed; the tool registry and the MCP
    provisioner; settings, secrets and the choices of the composition root.
  \<^item> \<open>Unit_Of_Work\<close>, \<open>Migrations\<close>, \<open>Observability\<close>: the database session of a tenant; \<open>migrations/sql_script.py\<close> (beside
    the package, under \<open>src/backend\<close>), whose scanner is proved against the position of the first top-level
    semicolon; the metrics' vocabularies and the log's redaction.

  \<^bold>\<open>Parameters and what is assumed of them.\<close>

  Code outside the repository is an argument: SHA-256 and HMAC, the JWT library and RSA, random tokens and fresh
  ids, the clock, the provider's replies, the HTTP client, the database session, the Redis server's answers, the
  metrics library, the framework's reading of JSON bytes. Each hypothesis about one is stated in the theorem
  that needs it: injectivity of the digest where collisions would matter, that a verified token was signed, that
  the session factory opens one session and a close ends it, that a metric's mutation creates no series
  but its own. Each such theorem is applied to a concrete instance beside it.

  \<^bold>\<open>Termination.\<close>

  Nothing runs on fuel. Every loop of the code is a terminating recursion: the retry loop descends on the attempts its
  policy leaves, the relay of a stream on the events that remain, the scanner of a migration on twice the text
  left plus one for a closing tag that is empty, the decoders on their input. A loop that waits for a peer
  (a request body that never ends) is a value of its own, \<open>Waiting\<close> in \<open>Http\<close>.

  \<^bold>\<open>Findings.\<close>

  Theorems that show the code doing other than its documentation says stand beside the component: among them
  that a hold taken anew keeps the age of the first one (\<open>Sql_Ledger_History\<close>), that a stream nobody starts keeps
  its hold (\<open>Streaming\<close>), that two concurrent refreshes fork a session (\<open>Sessions\<close>), that a reused key id shadows
  the new key (\<open>Credentials\<close>), that key refreshes are not throttled before the first success (\<open>Oidc\<close>), that the
  newest tool version is the greatest text (\<open>Tools\<close>), that a migration's statement can be taken for a comment
  (\<open>Migrations\<close>) and that a session is left open when its tenant cannot be bound (\<open>Unit_Of_Work\<close>).

  \<^bold>\<open>Not modelled.\<close>

  \<^item> Process start, engine and Redis client construction (\<open>config/bootstrap.py\<close>, \<open>adapters/persistence/engine.py\<close>,
    \<open>adapters/ratelimit/client.py\<close>), and the parts of \<open>Container.build\<close> that only pass objects on: library
    calls with fixed arguments and no decision.
  \<^item> The configuration of the logging library, the context variables of a request and the log lines themselves, and
    where on the request path a metric is recorded: output that no result depends on. What can be recorded
    is modelled.
  \<^item> \<open>adapters/persistence/tables.py\<close> and the migrations' DDL: declarations PostgreSQL executes. The constraints the
    code relies on are part of the tables' models.
  \<^item> The scheduling inside the database: row and advisory locks are taken to serialize the transactions that take
    them. Cancellation of a task while the ledger or the cache is awaited.
  \<^item> \<open>src/scripts\<close>: development-time linters over Python's syntax trees, and the tests.
\<close>

end
